(* ===== verification/Prelude.thy ===== *)
theory Prelude
  imports Main "HOL-Library.Word"
begin

text \<open>
  Shared vocabulary of the development: Rust's text, integers, results and state machines as
  the components use them.

  \<^item> A Rust \<open>String\<close>/\<open>&str\<close> is a \<open>string\<close> whose characters are its UTF-8 bytes, so \<open>length\<close> is
    Rust's \<open>len()\<close>. Predicates that Rust states over \<open>char\<close>s are stated over the byte patterns
    that encode those characters.
  \<^item> Raw byte buffers (\<open>Vec<u8>\<close>, \<open>[u8; N]\<close>) are \<open>u8 list\<close> with \<open>u8 = 8 word\<close>.
  \<^item> \<open>Result<T, E>\<close> is \<open>'e + 'a\<close>; the \<open>?\<close> operator is \<open>then_ok\<close>.
  \<^item> The locales at the end are the interfaces that several components share: a state machine
    with an invariant, and a message codec.
\<close>

named_theorems result_simps \<open>inversion rules for results and the question-mark operator\<close>
named_theorems text_simps \<open>facts about byte strings, digits and separators\<close>

type_synonym u8 = "8 word"
type_synonym u16 = "16 word"
type_synonym u32 = "32 word"
type_synonym u64 = "64 word"

section \<open>Results\<close>

text \<open>Rust's \<open>?\<close>: stop with the error, or continue with the value.\<close>

definition then_ok :: "'e + 'a \<Rightarrow> ('a \<Rightarrow> 'e + 'b) \<Rightarrow> 'e + 'b" where
  "then_ok r f = (case r of Inl e \<Rightarrow> Inl e | Inr x \<Rightarrow> f x)"

lemma then_ok_Inr [simp]: "then_ok (Inr x) f = f x"
  by (simp add: then_ok_def)

lemma then_ok_Inl [simp]: "then_ok (Inl e) f = Inl e"
  by (simp add: then_ok_def)

lemma then_ok_eq_Inr [result_simps]:
  "then_ok r f = Inr y \<longleftrightarrow> (\<exists>x. r = Inr x \<and> f x = Inr y)"
  by (cases r) auto

lemma then_ok_eq_Inl [result_simps]:
  "then_ok r f = Inl e \<longleftrightarrow> r = Inl e \<or> (\<exists>x. r = Inr x \<and> f x = Inl e)"
  by (cases r) auto

text \<open>\<open>ok_or\<close>, \<open>map_err\<close> and the success test.\<close>

definition ok_or :: "'e \<Rightarrow> 'a option \<Rightarrow> 'e + 'a" where
  "ok_or e x = (case x of None \<Rightarrow> Inl e | Some v \<Rightarrow> Inr v)"

lemma ok_or_simps [simp]: "ok_or e None = Inl e" "ok_or e (Some v) = Inr v"
  by (simp_all add: ok_or_def)

lemma ok_or_eq_Inr [result_simps]: "ok_or e x = Inr v \<longleftrightarrow> x = Some v"
  by (cases x) auto

lemma ok_or_eq_Inl [result_simps]: "ok_or e x = Inl d \<longleftrightarrow> x = None \<and> d = e"
  by (cases x) auto

definition map_err :: "('d \<Rightarrow> 'e) \<Rightarrow> 'd + 'a \<Rightarrow> 'e + 'a" where
  "map_err f r = (case r of Inl d \<Rightarrow> Inl (f d) | Inr x \<Rightarrow> Inr x)"

lemma map_err_simps [simp]: "map_err f (Inl d) = Inl (f d)" "map_err f (Inr x) = Inr x"
  by (simp_all add: map_err_def)

lemma map_err_eq_Inr [result_simps]: "map_err f r = Inr x \<longleftrightarrow> r = Inr x"
  by (cases r) auto

definition is_ok :: "'e + 'a \<Rightarrow> bool" where
  "is_ok r = (case r of Inl _ \<Rightarrow> False | Inr _ \<Rightarrow> True)"

lemma is_ok_simps [simp]: "is_ok (Inr x)" "\<not> is_ok (Inl e)"
  by (simp_all add: is_ok_def)

lemma is_ok_iff [result_simps]: "is_ok r \<longleftrightarrow> (\<exists>x. r = Inr x)"
  by (cases r) auto

text \<open>A check that bails out with \<open>e\<close> when \<open>bad\<close> holds (\<open>if bad { bail!(e) }\<close>).\<close>

definition bail_if :: "bool \<Rightarrow> 'e \<Rightarrow> 'e + unit" where
  "bail_if bad e = (if bad then Inl e else Inr ())"

lemma bail_if_eq_Inr [simp]: "bail_if bad e = Inr u \<longleftrightarrow> \<not> bad"
  by (simp add: bail_if_def)

lemma bail_if_eq_Inl [simp]: "bail_if bad e = Inl d \<longleftrightarrow> bad \<and> d = e"
  by (auto simp: bail_if_def)

lemma bail_if_simps [simp]: "bail_if False e = Inr ()" "bail_if True e = Inl e"
  by (simp_all add: bail_if_def)

text \<open>The checks of a list in order, stopping at the first error (\<open>for x in xs { f(x)?; }\<close>).\<close>

fun each_ok :: "('a \<Rightarrow> 'e + unit) \<Rightarrow> 'a list \<Rightarrow> 'e + unit" where
  "each_ok f [] = Inr ()"
| "each_ok f (x # xs) = then_ok (f x) (\<lambda>_. each_ok f xs)"

lemma each_ok_Inr [simp]: "each_ok f xs = Inr u \<longleftrightarrow> (\<forall>x \<in> set xs. f x = Inr ())"
  by (induction xs) (auto simp: then_ok_eq_Inr)

section \<open>Bytes and text\<close>

abbreviation byte :: "char \<Rightarrow> nat" where
  "byte c \<equiv> of_char c"

definition is_ascii :: "char \<Rightarrow> bool" where
  "is_ascii c \<longleftrightarrow> byte c < 128"

definition ascii_digit :: "char \<Rightarrow> bool" where
  "ascii_digit c \<longleftrightarrow> 48 \<le> byte c \<and> byte c \<le> 57"

definition ascii_lower :: "char \<Rightarrow> bool" where
  "ascii_lower c \<longleftrightarrow> 97 \<le> byte c \<and> byte c \<le> 122"

definition ascii_upper :: "char \<Rightarrow> bool" where
  "ascii_upper c \<longleftrightarrow> 65 \<le> byte c \<and> byte c \<le> 90"

definition ascii_alphanumeric :: "char \<Rightarrow> bool" where
  "ascii_alphanumeric c \<longleftrightarrow> ascii_digit c \<or> ascii_lower c \<or> ascii_upper c"

definition ascii_hexdigit :: "char \<Rightarrow> bool" where
  "ascii_hexdigit c \<longleftrightarrow>
     ascii_digit c \<or> (97 \<le> byte c \<and> byte c \<le> 102) \<or> (65 \<le> byte c \<and> byte c \<le> 70)"

definition lower_hexdigit :: "char \<Rightarrow> bool" where
  "lower_hexdigit c \<longleftrightarrow> ascii_digit c \<or> (97 \<le> byte c \<and> byte c \<le> 102)"

definition ascii_control :: "char \<Rightarrow> bool" where
  "ascii_control c \<longleftrightarrow> byte c < 32 \<or> byte c = 127"

text \<open>\<open>u8::is_ascii_whitespace\<close>: tab, line feed, form feed, carriage return and space.\<close>

definition ascii_whitespace :: "char \<Rightarrow> bool" where
  "ascii_whitespace c \<longleftrightarrow> byte c \<in> {9, 10, 12, 13, 32}"

definition to_ascii_lowercase :: "char \<Rightarrow> char" where
  "to_ascii_lowercase c = (if ascii_upper c then char_of (byte c + 32) else c)"

definition eq_ignore_ascii_case :: "string \<Rightarrow> string \<Rightarrow> bool" where
  "eq_ignore_ascii_case a b \<longleftrightarrow> map to_ascii_lowercase a = map to_ascii_lowercase b"

text \<open>
  \<open>s.chars().any(char::is_control)\<close>: the category Cc is U+0000 to U+001F, U+007F and U+0080 to
  U+009F. In UTF-8 the last block is the byte \<open>0xC2\<close> followed by \<open>0x80\<close> to \<open>0x9F\<close>, and \<open>0xC2\<close>
  is never a continuation byte.
\<close>

fun has_control :: "string \<Rightarrow> bool" where
  "has_control [] = False"
| "has_control (c # cs) =
     (ascii_control c \<or>
      (byte c = 194 \<and> (case cs of [] \<Rightarrow> False | d # _ \<Rightarrow> 128 \<le> byte d \<and> byte d \<le> 159)) \<or>
      has_control cs)"

subsection \<open>Separators\<close>

text \<open>\<open>s.split(c)\<close>: always at least one field.\<close>

fun split_on :: "'a \<Rightarrow> 'a list \<Rightarrow> 'a list list" where
  "split_on c [] = [[]]"
| "split_on c (x # xs) =
     (if x = c then [] # split_on c xs
      else (case split_on c xs of [] \<Rightarrow> [[x]] | f # fs \<Rightarrow> (x # f) # fs))"

text \<open>\<open>s.split_once(c)\<close>: around the first occurrence.\<close>

fun split_once :: "'a \<Rightarrow> 'a list \<Rightarrow> ('a list \<times> 'a list) option" where
  "split_once c [] = None"
| "split_once c (x # xs) =
     (if x = c then Some ([], xs)
      else map_option (\<lambda>(a, b). (x # a, b)) (split_once c xs))"

text \<open>\<open>s.strip_prefix(p)\<close>.\<close>

fun strip_prefix :: "'a list \<Rightarrow> 'a list \<Rightarrow> 'a list option" where
  "strip_prefix [] s = Some s"
| "strip_prefix (p # ps) [] = None"
| "strip_prefix (p # ps) (x # xs) = (if p = x then strip_prefix ps xs else None)"

text \<open>\<open>s.starts_with(p)\<close> and \<open>s.contains(p)\<close>.\<close>

definition starts_with :: "'a list \<Rightarrow> 'a list \<Rightarrow> bool" where
  "starts_with s p \<longleftrightarrow> take (length p) s = p"

fun contains_str :: "'a list \<Rightarrow> 'a list \<Rightarrow> bool" where
  "contains_str [] p \<longleftrightarrow> p = []"
| "contains_str (x # xs) p \<longleftrightarrow> starts_with (x # xs) p \<or> contains_str xs p"

text \<open>\<open>fields.join(sep)\<close>.\<close>

fun join_with :: "'a list \<Rightarrow> 'a list list \<Rightarrow> 'a list" where
  "join_with sep [] = []"
| "join_with sep [f] = f"
| "join_with sep (f # g # fs) = f @ sep @ join_with sep (g # fs)"

lemma split_on_not_Nil [simp]: "split_on c s \<noteq> []"
  by (cases s) (auto split: list.splits)

lemma join_split_on [text_simps]: "join_with [c] (split_on c s) = s"
proof (induction s)
  case (Cons x xs)
  then show ?case
    by (cases "split_on c xs" rule: list.exhaust)
      (auto split: list.splits, metis append_Cons join_with.simps(2,3) list.exhaust)
qed simp

lemma split_on_none [text_simps]: "c \<notin> set s \<Longrightarrow> split_on c s = [s]"
  by (induction s) auto

lemma split_on_append [text_simps]:
  "c \<notin> set s \<Longrightarrow> split_on c (s @ c # t) = s # split_on c t"
  by (induction s) auto

lemma split_once_append [text_simps]: "c \<notin> set s \<Longrightarrow> split_once c (s @ c # t) = Some (s, t)"
  by (induction s) auto

lemma split_once_Some [text_simps]:
  "split_once c s = Some (a, b) \<longleftrightarrow> s = a @ c # b \<and> c \<notin> set a"
  by (induction s arbitrary: a b) (auto simp: Cons_eq_append_conv)

lemma split_once_None [text_simps]: "split_once c s = None \<longleftrightarrow> c \<notin> set s"
  by (induction s) auto

lemma strip_prefix_Some [text_simps]: "strip_prefix p s = Some t \<longleftrightarrow> s = p @ t"
  by (induction p s rule: strip_prefix.induct) auto

lemma strip_prefix_append [simp]: "strip_prefix p (p @ t) = Some t"
  by (simp add: strip_prefix_Some)

section \<open>Integers as text\<close>

text \<open>
  \<open>char::to_digit(radix)\<close>, \<open>from_str_radix\<close> and \<open>str::parse\<close> of the unsigned types: an empty
  text or a lone sign is refused, one leading \<open>+\<close> is accepted, every other character must be a
  digit of the radix, and a value of \<open>lim\<close> or more is an overflow.
\<close>

definition to_digit :: "nat \<Rightarrow> char \<Rightarrow> nat option" where
  "to_digit r c =
     (let b = byte c;
          d = (if 48 \<le> b \<and> b \<le> 57 then b - 48
               else if 97 \<le> b \<and> b \<le> 122 then b - 87
               else if 65 \<le> b \<and> b \<le> 90 then b - 55
               else r)
      in if d < r then Some d else None)"

fun parse_digits :: "nat \<Rightarrow> nat \<Rightarrow> nat \<Rightarrow> string \<Rightarrow> nat option" where
  "parse_digits r lim acc [] = Some acc"
| "parse_digits r lim acc (c # cs) =
     (case to_digit r c of
        None \<Rightarrow> None
      | Some d \<Rightarrow> if acc * r + d < lim then parse_digits r lim (acc * r + d) cs else None)"

definition from_str_radix :: "nat \<Rightarrow> nat \<Rightarrow> string \<Rightarrow> nat option" where
  "from_str_radix r lim s =
     (case s of
        [] \<Rightarrow> None
      | c # t \<Rightarrow>
          if byte c = 43 \<or> byte c = 45 then
            (if t = [] then None
             else if byte c = 43 then parse_digits r lim 0 t
             else parse_digits r lim 0 s)
          else parse_digits r lim 0 s)"

text \<open>\<open>s.parse::<u16>()\<close>, \<open>::<u32>()\<close>, \<open>::<u64>()\<close> and \<open>::<usize>()\<close> (64-bit).\<close>

definition parse_u32 :: "string \<Rightarrow> nat option" where
  "parse_u32 s = from_str_radix 10 (2 ^ 32) s"

definition parse_u64 :: "string \<Rightarrow> nat option" where
  "parse_u64 s = from_str_radix 10 (2 ^ 64) s"

text \<open>The display of an unsigned integer in a radix up to 16, with lower-case digits.\<close>

definition digit_char :: "nat \<Rightarrow> char" where
  "digit_char d = char_of (if d < 10 then 48 + d else 87 + d)"

fun show_radix :: "nat \<Rightarrow> nat \<Rightarrow> string" where
  "show_radix r n =
     (if r < 2 \<or> n < r then [digit_char n]
      else show_radix r (n div r) @ [digit_char (n mod r)])"

declare show_radix.simps [simp del]

definition show_dec :: "nat \<Rightarrow> string" where
  "show_dec n = show_radix 10 n"

text \<open>\<open>{:0w}\<close>: zero padding on the left up to a width.\<close>

definition pad_zero :: "nat \<Rightarrow> string \<Rightarrow> string" where
  "pad_zero w s = replicate (w - length s) (CHR ''0'') @ s"

lemma byte_digit_char:
  "d < 16 \<Longrightarrow> byte (digit_char d) = (if d < 10 then 48 + d else 87 + d)"
  by (simp add: digit_char_def)

lemma to_digit_digit_char [text_simps]: "d < r \<Longrightarrow> r \<le> 16 \<Longrightarrow> to_digit r (digit_char d) = Some d"
  by (simp add: to_digit_def byte_digit_char)

lemma lower_hexdigit_digit_char: "d < 16 \<Longrightarrow> lower_hexdigit (digit_char d)"
  by (simp add: lower_hexdigit_def ascii_digit_def byte_digit_char)

lemma show_radix_not_Nil [simp]: "show_radix r n \<noteq> []"
  by (subst show_radix.simps) simp

lemma show_radix_digits:
  "2 \<le> r \<Longrightarrow> c \<in> set (show_radix r n) \<Longrightarrow> \<exists>d < r. c = digit_char d"
proof (induction r n rule: show_radix.induct)
  case (1 r n)
  show ?case
  proof (cases "n < r")
    case True
    with 1 show ?thesis
      by (subst (asm) show_radix.simps) auto
  next
    case False
    with 1 show ?thesis
      by (subst (asm) show_radix.simps) (auto intro: exI [of _ "n mod r"])
  qed
qed

lemma parse_show_radix_append:
  "2 \<le> r \<Longrightarrow> r \<le> 16 \<Longrightarrow> n < lim \<Longrightarrow>
   parse_digits r lim 0 (show_radix r n @ cs) = parse_digits r lim n cs"
proof (induction r n arbitrary: cs rule: show_radix.induct)
  case (1 r n)
  show ?case
  proof (cases "n < r")
    case True
    with "1.prems" show ?thesis
      by (subst show_radix.simps) (simp add: to_digit_digit_char)
  next
    case False
    have "n div r < lim"
      using "1.prems"(3) div_le_dividend le_less_trans by blast
    with False "1.prems" have
      "parse_digits r lim 0 (show_radix r (n div r) @ digit_char (n mod r) # cs) =
       parse_digits r lim (n div r) (digit_char (n mod r) # cs)"
      by (intro "1.IH") auto
    also have "\<dots> = parse_digits r lim n cs"
      using "1.prems" by (simp add: to_digit_digit_char)
    finally show ?thesis
      using False "1.prems"(1) by (subst show_radix.simps) simp
  qed
qed

lemma parse_zeros:
  "2 \<le> r \<Longrightarrow> 0 < lim \<Longrightarrow>
   parse_digits r lim 0 (replicate k (CHR ''0'') @ cs) = parse_digits r lim 0 cs"
  by (induction k) (auto simp: to_digit_def)

lemma from_str_radix_no_sign:
  "s \<noteq> [] \<Longrightarrow> byte (hd s) \<noteq> 43 \<Longrightarrow> byte (hd s) \<noteq> 45 \<Longrightarrow>
   from_str_radix r lim s = parse_digits r lim 0 s"
  by (cases s) (auto simp: from_str_radix_def)

lemma hd_show_radix_not_sign:
  assumes "2 \<le> r" and "r \<le> 16"
  shows "48 \<le> byte (hd (show_radix r n))"
proof -
  have "hd (show_radix r n) \<in> set (show_radix r n)"
    by simp
  with assms obtain d where "d < r" "hd (show_radix r n) = digit_char d"
    using show_radix_digits by blast
  with assms show ?thesis
    by (simp add: byte_digit_char)
qed

text \<open>Printing and then parsing gives the number back, with or without zero padding.\<close>

lemma from_str_radix_show [text_simps]:
  assumes "2 \<le> r" and "r \<le> 16" and "n < lim"
  shows "from_str_radix r lim (show_radix r n) = Some n"
proof -
  have "48 \<le> byte (hd (show_radix r n))"
    using assms by (intro hd_show_radix_not_sign)
  then have "from_str_radix r lim (show_radix r n) = parse_digits r lim 0 (show_radix r n @ [])"
    by (simp add: from_str_radix_no_sign)
  also have "\<dots> = Some n"
    using assms parse_show_radix_append [of r n lim "[]"] by simp
  finally show ?thesis .
qed

lemma from_str_radix_pad_show [text_simps]:
  assumes "2 \<le> r" and "r \<le> 16" and "n < lim"
  shows "from_str_radix r lim (pad_zero w (show_radix r n)) = Some n"
proof (cases "w - length (show_radix r n)")
  case 0
  then show ?thesis
    using assms by (simp add: pad_zero_def from_str_radix_show)
next
  case (Suc k)
  have "from_str_radix r lim (pad_zero w (show_radix r n)) =
        parse_digits r lim 0 (pad_zero w (show_radix r n))"
    using Suc by (intro from_str_radix_no_sign) (simp_all add: pad_zero_def)
  also have "\<dots> = parse_digits r lim 0 (show_radix r n)"
    using assms by (simp add: pad_zero_def parse_zeros del: replicate.simps)
  also have "\<dots> = Some n"
    using assms parse_show_radix_append [of r n lim "[]"] by simp
  finally show ?thesis .
qed

lemma show_dec_digits: "c \<in> set (show_dec n) \<Longrightarrow> ascii_digit c"
  using show_radix_digits [of 10 c n]
  by (auto simp: show_dec_def ascii_digit_def byte_digit_char)

lemma show_dec_not_Nil [simp]: "show_dec n \<noteq> []"
  by (simp add: show_dec_def)

lemma parse_u32_show [text_simps]: "n < 2 ^ 32 \<Longrightarrow> parse_u32 (show_dec n) = Some n"
  by (simp add: parse_u32_def show_dec_def from_str_radix_show)

lemma parse_u64_show [text_simps]: "n < 2 ^ 64 \<Longrightarrow> parse_u64 (show_dec n) = Some n"
  by (simp add: parse_u64_def show_dec_def from_str_radix_show)

lemma length_show_radix_le:
  "2 \<le> r \<Longrightarrow> 0 < k \<Longrightarrow> n < r ^ k \<Longrightarrow> length (show_radix r n) \<le> k"
proof (induction k arbitrary: n)
  case (Suc k)
  show ?case
  proof (cases "n < r")
    case True
    then show ?thesis
      by (subst show_radix.simps) simp
  next
    case False
    have "n div r < r ^ k"
      using Suc.prems by (simp add: less_mult_imp_div_less mult.commute)
    moreover have "0 < k"
      using False Suc.prems by (cases k) auto
    ultimately have "length (show_radix r (n div r)) \<le> k"
      using Suc by blast
    then show ?thesis
      using False by (subst show_radix.simps) simp
  qed
qed simp

lemma length_pad_zero: "length s \<le> w \<Longrightarrow> length (pad_zero w s) = w"
  by (simp add: pad_zero_def)

lemma parse_digits_bound: "parse_digits r lim acc s = Some n \<Longrightarrow> acc < lim \<Longrightarrow> n < lim"
  by (induction r lim acc s rule: parse_digits.induct) (auto split: option.splits if_splits)

lemma from_str_radix_bound: "from_str_radix r lim s = Some n \<Longrightarrow> 0 < lim \<Longrightarrow> n < lim"
  by (auto simp: from_str_radix_def simp del: parse_digits.simps
      split: list.splits if_splits dest: parse_digits_bound)

section \<open>Saturating and wrapping integers\<close>

text \<open>
  \<open>usize\<close> and \<open>u64\<close> values that the code only saturates are naturals with the bound written out;
  \<open>i32\<close> values are integers, \<open>saturating_*\<close> clamps and the plain operators wrap.
\<close>

definition sat_add64 :: "nat \<Rightarrow> nat \<Rightarrow> nat" where
  "sat_add64 a b = min (a + b) (2 ^ 64 - 1)"

definition sat_mul64 :: "nat \<Rightarrow> nat \<Rightarrow> nat" where
  "sat_mul64 a b = min (a * b) (2 ^ 64 - 1)"

definition i32_min :: int where "i32_min = - (2 ^ 31)"
definition i32_max :: int where "i32_max = 2 ^ 31 - 1"

definition sat_i32 :: "int \<Rightarrow> int" where
  "sat_i32 x = max i32_min (min i32_max x)"

definition wrap_i32 :: "int \<Rightarrow> int" where
  "wrap_i32 x = (x + 2 ^ 31) mod 2 ^ 32 - 2 ^ 31"

definition in_i32 :: "int \<Rightarrow> bool" where
  "in_i32 x \<longleftrightarrow> i32_min \<le> x \<and> x \<le> i32_max"

lemma sat_i32_id [simp]: "in_i32 x \<Longrightarrow> sat_i32 x = x"
  by (simp add: sat_i32_def in_i32_def)

lemma wrap_i32_id [simp]: "in_i32 x \<Longrightarrow> wrap_i32 x = x"
  by (simp add: wrap_i32_def in_i32_def i32_min_def i32_max_def)

lemma in_i32_sat [simp]: "in_i32 (sat_i32 x)"
  by (simp add: sat_i32_def in_i32_def i32_min_def i32_max_def)

section \<open>Paths\<close>

text \<open>
  \<open>std::path::Path\<close> up to its own equality: whether it is absolute, and its components. Repeated
  and trailing slashes and \<open>.\<close> components vanish, a leading \<open>.\<close> of a relative path stays.
\<close>

datatype path = Path (absolute: bool) (components: "string list")

definition path_of :: "string \<Rightarrow> path" where
  "path_of s =
     (let parts = split_on (CHR ''/'') s;
          kept = filter (\<lambda>c. c \<noteq> [] \<and> c \<noteq> ''.'') parts
      in if s \<noteq> [] \<and> hd s = CHR ''/'' then Path True kept
         else if hd parts = ''.'' then Path False (''.'' # kept)
         else Path False kept)"

definition parent :: "path \<Rightarrow> path option" where
  "parent p = (if components p = [] then None else Some (Path (absolute p) (butlast (components p))))"

text \<open>\<open>Path::join\<close> of a relative path; an absolute one replaces the whole.\<close>

definition path_join :: "path \<Rightarrow> path \<Rightarrow> path" where
  "path_join p q = (if absolute q then q else Path (absolute p) (components p @ components q))"

section \<open>Bytes on the wire\<close>

text \<open>\<open>to_be_bytes\<close> and \<open>from_be_bytes\<close>, for any width in bytes.\<close>

fun be_bytes :: "nat \<Rightarrow> nat \<Rightarrow> u8 list" where
  "be_bytes 0 n = []"
| "be_bytes (Suc k) n = be_bytes k (n div 256) @ [of_nat (n mod 256)]"

definition from_be :: "u8 list \<Rightarrow> nat" where
  "from_be bs = foldl (\<lambda>acc b. acc * 256 + unat b) 0 bs"

text \<open>\<open>str::as_bytes\<close>.\<close>

definition bytes_of :: "string \<Rightarrow> u8 list" where
  "bytes_of s = map (\<lambda>c. of_nat (byte c)) s"

lemma length_be_bytes [simp]: "length (be_bytes k n) = k"
  by (induction k arbitrary: n) simp_all

lemma from_be_snoc: "from_be (bs @ [b]) = from_be bs * 256 + unat b"
  by (simp add: from_be_def)

lemma from_be_be_bytes: "n < 256 ^ k \<Longrightarrow> from_be (be_bytes k n) = n"
proof (induction k arbitrary: n)
  case (Suc k)
  have "n div 256 < 256 ^ k"
    using Suc.prems by (simp add: less_mult_imp_div_less mult.commute)
  then have "from_be (be_bytes k (n div 256)) = n div 256"
    by (rule Suc.IH)
  moreover have "unat (of_nat (n mod 256) :: u8) = n mod 256"
    by (simp add: unat_of_nat take_bit_eq_mod)
  ultimately show ?case
    by (simp add: from_be_snoc)
qed (simp add: from_be_def)

lemma unat_u8_less [simp]: "unat (b :: u8) < 256"
  by (rule order_less_le_trans [OF unsigned_less]) simp

lemma be_bytes_from_be: "be_bytes (length bs) (from_be bs) = bs"
proof (induction bs rule: rev_induct)
  case (snoc b bs)
  have "(from_be bs * 256 + unat b) div 256 = from_be bs"
    by simp
  moreover have "(of_nat ((from_be bs * 256 + unat b) mod 256) :: u8) = b"
    by simp
  ultimately show ?case
    using snoc by (simp only: from_be_snoc length_append_singleton be_bytes.simps)
qed simp

lemma be_bytes_from_be' [simp]: "length bs = k \<Longrightarrow> be_bytes k (from_be bs) = bs"
  using be_bytes_from_be [of bs] by simp

lemma from_be_bound: "from_be bs < 256 ^ length bs"
proof (induction bs rule: rev_induct)
  case (snoc b bs)
  have "from_be bs * 256 + unat b < (from_be bs + 1) * 256"
    using unat_u8_less [of b] by simp
  also have "\<dots> \<le> 256 ^ length bs * 256"
    using snoc by (intro mult_right_mono) simp_all
  finally show ?case
    by (simp add: from_be_snoc mult.commute)
qed (simp add: from_be_def)

lemma length_bytes_of [simp]: "length (bytes_of s) = length s"
  by (simp add: bytes_of_def)

text \<open>\<open>std::str::from_utf8(..).is_ok()\<close>: the well-formed sequences of the Unicode standard.\<close>

definition utf8_tail :: "u8 \<Rightarrow> bool" where
  "utf8_tail b \<longleftrightarrow> 128 \<le> b \<and> b \<le> 191"

fun utf8_valid :: "u8 list \<Rightarrow> bool" where
  "utf8_valid [] = True"
| "utf8_valid (a # r) =
     (if a < 128 then utf8_valid r
      else if 194 \<le> a \<and> a \<le> 223 then
        (case r of b # r' \<Rightarrow> utf8_tail b \<and> utf8_valid r' | _ \<Rightarrow> False)
      else if 224 \<le> a \<and> a \<le> 239 then
        (case r of
           b # c # r' \<Rightarrow>
             utf8_tail b \<and> (a = 224 \<longrightarrow> 160 \<le> b) \<and> (a = 237 \<longrightarrow> b \<le> 159) \<and> utf8_tail c \<and>
             utf8_valid r'
         | _ \<Rightarrow> False)
      else if 240 \<le> a \<and> a \<le> 244 then
        (case r of
           b # c # d # r' \<Rightarrow>
             utf8_tail b \<and> (a = 240 \<longrightarrow> 144 \<le> b) \<and> (a = 244 \<longrightarrow> b \<le> 143) \<and> utf8_tail c \<and>
             utf8_tail d \<and> utf8_valid r'
         | _ \<Rightarrow> False)
      else False)"

section \<open>Readers and writers\<close>

text \<open>
  \<open>io::ErrorKind\<close>, as far as the code tells the kinds apart. A reader is the list of the bytes it
  can still deliver; what it reports after them (end of file, a deadline) is a parameter of each
  reading operation. A writer accepts \<open>room\<close> more bytes and then fails with \<open>fault\<close>.
\<close>

datatype io_error =
  UnexpectedEof | TimedOut | WouldBlock | Interrupted | InvalidData | InvalidInput | NotFound | Io_Other

definition read_exact :: "io_error \<Rightarrow> nat \<Rightarrow> u8 list \<Rightarrow> io_error + (u8 list \<times> u8 list)" where
  "read_exact t n bs = (if length bs < n then Inl t else Inr (take n bs, drop n bs))"

lemma read_exact_Inr [result_simps]:
  "read_exact t n bs = Inr (a, r) \<longleftrightarrow> bs = a @ r \<and> length a = n"
  by (auto simp: read_exact_def min_def)

lemma read_exact_append [simp]: "length a = n \<Longrightarrow> read_exact t n (a @ r) = Inr (a, r)"
  by (auto simp: read_exact_def)

record writer =
  written :: "u8 list"
  room :: nat
  fault :: io_error
  can_flush :: bool

definition write_all :: "writer \<Rightarrow> u8 list \<Rightarrow> (io_error + unit) \<times> writer" where
  "write_all w bs =
     (if length bs \<le> room w
      then (Inr (), w\<lparr>written := written w @ bs, room := room w - length bs\<rparr>)
      else (Inl (fault w), w\<lparr>written := written w @ take (room w) bs, room := 0\<rparr>))"

definition flush :: "writer \<Rightarrow> (io_error + unit) \<times> writer" where
  "flush w = (if can_flush w then Inr () else Inl (fault w), w)"

text \<open>The \<open>?\<close> of an operation that also changes a state.\<close>

definition io_then ::
    "('d + 'a) \<times> 'w \<Rightarrow> ('d \<Rightarrow> 'e) \<Rightarrow> ('a \<Rightarrow> 'w \<Rightarrow> ('e + 'b) \<times> 'w) \<Rightarrow> ('e + 'b) \<times> 'w" where
  "io_then r err f = (case r of (Inl e, w) \<Rightarrow> (Inl (err e), w) | (Inr x, w) \<Rightarrow> f x w)"

lemma io_then_simps [simp]:
  "io_then (Inl e, w) err f = (Inl (err e), w)" "io_then (Inr x, w) err f = f x w"
  by (simp_all add: io_then_def)

lemma io_then_eq_Inr [result_simps]:
  "io_then r err f = (Inr y, w') \<longleftrightarrow> (\<exists>x w. r = (Inr x, w) \<and> f x w = (Inr y, w'))"
  by (cases r; cases "fst r") (auto simp: io_then_def)

lemma fst_io_then_pure: "fst (io_then r err (\<lambda>x s. (f x, s))) = then_ok (map_err err (fst r)) f"
  by (cases r; cases "fst r") simp_all

text \<open>What a computation with a state and a result ends in, and the rule for a sequence of two.\<close>

definition outcome :: "('e + 'a) \<times> 's \<Rightarrow> ('e + 'a \<Rightarrow> 's \<Rightarrow> bool) \<Rightarrow> bool" where
  "outcome c Q = Q (fst c) (snd c)"

lemma outcome_io_then:
  assumes "outcome c (\<lambda>r s. case r of Inl e \<Rightarrow> Q (Inl (err e)) s | Inr x \<Rightarrow> outcome (f x s) Q)"
  shows "outcome (io_then c err f) Q"
  using assms by (cases c) (auto simp: outcome_def split: sum.splits)

lemma outcome_cases: "c = (r, t) \<Longrightarrow> outcome c Q \<Longrightarrow> Q r t"
  by (simp add: outcome_def)

lemma outcome_then:
  assumes "outcome c P" and "\<And>e t. P (Inl e) t \<Longrightarrow> Q (Inl (err e)) t" and "\<And>x t. P (Inr x) t \<Longrightarrow> outcome (f x t) Q"
  shows "outcome (io_then c err f) Q"
  using assms by (cases c) (auto simp: outcome_def io_then_def split: sum.split)

section \<open>Interfaces shared by components\<close>

text \<open>A run of a deterministic machine over a list of events, with its outputs.\<close>

fun run_machine :: "('s \<Rightarrow> 'e \<Rightarrow> 's \<times> 'o) \<Rightarrow> 's \<Rightarrow> 'e list \<Rightarrow> 's \<times> 'o list" where
  "run_machine step s [] = (s, [])"
| "run_machine step s (e # es) =
     (let (s', out) = step s e; (s'', outs) = run_machine step s' es in (s'', out # outs))"

lemma run_machine_append:
  "run_machine step s (xs @ ys) =
     (let (s', os) = run_machine step s xs; (s'', os') = run_machine step s' ys in (s'', os @ os'))"
  by (induction xs arbitrary: s) (auto simp: Let_def split: prod.splits)

text \<open>
  A component with state: its step, and the invariant that every step keeps. Whatever is proved
  of a single step then holds along every run.
\<close>

locale machine =
  fixes step :: "'s \<Rightarrow> 'e \<Rightarrow> 's \<times> 'o"
    and inv :: "'s \<Rightarrow> bool"
  assumes step_inv: "inv s \<Longrightarrow> inv (fst (step s e))"
begin

lemma run_inv: "inv s \<Longrightarrow> inv (fst (run_machine step s es))"
proof (induction es arbitrary: s)
  case (Cons e es)
  then have "inv (fst (step s e))"
    by (intro step_inv)
  then have "inv (fst (run_machine step (fst (step s e)) es))"
    by (rule Cons.IH)
  then show ?case
    by (simp add: Let_def case_prod_beta)
qed simp

lemma run_outputs:
  assumes "inv s" and "\<And>s e. inv s \<Longrightarrow> P (snd (step s e))"
  shows "\<forall>out \<in> set (snd (run_machine step s es)). P out"
  using assms(1)
proof (induction es arbitrary: s)
  case (Cons e es)
  have "inv (fst (step s e))"
    using Cons.prems by (rule step_inv)
  from Cons.IH [OF this] assms(2) [OF Cons.prems, of e] show ?case
    by (simp add: Let_def case_prod_beta)
qed simp

end

text \<open>
  A message format: an encoder for the values that satisfy \<open>ok\<close> and a decoder that consumes a
  message from the front of the stream. The first law is the round trip; the second, in the
  extended interface, says that nothing else is accepted.
\<close>

locale codec =
  fixes enc :: "'a \<Rightarrow> 'b list"
    and dec :: "'b list \<Rightarrow> 'e + ('a \<times> 'b list)"
    and ok :: "'a \<Rightarrow> bool"
  assumes dec_enc: "ok x \<Longrightarrow> dec (enc x @ rest) = Inr (x, rest)"
begin

lemma dec_enc_exact: "ok x \<Longrightarrow> dec (enc x) = Inr (x, [])"
  using dec_enc [of x "[]"] by simp

lemma enc_prefix_free:
  assumes "ok x" and "ok y" and "enc x @ r = enc y @ s"
  shows "x = y \<and> r = s"
proof -
  have "Inr (x, r) = dec (enc x @ r)"
    by (simp only: dec_enc [OF assms(1)])
  also have "\<dots> = dec (enc y @ s)"
    by (simp only: assms(3))
  also have "\<dots> = Inr (y, s)"
    by (simp only: dec_enc [OF assms(2)])
  finally show ?thesis by simp
qed

lemma enc_inj: "ok x \<Longrightarrow> ok y \<Longrightarrow> enc x = enc y \<Longrightarrow> x = y"
  using enc_prefix_free [of x y "[]" "[]"] by simp

end

locale strict_codec = codec +
  assumes dec_sound: "dec bs = Inr (x, rest) \<Longrightarrow> ok x \<and> bs = enc x @ rest"
begin

lemma dec_iff: "dec bs = Inr (x, rest) \<longleftrightarrow> ok x \<and> bs = enc x @ rest"
proof (rule iffI)
  assume "dec bs = Inr (x, rest)"
  then show "ok x \<and> bs = enc x @ rest"
    by (rule dec_sound)
next
  assume "ok x \<and> bs = enc x @ rest"
  then show "dec bs = Inr (x, rest)"
    by (simp add: dec_enc)
qed

end

end
