(* ===== verification/Clipboard_Protocol.thy ===== *)
theory Clipboard_Protocol
  imports Prelude
begin

text \<open>
  The one-shot clipboard transport of \<open>clipboard-protocol/src/lib.rs\<close>: the frame, its shape
  rules, the 36-byte header, \<open>write_frame\<close> and \<open>read_frame\<close>. The host client and the guest agent
  both speak it. The lemmas show that the format is a strict codec (the reader accepts exactly
  what the writer produces), that a read never takes more than the header and the limit of the
  declared kind of content, that content travels only in two shapes, and that the debug rendering
  does not depend on content or nonce.
\<close>

section \<open>Constants and codes\<close>

definition VERSION :: u8 where "VERSION = 1"
definition TEXT_MIME :: string where "TEXT_MIME = ''text/plain;charset=utf-8''"
definition PNG_MIME :: string where "PNG_MIME = ''image/png''"
definition MAX_TEXT_BYTES :: nat where "MAX_TEXT_BYTES = 8 * 1024 * 1024"
definition MAX_IMAGE_BYTES :: nat where "MAX_IMAGE_BYTES = 64 * 1024 * 1024"
definition MAX_IMAGE_DIMENSION :: nat where "MAX_IMAGE_DIMENSION = 8192"
definition MAX_IMAGE_PIXELS :: nat where "MAX_IMAGE_PIXELS = 64 * 1024 * 1024"
definition IO_TIMEOUT_SECONDS :: nat where "IO_TIMEOUT_SECONDS = 5"
definition MAGIC :: "u8 list" where "MAGIC = bytes_of ''WBCLIP01''"
definition HEADER_LEN :: nat where "HEADER_LEN = 36"

datatype kind = Kind_Put | Kind_Get | Kind_Probe | Kind_PutResult | Kind_GetResult | Kind_ProbeResult
datatype mime = Mime_None | Mime_Text | Mime_Png
datatype status =
  Status_Ok | Status_InvalidRequest | Status_UnsupportedMime | Status_TooLarge
| Status_InvalidContent | Status_ClipboardUnavailable | Status_Timeout | Status_Busy
| Status_Internal

datatype protocol_error =
  Io io_error
| BadMagic
| UnsupportedVersion u8
| InvalidKind u8
| InvalidMime u8
| InvalidStatus u8
| InvalidShape string
| PayloadTooLarge (actual: nat) (limit: nat)

text \<open>The discriminants (\<open>as u8\<close>) and the \<open>TryFrom<u8>\<close> instances.\<close>

fun kind_code :: "kind \<Rightarrow> u8" where
  "kind_code Kind_Put = 1"
| "kind_code Kind_Get = 2"
| "kind_code Kind_Probe = 3"
| "kind_code Kind_PutResult = 129"
| "kind_code Kind_GetResult = 130"
| "kind_code Kind_ProbeResult = 131"

definition kind_try_from :: "u8 \<Rightarrow> protocol_error + kind" where
  "kind_try_from v =
     (if v = 1 then Inr Kind_Put
      else if v = 2 then Inr Kind_Get
      else if v = 3 then Inr Kind_Probe
      else if v = 129 then Inr Kind_PutResult
      else if v = 130 then Inr Kind_GetResult
      else if v = 131 then Inr Kind_ProbeResult
      else Inl (InvalidKind v))"

fun mime_code :: "mime \<Rightarrow> u8" where
  "mime_code Mime_None = 0"
| "mime_code Mime_Text = 1"
| "mime_code Mime_Png = 2"

definition mime_try_from :: "u8 \<Rightarrow> protocol_error + mime" where
  "mime_try_from v =
     (if v = 0 then Inr Mime_None
      else if v = 1 then Inr Mime_Text
      else if v = 2 then Inr Mime_Png
      else Inl (InvalidMime v))"

fun canonical :: "mime \<Rightarrow> string option" where
  "canonical Mime_None = None"
| "canonical Mime_Text = Some TEXT_MIME"
| "canonical Mime_Png = Some PNG_MIME"

fun payload_limit :: "mime \<Rightarrow> nat" where
  "payload_limit Mime_None = 0"
| "payload_limit Mime_Text = MAX_TEXT_BYTES"
| "payload_limit Mime_Png = MAX_IMAGE_BYTES"

fun status_code :: "status \<Rightarrow> u8" where
  "status_code Status_Ok = 0"
| "status_code Status_InvalidRequest = 1"
| "status_code Status_UnsupportedMime = 2"
| "status_code Status_TooLarge = 3"
| "status_code Status_InvalidContent = 4"
| "status_code Status_ClipboardUnavailable = 5"
| "status_code Status_Timeout = 6"
| "status_code Status_Busy = 7"
| "status_code Status_Internal = 8"

text \<open>\<open>Status::code\<close>, the name used in the audit lines.\<close>

fun status_name :: "status \<Rightarrow> string" where
  "status_name Status_Ok = ''ok''"
| "status_name Status_InvalidRequest = ''invalid_request''"
| "status_name Status_UnsupportedMime = ''unsupported_mime''"
| "status_name Status_TooLarge = ''too_large''"
| "status_name Status_InvalidContent = ''invalid_content''"
| "status_name Status_ClipboardUnavailable = ''clipboard_unavailable''"
| "status_name Status_Timeout = ''timeout''"
| "status_name Status_Busy = ''busy''"
| "status_name Status_Internal = ''internal''"

definition status_try_from :: "u8 \<Rightarrow> protocol_error + status" where
  "status_try_from v =
     (if v = 0 then Inr Status_Ok
      else if v = 1 then Inr Status_InvalidRequest
      else if v = 2 then Inr Status_UnsupportedMime
      else if v = 3 then Inr Status_TooLarge
      else if v = 4 then Inr Status_InvalidContent
      else if v = 5 then Inr Status_ClipboardUnavailable
      else if v = 6 then Inr Status_Timeout
      else if v = 7 then Inr Status_Busy
      else if v = 8 then Inr Status_Internal
      else Inl (InvalidStatus v))"

section \<open>Frames\<close>

record frame =
  kind_of :: kind
  mime_of :: mime
  status_of :: status
  nonce :: "u8 list"
  payload :: "u8 list"

definition validate_shape :: "frame \<Rightarrow> protocol_error + unit" where
  "validate_shape f =
     (if payload_limit (mime_of f) < length (payload f)
      then Inl (PayloadTooLarge (length (payload f)) (payload_limit (mime_of f)))
      else if kind_of f \<in> {Kind_Put, Kind_Get, Kind_Probe} \<and> status_of f \<noteq> Status_Ok
      then Inl (InvalidShape ''requests must use status Ok'')
      else
        (case kind_of f of
           Kind_Put \<Rightarrow>
             if mime_of f \<notin> {Mime_Text, Mime_Png}
             then Inl (InvalidShape ''Put requires text or PNG'') else Inr ()
         | Kind_GetResult \<Rightarrow>
             if status_of f = Status_Ok then
               if mime_of f \<notin> {Mime_Text, Mime_Png}
               then Inl (InvalidShape ''successful Get result requires text or PNG'') else Inr ()
             else if mime_of f \<noteq> Mime_None \<or> payload f \<noteq> []
             then Inl (InvalidShape ''failed Get result cannot carry content'') else Inr ()
         | k \<Rightarrow>
             if mime_of f \<noteq> Mime_None \<or> payload f \<noteq> []
             then Inl (InvalidShape
                    (if k \<in> {Kind_Get, Kind_Probe} then ''Get/Probe cannot carry content''
                     else ''Put/Probe result cannot carry content''))
             else Inr ()))"

text \<open>The constructors of \<open>impl Frame\<close>.\<close>

definition frame_put :: "u8 list \<Rightarrow> mime \<Rightarrow> u8 list \<Rightarrow> protocol_error + frame" where
  "frame_put n m p =
     (let f = \<lparr>kind_of = Kind_Put, mime_of = m, status_of = Status_Ok, nonce = n, payload = p\<rparr>
      in then_ok (validate_shape f) (\<lambda>_. Inr f))"

definition frame_empty :: "kind \<Rightarrow> status \<Rightarrow> u8 list \<Rightarrow> frame" where
  "frame_empty k st n = \<lparr>kind_of = k, mime_of = Mime_None, status_of = st, nonce = n, payload = []\<rparr>"

definition frame_get :: "u8 list \<Rightarrow> frame" where
  "frame_get n = frame_empty Kind_Get Status_Ok n"

definition frame_probe :: "u8 list \<Rightarrow> frame" where
  "frame_probe n = frame_empty Kind_Probe Status_Ok n"

definition frame_result ::
    "kind \<Rightarrow> u8 list \<Rightarrow> status \<Rightarrow> mime \<Rightarrow> u8 list \<Rightarrow> protocol_error + frame" where
  "frame_result k n st m p =
     (let f = \<lparr>kind_of = k, mime_of = m, status_of = st, nonce = n, payload = p\<rparr>
      in then_ok (validate_shape f) (\<lambda>_. Inr f))"

definition frame_error :: "kind \<Rightarrow> u8 list \<Rightarrow> status \<Rightarrow> frame" where
  "frame_error k n st = \<lparr>kind_of = k, mime_of = Mime_None, status_of = st, nonce = n, payload = []\<rparr>"

definition take_payload :: "frame \<Rightarrow> u8 list \<times> frame" where
  "take_payload f = (payload f, f\<lparr>payload := []\<rparr>)"

text \<open>\<open>Drop for Frame\<close>: the bytes the destructor leaves in the two buffers.\<close>

definition drop_frame :: "frame \<Rightarrow> frame" where
  "drop_frame f =
     f\<lparr>nonce := map (\<lambda>_. 0) (nonce f), payload := map (\<lambda>_. 0) (payload f)\<rparr>"

text \<open>\<open>Debug for Frame\<close>: the fields of the rendering, in order.\<close>

datatype debug_value = Debug_Kind kind | Debug_Mime mime | Debug_Status status | Debug_Str string | Debug_Nat nat

definition debug_frame :: "frame \<Rightarrow> (string \<times> debug_value) list" where
  "debug_frame f =
     [(''kind'', Debug_Kind (kind_of f)),
      (''mime'', Debug_Mime (mime_of f)),
      (''status'', Debug_Status (status_of f)),
      (''nonce'', Debug_Str ''[redacted]''),
      (''payload_bytes'', Debug_Nat (length (payload f)))]"

section \<open>The wire\<close>

definition frame_header :: "frame \<Rightarrow> u8 list" where
  "frame_header f =
     MAGIC @ [VERSION, kind_code (kind_of f), mime_code (mime_of f), status_code (status_of f)]
     @ nonce f @ be_bytes 8 (length (payload f))"

definition write_frame :: "writer \<Rightarrow> frame \<Rightarrow> (protocol_error + unit) \<times> writer" where
  "write_frame w f =
     io_then (validate_shape f, w) id (\<lambda>_ w.
     io_then (write_all w (frame_header f)) Io (\<lambda>_ w.
     io_then (write_all w (payload f)) Io (\<lambda>_ w.
     io_then (flush w) Io (\<lambda>_ w. (Inr (), w)))))"

text \<open>\<open>read_frame\<close>; \<open>t\<close> is what the reader reports when the bytes run out.\<close>

definition read_frame :: "io_error \<Rightarrow> u8 list \<Rightarrow> protocol_error + (frame \<times> u8 list)" where
  "read_frame t bs =
     then_ok (map_err Io (read_exact t HEADER_LEN bs)) (\<lambda>(h, bs).
     then_ok (bail_if (take 8 h \<noteq> MAGIC) BadMagic) (\<lambda>_.
     then_ok (bail_if (h ! 8 \<noteq> VERSION) (UnsupportedVersion (h ! 8))) (\<lambda>_.
     then_ok (kind_try_from (h ! 9)) (\<lambda>k.
     then_ok (mime_try_from (h ! 10)) (\<lambda>m.
     then_ok (status_try_from (h ! 11)) (\<lambda>st.
     let n = take 16 (drop 12 h);
         payload_len = from_be (take 8 (drop 28 h));
         lim = payload_limit m
     in if lim < payload_len then Inl (PayloadTooLarge payload_len lim)
        else then_ok (map_err Io (read_exact t payload_len bs)) (\<lambda>(p, bs).
          let f = \<lparr>kind_of = k, mime_of = m, status_of = st, nonce = n, payload = p\<rparr>
          in then_ok (validate_shape f) (\<lambda>_. Inr (f, bs)))))))))"

text \<open>
  The frames that may be sent: the shape rules and the fixed nonce width, which the Rust type
  \<open>[u8; 16]\<close> guarantees. \<open>frame_wire\<close> is what a completed write leaves on the wire.
\<close>

definition frame_ok :: "frame \<Rightarrow> bool" where
  "frame_ok f \<longleftrightarrow> validate_shape f = Inr () \<and> length (nonce f) = 16"

definition frame_wire :: "frame \<Rightarrow> u8 list" where
  "frame_wire f = frame_header f @ payload f"

section \<open>The codes\<close>

lemma kind_try_from_iff [result_simps]: "kind_try_from v = Inr k \<longleftrightarrow> v = kind_code k"
  by (cases k) (auto simp: kind_try_from_def)

lemma mime_try_from_iff [result_simps]: "mime_try_from v = Inr m \<longleftrightarrow> v = mime_code m"
  by (cases m) (auto simp: mime_try_from_def)

lemma status_try_from_iff [result_simps]: "status_try_from v = Inr st \<longleftrightarrow> v = status_code st"
  by (cases st) (auto simp: status_try_from_def)

lemma code_round_trips [simp]:
  "kind_try_from (kind_code k) = Inr k"
  "mime_try_from (mime_code m) = Inr m"
  "status_try_from (status_code st) = Inr st"
  by (simp_all add: result_simps)

lemma length_MAGIC [simp]: "length MAGIC = 8"
  by (simp add: MAGIC_def)

lemma payload_limit_bounds: "payload_limit m \<le> MAX_IMAGE_BYTES" "payload_limit m < 256 ^ 8"
  by (cases m; simp add: MAX_TEXT_BYTES_def MAX_IMAGE_BYTES_def)+

section \<open>Shapes\<close>

lemma shape_within_limit: "validate_shape f = Inr () \<Longrightarrow> length (payload f) \<le> payload_limit (mime_of f)"
  by (auto simp: validate_shape_def split: if_splits)

text \<open>The shape rules, read as a table of what each kind of frame may carry.\<close>

fun shape_allows :: "kind \<Rightarrow> status \<Rightarrow> mime \<Rightarrow> bool" where
  "shape_allows Kind_Put st m \<longleftrightarrow> st = Status_Ok \<and> m \<noteq> Mime_None"
| "shape_allows Kind_Get st m \<longleftrightarrow> st = Status_Ok \<and> m = Mime_None"
| "shape_allows Kind_Probe st m \<longleftrightarrow> st = Status_Ok \<and> m = Mime_None"
| "shape_allows Kind_PutResult st m \<longleftrightarrow> m = Mime_None"
| "shape_allows Kind_ProbeResult st m \<longleftrightarrow> m = Mime_None"
| "shape_allows Kind_GetResult st m \<longleftrightarrow> (st = Status_Ok \<longleftrightarrow> m \<noteq> Mime_None)"

lemma mime_cases: "m \<noteq> Mime_None \<longleftrightarrow> m = Mime_Text \<or> m = Mime_Png"
  by (cases m) auto

lemma validate_shape_iff:
  "validate_shape f = Inr () \<longleftrightarrow>
   length (payload f) \<le> payload_limit (mime_of f) \<and>
   shape_allows (kind_of f) (status_of f) (mime_of f)"
  by (cases "kind_of f"; cases "mime_of f") (auto simp: validate_shape_def)

lemma shape_content:
  "validate_shape f = Inr () \<Longrightarrow> payload f \<noteq> [] \<Longrightarrow>
   kind_of f = Kind_Put \<or> kind_of f = Kind_GetResult \<and> status_of f = Status_Ok"
  by (cases "kind_of f"; cases "mime_of f") (auto simp: validate_shape_iff)

lemma constructed_frames_ok:
  "length n = 16 \<Longrightarrow> frame_ok (frame_get n)"
  "length n = 16 \<Longrightarrow> frame_ok (frame_probe n)"
  "length n = 16 \<Longrightarrow> k \<in> {Kind_PutResult, Kind_GetResult, Kind_ProbeResult} \<Longrightarrow>
   st \<noteq> Status_Ok \<Longrightarrow> frame_ok (frame_error k n st)"
  "length n = 16 \<Longrightarrow> frame_put n m p = Inr f \<Longrightarrow> frame_ok f"
  "length n = 16 \<Longrightarrow> frame_result k n st m p = Inr f \<Longrightarrow> frame_ok f"
  by (auto simp: frame_ok_def frame_get_def frame_probe_def frame_empty_def frame_error_def
      frame_put_def frame_result_def validate_shape_iff Let_def then_ok_eq_Inr)

section \<open>The header\<close>

lemma length_frame_header: "length (nonce f) = 16 \<Longrightarrow> length (frame_header f) = HEADER_LEN"
  by (simp add: frame_header_def HEADER_LEN_def)

lemma header_fields:
  assumes "length (nonce f) = 16"
  shows "take 8 (frame_header f) = MAGIC"
    and "frame_header f ! 8 = VERSION"
    and "frame_header f ! 9 = kind_code (kind_of f)"
    and "frame_header f ! 10 = mime_code (mime_of f)"
    and "frame_header f ! 11 = status_code (status_of f)"
    and "take 16 (drop 12 (frame_header f)) = nonce f"
    and "take 8 (drop 28 (frame_header f)) = be_bytes 8 (length (payload f))"
  using assms by (simp_all add: frame_header_def nth_append)

lemma header_split:
  assumes "length h = 36"
  shows "h = take 8 h @ [h ! 8, h ! 9, h ! 10, h ! 11] @ take 16 (drop 12 h) @ take 8 (drop 28 h)"
proof -
  have "drop 8 h = [h ! 8, h ! 9, h ! 10, h ! 11] @ drop 12 h"
    using assms Cons_nth_drop_Suc [of 8 h] Cons_nth_drop_Suc [of 9 h]
      Cons_nth_drop_Suc [of 10 h] Cons_nth_drop_Suc [of 11 h] by simp
  moreover have "drop 12 h = take 16 (drop 12 h) @ drop 28 h"
    using append_take_drop_id [of 16 "drop 12 h"] by simp
  moreover have "take 8 (drop 28 h) = drop 28 h"
    using assms by simp
  ultimately show ?thesis
    by (metis append_take_drop_id append.assoc)
qed

section \<open>Reading what was written, and nothing else\<close>

lemma read_frame_wire:
  assumes "frame_ok f"
  shows "read_frame t (frame_wire f @ rest) = Inr (f, rest)"
proof -
  have n: "length (nonce f) = 16" and s: "validate_shape f = Inr ()"
    using assms by (auto simp: frame_ok_def)
  have "length (payload f) < 256 ^ 8"
    using shape_within_limit [OF s] payload_limit_bounds(2) le_less_trans by blast
  then have len: "from_be (take 8 (drop 28 (frame_header f))) = length (payload f)"
    using n by (simp add: header_fields from_be_be_bytes)
  have "read_exact t HEADER_LEN (frame_wire f @ rest) = Inr (frame_header f, payload f @ rest)"
    using n by (simp add: frame_wire_def length_frame_header)
  moreover have "\<not> payload_limit (mime_of f) < length (payload f)"
    using shape_within_limit [OF s] by simp
  ultimately show ?thesis
    using n s len header_fields [OF n] by (cases f) (simp add: read_frame_def Let_def)
qed

lemma read_frame_sound:
  assumes "read_frame t bs = Inr (f, rest)"
  shows "frame_ok f \<and> bs = frame_wire f @ rest"
proof -
  from assms obtain h bs1 where
    h: "bs = h @ bs1" "length h = 36" "take 8 h = MAGIC" "h ! 8 = VERSION"
      "h ! 9 = kind_code (kind_of f)" "h ! 10 = mime_code (mime_of f)"
      "h ! 11 = status_code (status_of f)"
    and f: "nonce f = take 16 (drop 12 h)" "bs1 = payload f @ rest"
      "length (payload f) = from_be (take 8 (drop 28 h))" "validate_shape f = Inr ()"
    by (auto simp: read_frame_def result_simps Let_def HEADER_LEN_def split: if_splits)
  have "length (take 8 (drop 28 h)) = 8"
    using h(2) by simp
  then have "be_bytes 8 (length (payload f)) = take 8 (drop 28 h)"
    by (simp only: f(3) be_bytes_from_be')
  then have "h = frame_header f"
    using header_split [OF h(2)] by (simp add: frame_header_def h f)
  then show ?thesis
    using f h by (simp add: frame_ok_def frame_wire_def)
qed

interpretation frames: strict_codec frame_wire "read_frame t" frame_ok for t
  by unfold_locales (simp_all add: read_frame_wire read_frame_sound)

text \<open>
  C1. The reader accepts exactly the frames that satisfy the shape rules, in exactly the encoding
  that \<open>write_frame\<close> produces, and leaves the rest of the stream untouched.
\<close>

theorem read_frame_iff:
  "read_frame t bs = Inr (f, rest) \<longleftrightarrow> frame_ok f \<and> bs = frame_wire f @ rest"
  by (rule frames.dec_iff)

section \<open>Writing\<close>

lemma frame_wire_not_Nil [simp]: "frame_wire f \<noteq> []"
  by (simp add: frame_wire_def frame_header_def)

lemma write_all_sent:
  "write_all w bs = (r, w') \<Longrightarrow>
   written w' = written w @ take (room w) bs \<and>
   (r = Inr () \<longrightarrow> length bs \<le> room w \<and> room w' = room w - length bs)"
  by (auto simp: write_all_def split: if_splits)

lemma write_frame_sent:
  assumes "write_frame w f = (r, w')"
  shows "\<exists>k. written w' = written w @ take k (frame_wire f) \<and>
    (r = Inr () \<longrightarrow> validate_shape f = Inr () \<and> length (frame_wire f) \<le> k) \<and>
    (validate_shape f \<noteq> Inr () \<longrightarrow> k = 0)"
proof (cases "validate_shape f")
  case (Inl e)
  with assms have "w' = w" "r = Inl e"
    by (auto simp: write_frame_def)
  then show ?thesis
    using Inl by (intro exI [of _ 0]) simp
next
  case (Inr u)
  have "written w' = written w @ take (room w) (frame_wire f) \<and>
        (r = Inr () \<longrightarrow> length (frame_wire f) \<le> room w)"
    using assms Inr
    by (auto simp: write_frame_def frame_wire_def write_all_def flush_def io_then_def
        split: if_splits)
  then show ?thesis
    using Inr by (intro exI [of _ "room w"]) auto
qed

lemma write_frame_fits:
  assumes "frame_ok f" and "HEADER_LEN + length (payload f) \<le> room w" and "can_flush w"
  shows "write_frame w f = (Inr (), w\<lparr>written := written w @ frame_wire f,
    room := room w - HEADER_LEN - length (payload f)\<rparr>)"
  using assms length_frame_header [of f]
  by (simp add: write_frame_def frame_ok_def frame_wire_def write_all_def flush_def)

lemma torn_frame_unreadable:
  assumes "frame_ok f" and "k < length (frame_wire f)"
  shows "read_frame t (take k (frame_wire f)) \<noteq> Inr (g, r)"
proof
  assume "read_frame t (take k (frame_wire f)) = Inr (g, r)"
  then have g: "frame_ok g" "take k (frame_wire f) = frame_wire g @ r"
    by (simp_all add: frames.dec_iff)
  have "frame_wire f @ [] = frame_wire g @ (r @ drop k (frame_wire f))"
    using append_take_drop_id [of k "frame_wire f"] g(2) by simp
  from frames.enc_prefix_free [OF assms(1) g(1) this] have "drop k (frame_wire f) = []"
    by auto
  then show False
    using assms(2) by simp
qed

text \<open>Whatever became of a write, what the other end reads from it can only be that frame.\<close>

lemma write_read_same:
  assumes "frame_ok f" and "write_frame w f = (r, w')" and "written w = []"
    and "read_frame t (written w') = Inr (g, rest)"
  shows "g = f \<and> rest = [] \<and> written w' = frame_wire f"
proof -
  obtain k where k: "written w' = take k (frame_wire f)"
    using write_frame_sent [OF assms(2)] assms(3) by auto
  have "\<not> k < length (frame_wire f)"
    using torn_frame_unreadable [OF assms(1)] assms(4) k by metis
  then have w': "written w' = frame_wire f"
    using k by simp
  then have "Inr (g, rest) = (Inr (f, []) :: protocol_error + frame \<times> u8 list)"
    using assms(4) frames.dec_enc_exact [OF assms(1), of t] by simp
  then show ?thesis
    using w' by simp
qed

lemma write_frame_complete:
  assumes "validate_shape f = Inr ()" and "can_flush w" and "written w = []"
    and "write_frame w f = (r, w')" and "written w' = frame_wire f"
  shows "r = Inr ()"
  using assms
  by (auto simp: write_frame_def frame_wire_def write_all_def flush_def io_then_def
      split: if_splits dest!: arg_cong [where f = length])

text \<open>
  C2. A frame that \<open>write_frame\<close> reports as sent is read back by the other end as the same frame,
  and a write that failed half way leaves bytes that no reader takes for a frame, unless only the
  final flush failed.
\<close>

theorem write_frame_outcomes:
  assumes "length (nonce f) = 16" and "write_frame w f = (r, w')"
  shows "\<exists>sent. written w' = written w @ sent \<and>
    (case r of
       Inr _ \<Rightarrow> read_frame t (sent @ rest) = Inr (f, rest)
     | Inl _ \<Rightarrow> sent = frame_wire f \<or> (\<forall>g s. read_frame t sent \<noteq> Inr (g, s)))"
proof -
  from assms(2) obtain k where
    k: "written w' = written w @ take k (frame_wire f)"
      "r = Inr () \<longrightarrow> validate_shape f = Inr () \<and> length (frame_wire f) \<le> k"
      "validate_shape f \<noteq> Inr () \<longrightarrow> k = 0"
    using write_frame_sent by blast
  let ?sent = "take k (frame_wire f)"
  have unread: "read_frame t ?sent \<noteq> Inr (g, s)" if "?sent \<noteq> frame_wire f" for g s
  proof (cases "validate_shape f")
    case (Inl e)
    then show ?thesis
      using k(3) by (simp add: frames.dec_iff)
  next
    case (Inr u)
    then have "frame_ok f" and "k < length (frame_wire f)"
      using assms(1) that by (auto simp: frame_ok_def not_less)
    then show ?thesis
      by (rule torn_frame_unreadable)
  qed
  have "read_frame t (?sent @ rest) = Inr (f, rest)" if "r = Inr u" for u
    using k(2) that assms(1) by (simp add: frames.dec_enc frame_ok_def)
  then show ?thesis
    using k(1) unread by (intro exI [of _ ?sent]) (auto split: sum.splits)
qed

definition example_put :: frame where
  "example_put = \<lparr>kind_of = Kind_Put, mime_of = Mime_Text, status_of = Status_Ok,
     nonce = replicate 16 66, payload = [72, 105]\<rparr>"

lemma example_put_shape: "validate_shape example_put = Inr ()"
  by (simp add: validate_shape_iff example_put_def MAX_TEXT_BYTES_def)

theorem write_frame_outcomes_witness:
  "\<exists>sent. written (snd (write_frame \<lparr>written = [], room = 100, fault = TimedOut, can_flush = True\<rparr>
       example_put)) = [] @ sent \<and> read_frame TimedOut (sent @ [7]) = Inr (example_put, [7])"
proof -
  let ?w = "\<lparr>written = [], room = 100, fault = TimedOut, can_flush = True\<rparr>"
  have "write_frame ?w example_put = (Inr (), snd (write_frame ?w example_put))"
    unfolding write_frame_def example_put_shape
    by (simp add: write_all_def flush_def frame_header_def example_put_def)
  from write_frame_outcomes [OF _ this, of TimedOut "[7]"] show ?thesis
    by (simp add: example_put_def)
qed

section \<open>Bounds on what a peer can make the reader take\<close>

text \<open>
  C39. A frame whose header declares more than the limit of its content kind is rejected from the
  header alone, whatever follows it and before any payload is read.
\<close>

theorem oversize_rejected_from_header:
  assumes "length h = HEADER_LEN" and "take 8 h = MAGIC" and "h ! 8 = VERSION"
    and "h ! 9 = kind_code k" and "h ! 10 = mime_code m" and "h ! 11 = status_code st"
    and "payload_limit m < from_be (drop 28 h)"
  shows "read_frame t (h @ rest) = Inl (PayloadTooLarge (from_be (drop 28 h)) (payload_limit m))"
proof -
  have "take 8 (drop 28 h) = drop 28 h"
    using assms(1) by (simp add: HEADER_LEN_def)
  then show ?thesis
    using assms by (simp add: read_frame_def Let_def)
qed

theorem oversize_rejected_from_header_witness:
  "read_frame UnexpectedEof (MAGIC @ [1, 1, 1, 0] @ replicate 16 0 @ be_bytes 8 8388609 @ [])
   = Inl (PayloadTooLarge 8388609 8388608)"
proof -
  let ?h = "MAGIC @ [1, 1, 1, 0] @ replicate 16 0 @ be_bytes 8 8388609"
  have d: "from_be (drop 28 ?h) = 8388609"
    by (simp add: from_be_be_bytes)
  have "read_frame UnexpectedEof (?h @ []) =
    Inl (PayloadTooLarge (from_be (drop 28 ?h)) (payload_limit Mime_Text))"
    by (rule oversize_rejected_from_header [where k = Kind_Put and st = Status_Ok])
      (simp_all only: d, simp_all add: HEADER_LEN_def VERSION_def nth_append MAX_TEXT_BYTES_def)
  then show ?thesis
    by (simp only: d append_assoc append_Nil2) (simp add: MAX_TEXT_BYTES_def)
qed

lemma read_frame_consumes:
  assumes "read_frame t bs = Inr (f, rest)"
  shows "length bs \<le> HEADER_LEN + payload_limit (mime_of f) + length rest"
proof -
  have f: "frame_ok f" "bs = frame_wire f @ rest"
    using assms by (simp_all add: frames.dec_iff)
  have "length (payload f) \<le> payload_limit (mime_of f)"
    using f(1) by (intro shape_within_limit) (simp add: frame_ok_def)
  then show ?thesis
    using f by (simp add: frame_wire_def length_frame_header frame_ok_def)
qed

text \<open>
  Whatever bytes a peer sends, a frame that the reader returns carries content only as a put
  or as a successful get result, names text or PNG when it does, and is no longer than the limit
  of that kind.
\<close>

lemma read_content_is_authorized:
  assumes "read_frame t bs = Inr (f, rest)" and "payload f \<noteq> []"
  shows "(kind_of f = Kind_Put \<or> kind_of f = Kind_GetResult \<and> status_of f = Status_Ok) \<and>
    canonical (mime_of f) \<in> {Some TEXT_MIME, Some PNG_MIME} \<and>
    length (payload f) \<le> payload_limit (mime_of f)"
proof -
  have f: "validate_shape f = Inr ()"
    using assms(1) by (simp add: frames.dec_iff frame_ok_def)
  then show ?thesis
    using assms(2) shape_content [OF f] shape_within_limit [OF f]
    by (cases "mime_of f") auto
qed

theorem read_content_is_authorized_witness:
  "length (payload example_put) \<le> payload_limit (mime_of example_put)"
proof -
  have "read_frame TimedOut (frame_wire example_put @ []) = Inr (example_put, [])"
    by (rule frames.dec_enc) (simp add: frame_ok_def example_put_shape, simp add: example_put_def)
  then show ?thesis
    using read_content_is_authorized [of TimedOut "frame_wire example_put @ []" example_put "[]"]
    by (simp add: example_put_def)
qed

text \<open>The debug rendering is a function of the lengths and codes only.\<close>

lemma debug_hides_content:
  "length p = length (payload f) \<Longrightarrow> debug_frame (f\<lparr>nonce := n, payload := p\<rparr>) = debug_frame f"
  by (simp add: debug_frame_def)

end
