(* ===== verification/Clipboard_Worker.thy ===== *)
theory Clipboard_Worker
  imports Clipboard_Protocol
begin

text \<open>
  The disposable clipboard worker of \<open>guest/clipboard-agent/src/lib.rs\<close>: the resource limits it
  gives itself, the choice among the offers of the compositor, the bounded read of the selection,
  the validation of text and still images, and \<open>internal_worker_entrypoint\<close>, which answers one
  frame from its standard input on its standard output.

  The Wayland clipboard library, the image codecs, the clock and the kernel are the fields of
  \<open>worker_env\<close>: every call that the code makes on them is one field, and nothing is assumed about
  what they return.
\<close>

section \<open>Failures and the environment\<close>

record failure =
  fail_status :: status
  fail_category :: string

definition failure_new :: "status \<Rightarrow> string \<Rightarrow> failure" where
  "failure_new st c = \<lparr>fail_status = st, fail_category = c\<rparr>"

definition failure_timeout :: failure where
  "failure_timeout = failure_new Status_Timeout ''deadline_exceeded''"

definition MAX_MIME_OFFERS :: nat where "MAX_MIME_OFFERS = 128"
definition MAX_MIME_METADATA_BYTES :: nat where "MAX_MIME_METADATA_BYTES = 64 * 1024"
definition PIPE_CHUNK_BYTES :: nat where "PIPE_CHUNK_BYTES = 64 * 1024"
definition WORKER_ADDRESS_SPACE_BYTES :: nat where "WORKER_ADDRESS_SPACE_BYTES = 768 * 1024 * 1024"
definition WORKER_CPU_SECONDS :: nat where "WORKER_CPU_SECONDS = IO_TIMEOUT_SECONDS + 1"
definition WORKER_OPEN_FILES :: nat where "WORKER_OPEN_FILES = 64"

text \<open>\<open>image::ImageFormat\<close>: the five formats the code names; the others are numbered.\<close>

datatype image_format = Fmt_Png | Fmt_Jpeg | Fmt_WebP | Fmt_Bmp | Fmt_Tiff | Fmt_Other nat

definition SUPPORTED_IMAGE_FORMATS :: "image_format list" where
  "SUPPORTED_IMAGE_FORMATS = [Fmt_Png, Fmt_Jpeg, Fmt_WebP, Fmt_Bmp, Fmt_Tiff]"

text \<open>
  The image crates. The decoders give \<open>None\<close> for an error. \<open>png_encoder\<close> gives the writes that the
  encoder makes on its output, and whether it succeeds when all of them do.
\<close>

record 'i image_lib =
  guess_format :: "u8 list \<Rightarrow> image_format option"
  png_decoder :: "u8 list \<Rightarrow> (bool option \<times> nat \<times> nat) option"
  webp_decoder :: "u8 list \<Rightarrow> (bool \<times> nat \<times> nat) option"
  tiff_decoder :: "u8 list \<Rightarrow> (bool \<times> (nat \<times> nat) option) option"
  into_dimensions :: "image_format \<Rightarrow> u8 list \<Rightarrow> (nat \<times> nat) option"
  decode_image :: "image_format \<Rightarrow> u8 list \<Rightarrow> 'i option"
  dimensions :: "'i \<Rightarrow> nat \<times> nat"
  png_encoder :: "'i \<Rightarrow> u8 list list \<times> bool"

text \<open>The points at which the code looks at the deadline.\<close>

datatype checkpoint =
  At_Start | At_Offers | At_Pipe nat | At_Pipe_Wait nat | At_Raw
| At_Image_Start | At_Image_Checked | At_Image_Decoded | At_Image_Encoded
| At_Canonical | At_End

datatype pipe_event = Pipe_Data "u8 list" | Pipe_Interrupted | Pipe_WouldBlock | Pipe_Error

datatype fd_step = Fd_Cloexec | Fd_Getfl | Fd_Setfl

record 'i worker_env =
  expired :: "checkpoint \<Rightarrow> bool"
  alloc_ok :: "nat \<Rightarrow> bool"
  fd_ok :: "fd_step \<Rightarrow> bool"
  primary_selection_supported :: bool
  mime_types_ordered :: "string list option"
  get_contents :: "string \<Rightarrow> (pipe_event list \<times> string) option"
  prepare_copy_ok :: "u8 list \<Rightarrow> string \<Rightarrow> bool"
  image_crate :: "'i image_lib"

definition deadline_check :: "'i worker_env \<Rightarrow> checkpoint \<Rightarrow> failure + unit" where
  "deadline_check env p = bail_if (expired env p) failure_timeout"

section \<open>Resource limits\<close>

datatype resource = Res_Core | Res_Fsize | Res_Nofile | Res_As | Res_Cpu

record rlimit =
  current :: "nat option"
  maximum :: "nat option"

type_synonym rlimits = "resource \<Rightarrow> rlimit"

text \<open>\<open>setrlimit\<close>; \<open>allowed\<close> is the kernel's answer for the resource.\<close>

definition set_rlimit ::
    "(resource \<Rightarrow> rlimit \<Rightarrow> bool) \<Rightarrow> resource \<Rightarrow> rlimit \<Rightarrow> string \<Rightarrow> rlimits \<Rightarrow> (failure + unit) \<times> rlimits" where
  "set_rlimit allowed r l cat rl =
     (if allowed r l then (Inr (), rl(r := l)) else (Inl (failure_new Status_Internal cat), rl))"

definition cap_worker_resource ::
    "(resource \<Rightarrow> rlimit \<Rightarrow> bool) \<Rightarrow> resource \<Rightarrow> nat \<Rightarrow> string \<Rightarrow> rlimits \<Rightarrow> (failure + unit) \<times> rlimits" where
  "cap_worker_resource allowed r cap cat rl =
     (let l = (case maximum (rl r) of None \<Rightarrow> cap | Some m \<Rightarrow> min m cap)
      in set_rlimit allowed r \<lparr>current = Some l, maximum = Some l\<rparr> cat rl)"

definition apply_worker_limits ::
    "bool \<Rightarrow> (resource \<Rightarrow> rlimit \<Rightarrow> bool) \<Rightarrow> rlimits \<Rightarrow> (failure + rlimit) \<times> rlimits" where
  "apply_worker_limits dumpable_ok allowed rl =
     io_then (bail_if (\<not> dumpable_ok) (failure_new Status_Internal ''worker_dumpable''), rl) id (\<lambda>_ rl.
     io_then (set_rlimit allowed Res_Core \<lparr>current = Some 0, maximum = Some 0\<rparr> ''worker_core_limit'' rl) id (\<lambda>_ rl.
     io_then (set_rlimit allowed Res_Fsize \<lparr>current = Some 0, maximum = Some 0\<rparr> ''worker_file_limit'' rl) id (\<lambda>_ rl.
     io_then (cap_worker_resource allowed Res_Nofile WORKER_OPEN_FILES ''worker_fd_limit'' rl) id (\<lambda>_ rl.
     io_then (cap_worker_resource allowed Res_As WORKER_ADDRESS_SPACE_BYTES ''worker_memory_limit'' rl) id (\<lambda>_ rl.
     let original_cpu = rl Res_Cpu;
         bounded_cpu = (case maximum original_cpu of None \<Rightarrow> WORKER_CPU_SECONDS | Some m \<Rightarrow> min m WORKER_CPU_SECONDS)
     in io_then (set_rlimit allowed Res_Cpu \<lparr>current = Some bounded_cpu, maximum = maximum original_cpu\<rparr>
                   ''worker_cpu_limit'' rl) id (\<lambda>_ rl. (Inr original_cpu, rl)))))))"

definition prepare_for_persistent_owner ::
    "(resource \<Rightarrow> rlimit \<Rightarrow> bool) \<Rightarrow> rlimit \<Rightarrow> rlimits \<Rightarrow> (failure + unit) \<times> rlimits" where
  "prepare_for_persistent_owner allowed original_cpu rl =
     set_rlimit allowed Res_Cpu original_cpu ''worker_cpu_restore'' rl"

section \<open>Offers\<close>

datatype offer_kind = Offer_Text | Offer_Image image_format

record selected_offer =
  offer_mime :: string
  offer_kind_of :: offer_kind

definition source_limit :: "selected_offer \<Rightarrow> nat" where
  "source_limit sel =
     (case offer_kind_of sel of Offer_Text \<Rightarrow> MAX_TEXT_BYTES | Offer_Image _ \<Rightarrow> MAX_IMAGE_BYTES)"

text \<open>The fold with \<open>checked_add\<close>.\<close>

definition metadata_bytes :: "string list \<Rightarrow> nat option" where
  "metadata_bytes offers =
     foldl (\<lambda>total v. case total of None \<Rightarrow> None
             | Some n \<Rightarrow> if n + length v < 2 ^ 64 then Some (n + length v) else None)
       (Some 0) offers"

definition validate_offer_metadata :: "string list \<Rightarrow> failure + unit" where
  "validate_offer_metadata offers =
     (if MAX_MIME_OFFERS < length offers
      then Inl (failure_new Status_TooLarge ''mime_offer_count'')
      else case metadata_bytes offers of
             None \<Rightarrow> Inl (failure_new Status_TooLarge ''mime_offer_metadata'')
           | Some n \<Rightarrow> bail_if (MAX_MIME_METADATA_BYTES < n)
                        (failure_new Status_TooLarge ''mime_offer_metadata''))"

definition mime_eq :: "string \<Rightarrow> string \<Rightarrow> bool" where
  "mime_eq left right =
     (if CHR ''/'' \<in> set right then eq_ignore_ascii_case left right else left = right)"

definition image_format_for_mime :: "string \<Rightarrow> image_format option" where
  "image_format_for_mime m =
     (if eq_ignore_ascii_case m ''image/png'' then Some Fmt_Png
      else if eq_ignore_ascii_case m ''image/jpeg'' \<or> eq_ignore_ascii_case m ''image/jpg'' then Some Fmt_Jpeg
      else if eq_ignore_ascii_case m ''image/webp'' then Some Fmt_WebP
      else if eq_ignore_ascii_case m ''image/bmp'' \<or> eq_ignore_ascii_case m ''image/x-bmp'' then Some Fmt_Bmp
      else if eq_ignore_ascii_case m ''image/tiff'' \<or> eq_ignore_ascii_case m ''image/tif''
           \<or> eq_ignore_ascii_case m ''image/x-tiff'' then Some Fmt_Tiff
      else None)"

definition TEXT_PREFERENCE :: "string list" where
  "TEXT_PREFERENCE = [TEXT_MIME, ''UTF8_STRING'', ''text/plain'', ''TEXT'', ''STRING'']"

text \<open>\<open>choose_offer\<close>: the loop over the preferences, then \<open>find_map\<close> over the offers.\<close>

fun choose_text :: "string list \<Rightarrow> string list \<Rightarrow> selected_offer option" where
  "choose_text [] offers = None"
| "choose_text (wanted # ws) offers =
     (case find (\<lambda>offered. mime_eq offered wanted) offers of
        Some offered \<Rightarrow> Some \<lparr>offer_mime = offered, offer_kind_of = Offer_Text\<rparr>
      | None \<Rightarrow> choose_text ws offers)"

fun choose_image :: "string list \<Rightarrow> selected_offer option" where
  "choose_image [] = None"
| "choose_image (offered # os) =
     (case image_format_for_mime offered of
        Some fmt \<Rightarrow> Some \<lparr>offer_mime = offered, offer_kind_of = Offer_Image fmt\<rparr>
      | None \<Rightarrow> choose_image os)"

definition choose_offer :: "string list \<Rightarrow> selected_offer option" where
  "choose_offer offers =
     (case choose_text TEXT_PREFERENCE offers of
        Some sel \<Rightarrow> Some sel
      | None \<Rightarrow> choose_image offers)"

section \<open>Reading the selection\<close>

text \<open>
  \<open>read_pipe_bounded\<close>. The pipe is the list of the results of its successive reads; an exhausted
  list and a read of no bytes are both end of file.
\<close>

fun read_pipe_loop :: "'i worker_env \<Rightarrow> nat \<Rightarrow> nat \<Rightarrow> u8 list \<Rightarrow> pipe_event list \<Rightarrow> failure + u8 list" where
  "read_pipe_loop env n lim acc [] =
     then_ok (deadline_check env (At_Pipe n)) (\<lambda>_. Inr acc)"
| "read_pipe_loop env n lim acc (ev # evs) =
     then_ok (deadline_check env (At_Pipe n)) (\<lambda>_.
       case ev of
         Pipe_Data bs \<Rightarrow>
           if bs = [] then Inr acc
           else if 2 ^ 64 \<le> length acc + length bs \<or> lim < length acc + length bs
           then Inl (failure_new Status_TooLarge ''clipboard_source_too_large'')
           else if \<not> alloc_ok env (length bs)
           then Inl (failure_new Status_Internal ''memory_allocation'')
           else read_pipe_loop env (Suc n) lim (acc @ bs) evs
       | Pipe_Interrupted \<Rightarrow> read_pipe_loop env (Suc n) lim acc evs
       | Pipe_WouldBlock \<Rightarrow>
           then_ok (deadline_check env (At_Pipe_Wait n)) (\<lambda>_. read_pipe_loop env (Suc n) lim acc evs)
       | Pipe_Error \<Rightarrow> Inl (failure_new Status_ClipboardUnavailable ''clipboard_source_read''))"

definition read_pipe_bounded :: "'i worker_env \<Rightarrow> pipe_event list \<Rightarrow> nat \<Rightarrow> failure + u8 list" where
  "read_pipe_bounded env pipe lim =
     then_ok (bail_if (\<not> fd_ok env Fd_Getfl) (failure_new Status_Internal ''pipe_flags'')) (\<lambda>_.
     then_ok (bail_if (\<not> fd_ok env Fd_Setfl) (failure_new Status_Internal ''pipe_nonblocking'')) (\<lambda>_.
     then_ok (bail_if (\<not> alloc_ok env (min lim PIPE_CHUNK_BYTES))
       (failure_new Status_Internal ''memory_allocation'')) (\<lambda>_.
     read_pipe_loop env 0 lim [] pipe)))"

section \<open>Text and images\<close>

definition validate_text :: "u8 list \<Rightarrow> failure + unit" where
  "validate_text bs =
     (if MAX_TEXT_BYTES < length bs then Inl (failure_new Status_TooLarge ''text_too_large'')
      else if \<not> utf8_valid bs then Inl (failure_new Status_InvalidContent ''text_invalid_utf8'')
      else if 0 \<in> set bs then Inl (failure_new Status_InvalidContent ''text_embedded_nul'')
      else Inr ())"

definition validate_dimensions :: "nat \<Rightarrow> nat \<Rightarrow> failure + unit" where
  "validate_dimensions width height =
     (if width = 0 \<or> height = 0 then Inl (failure_new Status_InvalidContent ''image_empty_dimension'')
      else if MAX_IMAGE_DIMENSION < width \<or> MAX_IMAGE_DIMENSION < height
      then Inl (failure_new Status_TooLarge ''image_edge_limit'')
      else if MAX_IMAGE_PIXELS < width * height
      then Inl (failure_new Status_TooLarge ''image_area_limit'')
      else Inr ())"

definition reject_non_still_content :: "'i image_lib \<Rightarrow> image_format \<Rightarrow> u8 list \<Rightarrow> failure + unit" where
  "reject_non_still_content lib fmt bs =
     (case fmt of
        Fmt_Png \<Rightarrow>
          (case png_decoder lib bs of
             None \<Rightarrow> Inl (failure_new Status_InvalidContent ''png_structure_invalid'')
           | Some (None, _, _) \<Rightarrow> Inl (failure_new Status_InvalidContent ''png_structure_invalid'')
           | Some (Some True, _, _) \<Rightarrow> Inl (failure_new Status_InvalidContent ''animated_png_rejected'')
           | Some (Some False, w, h) \<Rightarrow> validate_dimensions w h)
      | Fmt_WebP \<Rightarrow>
          (case webp_decoder lib bs of
             None \<Rightarrow> Inl (failure_new Status_InvalidContent ''webp_structure_invalid'')
           | Some (animated, w, h) \<Rightarrow>
               if animated then Inl (failure_new Status_InvalidContent ''animated_webp_rejected'')
               else validate_dimensions w h)
      | Fmt_Tiff \<Rightarrow>
          (case tiff_decoder lib bs of
             None \<Rightarrow> Inl (failure_new Status_InvalidContent ''tiff_structure_invalid'')
           | Some (multi, dims) \<Rightarrow>
               if multi then Inl (failure_new Status_InvalidContent ''multi_page_tiff_rejected'')
               else (case dims of
                       None \<Rightarrow> Inl (failure_new Status_InvalidContent ''tiff_dimensions_invalid'')
                     | Some (w, h) \<Rightarrow> validate_dimensions w h))
      | _ \<Rightarrow> Inr ())"

text \<open>The output buffer of the encoder: it refuses the write that would pass its limit.\<close>

record bounded_writer =
  bw_bytes :: "u8 list"
  bw_limit :: nat
  bw_exceeded :: bool

definition bounded_writer_new :: "(nat \<Rightarrow> bool) \<Rightarrow> nat \<Rightarrow> failure + bounded_writer" where
  "bounded_writer_new alloc lim =
     then_ok (bail_if (\<not> alloc (min lim PIPE_CHUNK_BYTES))
       (failure_new Status_Internal ''memory_allocation'')) (\<lambda>_.
     Inr \<lparr>bw_bytes = [], bw_limit = lim, bw_exceeded = False\<rparr>)"

definition bounded_write ::
    "(nat \<Rightarrow> bool) \<Rightarrow> bounded_writer \<Rightarrow> u8 list \<Rightarrow> (io_error + nat) \<times> bounded_writer" where
  "bounded_write alloc w buf =
     (let new_length = length (bw_bytes w) + length buf
      in if 2 ^ 64 \<le> new_length then (Inl InvalidData, w\<lparr>bw_exceeded := True\<rparr>)
         else if bw_limit w < new_length then (Inl InvalidData, w\<lparr>bw_exceeded := True\<rparr>)
         else if \<not> alloc (length buf) then (Inl Io_Other, w)
         else (Inr (length buf), w\<lparr>bw_bytes := bw_bytes w @ buf\<rparr>))"

text \<open>An encoder that makes the writes \<open>chunks\<close> and stops at the first that fails.\<close>

fun encode_into ::
    "(nat \<Rightarrow> bool) \<Rightarrow> u8 list list \<Rightarrow> bool \<Rightarrow> bounded_writer \<Rightarrow> bool \<times> bounded_writer" where
  "encode_into alloc [] ok w = (ok, w)"
| "encode_into alloc (c # cs) ok w =
     (case bounded_write alloc w c of
        (Inl _, w') \<Rightarrow> (False, w')
      | (Inr _, w') \<Rightarrow> encode_into alloc cs ok w')"

definition canonical_image ::
    "'i worker_env \<Rightarrow> u8 list \<Rightarrow> image_format option \<Rightarrow> failure + u8 list" where
  "canonical_image env bs expected =
     (let lib = image_crate env in
      then_ok (deadline_check env At_Image_Start) (\<lambda>_.
      then_ok (bail_if (bs = []) (failure_new Status_InvalidContent ''image_empty'')) (\<lambda>_.
      then_ok (bail_if (MAX_IMAGE_BYTES < length bs) (failure_new Status_TooLarge ''image_source_too_large'')) (\<lambda>_.
      then_ok (ok_or (failure_new Status_InvalidContent ''image_format_invalid'') (guess_format lib bs)) (\<lambda>fmt.
      then_ok (bail_if (fmt \<notin> set SUPPORTED_IMAGE_FORMATS)
        (failure_new Status_UnsupportedMime ''image_format_unsupported'')) (\<lambda>_.
      then_ok (bail_if (expected \<noteq> None \<and> expected \<noteq> Some fmt)
        (failure_new Status_InvalidContent ''image_mime_mismatch'')) (\<lambda>_.
      then_ok (reject_non_still_content lib fmt bs) (\<lambda>_.
      then_ok (deadline_check env At_Image_Checked) (\<lambda>_.
      then_ok (ok_or (failure_new Status_InvalidContent ''image_dimensions_invalid'') (into_dimensions lib fmt bs)) (\<lambda>(w, h).
      then_ok (validate_dimensions w h) (\<lambda>_.
      then_ok (ok_or (failure_new Status_InvalidContent ''image_decode_failed'') (decode_image lib fmt bs)) (\<lambda>img.
      then_ok (bail_if (dimensions lib img \<noteq> (w, h))
        (failure_new Status_InvalidContent ''image_dimensions_changed'')) (\<lambda>_.
      then_ok (deadline_check env At_Image_Decoded) (\<lambda>_.
      then_ok (bounded_writer_new (alloc_ok env) MAX_IMAGE_BYTES) (\<lambda>out.
      let (encoded, out) = encode_into (alloc_ok env) (fst (png_encoder lib img)) (snd (png_encoder lib img)) out
      in then_ok (bail_if (bw_exceeded out) (failure_new Status_TooLarge ''canonical_png_too_large'')) (\<lambda>_.
         then_ok (bail_if (\<not> encoded) (failure_new Status_InvalidContent ''png_encode_failed'')) (\<lambda>_.
         then_ok (deadline_check env At_Image_Encoded) (\<lambda>_.
         Inr (bw_bytes out)))))))))))))))))))"

section \<open>The three operations\<close>

type_synonym prepared_copy = "u8 list \<times> string"

definition direct_probe :: "'i worker_env \<Rightarrow> failure + unit" where
  "direct_probe env =
     then_ok (deadline_check env At_Start) (\<lambda>_.
     then_ok (bail_if (\<not> primary_selection_supported env)
       (failure_new Status_ClipboardUnavailable ''wayland_clipboard_unavailable'')) (\<lambda>_.
     deadline_check env At_End))"

definition direct_prepare_put :: "'i worker_env \<Rightarrow> mime \<Rightarrow> u8 list \<Rightarrow> failure + prepared_copy" where
  "direct_prepare_put env m source =
     then_ok (deadline_check env At_Start) (\<lambda>_.
     then_ok
       (case m of
          Mime_Text \<Rightarrow> then_ok (validate_text source) (\<lambda>_. Inr (TEXT_MIME, source))
        | Mime_Png \<Rightarrow> then_ok (canonical_image env source (Some Fmt_Png)) (\<lambda>encoded. Inr (PNG_MIME, encoded))
        | Mime_None \<Rightarrow> Inl (failure_new Status_UnsupportedMime ''unsupported_wire_mime''))
       (\<lambda>(canonical_mime, canonical_bytes).
     then_ok (deadline_check env At_Canonical) (\<lambda>_.
     then_ok (bail_if (\<not> prepare_copy_ok env canonical_bytes canonical_mime)
       (failure_new Status_ClipboardUnavailable ''clipboard_ownership_failed'')) (\<lambda>_.
     then_ok (deadline_check env At_End) (\<lambda>_.
     Inr (canonical_bytes, canonical_mime))))))"

definition direct_get :: "'i worker_env \<Rightarrow> failure + (mime \<times> u8 list)" where
  "direct_get env =
     then_ok (deadline_check env At_Start) (\<lambda>_.
     then_ok (ok_or (failure_new Status_ClipboardUnavailable ''clipboard_offer_unavailable'')
       (mime_types_ordered env)) (\<lambda>offers.
     then_ok (deadline_check env At_Offers) (\<lambda>_.
     then_ok (validate_offer_metadata offers) (\<lambda>_.
     then_ok (ok_or (failure_new Status_UnsupportedMime ''clipboard_offer_unsupported'')
       (choose_offer offers)) (\<lambda>offer.
     then_ok (ok_or (failure_new Status_ClipboardUnavailable ''clipboard_read_unavailable'')
       (get_contents env (offer_mime offer))) (\<lambda>(pipe, actual_mime).
     then_ok (bail_if (actual_mime \<noteq> offer_mime offer)
       (failure_new Status_InvalidContent ''clipboard_mime_changed'')) (\<lambda>_.
     then_ok (bail_if (\<not> fd_ok env Fd_Cloexec) (failure_new Status_Internal ''pipe_cloexec'')) (\<lambda>_.
     then_ok (read_pipe_bounded env pipe (source_limit offer)) (\<lambda>raw.
     then_ok (deadline_check env At_Raw) (\<lambda>_.
     case offer_kind_of offer of
       Offer_Text \<Rightarrow> then_ok (validate_text raw) (\<lambda>_. Inr (Mime_Text, raw))
     | Offer_Image fmt \<Rightarrow>
         then_ok (canonical_image env raw (Some fmt)) (\<lambda>encoded. Inr (Mime_Png, encoded))))))))))))"

section \<open>The entry point\<close>

datatype worker_success = Success_Put prepared_copy | Success_Get mime "u8 list" | Success_Probe

text \<open>The result kind that answers a request kind; \<open>None\<close> is \<open>unreachable!()\<close>.\<close>

fun answer_kind :: "kind \<Rightarrow> kind option" where
  "answer_kind Kind_Put = Some Kind_PutResult"
| "answer_kind Kind_Get = Some Kind_GetResult"
| "answer_kind Kind_Probe = Some Kind_ProbeResult"
| "answer_kind _ = None"

definition worker_operation :: "'i worker_env \<Rightarrow> frame \<Rightarrow> (failure + worker_success) option" where
  "worker_operation env req =
     (case kind_of req of
        Kind_Put \<Rightarrow> Some (then_ok (direct_prepare_put env (mime_of req) (payload req)) (\<lambda>c. Inr (Success_Put c)))
      | Kind_Get \<Rightarrow> Some (then_ok (direct_get env) (\<lambda>(m, p). Inr (Success_Get m p)))
      | Kind_Probe \<Rightarrow> Some (then_ok (direct_probe env) (\<lambda>_. Inr Success_Probe))
      | _ \<Rightarrow> None)"

text \<open>\<open>Result::expect\<close>: \<open>None\<close> is the panic.\<close>

definition expect :: "'e + 'a \<Rightarrow> 'a option" where
  "expect r = (case r of Inr x \<Rightarrow> Some x | Inl _ \<Rightarrow> None)"

definition worker_response ::
    "kind \<Rightarrow> u8 list \<Rightarrow> failure + worker_success \<Rightarrow> (frame \<times> prepared_copy option) option" where
  "worker_response k n operation =
     (case operation of
        Inr (Success_Put owner) \<Rightarrow>
          map_option (\<lambda>f. (f, Some owner)) (expect (frame_result Kind_PutResult n Status_Ok Mime_None []))
      | Inr (Success_Get m p) \<Rightarrow>
          map_option (\<lambda>f. (f, None)) (expect (frame_result Kind_GetResult n Status_Ok m p))
      | Inr Success_Probe \<Rightarrow>
          map_option (\<lambda>f. (f, None)) (expect (frame_result Kind_ProbeResult n Status_Ok Mime_None []))
      | Inl failure \<Rightarrow>
          map_option (\<lambda>rk. (frame_error rk n (fail_status failure), None)) (answer_kind k))"

text \<open>
  How a worker ends: its exit code (\<open>None\<close> is a panic), its standard output, and the selection
  that it owned until then.
\<close>

record worker_end =
  exit_code :: "nat option"
  stdout :: writer
  served :: "prepared_copy option"

definition internal_worker_entrypoint ::
    "'i worker_env \<Rightarrow> bool \<Rightarrow> bool \<Rightarrow> bool \<Rightarrow> io_error \<Rightarrow> u8 list \<Rightarrow> writer \<Rightarrow> worker_end" where
  "internal_worker_entrypoint env limits_ok restore_ok serve_ok t stdin w =
     (if \<not> limits_ok then \<lparr>exit_code = Some 1, stdout = w, served = None\<rparr>
      else case read_frame t stdin of
        Inl _ \<Rightarrow> \<lparr>exit_code = Some 2, stdout = w, served = None\<rparr>
      | Inr (req, _) \<Rightarrow>
          if kind_of req \<notin> {Kind_Put, Kind_Get, Kind_Probe}
          then \<lparr>exit_code = Some 2, stdout = w, served = None\<rparr>
          else case worker_operation env req of
            None \<Rightarrow> \<lparr>exit_code = None, stdout = w, served = None\<rparr>
          | Some operation \<Rightarrow>
              (case worker_response (kind_of req) (nonce req) operation of
                 None \<Rightarrow> \<lparr>exit_code = None, stdout = w, served = None\<rparr>
               | Some (response, owner) \<Rightarrow>
                   (let (response, owner) =
                          (if owner \<noteq> None \<and> \<not> restore_ok
                           then (frame_error Kind_PutResult (nonce response) Status_Internal, None)
                           else (response, owner))
                    in case write_frame w response of
                         (Inl _, w') \<Rightarrow> \<lparr>exit_code = Some 1, stdout = w', served = None\<rparr>
                       | (Inr _, w') \<Rightarrow>
                           \<lparr>exit_code = Some (if owner \<noteq> None \<and> \<not> serve_ok then 1 else 0),
                            stdout = w', served = owner\<rparr>)))"

section \<open>Limits and offers\<close>

lemma set_rlimit_Inr [result_simps]:
  "set_rlimit allowed r l cat rl = (Inr u, rl') \<longleftrightarrow> allowed r l \<and> rl' = rl(r := l)"
  by (auto simp: set_rlimit_def)

lemma cap_worker_resource_Inr:
  assumes "cap_worker_resource allowed r cap cat rl = (Inr u, rl')"
  obtains n where "n \<le> cap" and "rl' = rl(r := \<lparr>current = Some n, maximum = Some n\<rparr>)"
proof (rule that)
  let ?n = "case maximum (rl r) of None \<Rightarrow> cap | Some m \<Rightarrow> min m cap"
  show "?n \<le> cap"
    by (simp split: option.splits)
  show "rl' = rl(r := \<lparr>current = Some ?n, maximum = Some ?n\<rparr>)"
    using assms by (simp add: cap_worker_resource_def result_simps Let_def)
qed

text \<open>
  A worker that starts its work has no core dumps, cannot write a file, is within the fixed
  bounds on descriptors, memory and processor time, and remembers the inherited processor limit so
  that a selection owner gets exactly that one back.
\<close>

lemma worker_limits_applied:
  assumes "apply_worker_limits d allowed rl = (Inr original, rl')"
  shows "rl' Res_Core = \<lparr>current = Some 0, maximum = Some 0\<rparr> \<and>
    rl' Res_Fsize = \<lparr>current = Some 0, maximum = Some 0\<rparr> \<and>
    (\<exists>n \<le> WORKER_OPEN_FILES. rl' Res_Nofile = \<lparr>current = Some n, maximum = Some n\<rparr>) \<and>
    (\<exists>n \<le> WORKER_ADDRESS_SPACE_BYTES. rl' Res_As = \<lparr>current = Some n, maximum = Some n\<rparr>) \<and>
    (\<exists>n \<le> WORKER_CPU_SECONDS. current (rl' Res_Cpu) = Some n) \<and>
    maximum (rl' Res_Cpu) = maximum (rl Res_Cpu) \<and> original = rl Res_Cpu \<and>
    (prepare_for_persistent_owner allowed' original rl' = (Inr u, rl'') \<longrightarrow> rl'' Res_Cpu = rl Res_Cpu)"
proof -
  from assms obtain nof asp where
    caps: "nof \<le> WORKER_OPEN_FILES" "asp \<le> WORKER_ADDRESS_SPACE_BYTES"
    and rl': "rl' = rl(Res_Core := \<lparr>current = Some 0, maximum = Some 0\<rparr>,
      Res_Fsize := \<lparr>current = Some 0, maximum = Some 0\<rparr>,
      Res_Nofile := \<lparr>current = Some nof, maximum = Some nof\<rparr>,
      Res_As := \<lparr>current = Some asp, maximum = Some asp\<rparr>,
      Res_Cpu := \<lparr>current = Some (case maximum (rl Res_Cpu) of None \<Rightarrow> WORKER_CPU_SECONDS
                              | Some m \<Rightarrow> min m WORKER_CPU_SECONDS),
                  maximum = maximum (rl Res_Cpu)\<rparr>)"
    and original: "original = rl Res_Cpu"
    by (auto simp: apply_worker_limits_def result_simps Let_def elim!: cap_worker_resource_Inr)
  then show ?thesis
    by (auto simp: prepare_for_persistent_owner_def result_simps split: option.splits)
qed

theorem worker_limits_applied_witness:
  "current (snd (apply_worker_limits True (\<lambda>_ _. True)
     (\<lambda>_. \<lparr>current = Some 20, maximum = Some 4096\<rparr>)) Res_Nofile) = Some 64"
proof -
  let ?a = "apply_worker_limits True (\<lambda>_ _. True) (\<lambda>_. \<lparr>current = Some 20, maximum = Some 4096\<rparr>)"
  have a: "?a = (Inr \<lparr>current = Some 20, maximum = Some 4096\<rparr>, snd ?a)"
    by (simp add: apply_worker_limits_def set_rlimit_def cap_worker_resource_def Let_def)
  have "snd ?a Res_Core = \<lparr>current = Some 0, maximum = Some 0\<rparr>"
    using worker_limits_applied [OF a, of "\<lambda>_ _. True" "()" "snd ?a"] by simp
  then show ?thesis
    by (simp add: apply_worker_limits_def set_rlimit_def cap_worker_resource_def Let_def
        WORKER_OPEN_FILES_def)
qed

text \<open>What an offer has to be called to be taken for text.\<close>

definition offered_as :: "string list \<Rightarrow> string \<Rightarrow> bool" where
  "offered_as offers wanted \<longleftrightarrow> (\<exists>offered \<in> set offers. mime_eq offered wanted)"

lemma find_Some_in: "find P xs = Some x \<Longrightarrow> x \<in> set xs \<and> P x"
  by (metis find_Some_iff nth_mem)

lemma choose_text_None: "choose_text ws offers = None \<longleftrightarrow> (\<forall>w \<in> set ws. \<not> offered_as offers w)"
  by (induction ws) (auto simp: offered_as_def find_None_iff split: option.splits dest: find_Some_in)

lemma choose_text_Some:
  assumes "choose_text ws offers = Some sel"
  shows "offer_kind_of sel = Offer_Text \<and> offer_mime sel \<in> set offers \<and>
    (\<exists>us w vs. ws = us @ w # vs \<and> mime_eq (offer_mime sel) w \<and> (\<forall>u \<in> set us. \<not> offered_as offers u))"
  using assms
proof (induction ws)
  case (Cons w ws)
  show ?case
  proof (cases "find (\<lambda>offered. mime_eq offered w) offers")
    case None
    with Cons obtain us w' vs where "ws = us @ w' # vs" "mime_eq (offer_mime sel) w'"
      "\<forall>u \<in> set us. \<not> offered_as offers u" "offer_kind_of sel = Offer_Text" "offer_mime sel \<in> set offers"
      by auto
    moreover have "\<not> offered_as offers w"
      using None by (auto simp: find_None_iff offered_as_def)
    ultimately show ?thesis
      by (intro conjI exI [of _ "w # us"] exI [of _ w'] exI [of _ vs]) auto
  next
    case (Some offered)
    with Cons.prems find_Some_in [OF Some] show ?thesis
      by (intro conjI exI [of _ "[]"] exI [of _ w] exI [of _ ws]) auto
  qed
qed simp

lemma choose_image_Some:
  "choose_image offers = Some sel \<Longrightarrow>
   offer_mime sel \<in> set offers \<and> (\<exists>fmt. offer_kind_of sel = Offer_Image fmt \<and>
     image_format_for_mime (offer_mime sel) = Some fmt)"
  by (induction offers) (auto split: option.splits)

text \<open>
  The offer that is read is one of the compositor's own names; it is a text offer exactly when
  some text name is offered, and then it matches the first preference that is offered at all; an
  image is only taken under a name of its format.
\<close>

lemma choose_offer_preference:
  assumes "choose_offer offers = Some sel"
  shows "offer_mime sel \<in> set offers \<and>
    (offer_kind_of sel = Offer_Text \<longleftrightarrow> (\<exists>w \<in> set TEXT_PREFERENCE. offered_as offers w)) \<and>
    (case offer_kind_of sel of
       Offer_Text \<Rightarrow> \<exists>us w vs. TEXT_PREFERENCE = us @ w # vs \<and> mime_eq (offer_mime sel) w \<and>
                       (\<forall>u \<in> set us. \<not> offered_as offers u)
     | Offer_Image fmt \<Rightarrow> image_format_for_mime (offer_mime sel) = Some fmt)"
proof (cases "choose_text TEXT_PREFERENCE offers")
  case None
  with assms have "choose_image offers = Some sel"
    by (simp add: choose_offer_def)
  from choose_image_Some [OF this] None show ?thesis
    by (auto simp: choose_text_None)
next
  case (Some sel')
  with assms have "sel' = sel"
    by (simp add: choose_offer_def)
  moreover have "\<exists>w \<in> set TEXT_PREFERENCE. offered_as offers w"
    using Some choose_text_None [of TEXT_PREFERENCE offers] by auto
  ultimately show ?thesis
    using choose_text_Some [OF Some] by simp
qed

theorem choose_offer_preference_witness:
  "offer_mime \<lparr>offer_mime = ''TEXT/plain'', offer_kind_of = Offer_Text\<rparr> \<in> set [''image/png'', ''TEXT/plain'']"
proof -
  have "choose_offer [''image/png'', ''TEXT/plain''] =
    Some \<lparr>offer_mime = ''TEXT/plain'', offer_kind_of = Offer_Text\<rparr>"
    by code_simp
  from choose_offer_preference [OF this] show ?thesis
    by (rule conjunct1)
qed

section \<open>Reading, text and images\<close>

lemma deadline_check_Inr [simp]: "deadline_check env p = Inr u \<longleftrightarrow> \<not> expired env p"
  by (simp add: deadline_check_def)

text \<open>The data that the reads of a pipe deliver up to its end of file.\<close>

fun pipe_data :: "pipe_event list \<Rightarrow> u8 list" where
  "pipe_data [] = []"
| "pipe_data (Pipe_Data bs # evs) = (if bs = [] then [] else bs @ pipe_data evs)"
| "pipe_data (_ # evs) = pipe_data evs"

lemma read_pipe_loop_Inr:
  "read_pipe_loop env n lim acc evs = Inr out \<Longrightarrow> length acc \<le> lim \<Longrightarrow>
   out = acc @ pipe_data evs \<and> length out \<le> lim"
  by (induction env n lim acc evs rule: read_pipe_loop.induct)
    (auto simp: result_simps split: pipe_event.splits if_splits)

lemma read_pipe_bounded_Inr:
  "read_pipe_bounded env pipe lim = Inr out \<Longrightarrow> out = pipe_data pipe \<and> length out \<le> lim"
  unfolding read_pipe_bounded_def result_simps bail_if_eq_Inr
  using read_pipe_loop_Inr [of env 0 lim "[]" pipe out] by auto

lemma validate_text_Inr [result_simps]:
  "validate_text bs = Inr u \<longleftrightarrow> length bs \<le> MAX_TEXT_BYTES \<and> utf8_valid bs \<and> 0 \<notin> set bs"
  by (auto simp: validate_text_def)

lemma validate_dimensions_Inr [result_simps]:
  "validate_dimensions w h = Inr u \<longleftrightarrow>
   0 < w \<and> 0 < h \<and> w \<le> MAX_IMAGE_DIMENSION \<and> h \<le> MAX_IMAGE_DIMENSION \<and> w * h \<le> MAX_IMAGE_PIXELS"
  by (auto simp: validate_dimensions_def)

lemma bounded_write_limit:
  "bounded_write alloc w buf = (r, w') \<Longrightarrow> length (bw_bytes w) \<le> bw_limit w \<Longrightarrow>
   length (bw_bytes w') \<le> bw_limit w' \<and> bw_limit w' = bw_limit w"
  by (auto simp: bounded_write_def Let_def split: if_splits)

lemma encode_into_limit:
  "encode_into alloc cs ok w = (r, w') \<Longrightarrow> length (bw_bytes w) \<le> bw_limit w \<Longrightarrow>
   length (bw_bytes w') \<le> bw_limit w' \<and> bw_limit w' = bw_limit w"
proof (induction alloc cs ok w rule: encode_into.induct)
  case (2 alloc c cs ok w)
  obtain a w1 where b: "bounded_write alloc w c = (a, w1)"
    by (cases "bounded_write alloc w c")
  from bounded_write_limit [OF b "2.prems"(2)] "2.prems" b "2.IH" [OF b [symmetric]] show ?case
    by (auto split: sum.splits)
qed simp

lemma encode_into_ok:
  "encode_into alloc cs ok w = (True, w') \<Longrightarrow> ok \<and> bw_bytes w' = bw_bytes w @ concat cs"
  by (induction alloc cs ok w rule: encode_into.induct)
    (auto simp: bounded_write_def Let_def split: if_splits sum.splits prod.splits)

lemma canonical_image_Inr:
  assumes "canonical_image env bs expected = Inr out"
  obtains fmt w h img where
    "guess_format (image_crate env) bs = Some fmt" "fmt \<in> set SUPPORTED_IMAGE_FORMATS"
    "expected \<noteq> None \<Longrightarrow> expected = Some fmt" "reject_non_still_content (image_crate env) fmt bs = Inr ()"
    "decode_image (image_crate env) fmt bs = Some img" "dimensions (image_crate env) img = (w, h)"
    "validate_dimensions w h = Inr ()" "out = concat (fst (png_encoder (image_crate env) img))"
    "length out \<le> MAX_IMAGE_BYTES"
proof -
  let ?lib = "image_crate env"
  let ?enc = "\<lambda>img. encode_into (alloc_ok env) (fst (png_encoder ?lib img)) (snd (png_encoder ?lib img))
    \<lparr>bw_bytes = [], bw_limit = MAX_IMAGE_BYTES, bw_exceeded = False\<rparr>"
  from assms obtain fmt w h img where
    a: "guess_format ?lib bs = Some fmt" "fmt \<in> set SUPPORTED_IMAGE_FORMATS"
      "expected \<noteq> None \<Longrightarrow> expected = Some fmt" "reject_non_still_content ?lib fmt bs = Inr ()"
      "decode_image ?lib fmt bs = Some img" "dimensions ?lib img = (w, h)"
      "validate_dimensions w h = Inr ()"
    and "fst (?enc img)" and "out = bw_bytes (snd (?enc img))"
    by (auto simp: canonical_image_def Let_def then_ok_eq_Inr ok_or_eq_Inr bounded_writer_new_def
        case_prod_beta)
  then obtain bw where enc: "?enc img = (True, bw)" and out: "out = bw_bytes bw"
    by (metis prod.collapse)
  have "length (bw_bytes bw) \<le> MAX_IMAGE_BYTES"
    using encode_into_limit [OF enc] by simp
  moreover have "bw_bytes bw = concat (fst (png_encoder ?lib img))"
    using encode_into_ok [OF enc] by simp
  ultimately show ?thesis
    using that a out by simp
qed

text \<open>What a snapshot may be: valid text without NUL, or an encoded image, each within its limit.\<close>

fun content_ok :: "mime \<Rightarrow> u8 list \<Rightarrow> bool" where
  "content_ok Mime_Text p \<longleftrightarrow> length p \<le> MAX_TEXT_BYTES \<and> utf8_valid p \<and> 0 \<notin> set p"
| "content_ok Mime_Png p \<longleftrightarrow> length p \<le> MAX_IMAGE_BYTES"
| "content_ok Mime_None p \<longleftrightarrow> False"

lemma direct_get_Inr:
  assumes "direct_get env = Inr (m, p)"
  shows "\<exists>offers sel pipe raw. mime_types_ordered env = Some offers \<and> choose_offer offers = Some sel \<and>
    get_contents env (offer_mime sel) = Some (pipe, offer_mime sel) \<and>
    read_pipe_bounded env pipe (source_limit sel) = Inr raw \<and>
    (case offer_kind_of sel of
       Offer_Text \<Rightarrow> then_ok (validate_text raw) (\<lambda>_. Inr (Mime_Text, raw)) = Inr (m, p)
     | Offer_Image fmt \<Rightarrow>
         then_ok (canonical_image env raw (Some fmt)) (\<lambda>e. Inr (Mime_Png, e)) = Inr (m, p))"
proof -
  from assms obtain offers sel pipe raw where
    "mime_types_ordered env = Some offers" "choose_offer offers = Some sel"
    "get_contents env (offer_mime sel) = Some (pipe, offer_mime sel)"
    "read_pipe_bounded env pipe (source_limit sel) = Inr raw"
    "(case offer_kind_of sel of
       Offer_Text \<Rightarrow> then_ok (validate_text raw) (\<lambda>_. Inr (Mime_Text, raw))
     | Offer_Image fmt \<Rightarrow> then_ok (canonical_image env raw (Some fmt)) (\<lambda>e. Inr (Mime_Png, e))) = Inr (m, p)"
    by (auto simp: direct_get_def then_ok_eq_Inr ok_or_eq_Inr)
  then show ?thesis
    by (intro exI [of _ offers] exI [of _ sel] exI [of _ pipe] exI [of _ raw])
      (cases "offer_kind_of sel", auto)
qed

lemma direct_get_content:
  assumes "direct_get env = Inr (m, p)"
  shows "content_ok m p"
  using direct_get_Inr [OF assms]
proof (elim exE conjE)
  fix offers sel pipe raw
  assume "case offer_kind_of sel of
      Offer_Text \<Rightarrow> then_ok (validate_text raw) (\<lambda>_. Inr (Mime_Text, raw)) = Inr (m, p)
    | Offer_Image fmt \<Rightarrow>
        then_ok (canonical_image env raw (Some fmt)) (\<lambda>e. Inr (Mime_Png, e)) = Inr (m, p)"
  then show "content_ok m p"
    by (cases "offer_kind_of sel") (auto simp: then_ok_eq_Inr validate_text_Inr elim: canonical_image_Inr)
qed

lemma direct_prepare_put_content:
  "direct_prepare_put env m src = Inr (bs, name) \<Longrightarrow>
   canonical m = Some name \<and> content_ok m bs \<and>
   (m = Mime_Text \<longrightarrow> bs = src) \<and> (m = Mime_Png \<longrightarrow> canonical_image env src (Some Fmt_Png) = Inr bs)"
  by (cases m) (auto simp: direct_prepare_put_def then_ok_eq_Inr validate_text_Inr
      elim: canonical_image_Inr)

section \<open>The worker answers\<close>

text \<open>
  A snapshot that the worker takes from the compositor is text within 8 MiB that is valid UTF-8
  without NUL and exactly what the source wrote, or an image within 64 MiB that the PNG encoder
  produced from a still picture of admissible size; anything else is a failure.
\<close>

lemma direct_get_snapshot:
  assumes "direct_get env = Inr (m, p)"
  shows "\<exists>offers sel pipe. mime_types_ordered env = Some offers \<and> choose_offer offers = Some sel \<and>
    get_contents env (offer_mime sel) = Some (pipe, offer_mime sel) \<and>
    length (pipe_data pipe) \<le> source_limit sel \<and>
    (case offer_kind_of sel of
       Offer_Text \<Rightarrow> m = Mime_Text \<and> p = pipe_data pipe \<and> length p \<le> MAX_TEXT_BYTES \<and>
         utf8_valid p \<and> 0 \<notin> set p
     | Offer_Image fmt \<Rightarrow> m = Mime_Png \<and> length p \<le> MAX_IMAGE_BYTES \<and>
         (\<exists>img w h. decode_image (image_crate env) fmt (pipe_data pipe) = Some img \<and>
            p = concat (fst (png_encoder (image_crate env) img)) \<and>
            dimensions (image_crate env) img = (w, h) \<and> 0 < w \<and> w \<le> 8192 \<and> 0 < h \<and> h \<le> 8192))"
proof -
  from assms obtain offers sel pipe raw where
    o: "mime_types_ordered env = Some offers" "choose_offer offers = Some sel"
      "get_contents env (offer_mime sel) = Some (pipe, offer_mime sel)"
      "read_pipe_bounded env pipe (source_limit sel) = Inr raw"
    and k: "case offer_kind_of sel of
        Offer_Text \<Rightarrow> then_ok (validate_text raw) (\<lambda>_. Inr (Mime_Text, raw)) = Inr (m, p)
      | Offer_Image fmt \<Rightarrow>
          then_ok (canonical_image env raw (Some fmt)) (\<lambda>e. Inr (Mime_Png, e)) = Inr (m, p)"
    using direct_get_Inr by blast
  have raw: "raw = pipe_data pipe" "length raw \<le> source_limit sel"
    using read_pipe_bounded_Inr [OF o(4)] by auto
  show ?thesis
  proof (cases "offer_kind_of sel")
    case Offer_Text
    with k o raw show ?thesis
      by (auto simp: then_ok_eq_Inr validate_text_Inr)
  next
    case (Offer_Image fmt)
    with k have m: "m = Mime_Png" "canonical_image env raw (Some fmt) = Inr p"
      by (auto simp: then_ok_eq_Inr)
    from m(2) show ?thesis
    proof (rule canonical_image_Inr)
      fix fmt' w h img
      assume "Some fmt \<noteq> None \<Longrightarrow> Some fmt = Some fmt'"
        and "decode_image (image_crate env) fmt' raw = Some img" "dimensions (image_crate env) img = (w, h)"
          "validate_dimensions w h = Inr ()" "p = concat (fst (png_encoder (image_crate env) img))"
          "length p \<le> MAX_IMAGE_BYTES"
      then show ?thesis
        using Offer_Image m(1) o raw
        by (auto simp: validate_dimensions_Inr MAX_IMAGE_DIMENSION_def)
    qed
  qed
qed

lemma content_ok_shape:
  "content_ok m p \<Longrightarrow> frame_result Kind_GetResult n Status_Ok m p =
     Inr \<lparr>kind_of = Kind_GetResult, mime_of = m, status_of = Status_Ok, nonce = n, payload = p\<rparr>"
  by (cases m) (auto simp: frame_result_def validate_shape_def MAX_TEXT_BYTES_def MAX_IMAGE_BYTES_def)

lemma empty_result_shape:
  "k \<in> {Kind_PutResult, Kind_ProbeResult} \<Longrightarrow> frame_result k n Status_Ok Mime_None [] =
     Inr \<lparr>kind_of = k, mime_of = Mime_None, status_of = Status_Ok, nonce = n, payload = []\<rparr>"
  by (auto simp: frame_result_def validate_shape_def)

definition example_env :: "unit worker_env" where
  "example_env = \<lparr>expired = (\<lambda>_. False), alloc_ok = (\<lambda>_. True), fd_ok = (\<lambda>_. True),
     primary_selection_supported = True, mime_types_ordered = Some [''UTF8_STRING''],
     get_contents = (\<lambda>m. Some ([Pipe_Data [72], Pipe_WouldBlock, Pipe_Data [105]], m)),
     prepare_copy_ok = (\<lambda>_ _. True),
     image_crate = \<lparr>guess_format = (\<lambda>_. None), png_decoder = (\<lambda>_. None), webp_decoder = (\<lambda>_. None),
       tiff_decoder = (\<lambda>_. None), into_dimensions = (\<lambda>_ _. None), decode_image = (\<lambda>_ _. None),
       dimensions = (\<lambda>_. (0, 0)), png_encoder = (\<lambda>_. ([], False))\<rparr>\<rparr>"

lemma example_choice:
  "choose_offer [''UTF8_STRING''] = Some \<lparr>offer_mime = ''UTF8_STRING'', offer_kind_of = Offer_Text\<rparr>"
  by code_simp

theorem direct_get_snapshot_witness:
  "direct_get example_env = Inr (Mime_Text, [72, 105]) \<and> mime_types_ordered example_env \<noteq> None"
proof -
  have "direct_get example_env = Inr (Mime_Text, [72, 105])"
    by (simp add: direct_get_def example_env_def deadline_check_def validate_offer_metadata_def
        metadata_bytes_def MAX_MIME_OFFERS_def MAX_MIME_METADATA_BYTES_def example_choice source_limit_def
        read_pipe_bounded_def MAX_TEXT_BYTES_def validate_text_def)
  with direct_get_snapshot [OF this] show ?thesis
    by auto
qed

lemma worker_operation_content:
  "worker_operation env req = Some (Inr (Success_Get m p)) \<Longrightarrow> content_ok m p"
  by (auto simp: worker_operation_def then_ok_eq_Inr direct_get_content split: kind.splits)

text \<open>No failure of the worker carries the status \<open>Ok\<close>.\<close>

named_theorems failure_intros \<open>operations that fail with an error status\<close>

definition fails_properly :: "failure + 'a \<Rightarrow> bool" where
  "fails_properly r \<longleftrightarrow> (\<forall>e. r = Inl e \<longrightarrow> fail_status e \<noteq> Status_Ok)"

lemma fails_properly_intros [failure_intros]:
  "fails_properly (Inr x)"
  "st \<noteq> Status_Ok \<Longrightarrow> fails_properly (Inl (failure_new st c))"
  "st \<noteq> Status_Ok \<Longrightarrow> fails_properly (bail_if b (failure_new st c))"
  "st \<noteq> Status_Ok \<Longrightarrow> fails_properly (ok_or (failure_new st c) o')"
  "fails_properly (deadline_check env p)"
  "fails_properly r \<Longrightarrow> (\<And>x. fails_properly (f x)) \<Longrightarrow> fails_properly (then_ok r f)"
  by (auto simp: fails_properly_def failure_new_def deadline_check_def failure_timeout_def
      result_simps)

lemma fails_properly_branches [failure_intros]:
  "fails_properly a \<Longrightarrow> fails_properly b \<Longrightarrow> fails_properly (if c then a else b)"
  "(\<And>x y. fails_properly (g x y)) \<Longrightarrow> fails_properly (case p of (x, y) \<Rightarrow> g x y)"
  "fails_properly a \<Longrightarrow> (\<And>x. fails_properly (h x)) \<Longrightarrow> fails_properly (case v of None \<Rightarrow> a | Some x \<Rightarrow> h x)"
  by (auto split: prod.splits option.splits)

lemma validations_fail_properly [failure_intros]:
  "fails_properly (validate_text bs)"
  "fails_properly (validate_dimensions w h)"
  "fails_properly (validate_offer_metadata offers)"
  "fails_properly (bounded_writer_new alloc lim)"
  unfolding validate_text_def validate_dimensions_def validate_offer_metadata_def bounded_writer_new_def
  by (intro failure_intros; simp)+

lemma reject_non_still_fails_properly [failure_intros]: "fails_properly (reject_non_still_content lib fmt bs)"
proof -
  have "fails_properly (case o' of None \<Rightarrow> a | Some True \<Rightarrow> b | Some False \<Rightarrow> c)"
    if "fails_properly a" "fails_properly b" "fails_properly c" for o' and a b c :: "failure + unit"
    using that by (auto split: option.splits bool.splits)
  then show ?thesis
    unfolding reject_non_still_content_def
    by (cases fmt) (auto intro!: failure_intros split: option.splits bool.splits)
qed

lemma read_pipe_fails_properly [failure_intros]: "fails_properly (read_pipe_loop env n lim acc evs)"
proof (induction env n lim acc evs rule: read_pipe_loop.induct)
  case (2 env n lim acc ev evs)
  then show ?case
    by (cases ev) (auto intro!: failure_intros)
qed (auto intro!: failure_intros)

lemma worker_steps_fail_properly [failure_intros]:
  "fails_properly (canonical_image env bs expected)"
  "fails_properly (read_pipe_bounded env pipe lim)"
  "fails_properly (direct_probe env)"
  unfolding canonical_image_def read_pipe_bounded_def direct_probe_def Let_def
  by (intro failure_intros; simp)+

lemma offer_fails_properly [failure_intros]:
  "fails_properly a \<Longrightarrow> (\<And>fmt. fails_properly (b fmt)) \<Longrightarrow>
   fails_properly (case k of Offer_Text \<Rightarrow> a | Offer_Image fmt \<Rightarrow> b fmt)"
  by (cases k) auto

lemma direct_fail_properly [failure_intros]:
  "fails_properly (direct_prepare_put env m src)"
  "fails_properly (direct_get env)"
  unfolding direct_prepare_put_def direct_get_def
   apply (cases m)
  by (auto intro!: failure_intros)

lemma worker_operation_fails_properly:
  "worker_operation env req = Some r \<Longrightarrow> fails_properly r"
  by (auto simp: worker_operation_def intro!: failure_intros split: kind.splits)

text \<open>Every request gets a well-formed answer of its own kind and nonce.\<close>

lemma worker_response_ok:
  assumes op: "worker_operation env req = Some operation" and n: "length (nonce req) = 16"
  obtains response owner where
    "worker_response (kind_of req) (nonce req) operation = Some (response, owner)"
    "frame_ok response" "nonce response = nonce req"
    "answer_kind (kind_of req) = Some (kind_of response)"
    "\<And>c. owner = Some c \<longleftrightarrow> operation = Inr (Success_Put c)"
    "status_of response = Status_Ok \<longleftrightarrow> is_ok operation"
    "\<And>m p. operation = Inr (Success_Get m p) \<Longrightarrow> mime_of response = m \<and> payload response = p"
proof (cases operation)
  case (Inl e)
  have st: "fail_status e \<noteq> Status_Ok"
    using worker_operation_fails_properly [OF op] Inl by (simp add: fails_properly_def)
  obtain rk where rk: "answer_kind (kind_of req) = Some rk"
    using op by (cases "kind_of req") (auto simp: worker_operation_def)
  then have "rk \<in> {Kind_PutResult, Kind_GetResult, Kind_ProbeResult}"
    by (cases "kind_of req") auto
  then have "frame_ok (frame_error rk (nonce req) (fail_status e))"
    using n st by (intro constructed_frames_ok(3))
  then show ?thesis
    using that [of "frame_error rk (nonce req) (fail_status e)" None] Inl rk st
    by (simp add: worker_response_def frame_error_def)
next
  case (Inr s)
  show ?thesis
  proof (cases s)
    case (Success_Put c)
    let ?f = "\<lparr>kind_of = Kind_PutResult, mime_of = Mime_None, status_of = Status_Ok, nonce = nonce req, payload = []\<rparr>"
    have "kind_of req = Kind_Put"
      using op Inr Success_Put by (auto simp: worker_operation_def then_ok_eq_Inr split: kind.splits)
    moreover have "frame_ok ?f"
      using n by (simp add: frame_ok_def validate_shape_iff)
    ultimately show ?thesis
      using that [of ?f "Some c"] Inr Success_Put
      by (simp add: worker_response_def empty_result_shape expect_def)
  next
    case (Success_Get m p)
    let ?f = "\<lparr>kind_of = Kind_GetResult, mime_of = m, status_of = Status_Ok, nonce = nonce req, payload = p\<rparr>"
    have c: "content_ok m p"
      using op Inr Success_Get worker_operation_content by simp
    moreover have "kind_of req = Kind_Get"
      using op Inr Success_Get by (auto simp: worker_operation_def then_ok_eq_Inr split: kind.splits)
    moreover have "frame_ok ?f"
      using n content_ok_shape [OF c] constructed_frames_ok(5) by blast
    ultimately show ?thesis
      using that [of ?f None] Inr Success_Get
      by (simp add: worker_response_def content_ok_shape expect_def)
  next
    case Success_Probe
    let ?f = "\<lparr>kind_of = Kind_ProbeResult, mime_of = Mime_None, status_of = Status_Ok, nonce = nonce req, payload = []\<rparr>"
    have "kind_of req = Kind_Probe"
      using op Inr Success_Probe by (auto simp: worker_operation_def then_ok_eq_Inr split: kind.splits)
    moreover have "frame_ok ?f"
      using n by (simp add: frame_ok_def validate_shape_iff)
    ultimately show ?thesis
      using that [of ?f None] Inr Success_Probe
      by (simp add: worker_response_def empty_result_shape expect_def)
  qed
qed

section \<open>What a worker run does\<close>

lemma entry_without_request:
  assumes "\<not> limits \<or> (\<forall>req rest. read_frame t stdin = Inr (req, rest) \<longrightarrow>
    kind_of req \<notin> {Kind_Put, Kind_Get, Kind_Probe})"
  shows "internal_worker_entrypoint env limits restore serve t stdin w =
    \<lparr>exit_code = Some (if limits then 2 else 1), stdout = w, served = None\<rparr>"
  using assms by (cases "read_frame t stdin") (auto simp: internal_worker_entrypoint_def)

lemma entry_with_request:
  assumes "limits" "read_frame t stdin = Inr (req, rest)" "kind_of req \<in> {Kind_Put, Kind_Get, Kind_Probe}"
  obtains operation response owner sent where "worker_operation env req = Some operation"
    and "frame_ok sent" "nonce sent = nonce req" "answer_kind (kind_of req) = Some (kind_of sent)"
    and "owner \<noteq> None \<Longrightarrow> operation = Inr (Success_Put (the owner))"
    and "status_of sent = Status_Ok \<Longrightarrow> is_ok operation"
    and "\<And>c. status_of sent = Status_Ok \<Longrightarrow> operation = Inr (Success_Put c) \<Longrightarrow> owner = Some c"
    and "\<And>m p. operation = Inr (Success_Get m p) \<Longrightarrow> mime_of sent = m \<and> payload sent = p"
    and "internal_worker_entrypoint env limits restore serve t stdin w =
      (case write_frame w sent of
         (Inl _, w') \<Rightarrow> \<lparr>exit_code = Some 1, stdout = w', served = None\<rparr>
       | (Inr _, w') \<Rightarrow> \<lparr>exit_code = Some (if owner \<noteq> None \<and> \<not> serve then 1 else 0),
           stdout = w', served = owner\<rparr>)"
proof -
  have n: "length (nonce req) = 16"
    using assms(2) by (simp add: frames.dec_iff frame_ok_def)
  obtain operation where op: "worker_operation env req = Some operation"
    using assms(3) by (auto simp: worker_operation_def)
  obtain response owner where resp:
    "worker_response (kind_of req) (nonce req) operation = Some (response, owner)"
    "frame_ok response" "nonce response = nonce req" "answer_kind (kind_of req) = Some (kind_of response)"
    and own: "\<And>c. owner = Some c \<longleftrightarrow> operation = Inr (Success_Put c)"
    and st: "status_of response = Status_Ok \<longleftrightarrow> is_ok operation"
    and content: "\<And>m p. operation = Inr (Success_Get m p) \<Longrightarrow> mime_of response = m \<and> payload response = p"
    by (rule worker_response_ok [OF op n]) (rule that)
  show ?thesis
  proof (cases "owner \<noteq> None \<and> \<not> restore")
    case True
    then have put: "kind_of req = Kind_Put"
      using own op by (auto simp: worker_operation_def then_ok_eq_Inr split: kind.splits)
    let ?sent = "frame_error Kind_PutResult (nonce req) Status_Internal"
    show ?thesis
    proof (rule that)
      show "worker_operation env req = Some operation"
        by (rule op)
      show "frame_ok ?sent" "nonce ?sent = nonce req" "answer_kind (kind_of req) = Some (kind_of ?sent)"
        using n put constructed_frames_ok(3) [of "nonce req" Kind_PutResult Status_Internal]
        by (simp_all add: frame_error_def)
      show "status_of ?sent = Status_Ok \<Longrightarrow> is_ok operation"
        "\<And>c. status_of ?sent = Status_Ok \<Longrightarrow> operation = Inr (Success_Put c) \<Longrightarrow> None = Some c"
        by (simp_all add: frame_error_def)
      show "mime_of ?sent = m \<and> payload ?sent = p" if "operation = Inr (Success_Get m p)" for m p
        using True own that by auto
      show "internal_worker_entrypoint env limits restore serve t stdin w =
        (case write_frame w ?sent of
           (Inl _, w') \<Rightarrow> \<lparr>exit_code = Some 1, stdout = w', served = None\<rparr>
         | (Inr _, w') \<Rightarrow> \<lparr>exit_code = Some (if None \<noteq> (None :: prepared_copy option) \<and> \<not> serve then 1 else 0),
             stdout = w', served = None\<rparr>)"
        using True assms by (auto simp: internal_worker_entrypoint_def op resp(1,3))
    qed simp
  next
    case False
    show ?thesis
    proof (rule that [OF op resp(2-4)])
      show "owner \<noteq> None \<Longrightarrow> operation = Inr (Success_Put (the owner))"
        using own by (cases owner) auto
      show "status_of response = Status_Ok \<Longrightarrow> is_ok operation"
        using st by simp
      show "owner = Some c" if "operation = Inr (Success_Put c)" for c
        using own that by simp
      show "mime_of response = m \<and> payload response = p" if "operation = Inr (Success_Get m p)" for m p
        using content that by simp
      have "(owner \<noteq> None \<and> \<not> restore) = False"
        using False by simp
      then show "internal_worker_entrypoint env limits restore serve t stdin w =
        (case write_frame w response of
           (Inl _, w') \<Rightarrow> \<lparr>exit_code = Some 1, stdout = w', served = None\<rparr>
         | (Inr _, w') \<Rightarrow> \<lparr>exit_code = Some (if owner \<noteq> None \<and> \<not> serve then 1 else 0),
             stdout = w', served = owner\<rparr>)"
        unfolding internal_worker_entrypoint_def assms(2) using assms(1,3)
        by (simp only: sum.case prod.case op resp(1) option.case not_True_eq_False if_False Let_def)
    qed
  qed
qed

text \<open>
  C37. A worker never panics: whatever it reads, and however the compositor, the codecs, the clock
  and the kernel behave, both of its \<open>expect\<close> calls succeed. When it exits normally it has
  answered one request with one well-formed frame of that request's kind and nonce.
\<close>

theorem worker_answers:
  assumes "internal_worker_entrypoint env limits restore serve t stdin w = fin"
  shows "exit_code fin \<noteq> None \<and>
    (exit_code fin = Some 0 \<longrightarrow>
      (\<exists>req rest response. read_frame t stdin = Inr (req, rest) \<and>
        written (stdout fin) = written w @ frame_wire response \<and> frame_ok response \<and>
        answer_kind (kind_of req) = Some (kind_of response) \<and> nonce response = nonce req))"
proof (cases "limits \<and> (\<exists>req rest. read_frame t stdin = Inr (req, rest) \<and>
    kind_of req \<in> {Kind_Put, Kind_Get, Kind_Probe})")
  case False
  then have "fin = \<lparr>exit_code = Some (if limits then 2 else 1), stdout = w, served = None\<rparr>"
    using entry_without_request [of limits t stdin env restore serve w] assms by blast
  then show ?thesis
    by simp
next
  case True
  then obtain req rest where lim: limits and req: "read_frame t stdin = Inr (req, rest)"
    and k: "kind_of req \<in> {Kind_Put, Kind_Get, Kind_Probe}"
    by blast
  from lim req k show ?thesis
  proof (rule entry_with_request [where env = env and restore = restore and serve = serve and w = w])
    fix operation owner sent
    assume sent: "frame_ok sent" "nonce sent = nonce req" "answer_kind (kind_of req) = Some (kind_of sent)"
      and run: "internal_worker_entrypoint env limits restore serve t stdin w =
        (case write_frame w sent of
           (Inl _, w') \<Rightarrow> \<lparr>exit_code = Some 1, stdout = w', served = None\<rparr>
         | (Inr _, w') \<Rightarrow> \<lparr>exit_code = Some (if owner \<noteq> None \<and> \<not> serve then 1 else 0),
             stdout = w', served = owner\<rparr>)"
    obtain r w' where wr: "write_frame w sent = (r, w')"
      by (cases "write_frame w sent")
    show ?thesis
    proof (cases r)
      case (Inl e)
      then show ?thesis
        using run wr assms by auto
    next
      case (Inr u)
      then have "written w' = written w @ frame_wire sent"
        using write_frame_sent [OF wr] by auto
      then show ?thesis
        using run wr assms Inr req sent by auto
    qed
  qed
qed

text \<open>
  The only bytes that a worker ever serves as a selection are those of the put it was sent: the
  text itself, valid and within its limit, or the canonical encoding of the picture.
\<close>

lemma worker_serves_only_the_put:
  assumes "served (internal_worker_entrypoint env limits restore serve t stdin w) = Some (bs, name)"
  shows "\<exists>req rest. read_frame t stdin = Inr (req, rest) \<and> kind_of req = Kind_Put \<and>
    canonical (mime_of req) = Some name \<and> length bs \<le> payload_limit (mime_of req) \<and>
    (if mime_of req = Mime_Text then bs = payload req \<and> utf8_valid bs \<and> 0 \<notin> set bs
     else canonical_image env (payload req) (Some Fmt_Png) = Inr bs)"
proof (cases "limits \<and> (\<exists>req rest. read_frame t stdin = Inr (req, rest) \<and>
    kind_of req \<in> {Kind_Put, Kind_Get, Kind_Probe})")
  case False
  then have "internal_worker_entrypoint env limits restore serve t stdin w =
      \<lparr>exit_code = Some (if limits then 2 else 1), stdout = w, served = None\<rparr>"
    by (intro entry_without_request) blast
  then show ?thesis
    using assms by simp
next
  case True
  then obtain req rest where lim: limits and req: "read_frame t stdin = Inr (req, rest)"
    and k: "kind_of req \<in> {Kind_Put, Kind_Get, Kind_Probe}"
    by blast
  from lim req k show ?thesis
  proof (rule entry_with_request [where env = env and restore = restore and serve = serve and w = w])
    fix operation owner sent
    assume op: "worker_operation env req = Some operation"
      and own: "owner \<noteq> None \<Longrightarrow> operation = Inr (Success_Put (the owner))"
      and run: "internal_worker_entrypoint env limits restore serve t stdin w =
        (case write_frame w sent of
           (Inl _, w') \<Rightarrow> \<lparr>exit_code = Some 1, stdout = w', served = None\<rparr>
         | (Inr _, w') \<Rightarrow> \<lparr>exit_code = Some (if owner \<noteq> None \<and> \<not> serve then 1 else 0),
             stdout = w', served = owner\<rparr>)"
    from run assms have "owner = Some (bs, name)"
      by (auto split: prod.splits sum.splits)
    with own op have "kind_of req = Kind_Put"
        "direct_prepare_put env (mime_of req) (payload req) = Inr (bs, name)"
      by (auto simp: worker_operation_def then_ok_eq_Inr split: kind.splits)
    with direct_prepare_put_content [OF this(2)] show ?thesis
      using req by (cases "mime_of req") auto
  qed
qed

lemma example_run:
  "internal_worker_entrypoint example_env True True True UnexpectedEof (frame_wire example_put)
     \<lparr>written = [], room = 100, fault = TimedOut, can_flush = True\<rparr> =
   \<lparr>exit_code = Some 0,
    stdout = \<lparr>written = frame_wire \<lparr>kind_of = Kind_PutResult, mime_of = Mime_None, status_of = Status_Ok,
                nonce = replicate 16 66, payload = []\<rparr>, room = 64, fault = TimedOut, can_flush = True\<rparr>,
    served = Some ([72, 105], TEXT_MIME)\<rparr>"
proof -
  have ok: "frame_ok example_put"
    by (simp add: frame_ok_def example_put_shape) (simp add: example_put_def)
  have read: "read_frame UnexpectedEof (frame_wire example_put) = Inr (example_put, [])"
    using frames.dec_enc_exact [OF ok] .
  have "direct_prepare_put example_env Mime_Text [72, 105] = Inr ([72, 105], TEXT_MIME)"
    by (simp add: direct_prepare_put_def example_env_def deadline_check_def validate_text_def MAX_TEXT_BYTES_def)
  then show ?thesis
    unfolding internal_worker_entrypoint_def read
    by (simp add: worker_operation_def example_put_def worker_response_def empty_result_shape expect_def
        write_frame_def validate_shape_def write_all_def flush_def frame_wire_def frame_header_def)
qed

theorem worker_answers_witness:
  "exit_code (internal_worker_entrypoint example_env True True True UnexpectedEof (frame_wire example_put)
     \<lparr>written = [], room = 100, fault = TimedOut, can_flush = True\<rparr>) \<noteq> None"
  using worker_answers [OF example_run] by (simp add: example_run)

theorem worker_serves_only_the_put_witness:
  "\<exists>req rest. read_frame UnexpectedEof (frame_wire example_put) = Inr (req, rest) \<and> kind_of req = Kind_Put"
proof -
  have "served (internal_worker_entrypoint example_env True True True UnexpectedEof (frame_wire example_put)
     \<lparr>written = [], room = 100, fault = TimedOut, can_flush = True\<rparr>) = Some ([72, 105], TEXT_MIME)"
    by (simp add: example_run)
  from worker_serves_only_the_put [OF this] show ?thesis
    by blast
qed

end
