(* ===== verification/Clipboard_Agent.thy ===== *)
theory Clipboard_Agent
  imports Clipboard_Worker
begin

text \<open>
  The long-lived part of \<open>guest/clipboard-agent/src/lib.rs\<close>: the backend interface, the Wayland
  backend that runs every operation in a worker process, \<open>dispatch\<close> with its audit record, and
  \<open>serve_connection\<close>. The interface is the locale \<open>clipboard_backend\<close>; the Wayland backend is
  proved to provide it for any behaviour of the worker at the other end of its pipes.
\<close>

definition EXPECTED_HOST_PEER_UID :: nat where "EXPECTED_HOST_PEER_UID = 1000"
definition EXPECTED_HOST_PEER_GID :: nat where "EXPECTED_HOST_PEER_GID = 1000"
definition WORKER_NONCE :: "u8 list" where "WORKER_NONCE = bytes_of ''WB-CLIP-WORKER1!''"

lemma length_WORKER_NONCE [simp]: "length WORKER_NONCE = 16"
  by (simp add: WORKER_NONCE_def)

fun protocol_failure :: "protocol_error \<Rightarrow> failure" where
  "protocol_failure (PayloadTooLarge _ _) = failure_new Status_TooLarge ''frame_too_large''"
| "protocol_failure (Io e) =
     (if e \<in> {TimedOut, WouldBlock} then failure_timeout
      else failure_new Status_Internal ''frame_io'')"
| "protocol_failure _ = failure_new Status_InvalidRequest ''frame_invalid''"

section \<open>The backend interface\<close>

record 's backend =
  be_probe :: "'s \<Rightarrow> (failure + unit) \<times> 's"
  be_put :: "'s \<Rightarrow> mime \<Rightarrow> u8 list \<Rightarrow> (failure + nat) \<times> 's"
  be_get :: "'s \<Rightarrow> (failure + (mime \<times> u8 list)) \<times> 's"

text \<open>
  What the service relies on: failures carry an error status, and a snapshot that a backend hands
  over fits the frame that will carry it.
\<close>

locale clipboard_backend =
  fixes be :: "'s backend"
  assumes probe_fails: "fails_properly (fst (be_probe be s))"
    and put_fails: "fails_properly (fst (be_put be s m p))"
    and get_fails: "fails_properly (fst (be_get be s))"
    and get_fits: "fst (be_get be s) = Inr (m, p) \<Longrightarrow> m \<noteq> Mime_None \<and> length p \<le> payload_limit m"

section \<open>Dispatch\<close>

record audit =
  direction :: string
  audit_mime :: string
  audit_bytes :: nat
  audit_status :: status
  category :: string

definition audit_line :: "audit \<Rightarrow> string" where
  "audit_line a =
     ''clipboard-agent direction='' @ direction a @ '' mime='' @ audit_mime a @
     '' bytes='' @ show_dec (audit_bytes a) @ '' result='' @ status_name (audit_status a) @
     '' category='' @ category a"

text \<open>
  The outcome of \<open>dispatch\<close>: a panic of its \<open>expect\<close>, the \<open>None\<close> for a frame that is no request, or
  the response with its audit record.
\<close>

datatype dispatched = Panicked | Wrong_Direction | Replied frame audit

fun direction_of :: "kind \<Rightarrow> string option" where
  "direction_of Kind_Put = Some ''host_to_guest''"
| "direction_of Kind_Get = Some ''guest_to_host''"
| "direction_of Kind_Probe = Some ''probe''"
| "direction_of _ = None"

definition backend_operation ::
    "'s backend \<Rightarrow> 's \<Rightarrow> frame \<Rightarrow> (failure + (kind \<times> mime \<times> u8 list \<times> nat)) \<times> 's" where
  "backend_operation be s req =
     (case kind_of req of
        Kind_Put \<Rightarrow> io_then (be_put be s (mime_of req) (payload req)) id
                     (\<lambda>n s. (Inr (Kind_PutResult, Mime_None, [], n), s))
      | Kind_Get \<Rightarrow> io_then (be_get be s) id (\<lambda>(m, p) s. (Inr (Kind_GetResult, m, p, 0), s))
      | _ \<Rightarrow> io_then (be_probe be s) id (\<lambda>_ s. (Inr (Kind_ProbeResult, Mime_None, [], 0), s)))"

definition dispatch :: "'s backend \<Rightarrow> 's \<Rightarrow> frame \<Rightarrow> dispatched \<times> 's" where
  "dispatch be s req =
     (case direction_of (kind_of req) of
        None \<Rightarrow> (Wrong_Direction, s)
      | Some dir \<Rightarrow>
          (let name = (case canonical (mime_of req) of Some n \<Rightarrow> n | None \<Rightarrow> ''none'');
               request_bytes = length (payload req)
           in case backend_operation be s req of
                (Inr (response_kind, m, p, put_bytes), s') \<Rightarrow>
                  (let bytes = (if response_kind = Kind_GetResult then length p
                                else if response_kind = Kind_PutResult then put_bytes
                                else request_bytes);
                       am = (case canonical m of Some n \<Rightarrow> n | None \<Rightarrow> name)
                   in (case expect (frame_result response_kind (nonce req) Status_Ok m p) of
                         None \<Rightarrow> Panicked
                       | Some response \<Rightarrow>
                           Replied response \<lparr>direction = dir, audit_mime = am, audit_bytes = bytes,
                             audit_status = Status_Ok, category = ''ok''\<rparr>, s'))
              | (Inl failure, s') \<Rightarrow>
                  ((case answer_kind (kind_of req) of
                      None \<Rightarrow> Panicked
                    | Some response_kind \<Rightarrow>
                        Replied (frame_error response_kind (nonce req) (fail_status failure))
                          \<lparr>direction = dir, audit_mime = name, audit_bytes = request_bytes,
                           audit_status = fail_status failure, category = fail_category failure\<rparr>), s')))"

section \<open>One connection\<close>

definition peer_uid_allowed :: "nat \<Rightarrow> bool" where
  "peer_uid_allowed uid \<longleftrightarrow> uid = EXPECTED_HOST_PEER_UID"

text \<open>
  The accepted socket: whether its close-on-exec flag could be set, the peer's uid and gid if the
  kernel reports them, what the peer sends (and what reading reports after that), and the writer
  towards the peer.
\<close>

record connection =
  sock_cloexec_ok :: bool
  peer_creds :: "(nat \<times> nat) option"
  incoming :: "u8 list"
  incoming_end :: io_error
  outgoing :: writer

text \<open>How serving a connection ends: the result (\<open>None\<close> is a panic), the audit line if one was emitted, the writer and the backend.\<close>

record 's served_connection =
  result :: "(failure + unit) option"
  emitted :: "audit option"
  sent :: writer
  backend_state :: 's

definition serve_connection :: "'s backend \<Rightarrow> 's \<Rightarrow> connection \<Rightarrow> 's served_connection" where
  "serve_connection be s c =
     (let stop = (\<lambda>e. \<lparr>result = Some (Inl e), emitted = None, sent = outgoing c, backend_state = s\<rparr>)
      in if \<not> sock_cloexec_ok c then stop (failure_new Status_Internal ''socket_cloexec'')
         else case peer_creds c of
           None \<Rightarrow> stop (failure_new Status_InvalidRequest ''peer_credentials'')
         | Some (uid, gid) \<Rightarrow>
             if \<not> peer_uid_allowed uid \<or> gid \<noteq> EXPECTED_HOST_PEER_GID
             then stop (failure_new Status_InvalidRequest ''peer_uid'')
             else case read_frame (incoming_end c) (incoming c) of
               Inl e \<Rightarrow> stop (protocol_failure e)
             | Inr (request, _) \<Rightarrow>
                 (case dispatch be s request of
                    (Panicked, s') \<Rightarrow>
                      \<lparr>result = None, emitted = None, sent = outgoing c, backend_state = s'\<rparr>
                  | (Wrong_Direction, s') \<Rightarrow>
                      \<lparr>result = Some (Inl (failure_new Status_InvalidRequest ''wrong_direction'')),
                       emitted = None, sent = outgoing c, backend_state = s'\<rparr>
                  | (Replied response a, s') \<Rightarrow>
                      (case write_frame (outgoing c) response of
                         (Inr _, w) \<Rightarrow>
                           \<lparr>result = Some (Inr ()), emitted = Some a, sent = w, backend_state = s'\<rparr>
                       | (Inl e, w) \<Rightarrow>
                           \<lparr>result = Some (Inl (protocol_failure e)),
                            emitted = Some (a\<lparr>audit_status := fail_status (protocol_failure e),
                                              category := fail_category (protocol_failure e)\<rparr>),
                            sent = w, backend_state = s'\<rparr>)))"

section \<open>The Wayland backend\<close>

text \<open>
  A worker as the service sees it: the results of the calls that start it, its standard input (how
  much it takes before a write fails), what it writes on its standard output for what it was sent,
  and what reading reports at the end (\<open>TimedOut\<close> when the deadline passes).
\<close>

record worker_child =
  child_id :: nat
  child_exe_ok :: bool
  child_spawned :: bool
  child_has_stdin :: bool
  child_has_stdout :: bool
  child_cloexec :: "bool \<times> bool"
  child_getfl :: "bool \<times> bool"
  child_setfl :: "bool \<times> bool"
  child_stdin :: writer
  child_reply :: "u8 list \<Rightarrow> u8 list"
  child_end :: io_error

definition worker_spawn :: "worker_child \<Rightarrow> failure + worker_child" where
  "worker_spawn c =
     then_ok (bail_if (\<not> child_exe_ok c) (failure_new Status_Internal ''worker_executable'')) (\<lambda>_.
     then_ok (bail_if (\<not> child_spawned c) (failure_new Status_Internal ''worker_spawn'')) (\<lambda>_.
     then_ok (bail_if (\<not> child_has_stdin c) (failure_new Status_Internal ''worker_input'')) (\<lambda>_.
     then_ok (bail_if (\<not> child_has_stdout c) (failure_new Status_Internal ''worker_output'')) (\<lambda>_.
     then_ok (bail_if (\<not> fst (child_cloexec c)) (failure_new Status_Internal ''worker_cloexec'')) (\<lambda>_.
     then_ok (bail_if (\<not> snd (child_cloexec c)) (failure_new Status_Internal ''worker_cloexec'')) (\<lambda>_.
     Inr c))))))"

definition set_nonblocking :: "bool \<Rightarrow> bool \<Rightarrow> failure + unit" where
  "set_nonblocking getfl_ok setfl_ok =
     then_ok (bail_if (\<not> getfl_ok) (failure_new Status_Internal ''pipe_flags'')) (\<lambda>_.
     bail_if (\<not> setfl_ok) (failure_new Status_Internal ''pipe_nonblocking''))"

definition worker_exchange :: "worker_child \<Rightarrow> frame \<Rightarrow> failure + frame" where
  "worker_exchange c request =
     then_ok (set_nonblocking (fst (child_getfl c)) (fst (child_setfl c))) (\<lambda>_.
     case write_frame (child_stdin c) request of
       (Inl e, _) \<Rightarrow> Inl (protocol_failure e)
     | (Inr _, w) \<Rightarrow>
         then_ok (set_nonblocking (snd (child_getfl c)) (snd (child_setfl c))) (\<lambda>_.
         then_ok (map_err protocol_failure (read_frame (child_end c)
           (child_reply c (drop (length (written (child_stdin c))) (written w))))) (\<lambda>(response, _).
         if nonce response \<noteq> WORKER_NONCE
         then Inl (failure_new Status_InvalidRequest ''worker_nonce'')
         else Inr response)))"

fun worker_status_failure :: "status \<Rightarrow> failure" where
  "worker_status_failure Status_Ok = failure_new Status_Internal ''worker_status_shape''"
| "worker_status_failure Status_InvalidRequest = failure_new Status_InvalidRequest ''worker_invalid_request''"
| "worker_status_failure Status_UnsupportedMime = failure_new Status_UnsupportedMime ''worker_unsupported_mime''"
| "worker_status_failure Status_TooLarge = failure_new Status_TooLarge ''worker_too_large''"
| "worker_status_failure Status_InvalidContent = failure_new Status_InvalidContent ''worker_invalid_content''"
| "worker_status_failure Status_ClipboardUnavailable =
     failure_new Status_ClipboardUnavailable ''worker_clipboard_unavailable''"
| "worker_status_failure Status_Timeout = failure_timeout"
| "worker_status_failure Status_Busy = failure_new Status_Busy ''worker_busy''"
| "worker_status_failure Status_Internal = failure_new Status_Internal ''worker_internal''"

definition validate_worker_response :: "frame \<Rightarrow> kind \<Rightarrow> mime \<Rightarrow> failure + unit" where
  "validate_worker_response response expected_kind expected_mime =
     (if kind_of response \<noteq> expected_kind
      then Inl (failure_new Status_InvalidRequest ''worker_response_kind'')
      else if status_of response \<noteq> Status_Ok then Inl (worker_status_failure (status_of response))
      else if mime_of response \<noteq> expected_mime
      then Inl (failure_new Status_InvalidContent ''worker_response_mime'')
      else Inr ())"

text \<open>
  The state of \<open>WaylandClipboard\<close> is the worker that owns the selection. The operating system
  supplies the next worker to be started and whether an owner is still running.
\<close>

record wayland_os =
  next_child :: worker_child
  running :: "nat \<Rightarrow> bool"

type_synonym wayland_clipboard = "nat option"

definition reap_finished_owner :: "wayland_os \<Rightarrow> wayland_clipboard \<Rightarrow> wayland_clipboard" where
  "reap_finished_owner os owner =
     (case owner of Some h \<Rightarrow> if \<not> running os h then None else Some h | None \<Rightarrow> None)"

definition wayland_probe :: "wayland_os \<Rightarrow> wayland_clipboard \<Rightarrow> (failure + unit) \<times> wayland_clipboard" where
  "wayland_probe os owner =
     (then_ok (worker_spawn (next_child os)) (\<lambda>c.
      then_ok (worker_exchange c (frame_probe WORKER_NONCE)) (\<lambda>response.
      validate_worker_response response Kind_ProbeResult Mime_None)),
      reap_finished_owner os owner)"

definition wayland_put ::
    "wayland_os \<Rightarrow> wayland_clipboard \<Rightarrow> mime \<Rightarrow> u8 list \<Rightarrow> (failure + nat) \<times> wayland_clipboard" where
  "wayland_put os owner m source =
     (if m \<notin> {Mime_Text, Mime_Png}
      then (Inl (failure_new Status_UnsupportedMime ''unsupported_wire_mime''), owner)
      else if payload_limit m < length source
      then (Inl (failure_new Status_TooLarge ''worker_request_too_large''), owner)
      else
        (let request = \<lparr>kind_of = Kind_Put, mime_of = m, status_of = Status_Ok,
                        nonce = WORKER_NONCE, payload = source\<rparr>
         in case then_ok (worker_spawn (next_child os)) (\<lambda>c.
                 then_ok (worker_exchange c request) (\<lambda>response.
                 validate_worker_response response Kind_PutResult Mime_None)) of
              Inl e \<Rightarrow> (Inl e, owner)
            | Inr _ \<Rightarrow> (Inr (length source), Some (child_id (next_child os)))))"

definition wayland_get ::
    "wayland_os \<Rightarrow> wayland_clipboard \<Rightarrow> (failure + (mime \<times> u8 list)) \<times> wayland_clipboard" where
  "wayland_get os owner =
     (then_ok (worker_spawn (next_child os)) (\<lambda>c.
      then_ok (worker_exchange c (frame_get WORKER_NONCE)) (\<lambda>response.
      then_ok (validate_worker_response response Kind_GetResult (mime_of response)) (\<lambda>_.
      if mime_of response \<notin> {Mime_Text, Mime_Png}
      then Inl (failure_new Status_UnsupportedMime ''worker_response_mime'')
      else Inr (mime_of response, payload response)))),
      reap_finished_owner os owner)"

definition wayland_backend :: "wayland_os \<Rightarrow> wayland_clipboard backend" where
  "wayland_backend os =
     \<lparr>be_probe = wayland_probe os, be_put = wayland_put os, be_get = wayland_get os\<rparr>"

section \<open>The Wayland backend keeps the contract\<close>

lemma protocol_failure_status [simp]: "fail_status (protocol_failure e) \<noteq> Status_Ok"
  by (cases e) (auto simp: failure_new_def failure_timeout_def)

lemma worker_status_failure_status [simp]: "fail_status (worker_status_failure st) \<noteq> Status_Ok"
  by (cases st) (auto simp: failure_new_def failure_timeout_def)

lemma mapped_failures [failure_intros]:
  "fails_properly (Inl (worker_status_failure st))"
  "fails_properly (Inl (protocol_failure e))"
  "fails_properly (map_err protocol_failure r)"
  by (auto simp: fails_properly_def map_err_def split: sum.splits)

lemma fails_properly_sum [failure_intros]:
  "(\<And>e. fails_properly (a e)) \<Longrightarrow> (\<And>x. fails_properly (b x)) \<Longrightarrow>
   fails_properly (case r of Inl e \<Rightarrow> a e | Inr x \<Rightarrow> b x)"
  by (cases r) auto

lemma agent_steps_fail_properly [failure_intros]:
  "fails_properly (worker_spawn c)"
  "fails_properly (set_nonblocking a b)"
  "fails_properly (validate_worker_response response k m)"
  "fails_properly (worker_exchange c request)"
  unfolding worker_spawn_def set_nonblocking_def validate_worker_response_def worker_exchange_def
  by (auto intro!: failure_intros)

lemma worker_exchange_Inr:
  assumes "worker_exchange c request = Inr response"
  shows "frame_ok response \<and> nonce response = WORKER_NONCE \<and>
    (\<exists>w rest. write_frame (child_stdin c) request = (Inr (), w) \<and>
      read_frame (child_end c) (child_reply c (drop (length (written (child_stdin c))) (written w))) =
        Inr (response, rest))"
  using assms
  by (auto simp: worker_exchange_def then_ok_eq_Inr map_err_eq_Inr frames.dec_iff
      split: prod.split_asm sum.split_asm if_splits)

lemma wayland_is_backend: "clipboard_backend (wayland_backend os)"
proof
  fix s m p
  show "fails_properly (fst (be_probe (wayland_backend os) s))"
    by (auto simp: wayland_backend_def wayland_probe_def intro!: failure_intros)
  show "fails_properly (fst (be_get (wayland_backend os) s))"
    by (auto simp: wayland_backend_def wayland_get_def intro!: failure_intros)
  have "fails_properly (then_ok (worker_spawn c) (\<lambda>c. then_ok (worker_exchange c f) (\<lambda>r.
      validate_worker_response r k Mime_None)))" for c f k
    by (auto intro!: failure_intros)
  then show "fails_properly (fst (be_put (wayland_backend os) s m p))"
    by (auto simp: wayland_backend_def wayland_put_def fails_properly_def Let_def failure_new_def
        split: sum.splits)
  assume "fst (be_get (wayland_backend os) s) = Inr (m, p)"
  then obtain c response where "worker_exchange c (frame_get WORKER_NONCE) = Inr response"
      "m = mime_of response" "p = payload response" "m \<in> {Mime_Text, Mime_Png}"
    by (auto simp: wayland_backend_def wayland_get_def then_ok_eq_Inr split: if_splits)
  then show "m \<noteq> Mime_None \<and> length p \<le> payload_limit m"
    using worker_exchange_Inr [of c] shape_within_limit by (auto simp: frame_ok_def)
qed

interpretation wayland: clipboard_backend "wayland_backend os" for os
  by (rule wayland_is_backend)

section \<open>What every backend's service does\<close>

context clipboard_backend
begin

lemma backend_operation_ok:
  assumes "backend_operation be s req = (Inr (rk, m, p, n), s')" and "direction_of (kind_of req) \<noteq> None"
  shows "answer_kind (kind_of req) = Some rk \<and> (\<forall>nn. length nn = 16 \<longrightarrow>
    (\<exists>f. frame_result rk nn Status_Ok m p = Inr f \<and> frame_ok f \<and>
      kind_of f = rk \<and> nonce f = nn \<and> mime_of f = m \<and> payload f = p \<and> status_of f = Status_Ok))"
proof -
  have "shape_allows rk Status_Ok m \<and> length p \<le> payload_limit m \<and> answer_kind (kind_of req) = Some rk"
    using assms get_fits [of s m p]
    by (cases "kind_of req") (auto simp: backend_operation_def io_then_def split: prod.splits sum.splits)
  moreover from this have "validate_shape \<lparr>kind_of = rk, mime_of = m, status_of = Status_Ok,
      nonce = nn, payload = p\<rparr> = Inr ()" for nn
    by (simp add: validate_shape_iff)
  ultimately show ?thesis
    by (simp add: frame_result_def frame_ok_def Let_def)
qed

lemma backend_operation_fails:
  "backend_operation be s req = (Inl e, s') \<Longrightarrow> fail_status e \<noteq> Status_Ok"
  using probe_fails [of s] put_fails [of s "mime_of req" "payload req"] get_fails [of s]
  by (cases "kind_of req")
    (auto simp: backend_operation_def io_then_def fails_properly_def split: prod.splits sum.splits)

lemma dispatch_replies:
  assumes n: "length (nonce req) = 16" and d: "direction_of (kind_of req) \<noteq> None"
  obtains response a s' where "dispatch be s req = (Replied response a, s')"
    and "frame_ok response" "nonce response = nonce req"
    and "answer_kind (kind_of req) = Some (kind_of response)" "audit_status a = status_of response"
proof -
  obtain dir where dir: "direction_of (kind_of req) = Some dir"
    using d by auto
  obtain r s' where op: "backend_operation be s req = (r, s')"
    by (cases "backend_operation be s req")
  show ?thesis
  proof (cases r)
    case (Inl e)
    obtain rk where rk: "answer_kind (kind_of req) = Some rk"
      using d by (cases "kind_of req") auto
    then have "rk \<in> {Kind_PutResult, Kind_GetResult, Kind_ProbeResult}"
      by (cases "kind_of req") auto
    then have "frame_ok (frame_error rk (nonce req) (fail_status e))"
      using n backend_operation_fails [of s req e s'] op Inl by (intro constructed_frames_ok(3)) auto
    moreover obtain a where "dispatch be s req = (Replied (frame_error rk (nonce req) (fail_status e)) a, s')"
        "audit_status a = fail_status e"
      using Inl op rk dir by (simp add: dispatch_def Let_def)
    ultimately show ?thesis
      using rk by (intro that [of "frame_error rk (nonce req) (fail_status e)" a s'])
        (simp_all add: frame_error_def)
  next
    case (Inr q)
    then obtain rk m p k where op': "backend_operation be s req = (Inr (rk, m, p, k), s')"
      using op by (cases q) auto
    obtain f where f: "frame_result rk (nonce req) Status_Ok m p = Inr f" "frame_ok f" "kind_of f = rk"
        "nonce f = nonce req" "status_of f = Status_Ok" "answer_kind (kind_of req) = Some rk"
      using backend_operation_ok [OF op' d] n by blast
    moreover obtain a where "dispatch be s req = (Replied f a, s')" "audit_status a = Status_Ok"
      using op' dir f(1) by (simp add: dispatch_def expect_def Let_def)
    ultimately show ?thesis
      by (intro that [of f a s']) simp_all
  qed
qed

lemma dispatch_ok:
  assumes "dispatch be s req = (Replied response a, s')" and "status_of response = Status_Ok"
  shows "\<exists>rk m p n. backend_operation be s req = (Inr (rk, m, p, n), s') \<and>
    mime_of response = m \<and> payload response = p"
proof -
  obtain r s1 where op: "backend_operation be s req = (r, s1)"
    by (cases "backend_operation be s req")
  show ?thesis
  proof (cases r)
    case (Inl e)
    then show ?thesis
      using assms op backend_operation_fails [of s req e s1]
      by (auto simp: dispatch_def frame_error_def Let_def split: option.split_asm)
  next
    case (Inr q)
    obtain rk m p n where q: "q = (rk, m, p, n)"
      by (cases q)
    then show ?thesis
      using assms op Inr
      by (auto simp: dispatch_def expect_def frame_result_def then_ok_def Let_def
          split: option.split_asm sum.split_asm)
  qed
qed

lemma serve_request:
  assumes "sock_cloexec_ok c" and "peer_creds c = Some (1000, 1000)"
    and "read_frame (incoming_end c) (incoming c) = Inr (req, rest)"
    and "direction_of (kind_of req) \<noteq> None"
  obtains response a s' r w where "dispatch be s req = (Replied response a, s')"
    and "frame_ok response" "nonce response = nonce req"
    and "answer_kind (kind_of req) = Some (kind_of response)"
    and "write_frame (outgoing c) response = (r, w)"
    and "result (serve_connection be s c) = Some (map_err protocol_failure r)"
    and "sent (serve_connection be s c) = w" and "backend_state (serve_connection be s c) = s'"
proof -
  have n: "length (nonce req) = 16"
    using assms(3) by (simp add: frames.dec_iff frame_ok_def)
  obtain response a s' where d: "dispatch be s req = (Replied response a, s')"
    and f: "frame_ok response" "nonce response = nonce req"
      "answer_kind (kind_of req) = Some (kind_of response)"
    by (rule dispatch_replies [OF n assms(4), of s]) (rule that)
  obtain r w where wr: "write_frame (outgoing c) response = (r, w)"
    by (cases "write_frame (outgoing c) response")
  show ?thesis
    using assms d wr
    by (intro that [OF d f wr]; cases r)
      (simp_all add: serve_connection_def Let_def peer_uid_allowed_def EXPECTED_HOST_PEER_UID_def
        EXPECTED_HOST_PEER_GID_def)
qed

lemma serve_refuses:
  assumes "\<not> sock_cloexec_ok c \<or> peer_creds c \<noteq> Some (1000, 1000) \<or>
    (\<forall>req rest. read_frame (incoming_end c) (incoming c) = Inr (req, rest) \<longrightarrow>
       direction_of (kind_of req) = None)"
  shows "sent (serve_connection be s c) = outgoing c \<and> backend_state (serve_connection be s c) = s \<and>
    emitted (serve_connection be s c) = None \<and> (\<exists>e. result (serve_connection be s c) = Some (Inl e))"
  using assms
  by (auto simp: serve_connection_def Let_def peer_uid_allowed_def EXPECTED_HOST_PEER_UID_def
      EXPECTED_HOST_PEER_GID_def dispatch_def split: option.splits sum.splits)

lemma serve_outcome:
  "result (serve_connection be s c) \<noteq> None \<and>
   (result (serve_connection be s c) = Some (Inr u) \<longrightarrow>
     (\<exists>req rest response. read_frame (incoming_end c) (incoming c) = Inr (req, rest) \<and>
       frame_ok response \<and> nonce response = nonce req \<and>
       answer_kind (kind_of req) = Some (kind_of response) \<and>
       written (sent (serve_connection be s c)) = written (outgoing c) @ frame_wire response))"
proof (cases "sock_cloexec_ok c \<and> peer_creds c = Some (1000, 1000) \<and>
    (\<exists>req rest. read_frame (incoming_end c) (incoming c) = Inr (req, rest) \<and>
       direction_of (kind_of req) \<noteq> None)")
  case False
  then show ?thesis
    using serve_refuses [of c s] by fastforce
next
  case True
  then obtain req rest where req: "read_frame (incoming_end c) (incoming c) = Inr (req, rest)"
    and d: "direction_of (kind_of req) \<noteq> None" and c: "sock_cloexec_ok c" "peer_creds c = Some (1000, 1000)"
    by blast
  from c req d show ?thesis
  proof (rule serve_request [of c req rest s])
    fix response a s' r w
    assume "frame_ok response" "nonce response = nonce req"
      "answer_kind (kind_of req) = Some (kind_of response)"
      and wr: "write_frame (outgoing c) response = (r, w)"
      and "result (serve_connection be s c) = Some (map_err protocol_failure r)"
        "sent (serve_connection be s c) = w"
    then show ?thesis
      using req write_frame_sent [OF wr] by (cases r) auto
  qed
qed

end

text \<open>
  C17. The service answers only the host's own user and group: for any other peer nothing is
  written, no audit line is emitted and the selection owner stays. Serving never panics, whatever
  the worker returns, and a connection served without error got exactly one well-formed answer to
  its request, of its kind and nonce.
\<close>

theorem agent_serves:
  assumes "serve_connection (wayland_backend os) owner c = out"
  shows "result out \<noteq> None \<and>
    (peer_creds c \<noteq> Some (1000, 1000) \<longrightarrow>
       sent out = outgoing c \<and> emitted out = None \<and> backend_state out = owner) \<and>
    (result out = Some (Inr ()) \<longrightarrow>
       (\<exists>req rest response. read_frame (incoming_end c) (incoming c) = Inr (req, rest) \<and>
         frame_ok response \<and> nonce response = nonce req \<and>
         answer_kind (kind_of req) = Some (kind_of response) \<and>
         written (sent out) = written (outgoing c) @ frame_wire response))"
  using assms wayland.serve_outcome [of os owner c "()"] wayland.serve_refuses [of c os owner] by auto

definition example_child :: worker_child where
  "example_child = \<lparr>child_id = 7, child_exe_ok = True, child_spawned = True, child_has_stdin = True,
     child_has_stdout = True, child_cloexec = (True, True), child_getfl = (True, True),
     child_setfl = (True, True),
     child_stdin = \<lparr>written = [], room = 200, fault = TimedOut, can_flush = True\<rparr>,
     child_reply = (\<lambda>stdin. written (stdout (internal_worker_entrypoint example_env True True True
       UnexpectedEof stdin \<lparr>written = [], room = 200, fault = TimedOut, can_flush = True\<rparr>))),
     child_end = TimedOut\<rparr>"

definition example_os :: wayland_os where
  "example_os = \<lparr>next_child = example_child, running = (\<lambda>_. True)\<rparr>"

definition example_connection :: connection where
  "example_connection = \<lparr>sock_cloexec_ok = True, peer_creds = Some (0, 0), incoming = frame_wire example_put,
     incoming_end = TimedOut,
     outgoing = \<lparr>written = [], room = 200, fault = TimedOut, can_flush = True\<rparr>\<rparr>"

theorem agent_serves_witness:
  "backend_state (serve_connection (wayland_backend example_os) (Some 3) example_connection) = Some 3"
proof -
  have "peer_creds example_connection \<noteq> Some (1000, 1000)"
    by (simp add: example_connection_def)
  then show ?thesis
    using agent_serves [OF refl, of example_os "Some 3" example_connection] by blast
qed

section \<open>Through the worker\<close>

lemma exchange_with_worker:
  assumes ex: "worker_exchange c request = Inr response"
    and reply: "child_reply c = (\<lambda>stdin. written (stdout
      (internal_worker_entrypoint env limits restore serve t stdin w0)))"
    and w0: "written w0 = []" and ok: "status_of response = Status_Ok"
    and n: "length (nonce request) = 16"
  obtains operation where "worker_operation env request = Some operation" "is_ok operation"
    and "\<And>cp. can_flush w0 \<Longrightarrow> operation = Inr (Success_Put cp) \<Longrightarrow>
      served (internal_worker_entrypoint env limits restore serve t (frame_wire request) w0) = Some cp"
    and "\<And>m p. operation = Inr (Success_Get m p) \<Longrightarrow> mime_of response = m \<and> payload response = p"
proof -
  let ?run = "internal_worker_entrypoint env limits restore serve t (frame_wire request) w0"
  obtain w rest where wr: "write_frame (child_stdin c) request = (Inr (), w)"
    and rd: "read_frame (child_end c) (child_reply c (drop (length (written (child_stdin c))) (written w))) =
        Inr (response, rest)"
    using worker_exchange_Inr [OF ex] by blast
  have req: "frame_ok request" and "drop (length (written (child_stdin c))) (written w) = frame_wire request"
    using write_frame_sent [OF wr] n by (auto simp: frame_ok_def)
  then have rd': "read_frame (child_end c) (written (stdout ?run)) = Inr (response, rest)"
    using rd reply by simp
  have t: "read_frame t (frame_wire request) = Inr (request, [])"
    using req by (rule frames.dec_enc_exact)
  have "read_frame (child_end c) [] \<noteq> Inr (response, rest)"
    by (simp add: frames.dec_iff)
  then have k: "limits \<and> kind_of request \<in> {Kind_Put, Kind_Get, Kind_Probe}"
  proof (rule contrapos_np)
    assume "\<not> (limits \<and> kind_of request \<in> {Kind_Put, Kind_Get, Kind_Probe})"
    then have "?run = \<lparr>exit_code = Some (if limits then 2 else 1), stdout = w0, served = None\<rparr>"
      using t by (intro entry_without_request) auto
    then show "read_frame (child_end c) [] = Inr (response, rest)"
      using rd' w0 by simp
  qed
  then have lim: limits and k': "kind_of request \<in> {Kind_Put, Kind_Get, Kind_Probe}"
    by blast+
  from lim t k' show ?thesis
  proof (rule entry_with_request [where env = env and restore = restore and serve = serve and w = w0])
    fix operation owner sent
    assume op: "worker_operation env request = Some operation" and sent: "frame_ok sent"
      and st: "status_of sent = Status_Ok \<Longrightarrow> is_ok operation"
      and put: "\<And>c. status_of sent = Status_Ok \<Longrightarrow> operation = Inr (Success_Put c) \<Longrightarrow> owner = Some c"
      and get: "\<And>m p. operation = Inr (Success_Get m p) \<Longrightarrow> mime_of sent = m \<and> payload sent = p"
      and run: "?run = (case write_frame w0 sent of
         (Inl _, w') \<Rightarrow> \<lparr>exit_code = Some 1, stdout = w', served = None\<rparr>
       | (Inr _, w') \<Rightarrow> \<lparr>exit_code = Some (if owner \<noteq> None \<and> \<not> serve then 1 else 0),
           stdout = w', served = owner\<rparr>)"
    obtain r w' where w': "write_frame w0 sent = (r, w')"
      by (cases "write_frame w0 sent")
    then have out: "stdout ?run = w'"
      using run by (auto split: sum.splits)
    have same: "response = sent" "written w' = frame_wire sent"
      using write_read_same [OF sent w' w0] rd' out by auto
    show ?thesis
    proof (rule that [OF op])
      show "is_ok operation"
        using st ok same by simp
      fix cp
      assume "can_flush w0" and cp: "operation = Inr (Success_Put cp)"
      then have "r = Inr ()"
        using sent same(2) w' w0 write_frame_complete by (auto simp: frame_ok_def)
      then show "served ?run = Some cp"
        using run w' put cp ok same by simp
    next
      fix m p
      assume "operation = Inr (Success_Get m p)"
      then show "mime_of response = m \<and> payload response = p"
        using get same by simp
    qed
  qed
qed

lemma put_through_worker:
  assumes put: "wayland_put os owner m source = (Inr n, owner')"
    and reply: "child_reply (next_child os) = (\<lambda>stdin. written (stdout
      (internal_worker_entrypoint env limits restore serve t stdin w0)))"
    and w0: "written w0 = []" "can_flush w0"
  obtains request bs name where "kind_of request = Kind_Put" "mime_of request = m" "payload request = source"
    and "served (internal_worker_entrypoint env limits restore serve t (frame_wire request) w0) =
      Some (bs, name)"
    and "canonical m = Some name" "m = Mime_Text \<Longrightarrow> bs = source"
    and "m = Mime_Png \<Longrightarrow> canonical_image env source (Some Fmt_Png) = Inr bs"
    and "n = length source" "owner' = Some (child_id (next_child os))"
proof -
  let ?req = "\<lparr>kind_of = Kind_Put, mime_of = m, status_of = Status_Ok, nonce = WORKER_NONCE, payload = source\<rparr>"
  from put obtain response where
    ex: "worker_exchange (next_child os) ?req = Inr response"
    and ok: "status_of response = Status_Ok" and n: "n = length source" "owner' = Some (child_id (next_child os))"
    by (auto simp: wayland_put_def then_ok_eq_Inr validate_worker_response_def worker_spawn_def
        split: if_splits sum.split_asm)
  show ?thesis
  proof (rule exchange_with_worker [OF ex reply w0(1) ok])
    show "length (nonce ?req) = 16"
      by simp
    fix operation
    assume op: "worker_operation env ?req = Some operation" "is_ok operation"
      and srv: "\<And>cp. can_flush w0 \<Longrightarrow> operation = Inr (Success_Put cp) \<Longrightarrow>
        served (internal_worker_entrypoint env limits restore serve t (frame_wire ?req) w0) = Some cp"
    then obtain bs name where p: "direct_prepare_put env m source = Inr (bs, name)"
      and "operation = Inr (Success_Put (bs, name))"
      by (auto simp: worker_operation_def is_ok_iff then_ok_eq_Inr)
    then show ?thesis
      using that [of ?req bs name] srv w0(2) n direct_prepare_put_content [OF p] by simp
  qed
qed

lemma get_through_worker:
  assumes get: "wayland_get os owner = (Inr (m, p), owner')"
    and reply: "child_reply (next_child os) = (\<lambda>stdin. written (stdout
      (internal_worker_entrypoint env limits restore serve t stdin w0)))"
    and w0: "written w0 = []"
  shows "direct_get env = Inr (m, p)"
proof -
  from get obtain response where
    ex: "worker_exchange (next_child os) (frame_get WORKER_NONCE) = Inr response"
    and ok: "status_of response = Status_Ok" and mp: "m = mime_of response" "p = payload response"
    by (auto simp: wayland_get_def then_ok_eq_Inr validate_worker_response_def worker_spawn_def
        split: if_splits)
  show ?thesis
  proof (rule exchange_with_worker [OF ex reply w0 ok])
    show "length (nonce (frame_get WORKER_NONCE)) = 16"
      by (simp add: frame_get_def frame_empty_def)
    fix operation
    assume op: "worker_operation env (frame_get WORKER_NONCE) = Some operation" "is_ok operation"
      and content: "\<And>m p. operation = Inr (Success_Get m p) \<Longrightarrow> mime_of response = m \<and> payload response = p"
    then obtain m' p' where g: "direct_get env = Inr (m', p')" "operation = Inr (Success_Get m' p')"
      by (auto simp: worker_operation_def is_ok_iff then_ok_eq_Inr frame_get_def frame_empty_def)
    then show ?thesis
      using content [OF g(2)] mp by simp
  qed
qed

end
