(* ===== verification/Clipboard_Host.thy ===== *)
theory Clipboard_Host
  imports Clipboard_Agent
begin

text \<open>
  The host side of the clipboard, \<open>host/crates/buzzardos-display/src/clipboard.rs\<close>: values and
  their validation, the raw-image format of the private image worker, the identity checks on the
  guest's endpoint, and the three one-shot transactions \<open>put\<close>, \<open>get\<close> and \<open>probe\<close>.
\<close>

text \<open>An \<open>anyhow::Error\<close>: a message of \<open>bail!\<close> or \<open>context\<close>, or a protocol error, with or without context.\<close>

datatype host_error = Bail string | Protocol protocol_error | Context string protocol_error

section \<open>Values\<close>

record decoded_image =
  img_width :: nat
  img_height :: nat
  img_stride :: nat
  img_rgba :: "u8 list"

datatype clipboard_value = Value_Text "u8 list" | Value_Png (encoded: "u8 list") (decoded: "decoded_image option")

fun value_mime :: "clipboard_value \<Rightarrow> mime" where
  "value_mime (Value_Text _) = Mime_Text"
| "value_mime (Value_Png _ _) = Mime_Png"

fun value_bytes :: "clipboard_value \<Rightarrow> u8 list" where
  "value_bytes (Value_Text bs) = bs"
| "value_bytes (Value_Png e _) = e"

fun install_decoded_image :: "clipboard_value \<Rightarrow> decoded_image \<Rightarrow> host_error + clipboard_value" where
  "install_decoded_image (Value_Png e None) img = Inr (Value_Png e (Some img))"
| "install_decoded_image (Value_Png e (Some _)) img = Inl (Bail ''clipboard image pixels were already installed'')"
| "install_decoded_image (Value_Text _) img = Inl (Bail ''plain text cannot carry decoded image pixels'')"

fun take_decoded_image :: "clipboard_value \<Rightarrow> decoded_image option \<times> clipboard_value" where
  "take_decoded_image (Value_Text bs) = (None, Value_Text bs)"
| "take_decoded_image (Value_Png e d) = (d, Value_Png e None)"

definition validated_text :: "u8 list \<Rightarrow> host_error + clipboard_value" where
  "validated_text bs =
     (if MAX_TEXT_BYTES < length bs
      then Inl (Bail (''plain text exceeds the '' @ show_dec (MAX_TEXT_BYTES div 1024 div 1024) @ '' MiB clipboard limit''))
      else if \<not> utf8_valid bs then Inl (Bail ''plain text is not valid UTF-8'')
      else if 0 \<in> set bs then Inl (Bail ''plain text contains an embedded NUL character'')
      else Inr (Value_Text bs))"

definition PNG_SIGNATURE :: "u8 list" where
  "PNG_SIGNATURE = [0x89, 0x50, 0x4e, 0x47, 0x0d, 0x0a, 0x1a, 0x0a]"

definition png_from_image_worker :: "u8 list \<Rightarrow> host_error + clipboard_value" where
  "png_from_image_worker e =
     (if e = [] \<or> MAX_IMAGE_BYTES < length e
      then Inl (Bail ''clipboard image worker returned an invalid PNG length'')
      else if take 8 e \<noteq> PNG_SIGNATURE
      then Inl (Bail ''clipboard image worker returned an invalid PNG signature'')
      else Inr (Value_Png e None))"

definition validate_canonical_value :: "mime \<Rightarrow> u8 list \<Rightarrow> host_error + clipboard_value" where
  "validate_canonical_value m p =
     (case m of
        Mime_Text \<Rightarrow> validated_text p
      | Mime_Png \<Rightarrow>
          if p = [] \<or> take 8 p \<noteq> PNG_SIGNATURE
          then Inl (Bail ''guest clipboard returned an invalid canonical PNG signature'')
          else Inr (Value_Png p None)
      | Mime_None \<Rightarrow> Inl (Bail ''clipboard response does not contain a supported value''))"

definition validate_image_dimensions :: "nat \<Rightarrow> nat \<Rightarrow> host_error + unit" where
  "validate_image_dimensions w h =
     (if w = 0 \<or> h = 0 then Inl (Bail ''clipboard image has an empty dimension'')
      else if MAX_IMAGE_DIMENSION < w \<or> MAX_IMAGE_DIMENSION < h
      then Inl (Bail (''clipboard image '' @ show_dec w @ ''x'' @ show_dec h @ '' exceeds the '' @
             show_dec MAX_IMAGE_DIMENSION @ ''-pixel edge limit''))
      else if MAX_IMAGE_PIXELS < w * h
      then Inl (Bail (''clipboard image contains '' @ show_dec (w * h) @ '' pixels, above the '' @
             show_dec MAX_IMAGE_PIXELS @ ''-pixel limit''))
      else Inr ())"

section \<open>The image worker\<close>

text \<open>What the host uses of the image crates beside the decoders.\<close>

record 'i host_image_lib = "'i image_lib" +
  to_rgba8 :: "'i \<Rightarrow> u8 list"
  rgba_encoder :: "u8 list \<Rightarrow> nat \<Rightarrow> nat \<Rightarrow> u8 list list \<times> bool"

definition host_reject_non_still_content :: "'i host_image_lib \<Rightarrow> image_format \<Rightarrow> u8 list \<Rightarrow> host_error + unit" where
  "host_reject_non_still_content lib fmt bs =
     (case fmt of
        Fmt_Png \<Rightarrow>
          (case png_decoder lib bs of
             None \<Rightarrow> Inl (Bail ''parsing clipboard PNG'')
           | Some (None, _, _) \<Rightarrow> Inl (Bail ''checking PNG animation metadata'')
           | Some (Some True, _, _) \<Rightarrow> Inl (Bail ''animated PNG clipboard content is not supported'')
           | Some (Some False, w, h) \<Rightarrow> validate_image_dimensions w h)
      | Fmt_WebP \<Rightarrow>
          (case webp_decoder lib bs of
             None \<Rightarrow> Inl (Bail ''parsing clipboard WebP'')
           | Some (animated, w, h) \<Rightarrow>
               if animated then Inl (Bail ''animated WebP clipboard content is not supported'')
               else validate_image_dimensions w h)
      | Fmt_Tiff \<Rightarrow>
          (case tiff_decoder lib bs of
             None \<Rightarrow> Inl (Bail ''parsing clipboard TIFF'')
           | Some (multi, dims) \<Rightarrow>
               if multi then Inl (Bail ''multi-page TIFF clipboard content is not supported'')
               else (case dims of
                       None \<Rightarrow> Inl (Bail ''reading clipboard TIFF dimensions'')
                     | Some (w, h) \<Rightarrow> validate_image_dimensions w h))
      | _ \<Rightarrow> Inr ())"

definition canonical_image_inner :: "'i host_image_lib \<Rightarrow> (nat \<Rightarrow> bool) \<Rightarrow> u8 list \<Rightarrow> bool \<Rightarrow> host_error + clipboard_value" where
  "canonical_image_inner lib alloc bs retain_decoded =
     then_ok (bail_if (bs = []) (Bail ''clipboard image is empty'')) (\<lambda>_.
     then_ok (bail_if (MAX_IMAGE_BYTES < length bs)
       (Bail (''source image exceeds the '' @ show_dec (MAX_IMAGE_BYTES div 1024 div 1024) @ '' MiB clipboard limit''))) (\<lambda>_.
     then_ok (ok_or (Bail ''clipboard image format is invalid'') (guess_format lib bs)) (\<lambda>fmt.
     then_ok (bail_if (fmt \<notin> set SUPPORTED_IMAGE_FORMATS) (Bail ''clipboard image format is not supported'')) (\<lambda>_.
     then_ok (host_reject_non_still_content lib fmt bs) (\<lambda>_.
     then_ok (ok_or (Bail ''reading clipboard image dimensions'') (into_dimensions lib fmt bs)) (\<lambda>(w, h).
     then_ok (validate_image_dimensions w h) (\<lambda>_.
     then_ok (ok_or (Bail ''decoding clipboard still image'') (decode_image lib fmt bs)) (\<lambda>img.
     then_ok (bail_if (dimensions lib img \<noteq> (w, h)) (Bail ''clipboard image dimensions changed during decode'')) (\<lambda>_.
     let rgba = to_rgba8 lib img;
         (ok, out) = encode_into alloc (fst (rgba_encoder lib rgba w h)) (snd (rgba_encoder lib rgba w h))
            \<lparr>bw_bytes = [], bw_limit = MAX_IMAGE_BYTES, bw_exceeded = False\<rparr>
     in if bw_exceeded out
        then Inl (Bail (''canonical PNG exceeds the '' @ show_dec (MAX_IMAGE_BYTES div 1024 div 1024) @ '' MiB clipboard limit''))
        else if \<not> ok then Inl (Bail ''encoding canonical clipboard PNG'')
        else Inr (Value_Png (bw_bytes out)
          (if retain_decoded
           then Some \<lparr>img_width = w, img_height = h, img_stride = w * 4, img_rgba = rgba\<rparr> else None)))))))))))"

definition RAW_IMAGE_MAGIC :: "u8 list" where "RAW_IMAGE_MAGIC = bytes_of ''WBRAW001''"
definition RAW_IMAGE_HEADER_BYTES :: nat where "RAW_IMAGE_HEADER_BYTES = 32"

text \<open>The bytes that \<open>run_image_worker\<close> writes for a picture in raw mode.\<close>

definition raw_image_output :: "decoded_image \<Rightarrow> u8 list" where
  "raw_image_output img =
     RAW_IMAGE_MAGIC @ be_bytes 4 (img_width img) @ be_bytes 4 (img_height img) @
     be_bytes 8 (img_stride img) @ be_bytes 8 (length (img_rgba img)) @ img_rgba img"

text \<open>
  \<open>run_image_worker\<close>: at most one byte more than the limit is read; the output is what has been
  written to standard output when the worker ends without error.
\<close>

definition run_image_worker ::
    "'i host_image_lib \<Rightarrow> (nat \<Rightarrow> bool) \<Rightarrow> bool \<Rightarrow> bool \<Rightarrow> u8 list \<Rightarrow> host_error + u8 list" where
  "run_image_worker lib alloc limits_ok raw_output stdin =
     then_ok (bail_if (\<not> limits_ok) (Bail ''setting image worker limit'')) (\<lambda>_.
     let source = take (MAX_IMAGE_BYTES + 1) stdin
     in then_ok (bail_if (MAX_IMAGE_BYTES < length source) (Bail ''clipboard worker input exceeds the image limit'')) (\<lambda>_.
        then_ok (canonical_image_inner lib alloc source raw_output) (\<lambda>v.
        if raw_output
        then (case fst (take_decoded_image v) of
                None \<Rightarrow> Inl (Bail ''clipboard worker did not produce decoded pixels'')
              | Some img \<Rightarrow> Inr (raw_image_output img))
        else Inr (value_bytes v))))"

definition decoded_from_image_worker :: "u8 list \<Rightarrow> host_error + decoded_image" where
  "decoded_from_image_worker out =
     (if length out < RAW_IMAGE_HEADER_BYTES \<or> take 8 out \<noteq> RAW_IMAGE_MAGIC
      then Inl (Bail ''clipboard image worker returned an invalid raw-image header'')
      else
        (let w = from_be (take 4 (drop 8 out));
             h = from_be (take 4 (drop 12 out))
         in then_ok (validate_image_dimensions w h) (\<lambda>_.
            let stride = from_be (take 8 (drop 16 out));
                len = from_be (take 8 (drop 24 out));
                expected_stride = w * 4;
                expected_length = expected_stride * h
            in if 2 ^ 64 \<le> expected_length then Inl (Bail ''raw clipboard image length overflow'')
               else if stride \<noteq> expected_stride \<or> len \<noteq> expected_length \<or>
                       length out \<noteq> RAW_IMAGE_HEADER_BYTES + expected_length
               then Inl (Bail ''clipboard image worker returned inconsistent raw-image geometry'')
               else Inr \<lparr>img_width = w, img_height = h, img_stride = stride,
                         img_rgba = drop RAW_IMAGE_HEADER_BYTES out\<rparr>)))"

section \<open>The endpoint\<close>

datatype file_type = Is_Directory | Is_Socket | Is_File | Is_Symlink | Is_Other

record metadata =
  md_type :: file_type
  md_dev :: nat
  md_ino :: nat
  md_nlink :: nat
  md_uid :: nat
  md_gid :: nat
  md_mode :: nat

text \<open>The file system at one moment, as \<open>symlink_metadata\<close> shows it.\<close>

type_synonym file_system = "path \<Rightarrow> metadata option"

datatype endpoint_kind = Kind_Directory | Kind_Socket | Kind_File

record file_identity =
  id_device :: nat
  id_inode :: nat
  id_links :: nat
  id_uid :: nat
  id_gid :: nat
  id_mode :: nat

definition identity_capture :: "file_system \<Rightarrow> path \<Rightarrow> endpoint_kind \<Rightarrow> host_error + file_identity" where
  "identity_capture fs p k =
     then_ok (ok_or (Bail ''inspecting clipboard runtime path'') (fs p)) (\<lambda>md.
     let type_matches = (case k of Kind_Directory \<Rightarrow> md_type md = Is_Directory
                                 | Kind_Socket \<Rightarrow> md_type md = Is_Socket
                                 | Kind_File \<Rightarrow> md_type md = Is_File)
     in if md_type md = Is_Symlink \<or> \<not> type_matches
        then Inl (Bail ''clipboard runtime endpoint has an invalid filesystem type'')
        else Inr \<lparr>id_device = md_dev md, id_inode = md_ino md, id_links = md_nlink md,
                  id_uid = md_uid md, id_gid = md_gid md, id_mode = md_mode md mod 512\<rparr>)"

record endpoint_snapshot =
  socket_path :: path
  ready_path :: path
  snap_parent :: file_identity
  snap_socket :: file_identity
  snap_ready :: file_identity

definition PRIVATE_ENDPOINT_MODE :: nat where "PRIVATE_ENDPOINT_MODE = 6 * 64"

definition DIRECTORY_MODE :: nat where "DIRECTORY_MODE = 7 * 64"

definition private_identity :: "nat \<Rightarrow> nat \<Rightarrow> file_identity \<Rightarrow> host_error + unit" where
  "private_identity uid gid i =
     bail_if (id_uid i \<noteq> uid \<or> id_gid i \<noteq> gid \<or> id_mode i \<noteq> PRIVATE_ENDPOINT_MODE \<or> id_links i \<noteq> 1)
       (Bail ''guest clipboard endpoint ownership or permissions are invalid'')"

text \<open>\<open>EndpointSnapshot::capture\<close>; \<open>uid\<close> and \<open>gid\<close> are the effective ones of the host process.\<close>

definition snapshot_capture ::
    "file_system \<Rightarrow> nat \<Rightarrow> nat \<Rightarrow> path \<Rightarrow> path \<Rightarrow> host_error + endpoint_snapshot" where
  "snapshot_capture fs uid gid sock ready =
     then_ok (ok_or (Bail ''guest clipboard endpoint has no runtime directory'') (parent sock)) (\<lambda>dir.
     then_ok (bail_if (parent ready \<noteq> Some dir)
       (Bail ''guest clipboard endpoint and readiness marker are not colocated'')) (\<lambda>_.
     then_ok (identity_capture fs dir Kind_Directory) (\<lambda>pi.
     then_ok (identity_capture fs sock Kind_Socket) (\<lambda>si.
     then_ok (identity_capture fs ready Kind_File) (\<lambda>ri.
     then_ok (bail_if (id_uid pi \<noteq> uid \<or> id_gid pi \<noteq> gid \<or> id_mode pi \<noteq> DIRECTORY_MODE)
       (Bail ''guest clipboard runtime directory is not private to the host user'')) (\<lambda>_.
     then_ok (each_ok (private_identity uid gid) [si, ri]) (\<lambda>_.
     Inr \<lparr>socket_path = sock, ready_path = ready, snap_parent = pi, snap_socket = si, snap_ready = ri\<rparr>)))))))"

definition matches_current :: "file_system \<Rightarrow> endpoint_snapshot \<Rightarrow> host_error + unit" where
  "matches_current fs sn =
     then_ok (ok_or (Bail ''guest clipboard endpoint has no runtime directory'') (parent (socket_path sn))) (\<lambda>dir.
     then_ok (identity_capture fs dir Kind_Directory) (\<lambda>pi.
     if pi \<noteq> snap_parent sn then Inl (Bail ''guest clipboard endpoint changed during the transaction'')
     else then_ok (identity_capture fs (socket_path sn) Kind_Socket) (\<lambda>si.
       if si \<noteq> snap_socket sn then Inl (Bail ''guest clipboard endpoint changed during the transaction'')
       else then_ok (identity_capture fs (ready_path sn) Kind_File) (\<lambda>ri.
         if ri \<noteq> snap_ready sn then Inl (Bail ''guest clipboard endpoint changed during the transaction'')
         else Inr ()))))"

definition is_current :: "file_system \<Rightarrow> endpoint_snapshot \<Rightarrow> bool" where
  "is_current fs sn = is_ok (matches_current fs sn)"

text \<open>
  \<open>begin_connect\<close>: the file system before and after the nonblocking \<open>connect\<close>, whether the socket
  could be created and the path fits an address, and what \<open>connect\<close> returned.
\<close>

datatype connect_result = Connect_Done | Connect_In_Progress | Connect_Again | Connect_Error

definition begin_connect ::
    "file_system \<Rightarrow> file_system \<Rightarrow> bool \<Rightarrow> bool \<Rightarrow> connect_result \<Rightarrow> endpoint_snapshot \<Rightarrow>
     host_error + (bool \<times> endpoint_snapshot)" where
  "begin_connect fs fs' socket_ok address_ok res sn =
     then_ok (matches_current fs sn) (\<lambda>_.
     then_ok (bail_if (\<not> socket_ok) (Bail ''creating one-shot clipboard socket'')) (\<lambda>_.
     then_ok (bail_if (\<not> address_ok) (Bail ''encoding guest clipboard endpoint path'')) (\<lambda>_.
     then_ok (case res of
        Connect_Done \<Rightarrow> Inr True
      | Connect_In_Progress \<Rightarrow> Inr False
      | Connect_Again \<Rightarrow> Inl (Bail ''guest clipboard agent connection queue is full'')
      | Connect_Error \<Rightarrow> Inl (Bail ''connecting to the guest clipboard agent'')) (\<lambda>connected.
     then_ok (matches_current fs' sn) (\<lambda>_.
     Inr (connected, sn))))))"

text \<open>The peer's credentials as the kernel reports them: pid, uid and gid.\<close>

definition validate_connected_peer ::
    "nat \<Rightarrow> nat \<Rightarrow> (int \<times> nat \<times> nat) option \<Rightarrow> file_identity \<Rightarrow> host_error + unit" where
  "validate_connected_peer uid gid creds sock =
     then_ok (ok_or (Bail ''authenticating guest clipboard peer credentials'') creds) (\<lambda>(pid, cuid, cgid).
     bail_if (pid \<le> 0 \<or> cuid \<noteq> uid \<or> cgid \<noteq> gid \<or> id_uid sock \<noteq> cuid \<or> id_gid sock \<noteq> cgid)
       (Bail ''guest clipboard peer credentials do not match the confined endpoint''))"

definition connect_finish ::
    "file_system \<Rightarrow> nat \<Rightarrow> nat \<Rightarrow> (int \<times> nat \<times> nat) option \<Rightarrow> host_error + unit \<Rightarrow> bool \<Rightarrow>
     bool \<times> endpoint_snapshot \<Rightarrow> host_error + endpoint_snapshot" where
  "connect_finish fs uid gid creds waited blocking_ok pending =
     (let (connected, sn) = pending
      in then_ok (if \<not> connected then waited else Inr ()) (\<lambda>_.
         then_ok (bail_if (\<not> blocking_ok) (Bail ''making the connected clipboard socket blocking'')) (\<lambda>_.
         then_ok (validate_connected_peer uid gid creds (snap_socket sn)) (\<lambda>_.
         then_ok (matches_current fs sn) (\<lambda>_. Inr sn)))))"

section \<open>Transactions\<close>

text \<open>
  The connected socket as the host sees it: the writer towards the agent, the agent's answer to
  what it was sent, and what reading reports at the end of that answer.
\<close>

record transport =
  to_agent :: writer
  agent_reply :: "u8 list \<Rightarrow> u8 list"
  agent_end :: io_error

definition exchange :: "transport \<Rightarrow> frame \<Rightarrow> host_error + frame" where
  "exchange tr request =
     (case write_frame (to_agent tr) request of
        (Inl e, _) \<Rightarrow> Inl (Context ''sending one-shot clipboard request'' e)
      | (Inr _, w) \<Rightarrow>
          (case read_frame (agent_end tr) (agent_reply tr (drop (length (written (to_agent tr))) (written w))) of
             Inl e \<Rightarrow> Inl (Context ''reading one-shot clipboard response'' e)
           | Inr (response, _) \<Rightarrow> Inr response))"

definition require_response :: "frame \<Rightarrow> kind \<Rightarrow> u8 list \<Rightarrow> host_error + unit" where
  "require_response response expected n =
     (if kind_of response \<noteq> expected then Inl (Bail ''guest clipboard returned the wrong response kind'')
      else if nonce response \<noteq> n then Inl (Bail ''guest clipboard returned a response for a different request'')
      else Inr ())"

text \<open>\<open>cur\<close> is whether the endpoint's snapshot still holds when the transaction starts.\<close>

definition host_put :: "bool \<Rightarrow> transport \<Rightarrow> u8 list \<Rightarrow> clipboard_value \<Rightarrow> host_error + unit" where
  "host_put cur tr n v =
     then_ok (bail_if (\<not> cur) (Bail ''guest clipboard endpoint changed before the snapshot was sent'')) (\<lambda>_.
     then_ok (map_err Protocol (frame_put n (value_mime v) (value_bytes v))) (\<lambda>request.
     then_ok (exchange tr request) (\<lambda>response.
     then_ok (require_response response Kind_PutResult n) (\<lambda>_.
     bail_if (status_of response \<noteq> Status_Ok)
       (Bail (''guest clipboard rejected the snapshot ('' @ status_name (status_of response) @ '')''))))))"

definition host_get :: "bool \<Rightarrow> transport \<Rightarrow> u8 list \<Rightarrow> host_error + clipboard_value" where
  "host_get cur tr n =
     then_ok (bail_if (\<not> cur) (Bail ''guest clipboard endpoint changed before the snapshot was requested'')) (\<lambda>_.
     then_ok (exchange tr (frame_get n)) (\<lambda>response.
     then_ok (require_response response Kind_GetResult n) (\<lambda>_.
     then_ok (bail_if (status_of response \<noteq> Status_Ok)
       (Bail (''guest clipboard snapshot failed ('' @ status_name (status_of response) @ '')''))) (\<lambda>_.
     validate_canonical_value (mime_of response) (payload response)))))"

definition host_probe :: "transport \<Rightarrow> u8 list \<Rightarrow> host_error + unit" where
  "host_probe tr n =
     then_ok (exchange tr (frame_probe n)) (\<lambda>response.
     then_ok (require_response response Kind_ProbeResult n) (\<lambda>_.
     bail_if (status_of response \<noteq> Status_Ok)
       (Bail (''guest clipboard agent is not ready ('' @ status_name (status_of response) @ '')''))))"

section \<open>Raw images\<close>

lemma validate_image_dimensions_Inr [result_simps]:
  "validate_image_dimensions w h = Inr u \<longleftrightarrow>
   0 < w \<and> 0 < h \<and> w \<le> MAX_IMAGE_DIMENSION \<and> h \<le> MAX_IMAGE_DIMENSION \<and> w * h \<le> MAX_IMAGE_PIXELS"
  by (auto simp: validate_image_dimensions_def)

text \<open>A picture whose size is admissible and whose pixel buffer has exactly that size.\<close>

definition picture_ok :: "decoded_image \<Rightarrow> bool" where
  "picture_ok img \<longleftrightarrow>
     validate_image_dimensions (img_width img) (img_height img) = Inr () \<and>
     img_stride img = img_width img * 4 \<and>
     length (img_rgba img) = img_stride img * img_height img"

lemma picture_bounds:
  assumes "picture_ok img"
  shows "img_width img < 256 ^ 4" "img_height img < 256 ^ 4" "img_stride img < 256 ^ 8"
    "length (img_rgba img) < 256 ^ 8" "img_width img * 4 * img_height img \<le> 4 * MAX_IMAGE_PIXELS"
proof -
  have d: "img_width img \<le> 8192" "img_height img \<le> 8192" "img_width img * img_height img \<le> 67108864"
    and e: "img_stride img = img_width img * 4" "length (img_rgba img) = 4 * (img_width img * img_height img)"
    using assms by (auto simp: picture_ok_def validate_image_dimensions_Inr MAX_IMAGE_DIMENSION_def
        MAX_IMAGE_PIXELS_def)
  show "img_width img < 256 ^ 4" "img_height img < 256 ^ 4" "img_stride img < 256 ^ 8"
    "length (img_rgba img) < 256 ^ 8"
    using d e by (simp_all add: mult.commute)
  have "img_width img * 4 * img_height img = 4 * (img_width img * img_height img)"
    by simp
  then show "img_width img * 4 * img_height img \<le> 4 * MAX_IMAGE_PIXELS"
    using d by (simp add: MAX_IMAGE_PIXELS_def mult.commute)
qed

lemma length_RAW_IMAGE_MAGIC [simp]: "length RAW_IMAGE_MAGIC = 8"
  by (simp add: RAW_IMAGE_MAGIC_def)

lemma raw_image_fields:
  "take 8 (raw_image_output img) = RAW_IMAGE_MAGIC"
  "take 4 (drop 8 (raw_image_output img)) = be_bytes 4 (img_width img)"
  "take 4 (drop 12 (raw_image_output img)) = be_bytes 4 (img_height img)"
  "take 8 (drop 16 (raw_image_output img)) = be_bytes 8 (img_stride img)"
  "take 8 (drop 24 (raw_image_output img)) = be_bytes 8 (length (img_rgba img))"
  "drop 32 (raw_image_output img) = img_rgba img"
  "length (raw_image_output img) = 32 + length (img_rgba img)"
  by (simp_all add: raw_image_output_def)

lemma raw_image_read:
  assumes "picture_ok img"
  shows "decoded_from_image_worker (raw_image_output img) = Inr img"
proof -
  have f: "from_be (be_bytes 4 (img_width img)) = img_width img"
    "from_be (be_bytes 4 (img_height img)) = img_height img"
    "from_be (be_bytes 8 (img_stride img)) = img_stride img"
    "from_be (be_bytes 8 (length (img_rgba img))) = length (img_rgba img)"
    using picture_bounds [OF assms] by (simp_all only: from_be_be_bytes)
  have "img_width img * 4 * img_height img < 2 ^ 64"
    using picture_bounds(5) [OF assms] by (simp add: MAX_IMAGE_PIXELS_def)
  then have small: "(2 ^ 64 \<le> img_width img * 4 * img_height img) = False"
    by simp
  have ok: "validate_image_dimensions (img_width img) (img_height img) = Inr ()"
    "img_stride img = img_width img * 4" "length (img_rgba img) = img_width img * 4 * img_height img"
    using assms by (simp_all add: picture_ok_def)
  have rec: "\<lparr>img_width = img_width img, img_height = img_height img, img_stride = img_stride img,
      img_rgba = img_rgba img\<rparr> = img"
    by simp
  show ?thesis
    unfolding decoded_from_image_worker_def raw_image_fields RAW_IMAGE_HEADER_BYTES_def Let_def f small
    by (simp only: ok(1) then_ok_Inr if_False) (simp add: ok rec)
qed

lemma raw_image_split:
  assumes "32 \<le> length bs"
  shows "bs = take 8 bs @ take 4 (drop 8 bs) @ take 4 (drop 12 bs) @ take 8 (drop 16 bs) @
    take 8 (drop 24 bs) @ drop 32 bs"
  using append_take_drop_id [of 8 bs] append_take_drop_id [of 4 "drop 8 bs"]
    append_take_drop_id [of 4 "drop 12 bs"] append_take_drop_id [of 8 "drop 16 bs"]
    append_take_drop_id [of 8 "drop 24 bs"] by simp

lemma raw_image_sound:
  assumes "decoded_from_image_worker out = Inr img"
  shows "picture_ok img \<and> out = raw_image_output img"
proof -
  define w h stride len where "w = from_be (take 4 (drop 8 out))" and "h = from_be (take 4 (drop 12 out))"
    and "stride = from_be (take 8 (drop 16 out))" and "len = from_be (take 8 (drop 24 out))"
  note fields = this
  have run: "(if length out < 32 \<or> take 8 out \<noteq> RAW_IMAGE_MAGIC
      then Inl (Bail ''clipboard image worker returned an invalid raw-image header'')
      else then_ok (validate_image_dimensions w h) (\<lambda>_.
        if 2 ^ 64 \<le> w * 4 * h then Inl (Bail ''raw clipboard image length overflow'')
        else if stride \<noteq> w * 4 \<or> len \<noteq> w * 4 * h \<or> length out \<noteq> 32 + w * 4 * h
        then Inl (Bail ''clipboard image worker returned inconsistent raw-image geometry'')
        else Inr \<lparr>img_width = w, img_height = h, img_stride = stride, img_rgba = drop 32 out\<rparr>)) = Inr img"
    using assms unfolding decoded_from_image_worker_def Let_def RAW_IMAGE_HEADER_BYTES_def fields .
  have o: "32 \<le> length out" "take 8 out = RAW_IMAGE_MAGIC" "validate_image_dimensions w h = Inr ()"
      "stride = w * 4" "len = w * 4 * h" "length out = 32 + w * 4 * h"
    and img: "img = \<lparr>img_width = w, img_height = h, img_stride = w * 4, img_rgba = drop 32 out\<rparr>"
    using run by (simp_all only: split: if_split_asm) (auto simp: then_ok_eq_Inr split: if_split_asm)
  have "be_bytes 4 w = take 4 (drop 8 out)" "be_bytes 4 h = take 4 (drop 12 out)"
    "be_bytes 8 stride = take 8 (drop 16 out)" "be_bytes 8 len = take 8 (drop 24 out)"
    unfolding fields using o(1) by (auto intro!: be_bytes_from_be')
  moreover have "length (drop 32 out) = len"
    using o(5,6) by simp
  ultimately have "raw_image_output img = out"
    using raw_image_split [OF o(1)] o(2,4) by (simp add: raw_image_output_def img)
  then show ?thesis
    using o by (simp add: picture_ok_def img)
qed

text \<open>
  The host accepts from its image worker exactly the raw-image outputs of admissible pictures
  whose stride, length and pixel buffer agree with their size, and gets that picture.
\<close>

lemma raw_image_iff:
  "decoded_from_image_worker out = Inr img \<longleftrightarrow> picture_ok img \<and> out = raw_image_output img"
  using raw_image_read raw_image_sound by blast

section \<open>What a finished connection guarantees\<close>

lemma matches_current_Inr:
  "matches_current fs sn = Inr u \<longleftrightarrow> (\<exists>dir. parent (socket_path sn) = Some dir \<and>
     identity_capture fs dir Kind_Directory = Inr (snap_parent sn) \<and>
     identity_capture fs (socket_path sn) Kind_Socket = Inr (snap_socket sn) \<and>
     identity_capture fs (ready_path sn) Kind_File = Inr (snap_ready sn))"
  by (auto simp: matches_current_def result_simps)

text \<open>
  A connection that the host finally uses leads to an endpoint whose socket, readiness marker
  and directory had the captured identity before and after the connect and once more after the
  peer was authenticated, are private to the host user, and whose peer runs as that user.
\<close>

lemma connection_is_pinned:
  assumes "snapshot_capture fs0 uid gid sock ready = Inr sn"
    and "begin_connect fs1 fs2 socket_ok address_ok res sn = Inr pending"
    and "connect_finish fs3 uid gid creds waited blocking_ok pending = Inr sn'"
  shows "sn' = sn \<and> socket_path sn = sock \<and> id_mode (snap_socket sn) = PRIVATE_ENDPOINT_MODE \<and>
    id_links (snap_socket sn) = 1 \<and> id_uid (snap_socket sn) = uid \<and>
    id_mode (snap_parent sn) = DIRECTORY_MODE \<and> id_uid (snap_parent sn) = uid \<and>
    (\<forall>fs \<in> {fs0, fs1, fs2, fs3}. identity_capture fs sock Kind_Socket = Inr (snap_socket sn) \<and>
      identity_capture fs ready Kind_File = Inr (snap_ready sn) \<and>
      (\<exists>dir. parent sock = Some dir \<and> identity_capture fs dir Kind_Directory = Inr (snap_parent sn))) \<and>
    (\<exists>pid. creds = Some (pid, uid, gid) \<and> 0 < pid)"
proof -
  from assms(1) have sn: "socket_path sn = sock" "ready_path sn = ready"
    "identity_capture fs0 sock Kind_Socket = Inr (snap_socket sn)"
    "identity_capture fs0 ready Kind_File = Inr (snap_ready sn)"
    "\<exists>dir. parent sock = Some dir \<and> identity_capture fs0 dir Kind_Directory = Inr (snap_parent sn)"
    "id_mode (snap_socket sn) = PRIVATE_ENDPOINT_MODE" "id_links (snap_socket sn) = 1"
    "id_uid (snap_socket sn) = uid" "id_gid (snap_socket sn) = gid"
    "id_mode (snap_parent sn) = DIRECTORY_MODE" "id_uid (snap_parent sn) = uid"
    by (auto simp: snapshot_capture_def result_simps private_identity_def)
  from assms(2) have b: "snd pending = sn" "matches_current fs1 sn = Inr ()" "matches_current fs2 sn = Inr ()"
    by (auto simp: begin_connect_def then_ok_eq_Inr)
  from assms(3) b(1) have c: "sn' = sn" "matches_current fs3 sn = Inr ()"
    "validate_connected_peer uid gid creds (snap_socket sn) = Inr ()"
    by (auto simp: connect_finish_def then_ok_eq_Inr split: prod.splits)
  from c(3) have "\<exists>pid. creds = Some (pid, uid, gid) \<and> 0 < pid"
    by (auto simp: validate_connected_peer_def result_simps)
  then show ?thesis
    using sn b(2,3) c(1,2) by (auto simp: matches_current_Inr)
qed

definition example_dir :: path where "example_dir = Path True [''run'', ''u'']"
definition example_sock :: path where "example_sock = Path True [''run'', ''u'', ''s'']"
definition example_ready :: path where "example_ready = Path True [''run'', ''u'', ''r'']"

definition example_fs :: file_system where
  "example_fs = [example_dir \<mapsto> \<lparr>md_type = Is_Directory, md_dev = 1, md_ino = 2, md_nlink = 2,
        md_uid = 1000, md_gid = 1000, md_mode = 16832\<rparr>,
      example_sock \<mapsto> \<lparr>md_type = Is_Socket, md_dev = 1, md_ino = 3, md_nlink = 1,
        md_uid = 1000, md_gid = 1000, md_mode = 49536\<rparr>,
      example_ready \<mapsto> \<lparr>md_type = Is_File, md_dev = 1, md_ino = 4, md_nlink = 1,
        md_uid = 1000, md_gid = 1000, md_mode = 33152\<rparr>]"

definition example_snapshot :: endpoint_snapshot where
  "example_snapshot = \<lparr>socket_path = example_sock, ready_path = example_ready,
     snap_parent = \<lparr>id_device = 1, id_inode = 2, id_links = 2, id_uid = 1000, id_gid = 1000, id_mode = 448\<rparr>,
     snap_socket = \<lparr>id_device = 1, id_inode = 3, id_links = 1, id_uid = 1000, id_gid = 1000, id_mode = 384\<rparr>,
     snap_ready = \<lparr>id_device = 1, id_inode = 4, id_links = 1, id_uid = 1000, id_gid = 1000, id_mode = 384\<rparr>\<rparr>"

lemma example_paths:
  "parent example_sock = Some example_dir" "parent example_ready = Some example_dir"
  "example_sock \<noteq> example_dir" "example_ready \<noteq> example_dir" "example_ready \<noteq> example_sock"
  by (simp_all add: example_dir_def example_sock_def example_ready_def parent_def)

lemma example_identities:
  "identity_capture example_fs example_dir Kind_Directory = Inr (snap_parent example_snapshot)"
  "identity_capture example_fs example_sock Kind_Socket = Inr (snap_socket example_snapshot)"
  "identity_capture example_fs example_ready Kind_File = Inr (snap_ready example_snapshot)"
  using example_paths by (simp_all add: identity_capture_def example_fs_def example_snapshot_def Let_def)

lemma example_current: "matches_current example_fs example_snapshot = Inr ()"
  unfolding matches_current_Inr
  using example_paths(1) example_identities by (simp add: example_snapshot_def)

lemma example_capture:
  "snapshot_capture example_fs 1000 1000 example_sock example_ready = Inr example_snapshot"
  unfolding snapshot_capture_def
  by (simp add: example_paths example_identities private_identity_def then_ok_eq_Inr)
    (simp add: example_snapshot_def PRIVATE_ENDPOINT_MODE_def DIRECTORY_MODE_def)

lemma example_begin: "begin_connect example_fs example_fs True True Connect_Done example_snapshot = Inr (True, example_snapshot)"
  by (simp add: begin_connect_def example_current)

lemma example_finish:
  "connect_finish example_fs 1000 1000 (Some (5, 1000, 1000)) (Inr ()) True (True, example_snapshot) = Inr example_snapshot"
  by (simp add: connect_finish_def example_current validate_connected_peer_def)
    (simp add: example_snapshot_def)

theorem connection_is_pinned_witness: "id_mode (snap_socket example_snapshot) = PRIVATE_ENDPOINT_MODE"
  using connection_is_pinned [OF example_capture example_begin example_finish] by blast

section \<open>From the host to the selection and back\<close>

text \<open>The agent's service as the peer of the host's socket, and a worker as the peer of the agent's pipes.\<close>

definition agent_answer :: "wayland_os \<Rightarrow> wayland_clipboard \<Rightarrow> connection \<Rightarrow> u8 list \<Rightarrow> u8 list" where
  "agent_answer os owner c req =
     written (sent (serve_connection (wayland_backend os) owner (c\<lparr>incoming := req\<rparr>)))"

definition worker_answer ::
    "'i worker_env \<Rightarrow> bool \<Rightarrow> bool \<Rightarrow> bool \<Rightarrow> io_error \<Rightarrow> writer \<Rightarrow> u8 list \<Rightarrow> u8 list" where
  "worker_answer env limits restore serve t w0 stdin =
     written (stdout (internal_worker_entrypoint env limits restore serve t stdin w0))"

lemma exchange_with_agent:
  assumes ex: "exchange tr request = Inr response"
    and reply: "agent_reply tr = agent_answer os owner c"
    and out: "written (outgoing c) = []" and n: "length (nonce request) = 16"
    and k: "direction_of (kind_of request) \<noteq> None"
  obtains a s' where "dispatch (wayland_backend os) owner request = (Replied response a, s')"
proof -
  let ?c = "c\<lparr>incoming := frame_wire request\<rparr>"
  from ex obtain w rest where wr: "write_frame (to_agent tr) request = (Inr (), w)"
    and rd: "read_frame (agent_end tr) (agent_reply tr (drop (length (written (to_agent tr))) (written w))) =
      Inr (response, rest)"
    by (auto simp: exchange_def split: prod.split_asm sum.split_asm)
  have ok: "frame_ok request" and "drop (length (written (to_agent tr))) (written w) = frame_wire request"
    using write_frame_sent [OF wr] n by (auto simp: frame_ok_def)
  then have rd': "read_frame (agent_end tr) (written (sent (serve_connection (wayland_backend os) owner ?c))) =
      Inr (response, rest)"
    using rd reply by (simp add: agent_answer_def)
  have req: "read_frame (incoming_end ?c) (incoming ?c) = Inr (request, [])"
    using frames.dec_enc_exact [OF ok] by simp
  have "read_frame (agent_end tr) [] \<noteq> Inr (response, rest)"
    by (simp add: frames.dec_iff)
  then have "sent (serve_connection (wayland_backend os) owner ?c) \<noteq> outgoing ?c"
    using rd' out by auto
  then have c: "sock_cloexec_ok ?c" "peer_creds ?c = Some (1000, 1000)"
    using wayland.serve_refuses [of ?c os owner] by blast+
  from c req k show ?thesis
  proof (rule wayland.serve_request [of ?c request "[]" os owner])
    fix reply' a s' r w'
    assume d: "dispatch (wayland_backend os) owner request = (Replied reply' a, s')"
      and f: "frame_ok reply'" and w': "write_frame (outgoing ?c) reply' = (r, w')"
      and "sent (serve_connection (wayland_backend os) owner ?c) = w'"
    then have "response = reply'"
      using write_read_same [OF f w'] out rd' by simp
    then show ?thesis
      using that d by simp
  qed
qed


text \<open>
  C4. When the host's \<open>get\<close> returns a value, it is the snapshot that a worker took from the
  compositor: text as its source wrote it, or the encoded picture with a PNG signature.
\<close>

theorem get_end_to_end:
  assumes get: "host_get True tr n = Inr v" and n: "length n = 16"
    and agent: "agent_reply tr = agent_answer os owner c" "written (outgoing c) = []"
    and worker: "child_reply (next_child os) = worker_answer env limits restore serve t w0" "written w0 = []"
  shows "direct_get env = Inr (value_mime v, value_bytes v) \<and>
    (case v of Value_Text b \<Rightarrow> utf8_valid b \<and> 0 \<notin> set b \<and> length b \<le> MAX_TEXT_BYTES
     | Value_Png e d \<Rightarrow> take 8 e = PNG_SIGNATURE \<and> length e \<le> MAX_IMAGE_BYTES \<and> d = None)"
proof -
  from get obtain response where ex: "exchange tr (frame_get n) = Inr response"
    and ok: "status_of response = Status_Ok"
    and v: "validate_canonical_value (mime_of response) (payload response) = Inr v"
    by (auto simp: host_get_def then_ok_eq_Inr)
  obtain a s' where d: "dispatch (wayland_backend os) owner (frame_get n) = (Replied response a, s')"
    by (rule exchange_with_agent [OF ex agent]) (use n in \<open>auto simp: frame_get_def frame_empty_def\<close>)
  from wayland.dispatch_ok [OF d ok] have
    g: "wayland_get os owner = (Inr (mime_of response, payload response), s')"
    by (auto simp: backend_operation_def wayland_backend_def io_then_eq_Inr frame_get_def frame_empty_def
        split: prod.split_asm)
  have reply: "child_reply (next_child os) = (\<lambda>stdin. written (stdout
      (internal_worker_entrypoint env limits restore serve t stdin w0)))"
    using worker(1) by (auto simp: worker_answer_def)
  have direct: "direct_get env = Inr (mime_of response, payload response)"
    using get_through_worker [OF g reply worker(2)] .
  from direct_get_content [OF direct] direct v show ?thesis
    by (cases "mime_of response")
      (auto simp: validate_canonical_value_def validated_text_def split: if_splits)
qed

text \<open>One frame answered over a roomy connection, step by step.\<close>

definition wide :: writer where
  "wide = \<lparr>written = [], room = 200, fault = TimedOut, can_flush = True\<rparr>"

lemma wide_write: "frame_ok f \<Longrightarrow> length (payload f) \<le> 164 \<Longrightarrow>
  \<exists>w. write_frame wide f = (Inr (), w) \<and> written w = frame_wire f"
  using write_frame_fits [of f wide] by (simp add: wide_def HEADER_LEN_def)

definition hi_frame :: "kind \<Rightarrow> u8 list \<Rightarrow> frame" where
  "hi_frame k n = \<lparr>kind_of = k, mime_of = Mime_Text, status_of = Status_Ok, nonce = n, payload = [72, 105]\<rparr>"

definition done_frame :: "u8 list \<Rightarrow> frame" where
  "done_frame n = \<lparr>kind_of = Kind_PutResult, mime_of = Mime_None, status_of = Status_Ok, nonce = n, payload = []\<rparr>"

lemma example_frames_ok:
  "length n = 16 \<Longrightarrow> frame_ok (hi_frame Kind_Put n)"
  "length n = 16 \<Longrightarrow> frame_ok (hi_frame Kind_GetResult n)"
  "length n = 16 \<Longrightarrow> frame_ok (done_frame n)"
  "length n = 16 \<Longrightarrow> frame_ok (frame_get n)"
  by (simp_all add: frame_ok_def validate_shape_iff hi_frame_def done_frame_def frame_get_def
      frame_empty_def MAX_TEXT_BYTES_def)

lemma example_direct:
  "direct_prepare_put example_env Mime_Text [72, 105] = Inr ([72, 105], TEXT_MIME)"
  "direct_get example_env = Inr (Mime_Text, [72, 105])"
proof -
  show "direct_prepare_put example_env Mime_Text [72, 105] = Inr ([72, 105], TEXT_MIME)"
    by (simp add: direct_prepare_put_def example_env_def deadline_check_def validate_text_def MAX_TEXT_BYTES_def)
  show "direct_get example_env = Inr (Mime_Text, [72, 105])"
    by (simp add: direct_get_def example_env_def deadline_check_def validate_offer_metadata_def
        metadata_bytes_def MAX_MIME_OFFERS_def MAX_MIME_METADATA_BYTES_def example_choice source_limit_def
        read_pipe_bounded_def MAX_TEXT_BYTES_def validate_text_def)
qed

abbreviation example_worker :: "u8 list \<Rightarrow> worker_end" where
  "example_worker stdin \<equiv> internal_worker_entrypoint example_env True True True UnexpectedEof stdin wide"

lemma example_worker_put:
  "written (stdout (example_worker (frame_wire (hi_frame Kind_Put WORKER_NONCE)))) = frame_wire (done_frame WORKER_NONCE)"
proof -
  obtain w where w: "write_frame wide (done_frame WORKER_NONCE) = (Inr (), w)"
      "written w = frame_wire (done_frame WORKER_NONCE)"
    using wide_write [OF example_frames_ok(3) [OF length_WORKER_NONCE]] by (auto simp: done_frame_def)
  have "read_frame UnexpectedEof (frame_wire (hi_frame Kind_Put WORKER_NONCE)) = Inr (hi_frame Kind_Put WORKER_NONCE, [])"
    by (rule frames.dec_enc_exact) (rule example_frames_ok, simp)
  then show ?thesis
    using w by (simp add: internal_worker_entrypoint_def worker_operation_def hi_frame_def example_direct
        worker_response_def empty_result_shape expect_def done_frame_def)
qed

lemma example_worker_get:
  "written (stdout (example_worker (frame_wire (frame_get WORKER_NONCE)))) = frame_wire (hi_frame Kind_GetResult WORKER_NONCE)"
proof -
  obtain w where w: "write_frame wide (hi_frame Kind_GetResult WORKER_NONCE) = (Inr (), w)"
      "written w = frame_wire (hi_frame Kind_GetResult WORKER_NONCE)"
    using wide_write [OF example_frames_ok(2) [OF length_WORKER_NONCE]] by (auto simp: hi_frame_def)
  have "read_frame UnexpectedEof (frame_wire (frame_get WORKER_NONCE)) = Inr (frame_get WORKER_NONCE, [])"
    by (rule frames.dec_enc_exact) (rule example_frames_ok, simp)
  then show ?thesis
    using w content_ok_shape [of Mime_Text "[72, 105]" WORKER_NONCE]
    by (simp add: internal_worker_entrypoint_def worker_operation_def hi_frame_def example_direct
        worker_response_def expect_def frame_get_def frame_empty_def MAX_TEXT_BYTES_def)
qed

lemma example_child_reply: "child_reply example_child = worker_answer example_env True True True UnexpectedEof wide"
  by (rule ext) (simp add: example_child_def worker_answer_def wide_def)

lemma example_child_simps:
  "worker_spawn example_child = Inr example_child" "child_stdin example_child = wide"
  "set_nonblocking (fst (child_getfl example_child)) (fst (child_setfl example_child)) = Inr ()"
  "set_nonblocking (snd (child_getfl example_child)) (snd (child_setfl example_child)) = Inr ()"
  "child_id example_child = 7"
  by (simp_all add: worker_spawn_def example_child_def set_nonblocking_def wide_def)

lemma example_exchange:
  assumes "frame_ok request" "frame_ok response" "length (payload request) \<le> 164" "nonce response = WORKER_NONCE"
    and "written (stdout (example_worker (frame_wire request))) = frame_wire response"
  shows "worker_exchange example_child request = Inr response"
proof -
  obtain w where "write_frame wide request = (Inr (), w)" "written w = frame_wire request"
    using wide_write [OF assms(1,3)] by blast
  moreover have "written wide = []"
    by (simp add: wide_def)
  ultimately show ?thesis
    using assms frames.dec_enc_exact [OF assms(2)]
    by (simp add: worker_exchange_def example_child_simps example_child_reply worker_answer_def)
qed

lemma example_wayland:
  "wayland_put example_os None Mime_Text [72, 105] = (Inr 2, Some 7)"
  "wayland_get example_os None = (Inr (Mime_Text, [72, 105]), None)"
proof -
  have "worker_exchange example_child (hi_frame Kind_Put WORKER_NONCE) = Inr (done_frame WORKER_NONCE)"
    by (rule example_exchange)
      (simp_all add: example_frames_ok example_worker_put, simp_all add: hi_frame_def done_frame_def)
  then show "wayland_put example_os None Mime_Text [72, 105] = (Inr 2, Some 7)"
    by (simp add: wayland_put_def example_os_def example_child_simps hi_frame_def done_frame_def
        validate_worker_response_def MAX_TEXT_BYTES_def)
  have "worker_exchange example_child (frame_get WORKER_NONCE) = Inr (hi_frame Kind_GetResult WORKER_NONCE)"
    by (rule example_exchange)
      (simp_all add: example_frames_ok example_worker_get, simp_all add: hi_frame_def frame_get_def frame_empty_def)
  then show "wayland_get example_os None = (Inr (Mime_Text, [72, 105]), None)"
    by (simp add: wayland_get_def example_os_def example_child_simps hi_frame_def
        validate_worker_response_def reap_finished_owner_def)
qed

definition example_agent :: connection where
  "example_agent = \<lparr>sock_cloexec_ok = True, peer_creds = Some (1000, 1000), incoming = [],
     incoming_end = TimedOut, outgoing = wide\<rparr>"

lemma example_answer:
  assumes "frame_ok request" "frame_ok response" "length (payload response) \<le> 164"
    and "dispatch (wayland_backend example_os) None request = (Replied response a, s')"
  shows "agent_answer example_os None example_agent (frame_wire request) = frame_wire response"
proof -
  obtain w where "write_frame wide response = (Inr (), w)" "written w = frame_wire response"
    using wide_write [OF assms(2,3)] by blast
  then show ?thesis
    using frames.dec_enc_exact [OF assms(1)] assms(4)
    by (simp add: agent_answer_def serve_connection_def example_agent_def peer_uid_allowed_def
        EXPECTED_HOST_PEER_UID_def EXPECTED_HOST_PEER_GID_def Let_def)
qed

definition example_transport :: transport where
  "example_transport = \<lparr>to_agent = wide, agent_reply = agent_answer example_os None example_agent, agent_end = TimedOut\<rparr>"

lemma example_host_exchange:
  assumes "frame_ok request" "frame_ok response" "length (payload request) \<le> 164" "length (payload response) \<le> 164"
    and "dispatch (wayland_backend example_os) None request = (Replied response a, s')"
  shows "exchange example_transport request = Inr response"
proof -
  obtain w where "write_frame wide request = (Inr (), w)" "written w = frame_wire request"
    using wide_write [OF assms(1,3)] by blast
  moreover have "written wide = []"
    by (simp add: wide_def)
  ultimately show ?thesis
    using example_answer [OF assms(1,2,4,5)] frames.dec_enc_exact [OF assms(2)]
    by (simp add: exchange_def example_transport_def)
qed

lemma example_put: "host_put True example_transport (replicate 16 9) (Value_Text [72, 105]) = Inr ()"
proof -
  have "dispatch (wayland_backend example_os) None (hi_frame Kind_Put (replicate 16 9)) =
    (Replied (done_frame (replicate 16 9)) \<lparr>direction = ''host_to_guest'', audit_mime = TEXT_MIME,
       audit_bytes = 2, audit_status = Status_Ok, category = ''ok''\<rparr>, Some 7)"
    by (simp add: dispatch_def backend_operation_def wayland_backend_def hi_frame_def example_wayland
        empty_result_shape expect_def done_frame_def)
  then have "exchange example_transport (hi_frame Kind_Put (replicate 16 9)) = Inr (done_frame (replicate 16 9))"
    by (rule example_host_exchange [rotated 4]) (simp_all add: example_frames_ok, simp_all add: hi_frame_def done_frame_def)
  moreover have "frame_put (replicate 16 9) Mime_Text [72, 105] = Inr (hi_frame Kind_Put (replicate 16 9))"
    by (simp add: frame_put_def hi_frame_def validate_shape_def MAX_TEXT_BYTES_def)
  ultimately show ?thesis
    by (simp add: host_put_def require_response_def done_frame_def)
qed

lemma example_get: "host_get True example_transport (replicate 16 9) = Inr (Value_Text [72, 105])"
proof -
  have "dispatch (wayland_backend example_os) None (frame_get (replicate 16 9)) =
    (Replied (hi_frame Kind_GetResult (replicate 16 9)) \<lparr>direction = ''guest_to_host'', audit_mime = TEXT_MIME,
       audit_bytes = 2, audit_status = Status_Ok, category = ''ok''\<rparr>, None)"
    using content_ok_shape [of Mime_Text "[72, 105]" "replicate 16 9"]
    by (simp add: dispatch_def backend_operation_def wayland_backend_def frame_get_def frame_empty_def
        example_wayland expect_def hi_frame_def MAX_TEXT_BYTES_def)
  then have "exchange example_transport (frame_get (replicate 16 9)) = Inr (hi_frame Kind_GetResult (replicate 16 9))"
    by (rule example_host_exchange [rotated 4]) (simp_all add: example_frames_ok, simp_all add: hi_frame_def frame_get_def frame_empty_def)
  then show ?thesis
    by (simp add: host_get_def require_response_def hi_frame_def validate_canonical_value_def
        validated_text_def MAX_TEXT_BYTES_def)
qed

lemma example_wiring:
  "agent_reply example_transport = agent_answer example_os None example_agent"
  "written (outgoing example_agent) = []"
  "child_reply (next_child example_os) = worker_answer example_env True True True UnexpectedEof wide"
  "written wide = []" "can_flush wide"
  by (simp_all add: example_transport_def example_agent_def wide_def example_os_def example_child_reply)


theorem get_end_to_end_witness: "utf8_valid [72, 105]"
  using get_end_to_end [OF example_get _ example_wiring(1-4)] by auto

end
