(* ===== verification/Element_Token.thy ===== *)
theory Element_Token
  imports Prelude
begin

text \<open>
  Element tokens of the desktop agent, \<open>cua/src/core/element_token.rs\<close>: the token text, the
  registry of live snapshots per runtime and process with its three caps, resolution, the stored
  state, and the validation of a tool call's element arguments. The registry is a \<open>machine\<close> whose
  ghost component remembers, for every window, the snapshot that was registered last; its
  invariant shows that a token never resolves against anything else.
\<close>

section \<open>Tokens\<close>

definition LRU_CAP_PER_PID :: nat where "LRU_CAP_PER_PID = 8"
definition TOKEN_LANE_CAP :: nat where "TOKEN_LANE_CAP = 32"
definition TOKEN_SNAPSHOT_CAP :: nat where "TOKEN_SNAPSHOT_CAP = 16"
definition TOKEN_STATE_MAX_BYTES :: nat where "TOKEN_STATE_MAX_BYTES = 256 * 1024"

definition STALE_TOKEN_ERROR :: string where
  "STALE_TOKEN_ERROR = ''element_token is stale; call get_window_state again to refresh''"

definition format_token :: "nat \<Rightarrow> nat \<Rightarrow> string" where
  "format_token snapshot_id element_index =
     ''s'' @ pad_zero 8 (show_radix 16 snapshot_id) @ '':'' @ show_dec element_index"

definition parse_token :: "string \<Rightarrow> (nat \<times> nat) option" where
  "parse_token token =
     (case strip_prefix ''s'' token of
        None \<Rightarrow> None
      | Some body \<Rightarrow>
          (case split_once (CHR '':'') body of
             None \<Rightarrow> None
           | Some (hex, idx) \<Rightarrow>
               if length hex \<noteq> 8 then None
               else (case from_str_radix 16 (2 ^ 32) hex of
                       None \<Rightarrow> None
                     | Some sid \<Rightarrow> (case parse_u64 idx of None \<Rightarrow> None | Some i \<Rightarrow> Some (sid, i)))))"

definition parse_snapshot_handle :: "string \<Rightarrow> nat option" where
  "parse_snapshot_handle handle =
     (case strip_prefix ''s'' handle of
        None \<Rightarrow> None
      | Some hex \<Rightarrow>
          if length hex \<noteq> 8 \<or> CHR '':'' \<in> set hex then None else from_str_radix 16 (2 ^ 32) hex)"

section \<open>The registry\<close>

record snapshot_entry =
  snapshot_id :: nat
  window_id :: nat
  max_element_index :: nat

record lane =
  lane_scope :: string
  lane_pid :: int
  snapshots :: "snapshot_entry list"

record token_state =
  schema :: nat
  lanes :: "lane list"

definition token_state_schema :: nat where "token_state_schema = 1"

definition snapshot_total :: "lane list \<Rightarrow> nat" where
  "snapshot_total ls = sum_list (map (\<lambda>l. length (snapshots l)) ls)"

text \<open>
  \<open>fresh_id\<close>: the loop draws random candidates until one is neither zero nor live. The draws are an
  argument; \<open>None\<close> means that they did not suffice.
\<close>

definition id_live :: "token_state \<Rightarrow> nat \<Rightarrow> bool" where
  "id_live s i \<longleftrightarrow> (\<exists>l \<in> set (lanes s). \<exists>e \<in> set (snapshots l). snapshot_id e = i)"

fun fresh_id :: "token_state \<Rightarrow> nat list \<Rightarrow> nat option" where
  "fresh_id s [] = None"
| "fresh_id s (candidate # draws) =
     (if candidate \<noteq> 0 \<and> \<not> id_live s candidate then Some candidate else fresh_id s draws)"

text \<open>\<open>while xs.len() > cap { xs.remove(0); }\<close>.\<close>

fun trim_front :: "nat \<Rightarrow> 'a list \<Rightarrow> 'a list" where
  "trim_front cap [] = []"
| "trim_front cap (x # xs) = (if cap < length (x # xs) then trim_front cap xs else x # xs)"

text \<open>The loop over the global snapshot cap.\<close>

function evict_lanes :: "lane list \<Rightarrow> lane list" where
  "evict_lanes [] = []"
| "evict_lanes (l # ls) =
     (if TOKEN_SNAPSHOT_CAP < snapshot_total (l # ls)
      then evict_lanes (if tl (snapshots l) = [] then ls
                        else l\<lparr>snapshots := tl (snapshots l)\<rparr> # ls)
      else l # ls)"
  by pat_completeness auto
termination
  by (relation "measure (\<lambda>ls. snapshot_total ls + length ls)")
    (auto simp: snapshot_total_def neq_Nil_conv intro!: diff_less)

declare evict_lanes.simps(2) [simp del]

definition in_lane :: "string \<Rightarrow> int \<Rightarrow> lane \<Rightarrow> bool" where
  "in_lane scope pid l \<longleftrightarrow> lane_scope l = scope \<and> lane_pid l = pid"

text \<open>\<open>position\<close> and \<open>remove\<close>: the first lane of the key, and the others in order.\<close>

fun take_lane :: "string \<Rightarrow> int \<Rightarrow> lane list \<Rightarrow> lane option \<times> lane list" where
  "take_lane scope pid [] = (None, [])"
| "take_lane scope pid (l # ls) =
     (if in_lane scope pid l then (Some l, ls)
      else (let (found, rest) = take_lane scope pid ls in (found, l # rest)))"

definition register :: "token_state \<Rightarrow> string \<Rightarrow> int \<Rightarrow> snapshot_entry \<Rightarrow> token_state" where
  "register s scope pid e =
     (let (found, others) = take_lane scope pid (lanes s);
          l = (case found of Some l \<Rightarrow> l | None \<Rightarrow> \<lparr>lane_scope = scope, lane_pid = pid, snapshots = []\<rparr>);
          kept = filter (\<lambda>x. window_id x \<noteq> window_id e) (snapshots l) @ [e];
          l' = l\<lparr>snapshots := trim_front LRU_CAP_PER_PID kept\<rparr>
      in \<lparr>schema = token_state_schema,
          lanes = evict_lanes (trim_front TOKEN_LANE_CAP (others @ [l']))\<rparr>)"

datatype token_error = Invalid_Format | Another_Generation | Stale | Out_Of_Range nat nat

fun error_message :: "token_error \<Rightarrow> string" where
  "error_message Invalid_Format = ''element_token has invalid format''"
| "error_message Another_Generation = ''element_token belongs to another runtime generation''"
| "error_message Stale = STALE_TOKEN_ERROR"
| "error_message (Out_Of_Range index n) =
     ''element_token element_index '' @ show_dec index @ '' out of range (snapshot had '' @ show_dec n @ '' elements)''"

definition resolve :: "token_state \<Rightarrow> string \<Rightarrow> int \<Rightarrow> nat \<Rightarrow> nat \<Rightarrow> token_error + (nat \<times> nat)" where
  "resolve s scope pid sid index =
     (if schema s \<noteq> token_state_schema then Inl Stale
      else
        (let elsewhere = (\<exists>l \<in> set (lanes s). lane_scope l \<noteq> scope \<and> lane_pid l = pid \<and>
                (\<exists>e \<in> set (snapshots l). snapshot_id e = sid))
         in case Option.bind (find (in_lane scope pid) (lanes s))
                   (\<lambda>l. find (\<lambda>e. snapshot_id e = sid) (snapshots l)) of
              None \<Rightarrow> Inl (if elsewhere then Another_Generation else Stale)
            | Some e \<Rightarrow>
                if max_element_index e < index
                then Inl (Out_Of_Range index (max_element_index e + 1))
                else Inr (window_id e, index)))"

section \<open>The stored state\<close>

text \<open>
  What \<open>read_state\<close> and the JSON decoder make of the state file: there is none, it cannot be read
  or decoded, or it holds a state. \<open>render\<close> is the JSON encoder and \<open>write_ok\<close> whether the file
  operations of \<open>write_state\<close> succeed.
\<close>

datatype stored = Absent | Unreadable | Stored token_state

definition load_disk_state :: "stored \<Rightarrow> unit + token_state" where
  "load_disk_state st =
     (case st of
        Absent \<Rightarrow> Inr \<lparr>schema = token_state_schema, lanes = []\<rparr>
      | Unreadable \<Rightarrow> Inl ()
      | Stored s \<Rightarrow>
          then_ok (bail_if (schema s \<noteq> token_state_schema) ()) (\<lambda>_.
          then_ok (bail_if (TOKEN_LANE_CAP < length (lanes s)) ()) (\<lambda>_.
          then_ok (bail_if (\<not> (\<forall>l \<in> set (lanes s). length (snapshots l) \<le> LRU_CAP_PER_PID)) ()) (\<lambda>_.
          then_ok (bail_if (TOKEN_SNAPSHOT_CAP < snapshot_total (lanes s)) ()) (\<lambda>_.
          Inr s)))))"

definition save_disk_state :: "(token_state \<Rightarrow> u8 list) \<Rightarrow> bool \<Rightarrow> token_state \<Rightarrow> stored \<Rightarrow> stored" where
  "save_disk_state render write_ok s st =
     (if length (render s) \<le> TOKEN_STATE_MAX_BYTES \<and> write_ok then Stored s else st)"

text \<open>\<open>DiskTokenState::default()\<close>, the state after a load that failed: the derived default has schema 0.\<close>

definition default_state :: token_state where
  "default_state = \<lparr>schema = 0, lanes = []\<rparr>"

definition register_snapshot ::
    "(token_state \<Rightarrow> u8 list) \<Rightarrow> bool \<Rightarrow> nat list \<Rightarrow> string \<Rightarrow> int \<Rightarrow> nat \<Rightarrow> nat \<Rightarrow> stored \<Rightarrow> (nat \<times> stored) option" where
  "register_snapshot render write_ok draws scope pid wid element_count st =
     (let s = (case load_disk_state st of Inr s \<Rightarrow> s | Inl _ \<Rightarrow> default_state)
      in case fresh_id s draws of
           None \<Rightarrow> None
         | Some i \<Rightarrow>
             Some (i, save_disk_state render write_ok
               (register s scope pid \<lparr>snapshot_id = i, window_id = wid, max_element_index = element_count - 1\<rparr>) st))"

definition resolve_token :: "stored \<Rightarrow> string \<Rightarrow> int \<Rightarrow> string \<Rightarrow> token_error + (nat \<times> nat)" where
  "resolve_token st scope pid token =
     (case parse_token token of
        None \<Rightarrow> Inl Invalid_Format
      | Some (sid, idx) \<Rightarrow>
          (case load_disk_state st of
             Inl _ \<Rightarrow> Inl Stale
           | Inr s \<Rightarrow> resolve s scope pid sid idx))"

section \<open>Element arguments of a tool call\<close>

record refusal =
  refusal_code :: string
  refusal_message :: string

datatype resolved_element = No_Element | Element (element_window: "nat option") (element_index: nat)

definition token_refusal :: "token_error \<Rightarrow> refusal" where
  "token_refusal e =
     (let message = error_message e
      in \<lparr>refusal_code = (if contains_str message ''another runtime generation'' then ''generation_mismatch''
            else if message = STALE_TOKEN_ERROR then ''stale_element_token''
            else ''invalid_element_token''),
          refusal_message = message\<rparr>)"

definition resolve_element_args ::
    "stored \<Rightarrow> string \<Rightarrow> int \<Rightarrow> nat option \<Rightarrow> string option \<Rightarrow> string option \<Rightarrow> nat option \<Rightarrow> string \<Rightarrow>
     refusal + resolved_element" where
  "resolve_element_args st scope pid arg_index arg_token arg_snapshot arg_window tool =
     (case (arg_index, arg_token, arg_snapshot) of
        (None, None, None) \<Rightarrow> Inr No_Element
      | (None, None, Some _) \<Rightarrow>
          Inl \<lparr>refusal_code = ''element_index_required'',
               refusal_message = tool @ '': snapshot_id requires element_index''\<rparr>
      | (Some _, None, None) \<Rightarrow>
          Inl \<lparr>refusal_code = ''snapshot_id_required'',
               refusal_message = tool @ '': bare element_index is not accepted in Cua Driver 0.17; pass element_token or snapshot_id with element_index''\<rparr>
      | (Some idx, None, Some handle) \<Rightarrow>
          (case parse_snapshot_handle handle of
             None \<Rightarrow> Inl \<lparr>refusal_code = ''invalid_snapshot_id'',
                         refusal_message = tool @ '': snapshot_id has invalid format''\<rparr>
           | Some sid \<Rightarrow>
               then_ok (map_err token_refusal (resolve_token st scope pid (format_token sid idx))) (\<lambda>(wid, i).
               if arg_window \<noteq> None \<and> arg_window \<noteq> Some wid
               then Inl \<lparr>refusal_code = ''conflicting_element_target'',
                         refusal_message = tool @ '': snapshot belongs to window_id '' @ show_dec wid @
                           '', not '' @ show_dec (the arg_window)\<rparr>
               else Inr (Element (Some wid) i)))
      | (idx_opt, Some tok, snapshot_opt) \<Rightarrow>
          then_ok (map_err token_refusal (resolve_token st scope pid tok)) (\<lambda>(wid, i).
          if (idx_opt \<noteq> None \<and> idx_opt \<noteq> Some i) \<or> (arg_window \<noteq> None \<and> arg_window \<noteq> Some wid) \<or>
             (case snapshot_opt of None \<Rightarrow> False
              | Some handle \<Rightarrow> parse_snapshot_handle handle \<noteq> map_option fst (parse_token tok))
          then Inl \<lparr>refusal_code = ''conflicting_element_target'',
                    refusal_message = tool @ '': element_token conflicts with element_index, snapshot_id, or window_id''\<rparr>
          else Inr (Element (Some wid) i)))"

section \<open>Token text\<close>

lemma colon_not_in_hex: "CHR '':'' \<notin> set (pad_zero 8 (show_radix 16 n))"
proof
  assume "CHR '':'' \<in> set (pad_zero 8 (show_radix 16 n))"
  then have "CHR '':'' \<in> set (show_radix 16 n)"
    by (auto simp: pad_zero_def split: if_splits)
  from show_radix_digits [OF _ this] obtain d where d: "d < 16" "CHR '':'' = digit_char d"
    by auto
  from d(2) have "byte (CHR '':'') = byte (digit_char d)"
    by (rule arg_cong)
  then show False
    using d(1) by (simp add: byte_digit_char split: if_splits)
qed

lemma hex_length: "n < 2 ^ 32 \<Longrightarrow> length (pad_zero 8 (show_radix 16 n)) = 8"
  by (intro length_pad_zero length_show_radix_le) simp_all

lemma parse_format_token:
  assumes "sid < 2 ^ 32" and "idx < 2 ^ 64"
  shows "parse_token (format_token sid idx) = Some (sid, idx)"
proof -
  let ?hex = "pad_zero 8 (show_radix 16 sid)"
  have body: "strip_prefix ''s'' (format_token sid idx) = Some (?hex @ CHR '':'' # show_dec idx)"
    by (simp add: format_token_def)
  have split: "split_once (CHR '':'') (?hex @ CHR '':'' # show_dec idx) = Some (?hex, show_dec idx)"
    using colon_not_in_hex by (rule split_once_append)
  have hex: "from_str_radix 16 (2 ^ 32) ?hex = Some sid"
    using assms(1) by (intro from_str_radix_pad_show) simp_all
  show ?thesis
    unfolding parse_token_def body option.case split prod.case
    by (simp only: hex hex_length [OF assms(1)] parse_u64_show [OF assms(2)] option.case simp_thms if_False)
qed

lemma parse_formatted_handle:
  assumes "sid < 2 ^ 32"
  shows "parse_snapshot_handle (CHR ''s'' # pad_zero 8 (show_radix 16 sid)) = Some sid"
proof -
  have "from_str_radix 16 (2 ^ 32) (pad_zero 8 (show_radix 16 sid)) = Some sid"
    using assms by (intro from_str_radix_pad_show) simp_all
  then show ?thesis
    using colon_not_in_hex [of sid] by (simp add: parse_snapshot_handle_def hex_length [OF assms])
qed

text \<open>
  The token of a snapshot and an element parses back to exactly that pair, and the snapshot
  handle inside it to that snapshot, for every 32-bit snapshot and 64-bit index.
\<close>

lemma token_round_trip:
  assumes "sid < 2 ^ 32" and "idx < 2 ^ 64"
  shows "parse_token (format_token sid idx) = Some (sid, idx) \<and>
    parse_snapshot_handle (takeWhile (\<lambda>c. c \<noteq> CHR '':'') (format_token sid idx)) = Some sid"
proof -
  let ?hex = "pad_zero 8 (show_radix 16 sid)"
  have hex: "from_str_radix 16 (2 ^ 32) ?hex = Some sid"
    using assms(1) by (intro from_str_radix_pad_show) simp_all
  have "parse_token (format_token sid idx) = Some (sid, idx)"
    using assms by (rule parse_format_token)
  moreover have "takeWhile (\<lambda>c. c \<noteq> CHR '':'') (format_token sid idx) = CHR ''s'' # ?hex"
  proof -
    have "format_token sid idx = (CHR ''s'' # ?hex) @ CHR '':'' # show_dec idx"
      by (simp add: format_token_def)
    moreover have "takeWhile (\<lambda>c. c \<noteq> CHR '':'') ((CHR ''s'' # ?hex) @ CHR '':'' # show_dec idx) = CHR ''s'' # ?hex"
      using colon_not_in_hex [of sid] by (subst takeWhile_append2) auto
    ultimately show ?thesis
      by simp
  qed
  moreover have "parse_snapshot_handle (CHR ''s'' # ?hex) = Some sid"
    using assms(1) by (rule parse_formatted_handle)
  ultimately show ?thesis
    by simp
qed

theorem token_round_trip_witness:
  "parse_token (format_token 31295 42) = Some (31295, 42)"
  using token_round_trip [of 31295 42] by simp

section \<open>The caps\<close>

lemma trim_front_drop: "trim_front cap xs = drop (length xs - cap) xs"
  by (induction cap xs rule: trim_front.induct) (auto simp: Suc_diff_le not_le)

lemma trim_front_suffix: "\<exists>ys. xs = ys @ trim_front cap xs"
  unfolding trim_front_drop by (metis append_take_drop_id)

lemma length_trim_front: "length (trim_front cap xs) \<le> cap"
  by (simp add: trim_front_drop)

lemma set_trim_front: "set (trim_front cap xs) \<subseteq> set xs"
  unfolding trim_front_drop by (rule set_drop_subset)

lemma trim_front_snoc: "0 < cap \<Longrightarrow> \<exists>ys. trim_front cap (xs @ [x]) = ys @ [x]"
  by (cases "length xs < cap") (auto simp: trim_front_drop)

section \<open>Lanes\<close>

definition lane_key :: "lane \<Rightarrow> string \<times> int" where
  "lane_key l = (lane_scope l, lane_pid l)"

text \<open>Every live snapshot with the lane that it is in.\<close>

definition entries :: "lane list \<Rightarrow> (string \<times> int \<times> snapshot_entry) set" where
  "entries ls = {(lane_scope l, lane_pid l, e) | l e. l \<in> set ls \<and> e \<in> set (snapshots l)}"

lemma entries_simps [simp]:
  "entries [] = {}"
  "entries (l # ls) = {(lane_scope l, lane_pid l, e) | e. e \<in> set (snapshots l)} \<union> entries ls"
  "entries (ls @ ls') = entries ls \<union> entries ls'"
  by (auto simp: entries_def)

lemma entries_mono: "set ls \<subseteq> set ls' \<Longrightarrow> entries ls \<subseteq> entries ls'"
  by (auto simp: entries_def)

lemma in_lane_key: "in_lane scope pid l \<longleftrightarrow> lane_key l = (scope, pid)"
  by (auto simp: in_lane_def lane_key_def)

lemma take_lane_spec:
  "take_lane scope pid ls = (found, others) \<Longrightarrow>
   (case found of
      None \<Rightarrow> others = ls \<and> (scope, pid) \<notin> lane_key ` set ls
    | Some l \<Rightarrow> \<exists>us vs. ls = us @ l # vs \<and> others = us @ vs \<and> lane_key l = (scope, pid))"
proof (induction ls arbitrary: found others)
  case (Cons l ls)
  show ?case
  proof (cases "in_lane scope pid l")
    case True
    then show ?thesis
      using Cons.prems by (auto simp: in_lane_key) (metis append_Nil)
  next
    case False
    obtain f o' where r: "take_lane scope pid ls = (f, o')"
      by (cases "take_lane scope pid ls")
    then have fo: "found = f" "others = l # o'"
      using Cons.prems False by auto
    show ?thesis
    proof (cases f)
      case None
      then show ?thesis
        using Cons.IH [OF r] fo False by (auto simp: in_lane_key)
    next
      case (Some x)
      with Cons.IH [OF r] obtain us vs where "ls = us @ x # vs" "o' = us @ vs" "lane_key x = (scope, pid)"
        by auto
      then show ?thesis
        using fo Some by simp (metis append_Cons)
    qed
  qed
qed auto

lemma evict_lanes_induct [case_names Nil Keep Drop]:
  assumes "P []"
    and "\<And>l ls. snapshot_total (l # ls) \<le> TOKEN_SNAPSHOT_CAP \<Longrightarrow> P (l # ls)"
    and "\<And>l ls. TOKEN_SNAPSHOT_CAP < snapshot_total (l # ls) \<Longrightarrow>
      P (if tl (snapshots l) = [] then ls else l\<lparr>snapshots := tl (snapshots l)\<rparr> # ls) \<Longrightarrow> P (l # ls)"
  shows "P ls"
proof (induction ls rule: evict_lanes.induct)
  case (2 l ls)
  then show ?case
    using assms(2,3) [of l ls] by (cases "TOKEN_SNAPSHOT_CAP < snapshot_total (l # ls)") auto
qed (rule assms(1))

lemma evict_lanes_keep: "snapshot_total ls \<le> TOKEN_SNAPSHOT_CAP \<Longrightarrow> evict_lanes ls = ls"
  by (cases ls) (auto simp: evict_lanes.simps(2))

lemma evict_lanes_step:
  "TOKEN_SNAPSHOT_CAP < snapshot_total (l # ls) \<Longrightarrow>
   evict_lanes (l # ls) = evict_lanes (if tl (snapshots l) = [] then ls else l\<lparr>snapshots := tl (snapshots l)\<rparr> # ls)"
  by (subst evict_lanes.simps(2)) simp

lemma set_tl_subset: "set (tl xs) \<subseteq> set xs"
  by (cases xs) auto

lemma evict_lanes_total: "snapshot_total (evict_lanes ls) \<le> TOKEN_SNAPSHOT_CAP"
  by (induction ls rule: evict_lanes_induct)
    (simp_all add: evict_lanes_keep evict_lanes_step snapshot_total_def [of "[]"])

lemma evict_lanes_keys: "\<exists>ys. map lane_key ls = ys @ map lane_key (evict_lanes ls)"
proof (induction ls rule: evict_lanes_induct)
  case (Drop l ls)
  let ?next = "if tl (snapshots l) = [] then ls else l\<lparr>snapshots := tl (snapshots l)\<rparr> # ls"
  have "map lane_key (l # ls) = (if tl (snapshots l) = [] then [lane_key l] else []) @ map lane_key ?next"
    by (simp add: lane_key_def)
  then show ?case
    using Drop by (metis append.assoc evict_lanes_step)
qed (simp_all add: evict_lanes_keep)

lemma evict_lanes_entries: "entries (evict_lanes ls) \<subseteq> entries ls"
proof (induction ls rule: evict_lanes_induct)
  case (Drop l ls)
  have "entries (if tl (snapshots l) = [] then ls else l\<lparr>snapshots := tl (snapshots l)\<rparr> # ls) \<subseteq> entries (l # ls)"
    using set_tl_subset [of "snapshots l"] by auto
  then show ?case
    using Drop.IH unfolding evict_lanes_step [OF Drop(1)] by blast
qed (simp_all add: evict_lanes_keep)

lemma evict_lanes_lengths:
  "\<forall>l \<in> set ls. length (snapshots l) \<le> n \<Longrightarrow> \<forall>l \<in> set (evict_lanes ls). length (snapshots l) \<le> n"
proof (induction ls rule: evict_lanes_induct)
  case (Drop l ls)
  have "\<forall>x \<in> set (if tl (snapshots l) = [] then ls else l\<lparr>snapshots := tl (snapshots l)\<rparr> # ls).
      length (snapshots x) \<le> n"
    using Drop.prems by auto
  then show ?case
    unfolding evict_lanes_step [OF Drop(1)] by (rule Drop.IH)
qed (simp_all add: evict_lanes_keep)

text \<open>The lane that has just been used survives: the oldest lanes pay.\<close>

lemma evict_lanes_last:
  assumes "length (snapshots l) \<le> TOKEN_SNAPSHOT_CAP"
  shows "\<exists>xs. evict_lanes (ls @ [l]) = xs @ [l]"
proof (induction "snapshot_total ls + length ls" arbitrary: ls rule: less_induct)
  case less
  show ?case
  proof (cases "snapshot_total (ls @ [l]) \<le> TOKEN_SNAPSHOT_CAP")
    case True
    then show ?thesis
      by (simp add: evict_lanes_keep)
  next
    case False
    then obtain a r where ls: "ls = a # r"
      using assms by (cases ls) (auto simp: snapshot_total_def)
    let ?next = "if tl (snapshots a) = [] then r else a\<lparr>snapshots := tl (snapshots a)\<rparr> # r"
    have "snapshot_total ?next + length ?next < snapshot_total ls + length ls"
      by (cases "snapshots a") (auto simp: ls snapshot_total_def)
    then have "\<exists>xs. evict_lanes (?next @ [l]) = xs @ [l]"
      by (rule less)
    moreover have "evict_lanes (ls @ [l]) = evict_lanes (?next @ [l])"
      using False evict_lanes_step [of a "r @ [l]"] by (simp add: ls)
    ultimately show ?thesis
      by simp
  qed
qed

section \<open>The registry invariant\<close>

definition registry_ok :: "token_state \<Rightarrow> bool" where
  "registry_ok s \<longleftrightarrow>
     schema s = token_state_schema \<and> length (lanes s) \<le> TOKEN_LANE_CAP \<and>
     (\<forall>l \<in> set (lanes s). length (snapshots l) \<le> LRU_CAP_PER_PID) \<and>
     snapshot_total (lanes s) \<le> TOKEN_SNAPSHOT_CAP \<and>
     distinct (map lane_key (lanes s)) \<and>
     inj_on (\<lambda>(scope, pid, e). snapshot_id e) (entries (lanes s))"

definition empty_state :: token_state where
  "empty_state = \<lparr>schema = token_state_schema, lanes = []\<rparr>"

lemma empty_state_ok: "registry_ok empty_state"
  by (simp add: registry_ok_def empty_state_def snapshot_total_def)

lemma id_live_entries: "id_live s i \<longleftrightarrow> (\<exists>scope pid e. (scope, pid, e) \<in> entries (lanes s) \<and> snapshot_id e = i)"
  by (auto simp: id_live_def entries_def)

lemma register_spec:
  assumes "distinct (map lane_key (lanes s))"
  obtains others l xs where "set others \<subseteq> set (lanes s)" "distinct (map lane_key (others @ [l]))"
    and "lane_key l = (scope, pid)" "length (snapshots l) \<le> LRU_CAP_PER_PID"
    and "snapshots l = xs @ [e]"
    and "\<And>x. x \<in> set xs \<Longrightarrow> window_id x \<noteq> window_id e \<and> (scope, pid, x) \<in> entries (lanes s)"
    and "(scope, pid) \<notin> lane_key ` set others"
    and "register s scope pid e = \<lparr>schema = token_state_schema,
      lanes = evict_lanes (trim_front TOKEN_LANE_CAP (others @ [l]))\<rparr>"
proof -
  obtain found others where tk: "take_lane scope pid (lanes s) = (found, others)"
    by (cases "take_lane scope pid (lanes s)")
  define l0 where "l0 = (case found of Some l \<Rightarrow> l | None \<Rightarrow> \<lparr>lane_scope = scope, lane_pid = pid, snapshots = []\<rparr>)"
  define kept where "kept = filter (\<lambda>x. window_id x \<noteq> window_id e) (snapshots l0)"
  define l where "l = l0\<lparr>snapshots := trim_front LRU_CAP_PER_PID (kept @ [e])\<rparr>"
  obtain xs where xs: "trim_front LRU_CAP_PER_PID (kept @ [e]) = xs @ [e]"
    using trim_front_snoc [of LRU_CAP_PER_PID kept e] by (auto simp: LRU_CAP_PER_PID_def)
  have facts: "set others \<subseteq> set (lanes s)" "(scope, pid) \<notin> lane_key ` set others"
      "distinct (map lane_key others)" "lane_key l0 = (scope, pid)"
      "set (snapshots l0) \<subseteq> {x. (scope, pid, x) \<in> entries (lanes s)}"
    using take_lane_spec [OF tk] assms
    by (auto simp: l0_def lane_key_def entries_def split: option.splits)
  have "set xs \<subseteq> set kept \<union> {e}"
    using set_trim_front [of LRU_CAP_PER_PID "kept @ [e]"] xs by auto
  moreover have "e \<notin> set xs"
  proof
    assume "e \<in> set xs"
    have "count_list (xs @ [e]) e \<le> count_list (kept @ [e]) e"
      unfolding xs [symmetric] trim_front_drop by (metis append_take_drop_id count_list_append le_add2)
    moreover have "count_list kept e = 0"
      by (auto simp: kept_def count_list_0_iff)
    ultimately show False
      using \<open>e \<in> set xs\<close> by (auto simp: count_list_0_iff)
  qed
  ultimately have xs_kept: "set xs \<subseteq> set kept"
    by auto
  show ?thesis
  proof (rule that [of others l xs])
    show "distinct (map lane_key (others @ [l]))" "lane_key l = (scope, pid)"
      using facts by (auto simp: l_def lane_key_def)
    show "length (snapshots l) \<le> LRU_CAP_PER_PID"
      by (simp add: l_def length_trim_front)
    show "snapshots l = xs @ [e]"
      by (simp add: l_def xs)
    show "register s scope pid e = \<lparr>schema = token_state_schema,
        lanes = evict_lanes (trim_front TOKEN_LANE_CAP (others @ [l]))\<rparr>"
      by (simp add: register_def tk l_def kept_def l0_def Let_def)
    show "window_id x \<noteq> window_id e \<and> (scope, pid, x) \<in> entries (lanes s)" if "x \<in> set xs" for x
      using that xs_kept facts(5) by (auto simp: kept_def)
  qed (use facts in auto)
qed

lemma register_facts:
  assumes ok: "registry_ok s" and fresh: "\<not> id_live s (snapshot_id e)"
  shows "registry_ok (register s scope pid e)"
    and "entries (lanes (register s scope pid e)) \<subseteq>
      insert (scope, pid, e) (entries (lanes s) - {(scope, pid, x) | x. window_id x = window_id e})"
    and "(scope, pid, e) \<in> entries (lanes (register s scope pid e))"
proof -
  have d: "distinct (map lane_key (lanes s))"
    using ok by (simp add: registry_ok_def)
  obtain others l xs where o: "set others \<subseteq> set (lanes s)" "distinct (map lane_key (others @ [l]))"
    "lane_key l = (scope, pid)" "length (snapshots l) \<le> LRU_CAP_PER_PID" "snapshots l = xs @ [e]"
    "\<And>x. x \<in> set xs \<Longrightarrow> window_id x \<noteq> window_id e \<and> (scope, pid, x) \<in> entries (lanes s)"
    "(scope, pid) \<notin> lane_key ` set others"
    and reg: "register s scope pid e = \<lparr>schema = token_state_schema,
      lanes = evict_lanes (trim_front TOKEN_LANE_CAP (others @ [l]))\<rparr>"
    by (rule register_spec [OF d]) (rule that)
  let ?new = "trim_front TOKEN_LANE_CAP (others @ [l])"
  let ?ls = "evict_lanes ?new"
  obtain ys where ys: "?new = ys @ [l]"
    using trim_front_snoc [of TOKEN_LANE_CAP others l] by (auto simp: TOKEN_LANE_CAP_def)
  have cap: "length (snapshots l) \<le> TOKEN_SNAPSHOT_CAP"
    using o(4) by (simp add: LRU_CAP_PER_PID_def TOKEN_SNAPSHOT_CAP_def)
  obtain zs where zs: "?ls = zs @ [l]"
    using evict_lanes_last [OF cap, of ys] ys by auto
  have "entries ?ls \<subseteq> entries (others @ [l])"
    using evict_lanes_entries [of ?new] entries_mono [OF set_trim_front] by blast
  also have "entries (others @ [l]) \<subseteq>
      insert (scope, pid, e) (entries (lanes s) - {(scope, pid, x) | x. window_id x = window_id e})"
  proof -
    have "entries others \<subseteq> entries (lanes s)"
      using o(1) by (rule entries_mono)
    moreover have "(scope, pid, x) \<notin> entries others" for x
      using o(7) by (auto simp: entries_def lane_key_def image_iff)
    moreover have "lane_scope l = scope" "lane_pid l = pid"
      using o(3) by (simp_all add: lane_key_def)
    ultimately show ?thesis
      using o(5,6) by auto
  qed
  finally show sub: "entries (lanes (register s scope pid e)) \<subseteq>
      insert (scope, pid, e) (entries (lanes s) - {(scope, pid, x) | x. window_id x = window_id e})"
    by (simp add: reg)
  show "(scope, pid, e) \<in> entries (lanes (register s scope pid e))"
    using o(3,5) by (auto simp: reg zs lane_key_def)
  have "inj_on (\<lambda>(scope, pid, e). snapshot_id e) (insert (scope, pid, e) (entries (lanes s)))"
    unfolding inj_on_insert
  proof
    show "inj_on (\<lambda>(scope, pid, e). snapshot_id e) (entries (lanes s))"
      using ok by (simp add: registry_ok_def)
    have "snapshot_id x \<noteq> snapshot_id e" if "(a, b, x) \<in> entries (lanes s)" for a b x
      using fresh that by (auto simp: id_live_entries)
    then show "(\<lambda>(scope, pid, e). snapshot_id e) (scope, pid, e) \<notin>
        (\<lambda>(scope, pid, e). snapshot_id e) ` (entries (lanes s) - {(scope, pid, e)})"
      by fastforce
  qed
  then have "inj_on (\<lambda>(scope, pid, e). snapshot_id e) (entries ?ls)"
    by (rule inj_on_subset) (use sub reg in auto)
  moreover have "distinct (map lane_key ?ls)"
  proof -
    obtain ks where "map lane_key ?new = ks @ map lane_key ?ls"
      using evict_lanes_keys by blast
    moreover have "distinct (map lane_key ?new)"
      using o(2) unfolding trim_front_drop drop_map [symmetric] by (rule distinct_drop)
    ultimately show ?thesis
      by simp
  qed
  moreover have "length ?ls \<le> TOKEN_LANE_CAP"
  proof -
    have "length ?ls \<le> length ?new"
      using evict_lanes_keys [of ?new] by (metis le_add2 length_append length_map)
    then show ?thesis
      using length_trim_front [of TOKEN_LANE_CAP "others @ [l]"] by simp
  qed
  moreover have "\<forall>x \<in> set ?ls. length (snapshots x) \<le> LRU_CAP_PER_PID"
    using o(1,4) ok set_trim_front [of TOKEN_LANE_CAP "others @ [l]"]
    by (intro evict_lanes_lengths) (auto simp: registry_ok_def)
  ultimately show "registry_ok (register s scope pid e)"
    using evict_lanes_total by (simp add: registry_ok_def reg)
qed

section \<open>Resolution\<close>

lemma find_lane:
  assumes "distinct (map lane_key ls)" and "l \<in> set ls" and "lane_key l = (scope, pid)"
  shows "find (in_lane scope pid) ls = Some l"
  using assms
proof (induction ls)
  case (Cons a ls)
  then show ?case
    by (cases "a = l") (auto simp: in_lane_key image_iff)
qed simp

lemma resolve_sound:
  assumes "resolve s scope pid sid idx = Inr (w, i)"
  shows "\<exists>e. (scope, pid, e) \<in> entries (lanes s) \<and> snapshot_id e = sid \<and> window_id e = w \<and>
    i = idx \<and> idx \<le> max_element_index e"
proof -
  from assms obtain l e where l: "find (in_lane scope pid) (lanes s) = Some l"
    and e: "find (\<lambda>e. snapshot_id e = sid) (snapshots l) = Some e" "window_id e = w" "i = idx"
      "idx \<le> max_element_index e"
    by (auto simp: resolve_def Let_def bind_eq_Some_conv split: if_splits option.splits)
  have "l \<in> set (lanes s)" "in_lane scope pid l" "e \<in> set (snapshots l)" "snapshot_id e = sid"
    using l e(1) by (auto simp: find_Some_iff in_set_conv_nth)
  then show ?thesis
    using e by (auto simp: entries_def in_lane_def)
qed

lemma resolve_complete:
  assumes ok: "registry_ok s" and e: "(scope, pid, e) \<in> entries (lanes s)"
  shows "resolve s scope pid (snapshot_id e) idx =
    (if idx \<le> max_element_index e then Inr (window_id e, idx) else Inl (Out_Of_Range idx (max_element_index e + 1)))"
proof -
  from e obtain l where l: "l \<in> set (lanes s)" "lane_key l = (scope, pid)" "e \<in> set (snapshots l)"
    by (auto simp: entries_def lane_key_def)
  have lane: "find (in_lane scope pid) (lanes s) = Some l"
    using ok l by (intro find_lane) (auto simp: registry_ok_def)
  obtain x where x: "find (\<lambda>x. snapshot_id x = snapshot_id e) (snapshots l) = Some x"
    using l(3) by (cases "find (\<lambda>x. snapshot_id x = snapshot_id e) (snapshots l)") (auto simp: find_None_iff)
  then have "x \<in> set (snapshots l)" "snapshot_id x = snapshot_id e"
    by (auto simp: find_Some_iff in_set_conv_nth)
  then have "(scope, pid, x) \<in> entries (lanes s)" "snapshot_id x = snapshot_id e"
    using l by (auto simp: entries_def lane_key_def)
  then have "x = e"
    using ok e by (auto simp: registry_ok_def inj_on_def)
  then show ?thesis
    using ok lane x by (auto simp: resolve_def registry_ok_def Let_def)
qed

section \<open>The registry over time\<close>

text \<open>
  A step registers a snapshot: the random draws, the runtime, the process, the window and the
  number of elements. The ghost map holds the snapshot registered last for each window.
\<close>

type_synonym latest = "string \<times> int \<times> nat \<Rightarrow> snapshot_entry option"

definition reg_step ::
    "token_state \<times> latest \<Rightarrow> nat list \<times> string \<times> int \<times> nat \<times> nat \<Rightarrow> (token_state \<times> latest) \<times> nat option" where
  "reg_step sh ev =
     (let (s, h) = sh; (draws, scope, pid, wid, element_count) = ev
      in case fresh_id s draws of
           None \<Rightarrow> (sh, None)
         | Some i \<Rightarrow>
             (let e = \<lparr>snapshot_id = i, window_id = wid, max_element_index = element_count - 1\<rparr>
              in ((register s scope pid e, h((scope, pid, wid) \<mapsto> e)), Some i)))"

definition reg_inv :: "token_state \<times> latest \<Rightarrow> bool" where
  "reg_inv sh \<longleftrightarrow> registry_ok (fst sh) \<and>
     (\<forall>scope pid e. (scope, pid, e) \<in> entries (lanes (fst sh)) \<longrightarrow> snd sh (scope, pid, window_id e) = Some e)"

lemma fresh_id_Some: "fresh_id s draws = Some i \<Longrightarrow> i \<noteq> 0 \<and> \<not> id_live s i \<and> i \<in> set draws"
  by (induction draws) (auto split: if_splits)

lemma reg_step_inv: "reg_inv sh \<Longrightarrow> reg_inv (fst (reg_step sh ev))"
proof -
  assume inv: "reg_inv sh"
  obtain s h where sh: "sh = (s, h)"
    by (cases sh)
  obtain draws scope pid wid n where ev: "ev = (draws, scope, pid, wid, n)"
    by (cases ev) auto
  show ?thesis
  proof (cases "fresh_id s draws")
    case None
    then show ?thesis
      using inv by (simp add: reg_step_def sh ev)
  next
    case (Some i)
    let ?e = "\<lparr>snapshot_id = i, window_id = wid, max_element_index = n - 1\<rparr>"
    have ok: "registry_ok s" and fresh: "\<not> id_live s (snapshot_id ?e)"
      using inv fresh_id_Some [OF Some] by (auto simp: reg_inv_def sh)
    have h: "h (scope', pid', window_id x) = Some x" if "(scope', pid', x) \<in> entries (lanes s)" for scope' pid' x
      using inv that by (auto simp: reg_inv_def sh)
    have step: "fst (reg_step sh ev) = (register s scope pid ?e, h((scope, pid, wid) \<mapsto> ?e))"
      using Some by (simp add: reg_step_def sh ev Let_def)
    show ?thesis
      unfolding step reg_inv_def fst_conv snd_conv
      using register_facts(1) [OF ok fresh, of scope pid] register_facts(2) [OF ok fresh, of scope pid] h
      by auto
  qed
qed

interpretation registry: machine reg_step reg_inv
  by unfold_locales (rule reg_step_inv)

lemma reg_init: "reg_inv (empty_state, \<lambda>_. None)"
  using empty_state_ok by (simp add: reg_inv_def empty_state_def)


text \<open>
  Along every sequence of registrations the state stays within its three caps, is accepted
  again by the loader, and the snapshot registered last resolves: every element of it, and nothing
  beyond it.
\<close>

lemma registered_snapshot_resolves:
  assumes "fst (run_machine reg_step (empty_state, \<lambda>_. None) evs) = (s, h)"
    and "reg_step (s, h) (draws, scope, pid, wid, n) = ((s', h'), Some i)"
  shows "load_disk_state (Stored s') = Inr s' \<and>
    resolve s' scope pid i idx =
      (if idx \<le> n - 1 then Inr (wid, idx) else Inl (Out_Of_Range idx (n - 1 + 1)))"
proof -
  let ?e = "\<lparr>snapshot_id = i, window_id = wid, max_element_index = n - 1\<rparr>"
  have inv: "reg_inv (s, h)"
    using registry.run_inv [OF reg_init, of evs] assms(1) by simp
  have f: "fresh_id s draws = Some i" and s': "s' = register s scope pid ?e"
    using assms(2) by (auto simp: reg_step_def Let_def split: option.splits)
  have facts: "registry_ok s'" "(scope, pid, ?e) \<in> entries (lanes s')"
    using inv fresh_id_Some [OF f] register_facts(1,3) [of s ?e scope pid] by (auto simp: reg_inv_def s')
  have "load_disk_state (Stored s') = Inr s'"
    using facts(1) by (simp add: load_disk_state_def registry_ok_def not_less then_ok_eq_Inr)
  then show ?thesis
    using resolve_complete [OF facts, of idx] by simp
qed

definition example_events :: "(nat list \<times> string \<times> int \<times> nat \<times> nat) list" where
  "example_events = [([0, 5], ''r'', 10, 3, 2), ([5, 6], ''r'', 10, 3, 4)]"

definition example_entry :: snapshot_entry where
  "example_entry = \<lparr>snapshot_id = 6, window_id = 3, max_element_index = 3\<rparr>"

lemma example_registry:
  "fst (run_machine reg_step (empty_state, \<lambda>_. None) example_events) =
     (\<lparr>schema = 1, lanes = [\<lparr>lane_scope = ''r'', lane_pid = 10, snapshots = [example_entry]\<rparr>]\<rparr>,
      (\<lambda>_. None)((''r'', 10, 3) \<mapsto> example_entry))"
  by (simp add: example_events_def reg_step_def empty_state_def id_live_def register_def in_lane_def Let_def
      LRU_CAP_PER_PID_def TOKEN_LANE_CAP_def evict_lanes_keep snapshot_total_def TOKEN_SNAPSHOT_CAP_def
      token_state_schema_def example_entry_def)


theorem registered_snapshot_resolves_witness:
  "fst (fst (reg_step (empty_state, \<lambda>_. None) ([5], ''r'', 10, 3, 2))) = fst (fst (reg_step (empty_state, \<lambda>_. None) ([5], ''r'', 10, 3, 2)))
   \<and> resolve (fst (fst (reg_step (empty_state, \<lambda>_. None) ([5], ''r'', 10, 3, 2)))) ''r'' 10 5 1 = Inr (3, 1)"
proof -
  have run: "fst (run_machine reg_step (empty_state, \<lambda>_. None) []) = (empty_state, \<lambda>_. None)"
    by simp
  have step: "reg_step (empty_state, \<lambda>_. None) ([5], ''r'', 10, 3, 2) =
    ((fst (fst (reg_step (empty_state, \<lambda>_. None) ([5], ''r'', 10, 3, 2))),
      snd (fst (reg_step (empty_state, \<lambda>_. None) ([5], ''r'', 10, 3, 2)))), Some 5)"
    by (simp add: reg_step_def empty_state_def id_live_def Let_def)
  show ?thesis
    using registered_snapshot_resolves [OF run step, of 1] by simp
qed

section \<open>Tool calls\<close>

text \<open>
  A tool call gets an element target only if every target field it passed agrees with one live
  snapshot: the token or the snapshot handle with the index name it, its window is the one passed,
  and the index is the one passed. Without any of the fields there is no target.
\<close>

lemma element_args_agree:
  assumes "\<forall>x. arg_index = Some x \<longrightarrow> x < 2 ^ 64"
    and "resolve_element_args st scope pid arg_index arg_token arg_snapshot arg_window tool = Inr (Element w i)"
  shows "\<exists>tok sid wid. w = Some wid \<and> resolve_token st scope pid tok = Inr (wid, i) \<and>
    (arg_token = Some tok \<or> arg_token = None \<and> tok = format_token sid i \<and>
       arg_index = Some i \<and> arg_snapshot \<noteq> None) \<and>
    (\<forall>x. arg_index = Some x \<longrightarrow> x = i) \<and> (\<forall>x. arg_window = Some x \<longrightarrow> x = wid) \<and>
    (\<forall>handle. arg_snapshot = Some handle \<longrightarrow>
       (case arg_token of Some t \<Rightarrow> parse_snapshot_handle handle = map_option fst (parse_token t)
        | None \<Rightarrow> parse_snapshot_handle handle = Some sid))"
proof (cases arg_token)
  case (Some tok)
  then show ?thesis
    using assms(2)
    by (cases arg_index; cases arg_snapshot)
      (auto simp: resolve_element_args_def then_ok_eq_Inr map_err_eq_Inr split: if_splits option.splits)
next
  case None
  then obtain idx handle where args: "arg_index = Some idx" "arg_snapshot = Some handle"
    using assms(2) by (cases arg_index; cases arg_snapshot) (auto simp: resolve_element_args_def)
  obtain sid where sid: "parse_snapshot_handle handle = Some sid"
    using assms(2) None args by (auto simp: resolve_element_args_def split: option.splits)
  obtain wid where r: "resolve_token st scope pid (format_token sid idx) = Inr (wid, i)" "w = Some wid"
    and win: "arg_window = None \<or> arg_window = Some wid"
    using assms(2) None args sid
    by (auto simp: resolve_element_args_def then_ok_eq_Inr map_err_eq_Inr split: if_splits)
  have "sid < 2 ^ 32"
    using sid by (auto simp: parse_snapshot_handle_def dest!: from_str_radix_bound split: option.splits if_splits)
  moreover have "idx < 2 ^ 64"
    using assms(1) args(1) by simp
  ultimately have "parse_token (format_token sid idx) = Some (sid, idx)"
    by (rule parse_format_token)
  then have same: "i = idx"
    using r(1) by (auto simp: resolve_token_def split: sum.splits dest: resolve_sound)
  show ?thesis
    using None args sid r win same by auto
qed

definition example_stored :: stored where
  "example_stored =
     Stored \<lparr>schema = 1, lanes = [\<lparr>lane_scope = ''r'', lane_pid = 10, snapshots = [example_entry]\<rparr>]\<rparr>"

lemma example_call:
  "resolve_element_args example_stored ''r'' 10 (Some 2) None (Some (CHR ''s'' # pad_zero 8 (show_radix 16 6))) (Some 3) ''click'' =
     Inr (Element (Some 3) 2)"
proof -
  have h: "parse_snapshot_handle (CHR ''s'' # pad_zero 8 (show_radix 16 6)) = Some 6"
    by (rule parse_formatted_handle) simp
  have p: "parse_token (format_token 6 2) = Some (6, 2)"
    by (rule parse_format_token) simp_all
  have "resolve_token example_stored ''r'' 10 (format_token 6 2) = Inr (3, 2)"
    by (simp add: resolve_token_def p example_stored_def load_disk_state_def token_state_schema_def
        TOKEN_LANE_CAP_def LRU_CAP_PER_PID_def TOKEN_SNAPSHOT_CAP_def snapshot_total_def resolve_def in_lane_def
        example_entry_def)
  then show ?thesis
    by (simp add: resolve_element_args_def h)
qed

theorem element_args_agree_witness:
  "\<exists>tok. resolve_token example_stored ''r'' 10 tok = Inr (3, 2)"
  using element_args_agree [OF _ example_call] by auto

end
