(* ===== verification/Json_Values.thy ===== *)
theory Json_Values
  imports Prelude
begin

text \<open>
  JSON values as \<open>serde_json::Value\<close> delivers them, the accessors that the code uses, and the rule
  that an object has exactly given fields.
\<close>

text \<open>The JSON values; an object has each key once, as \<open>serde_json::Map\<close>.\<close>

datatype json =
  J_Null | J_Bool bool | J_Int int | J_Float | J_String string | J_Array "json list"
| J_Object "string \<rightharpoonup> json"

fun json_get :: "json \<Rightarrow> string \<Rightarrow> json option" where
  "json_get (J_Object m) k = m k"
| "json_get _ k = None"

fun as_str :: "json \<Rightarrow> string option" where
  "as_str (J_String s) = Some s"
| "as_str _ = None"

fun as_u32 :: "json \<Rightarrow> nat option" where
  "as_u32 (J_Int n) = (if 0 \<le> n \<and> n < 2 ^ 32 then Some (nat n) else None)"
| "as_u32 _ = None"

text \<open>\<open>#[serde(deny_unknown_fields)]\<close>: the value is an object without any other field.\<close>

definition fields_within :: "(string \<rightharpoonup> json) \<Rightarrow> string set \<Rightarrow> bool" where
  "fields_within m names \<longleftrightarrow> dom m \<subseteq> names"

definition known_fields :: "json \<Rightarrow> string set \<Rightarrow> bool" where
  "known_fields v names = (case v of J_Object m \<Rightarrow> fields_within m names | _ \<Rightarrow> False)"

definition str_field :: "json \<Rightarrow> string \<Rightarrow> string option" where
  "str_field v k = Option.bind (json_get v k) as_str"

definition u32_field :: "json \<Rightarrow> string \<Rightarrow> nat option" where
  "u32_field v k = Option.bind (json_get v k) as_u32"

lemma as_str_Some [simp]: "as_str v = Some s \<longleftrightarrow> v = J_String s"
  by (cases v) auto

lemma as_u32_Some: "as_u32 v = Some n \<longleftrightarrow> v = J_Int (int n) \<and> n < 2 ^ 32"
  by (cases v) auto

lemma str_field_Some [simp]: "str_field v k = Some s \<longleftrightarrow> (\<exists>m. v = J_Object m \<and> m k = Some (J_String s))"
  by (cases v) (auto simp: str_field_def bind_eq_Some_conv)

lemma u32_field_one:
  "u32_field v k = Some (Suc 0) \<longleftrightarrow> (\<exists>m. v = J_Object m \<and> m k = Some (J_Int 1))"
  by (cases v) (auto simp: u32_field_def bind_eq_Some_conv as_u32_Some)

lemma map_of_iff:
  "distinct (map fst kvs) \<Longrightarrow>
   m = map_of kvs \<longleftrightarrow> dom m \<subseteq> set (map fst kvs) \<and> list_all (\<lambda>(k, v). m k = Some v) kvs"
proof
  assume d: "distinct (map fst kvs)" and "m = map_of kvs"
  then show "dom m \<subseteq> set (map fst kvs) \<and> list_all (\<lambda>(k, v). m k = Some v) kvs"
    by (auto simp: dom_map_of_conv_image_fst list_all_iff)
next
  assume d: "distinct (map fst kvs)"
    and h: "dom m \<subseteq> set (map fst kvs) \<and> list_all (\<lambda>(k, v). m k = Some v) kvs"
  show "m = map_of kvs"
  proof
    fix k
    show "m k = map_of kvs k"
    proof (cases "map_of kvs k")
      case None
      then have "k \<notin> set (map fst kvs)"
        by (simp add: map_of_eq_None_iff)
      then have "m k = None"
        using h by auto
      then show ?thesis
        using None by simp
    next
      case (Some v)
      then have "(k, v) \<in> set kvs"
        by (rule map_of_SomeD)
      then show ?thesis
        using h Some by (auto simp: list_all_iff)
    qed
  qed
qed

lemma json_object_iff:
  "distinct (map fst kvs) \<Longrightarrow>
   v = J_Object (map_of kvs) \<longleftrightarrow>
   (\<exists>m. v = J_Object m \<and> dom m \<subseteq> set (map fst kvs) \<and> list_all (\<lambda>(k, x). m k = Some x) kvs)"
proof -
  assume d: "distinct (map fst kvs)"
  have "v = J_Object (map_of kvs) \<longleftrightarrow> (\<exists>m. v = J_Object m \<and> m = map_of kvs)"
    by simp
  then show ?thesis
    unfolding map_of_iff [OF d] .
qed

lemma known_fields_iff: "known_fields v names \<longleftrightarrow> (\<exists>m. v = J_Object m \<and> fields_within m names)"
  by (cases v) (auto simp: known_fields_def)

end
