(* ===== verification/Keyboard_Map.thy ===== *)
theory Keyboard_Map
  imports Json_Values
begin

text \<open>
  Keyboard-map requests of the display helper, \<open>host/crates/buzzardos-display/src/keyboard.rs\<close>:
  the bounded layout description and its validation, the four transaction requests and their
  strict parser, and the responses. The JSON value is the tree that \<open>serde_json\<close> delivers; the
  derived deserializers with \<open>deny_unknown_fields\<close> are \<open>exact_fields\<close>.
\<close>

section \<open>Layout descriptions\<close>

definition TOKEN_BYTES :: nat where "TOKEN_BYTES = 32"
definition DIGEST_BYTES :: nat where "DIGEST_BYTES = 64"
definition MAX_MODEL_BYTES :: nat where "MAX_MODEL_BYTES = 64"
definition MAX_LAYOUT_BYTES :: nat where "MAX_LAYOUT_BYTES = 256"
definition MAX_VARIANT_BYTES :: nat where "MAX_VARIANT_BYTES = 256"
definition MAX_OPTIONS_BYTES :: nat where "MAX_OPTIONS_BYTES = 512"

record keyboard_map_spec =
  spec_model :: string
  spec_layout :: string
  spec_variant :: string
  spec_options :: string

definition standard_us :: keyboard_map_spec where
  "standard_us = \<lparr>spec_model = ''pc105'', spec_layout = ''us'', spec_variant = [], spec_options = []\<rparr>"

definition component_char :: "char \<Rightarrow> bool" where
  "component_char c \<longleftrightarrow> ascii_alphanumeric c \<or> c \<in> set ''_-+,:.''"

definition validate_component :: "string \<Rightarrow> string \<Rightarrow> nat \<Rightarrow> nat \<Rightarrow> string + unit" where
  "validate_component name v minimum maximum =
     (if length v < minimum \<or> maximum < length v
      then Inl (''keyboard '' @ name @ '' must contain '' @ show_dec minimum @ ''..='' @ show_dec maximum @ '' ASCII bytes'')
      else if \<not> list_all component_char v
      then Inl (''keyboard '' @ name @ '' contains unsupported characters'')
      else Inr ())"

definition spec_validate :: "keyboard_map_spec \<Rightarrow> string + unit" where
  "spec_validate sp =
     then_ok (validate_component ''model'' (spec_model sp) 1 MAX_MODEL_BYTES) (\<lambda>_.
     then_ok (validate_component ''layout'' (spec_layout sp) 1 MAX_LAYOUT_BYTES) (\<lambda>_.
     then_ok (validate_component ''variant'' (spec_variant sp) 0 MAX_VARIANT_BYTES) (\<lambda>_.
     then_ok (validate_component ''options'' (spec_options sp) 0 MAX_OPTIONS_BYTES) (\<lambda>_.
     let groups = split_on (CHR '','') (spec_layout sp);
         layouts = length groups
     in if 4 < layouts \<or> [] \<in> set groups
        then Inl ''keyboard layout must contain between one and four non-empty groups''
        else then_ok
          (if spec_variant sp \<noteq> [] then
             (let variants = length (split_on (CHR '','') (spec_variant sp))
              in if 4 < variants then Inl ''keyboard variant must contain at most four comma-aligned groups''
                 else if layouts < variants
                 then Inl ''keyboard variant defines more groups than keyboard layout''
                 else Inr ())
           else Inr ()) (\<lambda>_.
          if spec_options sp \<noteq> [] \<and> [] \<in> set (split_on (CHR '','') (spec_options sp))
          then Inl ''keyboard options contain an empty option''
          else Inr ())))))"

section \<open>Requests\<close>

datatype map_method = Method_Prepare | Method_Status | Method_Commit | Method_Abort

fun method_name :: "map_method \<Rightarrow> string" where
  "method_name Method_Prepare = ''PrepareKeyboardMap''"
| "method_name Method_Status = ''StatusKeyboardMap''"
| "method_name Method_Commit = ''CommitKeyboardMap''"
| "method_name Method_Abort = ''AbortKeyboardMap''"

definition method_parse :: "string \<Rightarrow> map_method option" where
  "method_parse v =
     (if v = ''PrepareKeyboardMap'' then Some Method_Prepare
      else if v = ''StatusKeyboardMap'' then Some Method_Status
      else if v = ''CommitKeyboardMap'' then Some Method_Commit
      else if v = ''AbortKeyboardMap'' then Some Method_Abort
      else None)"

datatype map_request =
  Prepare string keyboard_map_spec string
| Status string
| Commit string string
| Abort string string

fun request_method :: "map_request \<Rightarrow> map_method" where
  "request_method (Prepare _ _ _) = Method_Prepare"
| "request_method (Status _) = Method_Status"
| "request_method (Commit _ _) = Method_Commit"
| "request_method (Abort _ _) = Method_Abort"

definition require_schema :: "nat \<Rightarrow> string + unit" where
  "require_schema n = bail_if (n \<noteq> 1) (''unsupported keyboard-map schema '' @ show_dec n)"

definition lower_hex_text :: "nat \<Rightarrow> string \<Rightarrow> bool" where
  "lower_hex_text n s \<longleftrightarrow> length s = n \<and> list_all lower_hexdigit s"

definition validate_token :: "string \<Rightarrow> string + unit" where
  "validate_token t = bail_if (\<not> lower_hex_text TOKEN_BYTES t)
     ''keyboard-map token must be 32 lowercase hexadecimal characters''"

definition validate_digest :: "string \<Rightarrow> string + unit" where
  "validate_digest d = bail_if (\<not> lower_hex_text DIGEST_BYTES d)
     ''keyboard-map digest must be 64 lowercase hexadecimal characters''"

definition parse_prepare :: "json \<Rightarrow> string + map_request" where
  "parse_prepare v =
     (let e = ''parsing keyboard-map prepare request'' in
      then_ok (bail_if (\<not> known_fields v {''schema'', ''method'', ''token'', ''model'', ''layout'', ''variant'',
        ''options'', ''keymap_sha256''}) e) (\<lambda>_.
      then_ok (ok_or e (u32_field v ''schema'')) (\<lambda>schema.
      then_ok (ok_or e (str_field v ''method'')) (\<lambda>meth.
      then_ok (ok_or e (str_field v ''token'')) (\<lambda>token.
      then_ok (ok_or e (str_field v ''model'')) (\<lambda>model.
      then_ok (ok_or e (str_field v ''layout'')) (\<lambda>layout.
      then_ok (ok_or e (str_field v ''variant'')) (\<lambda>variant.
      then_ok (ok_or e (str_field v ''options'')) (\<lambda>opts.
      then_ok (ok_or e (str_field v ''keymap_sha256'')) (\<lambda>digest.
      then_ok (require_schema schema) (\<lambda>_.
      then_ok (bail_if (meth \<noteq> ''PrepareKeyboardMap'') ''keyboard-map method changed while parsing'') (\<lambda>_.
      then_ok (validate_token token) (\<lambda>_.
      then_ok (validate_digest digest) (\<lambda>_.
      let sp = \<lparr>spec_model = model, spec_layout = layout, spec_variant = variant, spec_options = opts\<rparr>
      in then_ok (spec_validate sp) (\<lambda>_. Inr (Prepare token sp digest))))))))))))))))"

definition parse_status :: "json \<Rightarrow> string + map_request" where
  "parse_status v =
     (let e = ''parsing keyboard-map status request'' in
      then_ok (bail_if (\<not> known_fields v {''schema'', ''method'', ''token''}) e) (\<lambda>_.
      then_ok (ok_or e (u32_field v ''schema'')) (\<lambda>schema.
      then_ok (ok_or e (str_field v ''method'')) (\<lambda>meth.
      then_ok (ok_or e (str_field v ''token'')) (\<lambda>token.
      then_ok (require_schema schema) (\<lambda>_.
      then_ok (bail_if (meth \<noteq> ''StatusKeyboardMap'') ''keyboard-map method changed while parsing'') (\<lambda>_.
      then_ok (validate_token token) (\<lambda>_. Inr (Status token)))))))))"

definition parse_finish :: "json \<Rightarrow> string + map_request" where
  "parse_finish v =
     (let e = ''parsing keyboard-map finish request'' in
      then_ok (bail_if (\<not> known_fields v {''schema'', ''method'', ''token'', ''keymap_sha256''}) e) (\<lambda>_.
      then_ok (ok_or e (u32_field v ''schema'')) (\<lambda>schema.
      then_ok (ok_or e (str_field v ''method'')) (\<lambda>meth.
      then_ok (ok_or e (str_field v ''token'')) (\<lambda>token.
      then_ok (ok_or e (str_field v ''keymap_sha256'')) (\<lambda>digest.
      then_ok (require_schema schema) (\<lambda>_.
      then_ok (validate_token token) (\<lambda>_.
      then_ok (validate_digest digest) (\<lambda>_.
      if meth = ''CommitKeyboardMap'' then Inr (Commit token digest)
      else if meth = ''AbortKeyboardMap'' then Inr (Abort token digest)
      else Inl ''keyboard-map method changed while parsing'')))))))))"

definition parse_request :: "json \<Rightarrow> string + map_request" where
  "parse_request v =
     then_ok (ok_or ''unsupported keyboard-map method''
       (Option.bind (Option.bind (json_get v ''method'') as_str) method_parse)) (\<lambda>m.
     case m of
       Method_Prepare \<Rightarrow> parse_prepare v
     | Method_Status \<Rightarrow> parse_status v
     | _ \<Rightarrow> parse_finish v)"

section \<open>Responses\<close>

datatype map_state = Map_Prepared | Map_Committed | Map_Aborted | Map_Unknown

record map_response =
  resp_method :: map_method
  resp_state :: map_state
  active_keymap_sha256 :: string
  pending_token :: "string option"
  pending_keymap_sha256 :: "string option"

record map_failure =
  map_code :: string
  map_message :: string

definition response_success ::
    "map_method \<Rightarrow> map_state \<Rightarrow> string \<Rightarrow> (string \<times> string) option \<Rightarrow> map_response" where
  "response_success m st active pending =
     \<lparr>resp_method = m, resp_state = st, active_keymap_sha256 = active,
      pending_token = map_option fst pending, pending_keymap_sha256 = map_option snd pending\<rparr>"

definition map_failure_new :: "string \<Rightarrow> string \<Rightarrow> map_failure" where
  "map_failure_new code message = \<lparr>map_code = code, map_message = message\<rparr>"

section \<open>What is accepted\<close>

definition spec_ok :: "keyboard_map_spec \<Rightarrow> bool" where
  "spec_ok sp \<longleftrightarrow> spec_validate sp = Inr ()"

fun request_ok :: "map_request \<Rightarrow> bool" where
  "request_ok (Prepare t sp d) \<longleftrightarrow> lower_hex_text 32 t \<and> spec_ok sp \<and> lower_hex_text 64 d"
| "request_ok (Status t) \<longleftrightarrow> lower_hex_text 32 t"
| "request_ok (Commit t d) \<longleftrightarrow> lower_hex_text 32 t \<and> lower_hex_text 64 d"
| "request_ok (Abort t d) \<longleftrightarrow> lower_hex_text 32 t \<and> lower_hex_text 64 d"

text \<open>The one JSON object that carries a request.\<close>

fun request_fields :: "map_request \<Rightarrow> (string \<times> json) list" where
  "request_fields (Prepare t sp d) =
     [(''token'', J_String t), (''model'', J_String (spec_model sp)), (''layout'', J_String (spec_layout sp)),
      (''variant'', J_String (spec_variant sp)), (''options'', J_String (spec_options sp)),
      (''keymap_sha256'', J_String d)]"
| "request_fields (Status t) = [(''token'', J_String t)]"
| "request_fields (Commit t d) = [(''token'', J_String t), (''keymap_sha256'', J_String d)]"
| "request_fields (Abort t d) = [(''token'', J_String t), (''keymap_sha256'', J_String d)]"

fun request_names :: "map_request \<Rightarrow> string set" where
  "request_names (Prepare _ _ _) = {''schema'', ''method'', ''token'', ''model'', ''layout'', ''variant'',
     ''options'', ''keymap_sha256''}"
| "request_names (Status _) = {''schema'', ''method'', ''token''}"
| "request_names (Commit _ _) = {''schema'', ''method'', ''token'', ''keymap_sha256''}"
| "request_names (Abort _ _) = {''schema'', ''method'', ''token'', ''keymap_sha256''}"

definition request_json :: "map_request \<Rightarrow> json" where
  "request_json r = J_Object (map_of ((''schema'', J_Int 1) #
     (''method'', J_String (method_name (request_method r))) # request_fields r))"

lemma method_parse_name [simp]: "method_parse s = Some m \<longleftrightarrow> s = method_name m"
  by (cases m) (auto simp: method_parse_def)

lemma require_schema_Inr [simp]: "require_schema n = Inr u \<longleftrightarrow> n = 1"
  by (simp add: require_schema_def)

lemma validate_token_Inr [simp]: "validate_token t = Inr u \<longleftrightarrow> lower_hex_text 32 t"
  by (simp add: validate_token_def TOKEN_BYTES_def)

lemma validate_digest_Inr [simp]: "validate_digest t = Inr u \<longleftrightarrow> lower_hex_text 64 t"
  by (simp add: validate_digest_def DIGEST_BYTES_def)

lemma request_json_iff:
  "v = request_json r \<longleftrightarrow>
   (\<exists>m. v = J_Object m \<and>
      fields_within m (request_names r) \<and>
      m ''schema'' = Some (J_Int 1) \<and> m ''method'' = Some (J_String (method_name (request_method r))) \<and>
      list_all (\<lambda>(k, x). m k = Some x) (request_fields r))"
proof -
  have "distinct (map fst ((''schema'', J_Int 1) #
      (''method'', J_String (method_name (request_method r))) # request_fields r))"
    by (cases r) auto
  moreover have "request_names r = set (map fst ((''schema'', J_Int 1) #
      (''method'', J_String (method_name (request_method r))) # request_fields r))"
    by (cases r) auto
  ultimately show ?thesis
    using json_object_iff [of "(''schema'', J_Int 1) #
      (''method'', J_String (method_name (request_method r))) # request_fields r" v]
    unfolding request_json_def by (simp add: fields_within_def)
qed

lemma parse_prepare_iff:
  "parse_prepare v = Inr r \<longleftrightarrow> (\<exists>t sp d. r = Prepare t sp d) \<and> request_ok r \<and> v = request_json r"
proof
  assume "parse_prepare v = Inr r"
  then show "(\<exists>t sp d. r = Prepare t sp d) \<and> request_ok r \<and> v = request_json r"
    by (auto simp: parse_prepare_def Let_def then_ok_eq_Inr ok_or_eq_Inr known_fields_iff u32_field_one
        request_json_iff spec_ok_def)
next
  assume "(\<exists>t sp d. r = Prepare t sp d) \<and> request_ok r \<and> v = request_json r"
  then obtain t sp d where r: "r = Prepare t sp d" and ok: "request_ok r" and v: "v = request_json r"
    by blast
  from v obtain m where "v = J_Object m"
    "fields_within m {''schema'', ''method'', ''token'', ''model'', ''layout'', ''variant'', ''options'', ''keymap_sha256''}"
    "m ''schema'' = Some (J_Int 1)" "m ''method'' = Some (J_String ''PrepareKeyboardMap'')"
    "m ''token'' = Some (J_String t)" "m ''model'' = Some (J_String (spec_model sp))"
    "m ''layout'' = Some (J_String (spec_layout sp))" "m ''variant'' = Some (J_String (spec_variant sp))"
    "m ''options'' = Some (J_String (spec_options sp))" "m ''keymap_sha256'' = Some (J_String d)"
    unfolding request_json_iff by (auto simp: r)
  then show "parse_prepare v = Inr r"
    using ok r by (cases sp) (simp add: parse_prepare_def known_fields_def str_field_def u32_field_def spec_ok_def
        require_schema_def validate_token_def validate_digest_def TOKEN_BYTES_def DIGEST_BYTES_def)
qed

lemma parse_status_iff:
  "parse_status v = Inr r \<longleftrightarrow> (\<exists>t. r = Status t) \<and> request_ok r \<and> v = request_json r"
proof
  assume "parse_status v = Inr r"
  then show "(\<exists>t. r = Status t) \<and> request_ok r \<and> v = request_json r"
    by (auto simp: parse_status_def Let_def then_ok_eq_Inr ok_or_eq_Inr known_fields_iff u32_field_one
        request_json_iff)
next
  assume "(\<exists>t. r = Status t) \<and> request_ok r \<and> v = request_json r"
  then show "parse_status v = Inr r"
    by (auto simp: request_json_iff parse_status_def known_fields_def str_field_def
        u32_field_def require_schema_def validate_token_def TOKEN_BYTES_def)
qed

lemma parse_finish_iff:
  "parse_finish v = Inr r \<longleftrightarrow>
   (\<exists>t d. r = Commit t d \<or> r = Abort t d) \<and> request_ok r \<and> v = request_json r"
proof
  assume "parse_finish v = Inr r"
  then show "(\<exists>t d. r = Commit t d \<or> r = Abort t d) \<and> request_ok r \<and> v = request_json r"
    by (auto simp: parse_finish_def Let_def then_ok_eq_Inr ok_or_eq_Inr known_fields_iff u32_field_one
        request_json_iff split: if_splits)
next
  assume "(\<exists>t d. r = Commit t d \<or> r = Abort t d) \<and> request_ok r \<and> v = request_json r"
  then show "parse_finish v = Inr r"
    by (auto simp: request_json_iff parse_finish_def known_fields_def str_field_def
        u32_field_def require_schema_def validate_token_def validate_digest_def TOKEN_BYTES_def DIGEST_BYTES_def)
qed

text \<open>
  The parser of keyboard-map requests accepts exactly one JSON object for each request: schema 1, the
  method's name, and its own fields with a 32-digit token, a 64-digit digest and a layout
  description that passes validation. No other field, type or spelling is accepted.
\<close>

lemma parse_request_iff: "parse_request v = Inr r \<longleftrightarrow> request_ok r \<and> v = request_json r"
proof -
  have meth: "Option.bind (Option.bind (json_get (request_json r) ''method'') as_str) method_parse =
      Some (request_method r)"
    by (simp add: request_json_def)
  show ?thesis
  proof (cases "Option.bind (Option.bind (json_get v ''method'') as_str) method_parse")
    case None
    then show ?thesis
      using meth by (auto simp: parse_request_def)
  next
    case (Some m)
    show ?thesis
    proof (cases "m = request_method r")
      case True
      then show ?thesis
        using Some by (cases r)
          (simp_all add: parse_request_def parse_prepare_iff parse_status_iff parse_finish_iff)
    next
      case False
      then have "v \<noteq> request_json r"
        using Some meth by auto
      then show ?thesis
        using Some by (cases m) (simp_all add: parse_request_def parse_prepare_iff parse_status_iff parse_finish_iff)
    qed
  qed
qed

lemma component_iff:
  "validate_component name v lo hi = Inr u \<longleftrightarrow> lo \<le> length v \<and> length v \<le> hi \<and> list_all component_char v"
  by (auto simp: validate_component_def)

text \<open>A description that passes validation has one to four layouts, and no more variants than layouts.\<close>

lemma spec_ok_groups:
  assumes "spec_ok sp"
  shows "length (split_on (CHR '','') (spec_layout sp)) \<le> 4" "[] \<notin> set (split_on (CHR '','') (spec_layout sp))"
    "spec_variant sp \<noteq> [] \<Longrightarrow>
      length (split_on (CHR '','') (spec_variant sp)) \<le> length (split_on (CHR '','') (spec_layout sp))"
  using assms by (auto simp: spec_ok_def spec_validate_def then_ok_eq_Inr Let_def split: if_splits)

lemma standard_us_ok: "spec_ok standard_us"
  by (simp add: spec_ok_def spec_validate_def standard_us_def validate_component_def component_char_def
      MAX_MODEL_BYTES_def MAX_LAYOUT_BYTES_def ascii_alphanumeric_def ascii_lower_def ascii_digit_def)

end
