(* ===== verification/Guest_Keyboard.thy ===== *)
theory Guest_Keyboard
  imports Keyboard_Map
begin

text \<open>
  The keyboard of the private compositor, \<open>host/crates/buzzardos-display/src/guest_display.rs\<close>:
  focus, the forwarding of physical keys, and the prepared keyboard-map transaction during which
  physical input is queued. The state is \<open>GuestState\<close> restricted to the fields these operations
  use. The messages that the code sends to the nested compositor's keyboards are appended to
  \<open>outbox\<close>; liveness of the client's objects is part of the state and changes by events of its own.

  The XKB library is the record \<open>xkb\<close>; the operations rely on nothing about it. Timestamps of key
  messages are left out.

  The development shows that no key sticks: whatever happens, the nested compositor believes a key
  held only if the code does, and the code only if the key is physically held.
\<close>

section \<open>State\<close>

definition MAX_PENDING_KEY_EVENTS :: nat where "MAX_PENDING_KEY_EVENTS = 256"

text \<open>The compiled keymap \<open>'m\<close> and its state \<open>'x\<close>.\<close>

record ('m, 'x) xkb =
  xkb_compile :: "keyboard_map_spec \<Rightarrow> string + ('m \<times> string)"
  xkb_state_new :: "'m \<Rightarrow> 'x"
  xkb_update_key :: "'x \<Rightarrow> nat \<Rightarrow> bool \<Rightarrow> 'x"
  xkb_masks :: "'x \<Rightarrow> nat \<times> nat \<times> nat \<times> nat"

record ('m, 'x) compiled_keymap =
  km_map :: 'm
  km_state :: 'x
  km_digest :: string

datatype 'm message =
  M_Keymap 'm
| M_Enter nat "nat list"
| M_Leave nat
| M_Key nat nat bool
| M_Modifiers nat "nat \<times> nat \<times> nat \<times> nat"

record queued_key =
  q_key :: nat
  q_pressed :: bool
  q_modifiers :: nat

record ('m, 'x) pending_keymap =
  p_token :: string
  p_digest :: string
  p_keymap :: "('m, 'x) compiled_keymap"
  input_queue :: "queued_key list"
  queued_pressed :: "nat set"
  input_overflow :: bool

record completed_keymap =
  c_token :: string
  c_digest :: string
  c_state :: map_state

text \<open>
  \<open>primary\<close> is the primary surface with its liveness. The \<open>BTreeSet\<close>s of keys are sets; the code
  walks them in ascending order.
\<close>

record ('m, 'x) guest =
  serial :: nat
  keyboards :: "nat list"
  live :: "nat \<Rightarrow> bool"
  primary :: "bool option"
  focused :: bool
  entered :: bool
  keymap :: "('m, 'x) compiled_keymap"
  pending :: "('m, 'x) pending_keymap option"
  completed :: "completed_keymap option"
  pressed_keys :: "nat set"
  suppressed_keys :: "nat set"
  outbox :: "(nat \<times> 'm message) list"

section \<open>Operations\<close>

definition next_serial :: "('m, 'x) guest \<Rightarrow> nat \<times> ('m, 'x) guest" where
  "next_serial g = (serial g, g\<lparr>serial := max 1 ((serial g + 1) mod 2 ^ 32)\<rparr>)"

definition retain_live :: "('m, 'x) guest \<Rightarrow> ('m, 'x) guest" where
  "retain_live g = g\<lparr>keyboards := filter (live g) (keyboards g)\<rparr>"

text \<open>\<open>for keyboard in &self.keyboards { .. }\<close>: the same messages to each keyboard in turn.\<close>

definition send_all :: "'m message list \<Rightarrow> ('m, 'x) guest \<Rightarrow> ('m, 'x) guest" where
  "send_all ms g = g\<lparr>outbox := outbox g @ concat (map (\<lambda>k. map (Pair k) ms) (keyboards g))\<rparr>"

definition keycode :: "nat \<Rightarrow> nat" where
  "keycode key = min (key + 8) (2 ^ 32 - 1)"

definition update_key :: "('m, 'x) xkb \<Rightarrow> nat \<Rightarrow> bool \<Rightarrow> ('m, 'x) guest \<Rightarrow> ('m, 'x) guest" where
  "update_key xk key down g =
     g\<lparr>keymap := (keymap g)\<lparr>km_state := xkb_update_key xk (km_state (keymap g)) (keycode key) down\<rparr>\<rparr>"

definition reset_state :: "('m, 'x) xkb \<Rightarrow> ('m, 'x) guest \<Rightarrow> ('m, 'x) guest" where
  "reset_state xk g = g\<lparr>keymap := (keymap g)\<lparr>km_state := xkb_state_new xk (km_map (keymap g))\<rparr>\<rparr>"

definition masks :: "('m, 'x) xkb \<Rightarrow> ('m, 'x) guest \<Rightarrow> nat \<times> nat \<times> nat \<times> nat" where
  "masks xk g = xkb_masks xk (km_state (keymap g))"

definition ensure_keyboard_enter :: "('m, 'x) xkb \<Rightarrow> ('m, 'x) guest \<Rightarrow> ('m, 'x) guest" where
  "ensure_keyboard_enter xk g =
     (if entered g \<or> \<not> focused g then g
      else if primary g \<noteq> Some True then g
      else (let g = retain_live g
            in if keyboards g = [] then g
               else (let (sn, g) = next_serial g;
                         keys = sorted_list_of_set (pressed_keys g);
                         g = send_all [M_Enter sn keys, M_Modifiers sn (masks xk g)] g
                     in g\<lparr>entered := True\<rparr>)))"

definition keyboard_enter :: "('m, 'x) xkb \<Rightarrow> ('m, 'x) guest \<Rightarrow> ('m, 'x) guest" where
  "keyboard_enter xk g = ensure_keyboard_enter xk (g\<lparr>focused := True\<rparr>)"

text \<open>The loop that releases the keys of a set, shared by \<open>keyboard_leave\<close> and \<open>neutralize\<close>.\<close>

definition release_key :: "('m, 'x) xkb \<Rightarrow> nat \<Rightarrow> ('m, 'x) guest \<Rightarrow> ('m, 'x) guest" where
  "release_key xk key g =
     (let g = update_key xk key False g
      in if entered g then
           (let (sn, g) = next_serial g; g = retain_live g in send_all [M_Key sn key False] g)
         else g)"

definition release_keys :: "('m, 'x) xkb \<Rightarrow> nat set \<Rightarrow> ('m, 'x) guest \<Rightarrow> ('m, 'x) guest" where
  "release_keys xk ks g = fold (release_key xk) (sorted_list_of_set ks) g"

definition discard_queue :: "('m, 'x) guest \<Rightarrow> ('m, 'x) guest" where
  "discard_queue g =
     (case pending g of
        None \<Rightarrow> g
      | Some p \<Rightarrow> g\<lparr>suppressed_keys := suppressed_keys g \<union> queued_pressed p,
                   pending := Some (p\<lparr>queued_pressed := {}, input_queue := []\<rparr>)\<rparr>)"

definition keyboard_leave :: "('m, 'x) xkb \<Rightarrow> ('m, 'x) guest \<Rightarrow> ('m, 'x) guest" where
  "keyboard_leave xk g =
     (let g = discard_queue (g\<lparr>focused := False\<rparr>);
          released = pressed_keys g;
          g = release_keys xk released (g\<lparr>pressed_keys := {}\<rparr>);
          g = g\<lparr>suppressed_keys := suppressed_keys g \<union> released\<rparr>
      in if \<not> entered g then g
         else (let alive = (primary g = Some True);
                   (sn, g) = next_serial g;
                   g = retain_live g;
                   g = (if alive then send_all [M_Modifiers sn (masks xk g), M_Leave sn] g else g)
               in g\<lparr>entered := False\<rparr>))"

definition forward_keyboard_key :: "('m, 'x) xkb \<Rightarrow> nat \<Rightarrow> bool \<Rightarrow> ('m, 'x) guest \<Rightarrow> ('m, 'x) guest" where
  "forward_keyboard_key xk key pressed g =
     (let g = ensure_keyboard_enter xk (g\<lparr>focused := True\<rparr>)
      in if \<not> entered g then g
         else if (key \<in> pressed_keys g) = pressed then g
         else (let g = g\<lparr>pressed_keys := (if pressed then insert key (pressed_keys g)
                                         else pressed_keys g - {key})\<rparr>;
                   g = update_key xk key pressed g;
                   (sn, g) = next_serial g;
                   m = masks xk g;
                   g = retain_live g
               in send_all [M_Key sn key pressed, M_Modifiers sn m] g))"

definition keyboard_key :: "('m, 'x) xkb \<Rightarrow> nat \<Rightarrow> bool \<Rightarrow> nat \<Rightarrow> ('m, 'x) guest \<Rightarrow> ('m, 'x) guest" where
  "keyboard_key xk key pressed mods g =
     (if key \<in> suppressed_keys g then
        g\<lparr>suppressed_keys := (if pressed then insert key (suppressed_keys g) else suppressed_keys g - {key})\<rparr>
      else case pending g of
        None \<Rightarrow> forward_keyboard_key xk key pressed g
      | Some p \<Rightarrow>
          if \<not> focused g then
            (if pressed then g\<lparr>suppressed_keys := insert key (suppressed_keys g)\<rparr> else g)
          else if input_overflow p \<or> MAX_PENDING_KEY_EVENTS \<le> length (input_queue p) then
            (let sup = suppressed_keys g \<union> queued_pressed p
             in g\<lparr>suppressed_keys := (if pressed then insert key sup else sup - {key}),
                  pending := Some (p\<lparr>queued_pressed := {}, input_queue := [], input_overflow := True\<rparr>)\<rparr>)
          else
            g\<lparr>pending := Some (p\<lparr>input_queue := input_queue p @
                  [\<lparr>q_key = key, q_pressed = pressed, q_modifiers = mods\<rparr>],
                queued_pressed := (if pressed then insert key (queued_pressed p)
                                   else queued_pressed p - {key})\<rparr>)\<rparr>)"

definition publish_neutral_modifiers :: "('m, 'x) guest \<Rightarrow> ('m, 'x) guest" where
  "publish_neutral_modifiers g =
     (if \<not> entered g then g
      else (let (sn, g) = next_serial g; g = retain_live g
            in send_all [M_Modifiers sn (0, 0, 0, 0)] g))"

definition publish_keymap_and_neutral_modifiers :: "('m, 'x) guest \<Rightarrow> ('m, 'x) guest" where
  "publish_keymap_and_neutral_modifiers g =
     (let g = retain_live g in publish_neutral_modifiers (send_all [M_Keymap (km_map (keymap g))] g))"

definition neutralize_physical_keyboard :: "('m, 'x) xkb \<Rightarrow> ('m, 'x) guest \<Rightarrow> ('m, 'x) guest" where
  "neutralize_physical_keyboard xk g =
     (let released = pressed_keys g;
          g = release_keys xk released (g\<lparr>pressed_keys := {}\<rparr>);
          g = reset_state xk g;
          g = g\<lparr>suppressed_keys := suppressed_keys g \<union> released\<rparr>
      in publish_neutral_modifiers g)"

definition replay_event :: "('m, 'x) xkb \<Rightarrow> queued_key \<Rightarrow> ('m, 'x) guest \<Rightarrow> ('m, 'x) guest" where
  "replay_event xk q g = forward_keyboard_key xk (q_key q) (q_pressed q) g"

definition replay_queued_keys :: "('m, 'x) xkb \<Rightarrow> queued_key list \<Rightarrow> ('m, 'x) guest \<Rightarrow> ('m, 'x) guest" where
  "replay_queued_keys xk queue g =
     (if \<not> focused g then
        fold (\<lambda>q g. g\<lparr>suppressed_keys := (if q_pressed q then insert (q_key q) (suppressed_keys g)
                                          else suppressed_keys g - {q_key q})\<rparr>) queue g
      else fold (replay_event xk) queue g)"

section \<open>The transaction\<close>

type_synonym map_reply = "map_failure + map_response"

definition keyboard_map_response :: "('m, 'x) guest \<Rightarrow> map_method \<Rightarrow> map_state \<Rightarrow> map_response" where
  "keyboard_map_response g m st =
     response_success m st (km_digest (keymap g)) (map_option (\<lambda>p. (p_token p, p_digest p)) (pending g))"

definition prepare_keyboard_map ::
    "('m, 'x) xkb \<Rightarrow> map_method \<Rightarrow> string \<Rightarrow> keyboard_map_spec \<Rightarrow> string \<Rightarrow> ('m, 'x) guest \<Rightarrow> ('m, 'x) guest \<times> map_reply" where
  "prepare_keyboard_map xk m token sp digest g =
     (case pending g of
        Some p \<Rightarrow>
          (g, if p_token p = token \<and> p_digest p = digest then
                (if input_overflow p
                 then Inl (map_failure_new ''input_overflow'' ''physical keyboard queue overflowed; restore the prior Sway map and abort this transaction'')
                 else Inr (keyboard_map_response g m Map_Prepared))
              else Inl (map_failure_new ''transaction_busy'' ''another keyboard-map transaction is already prepared''))
      | None \<Rightarrow>
          (if (\<exists>c. completed g = Some c \<and> c_token c = token) then
             (g, if c_digest (the (completed g)) \<noteq> digest
                 then Inl (map_failure_new ''transaction_conflict'' ''keyboard-map token was previously used with another digest'')
                 else Inr (keyboard_map_response g m (c_state (the (completed g)))))
           else case then_ok (spec_validate sp) (\<lambda>_. xkb_compile xk sp) of
             Inl e \<Rightarrow> (g, Inl (map_failure_new ''invalid_keymap'' e))
           | Inr (km, _) \<Rightarrow>
               (let ckm = \<lparr>km_map = km, km_state = xkb_state_new xk km, km_digest = digest\<rparr>;
                    g = neutralize_physical_keyboard xk g;
                    g = g\<lparr>pending := Some \<lparr>p_token = token, p_digest = digest, p_keymap = ckm,
                          input_queue = [], queued_pressed = {}, input_overflow = False\<rparr>\<rparr>
                in (g, Inr (keyboard_map_response g m Map_Prepared)))))"

definition keyboard_map_status :: "map_method \<Rightarrow> string \<Rightarrow> ('m, 'x) guest \<Rightarrow> map_reply" where
  "keyboard_map_status m token g =
     Inr (keyboard_map_response g m
       (case pending g of
          Some p \<Rightarrow>
            if p_token p = token then Map_Prepared
            else (case completed g of Some c \<Rightarrow> if c_token c = token then c_state c else Map_Unknown
                  | None \<Rightarrow> Map_Unknown)
        | None \<Rightarrow> (case completed g of Some c \<Rightarrow> if c_token c = token then c_state c else Map_Unknown
                  | None \<Rightarrow> Map_Unknown)))"

text \<open>The checks that commit and abort share: \<open>what\<close> is the state that the other call would have left.\<close>

definition finish_conflict :: map_failure where
  "finish_conflict = map_failure_new ''transaction_conflict'' ''keyboard-map transaction already finished with different parameters''"

definition commit_keyboard_map ::
    "('m, 'x) xkb \<Rightarrow> map_method \<Rightarrow> string \<Rightarrow> string \<Rightarrow> ('m, 'x) guest \<Rightarrow> ('m, 'x) guest \<times> map_reply" where
  "commit_keyboard_map xk m token digest g =
     (if (\<exists>c. completed g = Some c \<and> c_token c = token) then
        (g, if c_digest (the (completed g)) = digest \<and> c_state (the (completed g)) = Map_Committed
            then Inr (keyboard_map_response g m Map_Committed) else Inl finish_conflict)
      else case pending g of
        None \<Rightarrow> (g, Inl (map_failure_new ''transaction_unknown'' ''keyboard-map transaction is not prepared''))
      | Some p \<Rightarrow>
          if p_token p \<noteq> token \<or> p_digest p \<noteq> digest
          then (g, Inl (map_failure_new ''transaction_conflict'' ''keyboard-map commit does not match the prepared transaction''))
          else if input_overflow p
          then (g, Inl (map_failure_new ''input_overflow'' ''physical keyboard queue overflowed; commit is fail-closed until the guest restores and aborts''))
          else (let g = g\<lparr>pending := None, keymap := p_keymap p\<rparr>;
                    g = publish_keymap_and_neutral_modifiers g;
                    g = replay_queued_keys xk (input_queue p) g;
                    g = g\<lparr>completed := Some \<lparr>c_token = token, c_digest = digest, c_state = Map_Committed\<rparr>\<rparr>
                in (g, Inr (keyboard_map_response g m Map_Committed))))"

definition abort_keyboard_map ::
    "('m, 'x) xkb \<Rightarrow> map_method \<Rightarrow> string \<Rightarrow> string \<Rightarrow> ('m, 'x) guest \<Rightarrow> ('m, 'x) guest \<times> map_reply" where
  "abort_keyboard_map xk m token digest g =
     (if (\<exists>c. completed g = Some c \<and> c_token c = token) then
        (g, if c_digest (the (completed g)) = digest \<and> c_state (the (completed g)) = Map_Aborted
            then Inr (keyboard_map_response g m Map_Aborted) else Inl finish_conflict)
      else case pending g of
        None \<Rightarrow> (g, Inl (map_failure_new ''transaction_unknown'' ''keyboard-map transaction is not prepared''))
      | Some p \<Rightarrow>
          if p_token p \<noteq> token \<or> p_digest p \<noteq> digest
          then (g, Inl (map_failure_new ''transaction_conflict'' ''keyboard-map abort does not match the prepared transaction''))
          else (let g = g\<lparr>pending := None\<rparr>;
                    g = (if input_overflow p then publish_neutral_modifiers g
                         else replay_queued_keys xk (input_queue p) g);
                    g = g\<lparr>completed := Some \<lparr>c_token = token, c_digest = digest, c_state = Map_Aborted\<rparr>\<rparr>
                in (g, Inr (keyboard_map_response g m Map_Aborted))))"

definition keyboard_map_request :: "('m, 'x) xkb \<Rightarrow> map_request \<Rightarrow> ('m, 'x) guest \<Rightarrow> ('m, 'x) guest \<times> map_reply" where
  "keyboard_map_request xk r g =
     (case r of
        Prepare token sp digest \<Rightarrow> prepare_keyboard_map xk (request_method r) token sp digest g
      | Status token \<Rightarrow> (g, keyboard_map_status (request_method r) token g)
      | Commit token digest \<Rightarrow> commit_keyboard_map xk (request_method r) token digest g
      | Abort token digest \<Rightarrow> abort_keyboard_map xk (request_method r) token digest g)"

section \<open>The client's objects\<close>

text \<open>\<open>GetKeyboard\<close>, the first toplevel, and \<open>drop_client_leases\<close> as far as the keyboard is concerned.\<close>

definition get_keyboard :: "('m, 'x) xkb \<Rightarrow> nat \<Rightarrow> ('m, 'x) guest \<Rightarrow> ('m, 'x) guest" where
  "get_keyboard xk k g =
     (let g = g\<lparr>outbox := outbox g @ [(k, M_Keymap (km_map (keymap g)))],
              keyboards := keyboards g @ [k], entered := False\<rparr>
      in ensure_keyboard_enter xk g)"

definition get_toplevel :: "('m, 'x) xkb \<Rightarrow> ('m, 'x) guest \<Rightarrow> ('m, 'x) guest" where
  "get_toplevel xk g =
     (if primary g = None
      then ensure_keyboard_enter xk (g\<lparr>primary := Some True, entered := False\<rparr>) else g)"

definition drop_client_leases :: "('m, 'x) xkb \<Rightarrow> ('m, 'x) guest \<Rightarrow> ('m, 'x) guest" where
  "drop_client_leases xk g =
     (let g = g\<lparr>keyboards := [], primary := None, focused := False, entered := False,
              suppressed_keys := suppressed_keys g \<union> pressed_keys g, pressed_keys := {}\<rparr>
      in discard_queue (reset_state xk g))"

section \<open>The machine\<close>

text \<open>
  What happens to the display: commands of the native window, requests of the nested compositor,
  and the destruction of its objects. A new keyboard object is one that was never used before.
\<close>

datatype event =
  Ev_Enter | Ev_Leave | Ev_Key nat bool nat | Ev_Map map_request
| Ev_Get_Keyboard nat | Ev_Toplevel | Ev_Drop | Ev_Kill_Keyboard nat | Ev_Kill_Surface

definition known_object :: "nat \<Rightarrow> ('m, 'x) guest \<Rightarrow> bool" where
  "known_object k g \<longleftrightarrow> k \<in> set (keyboards g) \<or> k \<in> fst ` set (outbox g)"

definition guest_step :: "('m, 'x) xkb \<Rightarrow> ('m, 'x) guest \<Rightarrow> event \<Rightarrow> ('m, 'x) guest \<times> map_reply option" where
  "guest_step xk g ev =
     (case ev of
        Ev_Enter \<Rightarrow> (keyboard_enter xk g, None)
      | Ev_Leave \<Rightarrow> (keyboard_leave xk g, None)
      | Ev_Key key pressed mods \<Rightarrow> (keyboard_key xk key pressed mods g, None)
      | Ev_Map r \<Rightarrow> (let (g', reply) = keyboard_map_request xk r g in (g', Some reply))
      | Ev_Get_Keyboard k \<Rightarrow>
          (if known_object k g then g else get_keyboard xk k (g\<lparr>live := (live g)(k := True)\<rparr>), None)
      | Ev_Toplevel \<Rightarrow> (get_toplevel xk g, None)
      | Ev_Drop \<Rightarrow> (drop_client_leases xk g, None)
      | Ev_Kill_Keyboard k \<Rightarrow> (g\<lparr>live := (live g)(k := False)\<rparr>, None)
      | Ev_Kill_Surface \<Rightarrow> (if primary g = Some True then g\<lparr>primary := Some False\<rparr> else g, None))"

definition guest_new :: "('m, 'x) compiled_keymap \<Rightarrow> ('m, 'x) guest" where
  "guest_new km = \<lparr>serial = 1, keyboards = [], live = (\<lambda>_. False), primary = None, focused = False,
     entered = False, keymap = km, pending = None, completed = None, pressed_keys = {},
     suppressed_keys = {}, outbox = []\<rparr>"

text \<open>The keys that a keyboard object believes held after the messages it was sent.\<close>

fun see :: "nat set \<Rightarrow> 'm message \<Rightarrow> nat set" where
  "see S (M_Enter _ ks) = set ks"
| "see S (M_Leave _) = {}"
| "see S (M_Key _ key down) = (if down then insert key S else S - {key})"
| "see S _ = S"

definition seen :: "nat \<Rightarrow> (nat \<times> 'm message) list \<Rightarrow> nat set" where
  "seen k ob = foldl see {} (map snd (filter (\<lambda>x. fst x = k) ob))"

text \<open>The keys that the queue leaves held when it is replayed.\<close>

definition net_queue :: "queued_key list \<Rightarrow> nat set" where
  "net_queue q = foldl (\<lambda>S e. if q_pressed e then insert (q_key e) S else S - {q_key e}) {} q"

section \<open>Small steps\<close>

text \<open>Everything but the serial, the keymap, the outbox and dead keyboards stays.\<close>

definition same_focus :: "('m, 'x) guest \<Rightarrow> ('m, 'x) guest \<Rightarrow> bool" where
  "same_focus g g' \<longleftrightarrow>
     live g' = live g \<and> primary g' = primary g \<and> focused g' = focused g \<and> entered g' = entered g \<and>
     pending g' = pending g \<and> completed g' = completed g \<and> suppressed_keys g' = suppressed_keys g \<and>
     pressed_keys g' = pressed_keys g \<and> (distinct (keyboards g) \<longrightarrow> distinct (keyboards g')) \<and>
     set (keyboards g') \<subseteq> set (keyboards g) \<and>
     (\<forall>k \<in> set (keyboards g). live g k \<longrightarrow> k \<in> set (keyboards g'))"

lemma same_focus_refl [simp]: "same_focus g g"
  by (simp add: same_focus_def)

lemma same_focus_trans: "same_focus g h \<Longrightarrow> same_focus h i \<Longrightarrow> same_focus g i"
  unfolding same_focus_def by (elim conjE) (intro conjI; (simp | blast | metis))

lemma seen_append: "seen k (ob @ ms) = foldl see (seen k ob) (map snd (filter (\<lambda>x. fst x = k) ms))"
  by (simp add: seen_def)

lemma filter_broadcast:
  "distinct ks \<Longrightarrow> map snd (filter (\<lambda>x. fst x = k) (concat (map (\<lambda>k. map (Pair k) ms) ks))) =
   (if k \<in> set ks then ms else [])"
proof (induction ks)
  case (Cons a ks)
  have "map snd (filter (\<lambda>x. fst x = k) (map (Pair a) ms)) = (if a = k then ms else [])"
    by (induction ms) auto
  then show ?case
    using Cons by auto
qed simp

lemma seen_send_all:
  "distinct (keyboards g) \<Longrightarrow> k \<in> set (keyboards g) \<Longrightarrow>
   seen k (outbox (send_all ms g)) = foldl see (seen k (outbox g)) ms"
  by (simp add: send_all_def seen_append filter_broadcast)

lemma step_simps [simp]:
  "same_focus g (retain_live g)" "same_focus g (send_all ms g)" "same_focus g (snd (next_serial g))"
  "same_focus g (update_key xk key d g)" "same_focus g (reset_state xk g)"
  by (auto simp: same_focus_def retain_live_def send_all_def next_serial_def update_key_def reset_state_def)

text \<open>The usual sequence: a serial, the live keyboards, a broadcast.\<close>

definition emit :: "'m message list \<Rightarrow> ('m, 'x) guest \<Rightarrow> ('m, 'x) guest" where
  "emit ms g = send_all ms (retain_live (snd (next_serial g)))"

lemma emit_same_focus [simp]: "same_focus g (emit ms g)"
  unfolding emit_def
  by (rule same_focus_trans [OF same_focus_trans [OF step_simps(3) step_simps(1)] step_simps(2)])

lemma quiet_steps [simp]:
  "outbox (retain_live g) = outbox g" "outbox (snd (next_serial g)) = outbox g"
  "outbox (update_key xk key d g) = outbox g" "outbox (reset_state xk g) = outbox g"
  "keyboards (snd (next_serial g)) = keyboards g" "keyboards (update_key xk key d g) = keyboards g"
  "keyboards (reset_state xk g) = keyboards g" "keyboards (send_all ms g) = keyboards g"
  by (auto simp: retain_live_def next_serial_def update_key_def reset_state_def send_all_def)

lemma retain_live_keyboards: "keyboards (retain_live g) = filter (live g) (keyboards g)"
  by (simp add: retain_live_def)

lemma seen_retained:
  assumes "distinct (keyboards g)" and "k \<in> set (keyboards g)" and "live g k"
  shows "seen k (outbox (send_all ms (retain_live g))) = foldl see (seen k (outbox g)) ms"
  using assms by (subst seen_send_all) (simp_all add: retain_live_keyboards)

lemma seen_emit:
  assumes "distinct (keyboards g)" and "k \<in> set (keyboards g)" and "live g k"
  shows "seen k (outbox (emit ms g)) = foldl see (seen k (outbox g)) ms"
proof -
  have "live (snd (next_serial g)) = live g"
    by (simp add: next_serial_def)
  then show ?thesis
    using assms unfolding emit_def by (subst seen_retained) simp_all
qed

lemma release_key_spec:
  assumes "distinct (keyboards g)"
  shows "same_focus g (release_key xk key g)"
    and "k \<in> set (keyboards g) \<Longrightarrow> live g k \<Longrightarrow>
      seen k (outbox (release_key xk key g)) = (if entered g then seen k (outbox g) - {key} else seen k (outbox g))"
proof -
  let ?u = "update_key xk key False g"
  have e: "entered ?u = entered g" "live ?u = live g"
    by (simp_all add: update_key_def)
  have run: "release_key xk key g =
    (if entered g then emit [M_Key (fst (next_serial ?u)) key False] ?u else ?u)"
    by (simp add: release_key_def emit_def e case_prod_beta Let_def)
  show "same_focus g (release_key xk key g)"
  proof -
    have "same_focus g (emit [M_Key (fst (next_serial ?u)) key False] ?u)"
      by (rule same_focus_trans [OF step_simps(4) emit_same_focus])
    then show ?thesis
      by (simp add: run)
  qed
  assume k: "k \<in> set (keyboards g)" "live g k"
  then show "seen k (outbox (release_key xk key g)) = (if entered g then seen k (outbox g) - {key} else seen k (outbox g))"
    unfolding run using assms by (simp add: seen_emit e)
qed

lemma release_keys_spec:
  assumes "distinct (keyboards g)" and "finite ks"
  shows "same_focus g (release_keys xk ks g) \<and>
    (\<forall>k \<in> set (keyboards g). live g k \<longrightarrow>
      seen k (outbox (release_keys xk ks g)) = (if entered g then seen k (outbox g) - ks else seen k (outbox g)))"
proof -
  have "distinct (keyboards g) \<Longrightarrow> same_focus g (fold (release_key xk) xs g) \<and>
    (\<forall>k \<in> set (keyboards g). live g k \<longrightarrow>
      seen k (outbox (fold (release_key xk) xs g)) = (if entered g then seen k (outbox g) - set xs else seen k (outbox g)))" for xs
  proof (induction xs arbitrary: g)
    case (Cons a xs)
    let ?h = "release_key xk a g"
    have h: "same_focus g ?h"
      using Cons.prems by (rule release_key_spec)
    then have "distinct (keyboards ?h)"
      using Cons.prems by (simp add: same_focus_def)
    note IH = Cons.IH [OF this]
    have "same_focus g (fold (release_key xk) xs ?h)"
      using h IH by (blast intro: same_focus_trans)
    moreover have "seen k (outbox (fold (release_key xk) xs ?h)) =
        (if entered g then seen k (outbox g) - set (a # xs) else seen k (outbox g))"
      if "k \<in> set (keyboards g)" "live g k" for k
    proof -
      have "k \<in> set (keyboards ?h)" "live ?h k" "entered ?h = entered g"
        using h that by (auto simp: same_focus_def)
      then show ?thesis
        using IH release_key_spec(2) [OF Cons.prems that] by auto
    qed
    ultimately show ?case
      by simp
  qed simp
  from this [OF assms(1), of "sorted_list_of_set ks"] show ?thesis
    using assms(2) by (simp add: release_keys_def)
qed

section \<open>The invariant\<close>

text \<open>What the nested compositor sees.\<close>

definition view_ok :: "('m, 'x) guest \<Rightarrow> bool" where
  "view_ok g \<longleftrightarrow> distinct (keyboards g) \<and> finite (pressed_keys g) \<and> primary g \<noteq> Some False \<and>
     (entered g \<longrightarrow> focused g \<and> primary g = Some True) \<and>
     (\<not> entered g \<longrightarrow> pressed_keys g = {}) \<and>
     (\<forall>k \<in> set (keyboards g). live g k \<longrightarrow> seen k (outbox g) = pressed_keys g)"

text \<open>What is held back, and that all of it is physically \<open>down\<close>.\<close>

definition queue_ok :: "nat set \<Rightarrow> nat set \<Rightarrow> bool \<Rightarrow> ('m, 'x) pending_keymap \<Rightarrow> bool" where
  "queue_ok supp down foc p \<longleftrightarrow>
     length (input_queue p) \<le> MAX_PENDING_KEY_EVENTS \<and>
     queued_pressed p = net_queue (input_queue p) \<and> net_queue (input_queue p) \<subseteq> down \<and>
     (\<forall>e \<in> set (input_queue p). q_key e \<notin> supp) \<and>
     (input_overflow p \<or> \<not> foc \<longrightarrow> input_queue p = [])"

definition held_ok :: "('m, 'x) guest \<Rightarrow> nat set \<Rightarrow> bool" where
  "held_ok g down \<longleftrightarrow> pressed_keys g \<inter> suppressed_keys g = {} \<and>
     pressed_keys g \<subseteq> down \<and> suppressed_keys g \<subseteq> down \<and>
     (\<forall>p. pending g = Some p \<longrightarrow>
        pressed_keys g = {} \<and> queue_ok (suppressed_keys g) down (focused g) p)"

lemma net_queue_snoc:
  "net_queue (q @ [e]) = (if q_pressed e then insert (q_key e) (net_queue q) else net_queue q - {q_key e})"
  by (simp add: net_queue_def)

lemma net_queue_Nil [simp]: "net_queue [] = {}"
  by (simp add: net_queue_def)

lemma net_queue_keys: "net_queue q \<subseteq> q_key ` set q"
  by (induction q rule: rev_induct) (auto simp: net_queue_snoc)

lemma view_ok_same_focus:
  assumes "same_focus g g'" and "view_ok g"
    and "\<And>k. k \<in> set (keyboards g) \<Longrightarrow> live g k \<Longrightarrow> seen k (outbox g') = seen k (outbox g)"
  shows "view_ok g'"
  using assms unfolding view_ok_def same_focus_def by (metis subsetD)

lemma held_ok_same_focus: "same_focus g g' \<Longrightarrow> held_ok g' down \<longleftrightarrow> held_ok g down"
  by (simp add: same_focus_def held_ok_def)

lemma emit_quiet:
  assumes "view_ok g" and "\<And>S. foldl see S ms = S"
  shows "view_ok (emit ms g)"
  using assms(1) by (intro view_ok_same_focus [OF emit_same_focus assms(1)])
    (simp add: seen_emit view_ok_def assms(2))

lemma publish_neutral_view: "view_ok g \<Longrightarrow> view_ok (publish_neutral_modifiers g)"
proof -
  assume "view_ok g"
  moreover have "publish_neutral_modifiers g =
      (if entered g then emit [M_Modifiers (fst (next_serial g)) (0, 0, 0, 0)] g else g)"
    by (simp add: publish_neutral_modifiers_def emit_def case_prod_beta Let_def)
  ultimately show ?thesis
    by (simp add: emit_quiet)
qed

lemma publish_neutral_focus: "same_focus g (publish_neutral_modifiers g)"
proof -
  have "publish_neutral_modifiers g =
      (if entered g then emit [M_Modifiers (fst (next_serial g)) (0, 0, 0, 0)] g else g)"
    by (simp add: publish_neutral_modifiers_def emit_def case_prod_beta Let_def)
  then show ?thesis
    by simp
qed

text \<open>Entering: afterwards every live keyboard has been told the pressed keys.\<close>

definition enter_live :: "('m, 'x) xkb \<Rightarrow> ('m, 'x) guest \<Rightarrow> ('m, 'x) guest" where
  "enter_live xk g =
     (let h = snd (next_serial (retain_live g)); sn = fst (next_serial (retain_live g))
      in (send_all [M_Enter sn (sorted_list_of_set (pressed_keys g)), M_Modifiers sn (masks xk h)] h)\<lparr>entered := True\<rparr>)"

lemma ensure_enter_eq:
  "ensure_keyboard_enter xk g =
     (if entered g \<or> \<not> focused g \<or> primary g \<noteq> Some True then g
      else if keyboards (retain_live g) = [] then retain_live g
      else enter_live xk g)"
proof -
  have "pressed_keys (snd (next_serial (retain_live g))) = pressed_keys g"
    by (simp add: next_serial_def retain_live_def)
  then show ?thesis
    by (simp add: ensure_keyboard_enter_def enter_live_def case_prod_beta Let_def)
qed

lemma enter_live_fields [simp]:
  "entered (enter_live xk g)" "live (enter_live xk g) = live g" "primary (enter_live xk g) = primary g"
  "focused (enter_live xk g) = focused g" "pending (enter_live xk g) = pending g"
  "completed (enter_live xk g) = completed g" "suppressed_keys (enter_live xk g) = suppressed_keys g"
  "pressed_keys (enter_live xk g) = pressed_keys g"
  "keyboards (enter_live xk g) = filter (live g) (keyboards g)"
  by (simp_all add: enter_live_def next_serial_def retain_live_def send_all_def Let_def)

lemma seen_enter_live:
  assumes "distinct (keyboards g)" "k \<in> set (keyboards g)" "live g k" "finite (pressed_keys g)"
  shows "seen k (outbox (enter_live xk g)) = pressed_keys g"
proof -
  let ?h = "snd (next_serial (retain_live g))"
  have "distinct (keyboards ?h)" "k \<in> set (keyboards ?h)"
    using assms by (simp_all add: retain_live_keyboards)
  then show ?thesis
    using assms(4) by (simp add: enter_live_def Let_def seen_send_all)
qed

text \<open>
  Entering again is what makes a new keyboard or a new surface consistent: it needs no view of the
  other keyboards, only that the recorded keys may still be shown.
\<close>

lemma ensure_enter_view:
  assumes "distinct (keyboards g)" "finite (pressed_keys g)" "primary g \<noteq> Some False"
    and "entered g \<Longrightarrow> view_ok g"
    and "\<not> entered g \<Longrightarrow> pressed_keys g \<noteq> {} \<Longrightarrow> focused g \<and> primary g = Some True \<and> (\<exists>k \<in> set (keyboards g). live g k)"
    and "\<not> entered g \<Longrightarrow> pressed_keys g = {} \<Longrightarrow> \<forall>k \<in> set (keyboards g). live g k \<longrightarrow> seen k (outbox g) = {}"
  shows "view_ok (ensure_keyboard_enter xk g)"
proof (cases "entered g \<or> \<not> focused g \<or> primary g \<noteq> Some True")
  case True
  then show ?thesis
    using assms by (auto simp: ensure_enter_eq view_ok_def)
next
  case False
  then have f: "\<not> entered g" "focused g" "primary g = Some True"
    by auto
  show ?thesis
  proof (cases "keyboards (retain_live g) = []")
    case True
    then have "\<forall>k \<in> set (keyboards g). \<not> live g k"
      by (simp add: retain_live_keyboards filter_empty_conv)
    then show ?thesis
      using f True assms by (auto simp: ensure_enter_eq view_ok_def retain_live_def)
  next
    case ne: False
    have "view_ok (enter_live xk g)"
      using f assms(1,2) seen_enter_live [OF assms(1) _ _ assms(2)] by (simp add: view_ok_def)
    then show ?thesis
      using f ne by (simp add: ensure_enter_eq)
  qed
qed

lemma ensure_enter_keeps:
  "live (ensure_keyboard_enter xk g) = live g" "primary (ensure_keyboard_enter xk g) = primary g"
  "focused (ensure_keyboard_enter xk g) = focused g" "pending (ensure_keyboard_enter xk g) = pending g"
  "completed (ensure_keyboard_enter xk g) = completed g"
  "suppressed_keys (ensure_keyboard_enter xk g) = suppressed_keys g"
  "pressed_keys (ensure_keyboard_enter xk g) = pressed_keys g"
  by (simp_all add: ensure_enter_eq retain_live_def)

lemma ensure_enter_held [simp]: "held_ok (ensure_keyboard_enter xk g) down \<longleftrightarrow> held_ok g down"
  by (simp add: held_ok_def ensure_enter_keeps)

text \<open>Focus may be set or entered again without disturbing a consistent view.\<close>

lemma focus_enter_view: "view_ok g \<Longrightarrow> view_ok (ensure_keyboard_enter xk (g\<lparr>focused := True\<rparr>))"
  by (rule ensure_enter_view) (auto simp: view_ok_def)

section \<open>Keys\<close>

definition upd_key :: "nat \<Rightarrow> bool \<Rightarrow> nat set \<Rightarrow> nat set" where
  "upd_key key pressed S = (if pressed then insert key S else S - {key})"

lemma forward_spec:
  assumes v: "view_ok g"
  shows "view_ok (forward_keyboard_key xk key pressed g)"
    and "suppressed_keys (forward_keyboard_key xk key pressed g) = suppressed_keys g"
    and "pending (forward_keyboard_key xk key pressed g) = pending g"
    and "completed (forward_keyboard_key xk key pressed g) = completed g"
    and "focused (forward_keyboard_key xk key pressed g)"
    and "pressed_keys (forward_keyboard_key xk key pressed g) =
      (if entered (forward_keyboard_key xk key pressed g) then upd_key key pressed (pressed_keys g) else {})"
proof -
  let ?e = "ensure_keyboard_enter xk (g\<lparr>focused := True\<rparr>)"
  let ?p = "?e\<lparr>pressed_keys := upd_key key pressed (pressed_keys ?e)\<rparr>"
  let ?u = "update_key xk key pressed ?p"
  let ?out = "emit [M_Key (fst (next_serial ?u)) key pressed, M_Modifiers (fst (next_serial ?u)) (masks xk (snd (next_serial ?u)))] ?u"
  have e: "view_ok ?e" "pressed_keys ?e = pressed_keys g" "suppressed_keys ?e = suppressed_keys g"
    "pending ?e = pending g" "completed ?e = completed g" "focused ?e"
    using focus_enter_view [OF v] by (simp_all add: ensure_enter_keeps)
  have run: "forward_keyboard_key xk key pressed g =
    (if \<not> entered ?e \<or> (key \<in> pressed_keys ?e) = pressed then ?e else ?out)"
    by (simp add: forward_keyboard_key_def emit_def upd_key_def case_prod_beta Let_def)
  have ue: "keyboards ?u = keyboards ?e" "live ?u = live ?e" "outbox ?u = outbox ?e" "entered ?u = entered ?e"
    "primary ?u = primary ?e" "focused ?u = focused ?e" "pressed_keys ?u = upd_key key pressed (pressed_keys ?e)"
    "suppressed_keys ?u = suppressed_keys ?e" "pending ?u = pending ?e" "completed ?u = completed ?e"
    by (simp_all add: update_key_def)
  have f: "same_focus ?u ?out"
    by simp
  have seen_out: "seen k (outbox ?out) = upd_key key pressed (pressed_keys ?e)"
    if "k \<in> set (keyboards ?e)" "live ?e k" for k
  proof -
    have "seen k (outbox ?out) = upd_key key pressed (seen k (outbox ?u))"
      using e(1) that ue by (subst seen_emit) (auto simp: view_ok_def upd_key_def)
    then show ?thesis
      using e(1) that ue by (simp add: view_ok_def)
  qed
  have "view_ok ?out" if "entered ?e"
  proof -
    have "set (keyboards ?out) \<subseteq> set (keyboards ?e)" "distinct (keyboards ?out)"
      using f e(1) ue by (simp_all add: same_focus_def view_ok_def)
    then show ?thesis
      using f e(1) ue seen_out that by (auto simp: view_ok_def same_focus_def upd_key_def)
  qed
  then show "view_ok (forward_keyboard_key xk key pressed g)"
    using run e(1) by simp
  show "suppressed_keys (forward_keyboard_key xk key pressed g) = suppressed_keys g"
    "pending (forward_keyboard_key xk key pressed g) = pending g"
    "completed (forward_keyboard_key xk key pressed g) = completed g"
    "focused (forward_keyboard_key xk key pressed g)"
    using run e f ue by (simp_all add: same_focus_def)
  show "pressed_keys (forward_keyboard_key xk key pressed g) =
      (if entered (forward_keyboard_key xk key pressed g) then upd_key key pressed (pressed_keys g) else {})"
    using run e f ue by (auto simp: same_focus_def upd_key_def view_ok_def split: if_splits)
qed

lemma replay_spec:
  assumes "view_ok g" and "focused g" and "pressed_keys g \<subseteq> S"
  shows "view_ok (replay_queued_keys xk q g) \<and> focused (replay_queued_keys xk q g) \<and>
    suppressed_keys (replay_queued_keys xk q g) = suppressed_keys g \<and>
    pending (replay_queued_keys xk q g) = pending g \<and>
    pressed_keys (replay_queued_keys xk q g) \<subseteq> foldl (\<lambda>S e. upd_key (q_key e) (q_pressed e) S) S q"
proof -
  have "view_ok (fold (replay_event xk) q g) \<and> focused (fold (replay_event xk) q g) \<and>
    suppressed_keys (fold (replay_event xk) q g) = suppressed_keys g \<and>
    pending (fold (replay_event xk) q g) = pending g \<and>
    pressed_keys (fold (replay_event xk) q g) \<subseteq> foldl (\<lambda>S e. upd_key (q_key e) (q_pressed e) S) S q"
    using assms
  proof (induction q arbitrary: g S)
    case (Cons e q)
    let ?f = "forward_keyboard_key xk (q_key e) (q_pressed e) g"
    note f = forward_spec [OF Cons.prems(1), of xk "q_key e" "q_pressed e"]
    have "pressed_keys ?f \<subseteq> upd_key (q_key e) (q_pressed e) S"
      using f(6) Cons.prems(3) by (auto simp: upd_key_def split: if_splits)
    from Cons.IH [OF f(1) f(5) this] show ?case
      using f(2,3) by (simp add: replay_event_def)
  qed simp
  then show ?thesis
    using assms(2) by (simp add: replay_queued_keys_def)
qed

lemma net_queue_upd: "net_queue q = foldl (\<lambda>S e. upd_key (q_key e) (q_pressed e) S) {} q"
  by (simp add: net_queue_def upd_key_def)

definition upd_down :: "event \<Rightarrow> nat set \<Rightarrow> nat set" where
  "upd_down ev down = (case ev of Ev_Key key pressed _ \<Rightarrow> upd_key key pressed down | _ \<Rightarrow> down)"

lemma queue_ok_focus: "queue_ok supp down foc p \<Longrightarrow> queue_ok supp down True p"
  by (simp add: queue_ok_def)

lemma queue_ok_empty:
  "input_queue p = [] \<Longrightarrow> queued_pressed p = {} \<Longrightarrow> queue_ok supp down foc p"
  by (simp add: queue_ok_def)

text \<open>A key that is held back does not concern the queue.\<close>

lemma queue_ok_suppressed:
  assumes "queue_ok supp down foc p" and "key \<in> supp"
  shows "queue_ok (upd_key key pressed supp) (upd_key key pressed down) foc p"
proof -
  have "key \<notin> net_queue (input_queue p)"
    using assms net_queue_keys [of "input_queue p"] by (auto simp: queue_ok_def)
  then show ?thesis
    using assms by (auto simp: queue_ok_def upd_key_def)
qed

lemma queue_ok_snoc:
  assumes "queue_ok supp down True p" and "key \<notin> supp" and "length (input_queue p) < MAX_PENDING_KEY_EVENTS"
    and "\<not> input_overflow p"
  shows "queue_ok supp (upd_key key pressed down) True
    (p\<lparr>input_queue := input_queue p @ [\<lparr>q_key = key, q_pressed = pressed, q_modifiers = mods\<rparr>],
       queued_pressed := upd_key key pressed (queued_pressed p)\<rparr>)"
  using assms by (auto simp: queue_ok_def upd_key_def net_queue_snoc)

lemma keyboard_key_cases:
  "keyboard_key xk key pressed mods g =
     (if key \<in> suppressed_keys g then g\<lparr>suppressed_keys := upd_key key pressed (suppressed_keys g)\<rparr>
      else case pending g of
        None \<Rightarrow> forward_keyboard_key xk key pressed g
      | Some p \<Rightarrow>
          if \<not> focused g then (if pressed then g\<lparr>suppressed_keys := insert key (suppressed_keys g)\<rparr> else g)
          else if input_overflow p \<or> MAX_PENDING_KEY_EVENTS \<le> length (input_queue p)
          then g\<lparr>suppressed_keys := upd_key key pressed (suppressed_keys g \<union> queued_pressed p),
                 pending := Some (p\<lparr>queued_pressed := {}, input_queue := [], input_overflow := True\<rparr>)\<rparr>
          else g\<lparr>pending := Some (p\<lparr>input_queue := input_queue p @
                  [\<lparr>q_key = key, q_pressed = pressed, q_modifiers = mods\<rparr>],
                queued_pressed := upd_key key pressed (queued_pressed p)\<rparr>)\<rparr>)"
  by (simp add: keyboard_key_def upd_key_def Let_def split: option.splits)

lemma view_ok_held_back [simp]:
  "view_ok (g\<lparr>suppressed_keys := s\<rparr>) = view_ok g" "view_ok (g\<lparr>pending := p\<rparr>) = view_ok g"
  "view_ok (g\<lparr>suppressed_keys := s, pending := p\<rparr>) = view_ok g"
  by (simp_all add: view_ok_def)

lemma keyboard_key_view: "view_ok g \<Longrightarrow> view_ok (keyboard_key xk key pressed mods g)"
  by (simp add: keyboard_key_cases forward_spec(1) split: option.split)

lemma upd_key_mono: "A \<subseteq> B \<Longrightarrow> upd_key key pressed A \<subseteq> upd_key key pressed B"
  by (auto simp: upd_key_def)

lemma upd_key_other: "A \<subseteq> B \<Longrightarrow> key \<notin> A \<Longrightarrow> A \<subseteq> upd_key key pressed B"
  by (auto simp: upd_key_def)

lemma keyboard_key_held:
  assumes v: "view_ok g" and h: "held_ok g down"
  shows "held_ok (keyboard_key xk key pressed mods g) (upd_key key pressed down)"
proof (cases "key \<in> suppressed_keys g")
  case True
  have d: "pressed_keys g \<inter> suppressed_keys g = {}" "pressed_keys g \<subseteq> down" "suppressed_keys g \<subseteq> down"
    using h by (simp_all add: held_ok_def)
  moreover have "key \<notin> pressed_keys g"
    using d(1) True by blast
  moreover have "pressed_keys g \<inter> upd_key key pressed (suppressed_keys g) = {}"
    using d(1) True by (auto simp: upd_key_def)
  ultimately have "pressed_keys g \<inter> upd_key key pressed (suppressed_keys g) = {}"
    "pressed_keys g \<subseteq> upd_key key pressed down"
    "upd_key key pressed (suppressed_keys g) \<subseteq> upd_key key pressed down"
    by (simp_all add: upd_key_mono upd_key_other)
  moreover have "queue_ok (upd_key key pressed (suppressed_keys g)) (upd_key key pressed down) (focused g) p"
    if "pending g = Some p" for p
    using h that True by (simp add: held_ok_def queue_ok_suppressed)
  ultimately show ?thesis
    using h True by (simp add: keyboard_key_cases held_ok_def)
next
  case sup: False
  show ?thesis
  proof (cases "pending g")
    case None
    have run: "keyboard_key xk key pressed mods g = forward_keyboard_key xk key pressed g"
      using sup None by (simp add: keyboard_key_cases)
    have "pressed_keys (forward_keyboard_key xk key pressed g) \<subseteq> upd_key key pressed (pressed_keys g)"
      using forward_spec(6) [OF v, of xk key pressed] by (simp split: if_splits)
    moreover have "upd_key key pressed (pressed_keys g) \<subseteq> upd_key key pressed down"
      "upd_key key pressed (pressed_keys g) \<inter> suppressed_keys g = {}"
      "suppressed_keys g \<subseteq> upd_key key pressed down"
      using h sup by (auto simp: held_ok_def upd_key_def)
    ultimately show ?thesis
      unfolding run held_ok_def forward_spec(2,3) [OF v] None by auto
  next
    case (Some p)
    have q: "pressed_keys g = {}" "queue_ok (suppressed_keys g) down (focused g) p" "suppressed_keys g \<subseteq> down"
      using h Some by (simp_all add: held_ok_def)
    consider (unfocused) "\<not> focused g" | (overflow) "focused g" "input_overflow p \<or> MAX_PENDING_KEY_EVENTS \<le> length (input_queue p)"
      | (queue) "focused g" "\<not> input_overflow p" "length (input_queue p) < MAX_PENDING_KEY_EVENTS"
      using leI by blast
    then show ?thesis
    proof cases
      case unfocused
      then have "input_queue p = []" "queued_pressed p = {}"
        using q(2) by (simp_all add: queue_ok_def)
      then show ?thesis
        using q(1,3) sup Some unfocused
        by (auto simp: keyboard_key_cases held_ok_def upd_key_def intro: queue_ok_empty)
    next
      case overflow
      have "suppressed_keys g \<union> queued_pressed p \<subseteq> down"
        using q by (simp add: queue_ok_def)
      then show ?thesis
        using q(1) sup Some overflow
        by (simp add: keyboard_key_cases held_ok_def upd_key_mono queue_ok_empty)
    next
      case queue
      then have "queue_ok (suppressed_keys g) down True p"
        using q(2) by simp
      from queue_ok_snoc [OF this sup queue(3,2), of pressed mods] show ?thesis
        using q(1,3) sup Some queue by (simp add: keyboard_key_cases held_ok_def upd_key_other not_le)
    qed
  qed
qed

lemma keyboard_enter_ok:
  assumes "view_ok g" and "held_ok g down"
  shows "view_ok (keyboard_enter xk g) \<and> held_ok (keyboard_enter xk g) down"
proof -
  have "held_ok (g\<lparr>focused := True\<rparr>) down"
    using assms(2) by (auto simp: held_ok_def intro: queue_ok_focus)
  then show ?thesis
    using focus_enter_view [OF assms(1), of xk] by (simp add: keyboard_enter_def)
qed

section \<open>Leaving and neutralizing\<close>

text \<open>Taking the pressed keys and releasing them one by one.\<close>

definition release_all :: "('m, 'x) xkb \<Rightarrow> ('m, 'x) guest \<Rightarrow> ('m, 'x) guest" where
  "release_all xk g = release_keys xk (pressed_keys g) (g\<lparr>pressed_keys := {}\<rparr>)"

text \<open>The code's two releases of everything, as compositions of the smaller steps.\<close>

definition leave_out :: "('m, 'x) xkb \<Rightarrow> ('m, 'x) guest \<Rightarrow> ('m, 'x) guest" where
  "leave_out xk g =
     (if \<not> entered g then g
      else let h = retain_live (snd (next_serial g)); sn = fst (next_serial g)
           in (if primary g = Some True then send_all [M_Modifiers sn (masks xk h), M_Leave sn] h else h)\<lparr>entered := False\<rparr>)"

lemma keyboard_leave_eq:
  "keyboard_leave xk g =
     (let r = release_all xk (discard_queue (g\<lparr>focused := False\<rparr>))
      in leave_out xk (r\<lparr>suppressed_keys := suppressed_keys r \<union> pressed_keys g\<rparr>))"
proof -
  have "pressed_keys (discard_queue (g\<lparr>focused := False\<rparr>)) = pressed_keys g"
    by (simp add: discard_queue_def split: option.split)
  then show ?thesis
    by (simp add: keyboard_leave_def release_all_def leave_out_def case_prod_beta Let_def)
qed

lemma neutralize_eq:
  "neutralize_physical_keyboard xk g =
     (let r = reset_state xk (release_all xk g)
      in publish_neutral_modifiers (r\<lparr>suppressed_keys := suppressed_keys r \<union> pressed_keys g\<rparr>))"
  by (simp add: neutralize_physical_keyboard_def release_all_def Let_def)

lemma discard_queue_fields [simp]:
  "keyboards (discard_queue g) = keyboards g" "live (discard_queue g) = live g" "primary (discard_queue g) = primary g"
  "focused (discard_queue g) = focused g" "entered (discard_queue g) = entered g"
  "pressed_keys (discard_queue g) = pressed_keys g" "outbox (discard_queue g) = outbox g"
  by (simp_all add: discard_queue_def split: option.splits)

text \<open>Between losing the focus and the leave event, the view is that of an entered keyboard without the focus.\<close>

definition view_released :: "('m, 'x) guest \<Rightarrow> bool" where
  "view_released g \<longleftrightarrow> distinct (keyboards g) \<and> primary g \<noteq> Some False \<and> pressed_keys g = {} \<and>
     (entered g \<longrightarrow> primary g = Some True) \<and>
     (\<forall>k \<in> set (keyboards g). live g k \<longrightarrow> seen k (outbox g) = {})"

lemma leave_out_view:
  assumes "view_released g" and "\<not> focused g"
  shows "view_ok (leave_out xk g)"
proof (cases "entered g")
  case True
  let ?n = "snd (next_serial g)" and ?sn = "fst (next_serial g)"
  let ?s = "send_all [M_Modifiers ?sn (masks xk (retain_live ?n)), M_Leave ?sn] (retain_live ?n)"
  have "primary g = Some True"
    using assms True by (simp add: view_released_def)
  then have run: "leave_out xk g = ?s\<lparr>entered := False\<rparr>"
    using True by (simp add: leave_out_def Let_def)
  have n: "keyboards ?n = keyboards g" "live ?n = live g"
    by (simp_all add: next_serial_def)
  have f: "same_focus g ?s"
    by (rule same_focus_trans [OF same_focus_trans [OF step_simps(3) step_simps(1)] step_simps(2)])
  have "seen k (outbox ?s) = {}" if "k \<in> set (keyboards ?s)" "live ?s k" for k
  proof -
    have "k \<in> set (keyboards ?n)" "live ?n k" "distinct (keyboards ?n)"
      using f that assms n by (auto simp: same_focus_def view_released_def)
    then show ?thesis
      by (subst seen_retained) simp_all
  qed
  then show ?thesis
    using f assms unfolding run by (auto simp: view_ok_def view_released_def same_focus_def)
next
  case False
  then show ?thesis
    using assms by (simp add: leave_out_def view_ok_def view_released_def)
qed

lemma leave_out_keeps:
  "live (leave_out xk g) = live g" "primary (leave_out xk g) = primary g" "focused (leave_out xk g) = focused g"
  "pending (leave_out xk g) = pending g" "completed (leave_out xk g) = completed g"
  "suppressed_keys (leave_out xk g) = suppressed_keys g" "pressed_keys (leave_out xk g) = pressed_keys g"
  by (simp_all add: leave_out_def Let_def send_all_def retain_live_def next_serial_def)

text \<open>Releasing only needs the view of an entered keyboard.\<close>

lemma release_all_released:
  assumes "distinct (keyboards g)" "finite (pressed_keys g)" "primary g \<noteq> Some False"
    "entered g \<longrightarrow> primary g = Some True" "\<not> entered g \<longrightarrow> pressed_keys g = {}"
    "\<forall>k \<in> set (keyboards g). live g k \<longrightarrow> seen k (outbox g) = pressed_keys g"
  shows "same_focus (g\<lparr>pressed_keys := {}\<rparr>) (release_all xk g)" and "view_released (release_all xk g)"
proof -
  let ?g = "g\<lparr>pressed_keys := {}\<rparr>"
  have r: "same_focus ?g (release_all xk g)" "\<forall>k \<in> set (keyboards g). live g k \<longrightarrow>
      seen k (outbox (release_all xk g)) = (if entered g then seen k (outbox g) - pressed_keys g else seen k (outbox g))"
    using release_keys_spec [of ?g "pressed_keys g" xk] assms by (auto simp: release_all_def)
  show "same_focus ?g (release_all xk g)"
    by (rule r(1))
  have "seen k (outbox (release_all xk g)) = {}" if "k \<in> set (keyboards (release_all xk g))" "live (release_all xk g) k" for k
  proof -
    have k: "k \<in> set (keyboards g)" "live g k"
      using r(1) that by (auto simp: same_focus_def)
    then have "seen k (outbox (release_all xk g)) =
        (if entered g then seen k (outbox g) - pressed_keys g else seen k (outbox g))"
      using r(2) by blast
    moreover have "seen k (outbox g) = pressed_keys g"
      using assms(6) k by blast
    ultimately show ?thesis
      using assms(5) by simp
  qed
  then show "view_released (release_all xk g)"
    using r(1) assms(1,3,4) by (auto simp: view_released_def same_focus_def)
qed

lemma discard_held:
  assumes "pressed_keys h \<inter> suppressed_keys h = {}" "pressed_keys h \<subseteq> down" "suppressed_keys h \<subseteq> down"
    and "\<And>p. pending h = Some p \<Longrightarrow> pressed_keys h = {} \<and> queued_pressed p \<subseteq> down"
  shows "held_ok (discard_queue h) down"
proof (cases "pending h")
  case None
  then show ?thesis
    using assms by (simp add: discard_queue_def held_ok_def)
next
  case (Some p)
  then show ?thesis
    using assms(3) assms(4) [OF Some] by (simp add: discard_queue_def held_ok_def queue_ok_empty)
qed

lemma held_ok_queued: "held_ok g down \<Longrightarrow> pending g = Some p \<Longrightarrow> pressed_keys g = {} \<and> queued_pressed p \<subseteq> down"
  by (simp add: held_ok_def queue_ok_def)

lemma suppress_released_held:
  assumes "same_focus (g\<lparr>pressed_keys := {}\<rparr>) r" and "held_ok g down"
  shows "held_ok (r\<lparr>suppressed_keys := suppressed_keys r \<union> pressed_keys g\<rparr>) down"
proof -
  have r: "pressed_keys r = {}" "suppressed_keys r = suppressed_keys g" "pending r = pending g" "focused r = focused g"
    using assms(1) by (simp_all add: same_focus_def)
  have "queue_ok (suppressed_keys g \<union> pressed_keys g) down (focused g) p" if "pending g = Some p" for p
    using assms(2) that by (simp add: held_ok_def)
  then show ?thesis
    using assms(2) r by (simp add: held_ok_def)
qed

lemma view_released_simps [simp]: "view_released (g\<lparr>suppressed_keys := s\<rparr>) = view_released g"
  by (simp add: view_released_def)

lemma keyboard_leave_ok:
  assumes v: "view_ok g" and h: "held_ok g down"
  shows "view_ok (keyboard_leave xk g) \<and> held_ok (keyboard_leave xk g) down"
proof -
  define d where "d = discard_queue (g\<lparr>focused := False\<rparr>)"
  have d: "pressed_keys d = pressed_keys g" "\<not> focused d"
    by (simp_all add: d_def)
  have hd: "held_ok d down"
    unfolding d_def using h held_ok_queued [OF h] by (intro discard_held) (auto simp: held_ok_def)
  have r: "same_focus (d\<lparr>pressed_keys := {}\<rparr>) (release_all xk d)" "view_released (release_all xk d)"
    using v by (intro release_all_released; auto simp: d_def view_ok_def)+
  define q where "q = (release_all xk d)\<lparr>suppressed_keys := suppressed_keys (release_all xk d) \<union> pressed_keys d\<rparr>"
  have "view_released q" "\<not> focused q"
    using r d by (simp_all add: q_def same_focus_def)
  moreover have "held_ok q down"
    unfolding q_def by (rule suppress_released_held [OF r(1) hd])
  moreover have "keyboard_leave xk g = leave_out xk q"
    by (simp add: keyboard_leave_eq Let_def q_def d_def)
  ultimately show ?thesis
    by (simp add: leave_out_view held_ok_def leave_out_keeps)
qed

lemma neutralize_ok:
  assumes v: "view_ok g" and h: "held_ok g down"
  shows "view_ok (neutralize_physical_keyboard xk g) \<and> held_ok (neutralize_physical_keyboard xk g) down \<and>
    pressed_keys (neutralize_physical_keyboard xk g) = {} \<and>
    pending (neutralize_physical_keyboard xk g) = pending g \<and>
    completed (neutralize_physical_keyboard xk g) = completed g"
proof -
  define r where "r = reset_state xk (release_all xk g)"
  have a: "same_focus (g\<lparr>pressed_keys := {}\<rparr>) (release_all xk g)" "view_released (release_all xk g)"
    using v by (intro release_all_released; auto simp: view_ok_def)+
  have f: "same_focus (g\<lparr>pressed_keys := {}\<rparr>) r"
    unfolding r_def by (rule same_focus_trans [OF a(1) step_simps(5)])
  define q where "q = r\<lparr>suppressed_keys := suppressed_keys r \<union> pressed_keys g\<rparr>"
  have "held_ok q down"
    unfolding q_def by (rule suppress_released_held [OF f h])
  moreover have "view_ok q"
  proof -
    have "outbox r = outbox (release_all xk g)" "keyboards r = keyboards (release_all xk g)"
      by (simp_all add: r_def)
    moreover have "live r = live (release_all xk g)"
      by (simp add: r_def reset_state_def)
    ultimately show ?thesis
      using a(2) f v by (auto simp: q_def view_ok_def view_released_def same_focus_def)
  qed
  moreover have "pressed_keys q = {}" "pending q = pending g" "completed q = completed g"
    using f by (simp_all add: q_def same_focus_def)
  moreover have "neutralize_physical_keyboard xk g = publish_neutral_modifiers q"
    by (simp add: neutralize_eq Let_def q_def r_def)
  ultimately show ?thesis
    using publish_neutral_focus [of q] held_ok_same_focus [OF publish_neutral_focus [of q]]
    by (simp add: publish_neutral_view) (simp add: same_focus_def)
qed

section \<open>The transaction preserves the invariant\<close>

lemma view_ok_bookkeeping [simp]:
  "view_ok (g\<lparr>completed := c\<rparr>) = view_ok g" "view_ok (g\<lparr>keymap := m\<rparr>) = view_ok g"
  "view_ok (g\<lparr>pending := p, keymap := m\<rparr>) = view_ok g"
  "held_ok (g\<lparr>completed := c\<rparr>) down = held_ok g down" "held_ok (g\<lparr>keymap := m\<rparr>) down = held_ok g down"
  by (simp_all add: view_ok_def held_ok_def)

lemma publish_keymap_ok:
  assumes "view_ok g"
  shows "view_ok (publish_keymap_and_neutral_modifiers g)"
    and "same_focus g (publish_keymap_and_neutral_modifiers g)"
proof -
  let ?s = "send_all [M_Keymap (km_map (keymap (retain_live g)))] (retain_live g)"
  have f: "same_focus g ?s"
    by (rule same_focus_trans [OF step_simps(1) step_simps(2)])
  have "view_ok ?s"
    using assms by (intro view_ok_same_focus [OF f assms]) (simp add: view_ok_def seen_retained)
  then show "view_ok (publish_keymap_and_neutral_modifiers g)"
    by (simp add: publish_keymap_and_neutral_modifiers_def Let_def publish_neutral_view)
  show "same_focus g (publish_keymap_and_neutral_modifiers g)"
    unfolding publish_keymap_and_neutral_modifiers_def Let_def
    by (rule same_focus_trans [OF f publish_neutral_focus])
qed

lemma replay_ok:
  assumes v: "view_ok g" and h: "held_ok g down" and p: "pending g = None" and e: "pressed_keys g = {}"
    and q: "net_queue q \<subseteq> down" "\<forall>e \<in> set q. q_key e \<notin> suppressed_keys g" "\<not> focused g \<longrightarrow> q = []"
  shows "view_ok (replay_queued_keys xk q g) \<and> held_ok (replay_queued_keys xk q g) down \<and>
    pending (replay_queued_keys xk q g) = None"
proof (cases "focused g")
  case True
  have r: "view_ok (replay_queued_keys xk q g)" "suppressed_keys (replay_queued_keys xk q g) = suppressed_keys g"
    "pending (replay_queued_keys xk q g) = None" "pressed_keys (replay_queued_keys xk q g) \<subseteq> net_queue q"
    using replay_spec [OF v True, of "{}" xk q] e p by (simp_all add: net_queue_upd)
  have "net_queue q \<inter> suppressed_keys g = {}"
    using q(2) net_queue_keys [of q] by auto
  then show ?thesis
    using r q(1) h by (auto simp: held_ok_def)
next
  case False
  then show ?thesis
    using v h p q(3) by (simp add: replay_queued_keys_def)
qed

lemma held_pending:
  assumes "held_ok g down" and "pending g = Some p"
  shows "pressed_keys g = {}" "net_queue (input_queue p) \<subseteq> down"
    "\<forall>e \<in> set (input_queue p). q_key e \<notin> suppressed_keys g" "\<not> focused g \<longrightarrow> input_queue p = []"
  using assms by (auto simp: held_ok_def queue_ok_def)

lemma prepare_ok:
  assumes "view_ok g" and "held_ok g down"
  shows "view_ok (fst (prepare_keyboard_map xk m token sp digest g)) \<and>
    held_ok (fst (prepare_keyboard_map xk m token sp digest g)) down"
proof -
  note n = neutralize_ok [OF assms, of xk]
  have "held_ok ((neutralize_physical_keyboard xk g)\<lparr>pending := Some \<lparr>p_token = token, p_digest = digest,
      p_keymap = ckm, input_queue = [], queued_pressed = {}, input_overflow = False\<rparr>\<rparr>) down" for ckm
    using n by (auto simp: held_ok_def queue_ok_empty)
  then show ?thesis
    using assms n
    by (simp add: prepare_keyboard_map_def Let_def split: option.split sum.split prod.split)
qed

text \<open>Both ends of a transaction continue from the state without it.\<close>

lemma finish_start:
  assumes "view_ok g" and "held_ok g down" and "pending g = Some p"
  shows "view_ok (g\<lparr>pending := None\<rparr>)" "held_ok (g\<lparr>pending := None\<rparr>) down"
  using assms by (simp_all add: held_ok_def)

lemma finish_start_keymap:
  fixes m and g
  defines "h \<equiv> publish_keymap_and_neutral_modifiers (g\<lparr>pending := None, keymap := m\<rparr>)"
  assumes "view_ok g" and "held_ok g down" and "pending g = Some p"
  shows "view_ok h" "held_ok h down" "same_focus (g\<lparr>pending := None, keymap := m\<rparr>) h"
proof -
  have "view_ok (g\<lparr>pending := None, keymap := m\<rparr>)" "held_ok (g\<lparr>pending := None, keymap := m\<rparr>) down"
    using assms by (simp_all add: held_ok_def)
  then show "view_ok h" "held_ok h down" "same_focus (g\<lparr>pending := None, keymap := m\<rparr>) h"
    using publish_keymap_ok [of "g\<lparr>pending := None, keymap := m\<rparr>"] by (simp_all add: h_def held_ok_same_focus)
qed

lemma commit_ok:
  assumes v: "view_ok g" and h: "held_ok g down"
  shows "view_ok (fst (commit_keyboard_map xk m token digest g)) \<and>
    held_ok (fst (commit_keyboard_map xk m token digest g)) down"
proof (cases "pending g")
  case None
  then show ?thesis
    using assms by (simp add: commit_keyboard_map_def)
next
  case (Some p)
  note q = held_pending [OF h Some]
  let ?g = "publish_keymap_and_neutral_modifiers (g\<lparr>pending := None, keymap := p_keymap p\<rparr>)"
  note f = finish_start_keymap [OF v h Some, of "p_keymap p"]
  have "pending ?g = None" "pressed_keys ?g = {}" "suppressed_keys ?g = suppressed_keys g" "focused ?g = focused g"
    using f(3) q(1) by (simp_all add: same_focus_def)
  then have "view_ok (replay_queued_keys xk (input_queue p) ?g) \<and> held_ok (replay_queued_keys xk (input_queue p) ?g) down"
    using replay_ok [OF f(1,2), of "input_queue p" xk] q by simp
  then show ?thesis
    using v h Some by (simp add: commit_keyboard_map_def Let_def)
qed

lemma abort_ok:
  assumes v: "view_ok g" and h: "held_ok g down"
  shows "view_ok (fst (abort_keyboard_map xk m token digest g)) \<and>
    held_ok (fst (abort_keyboard_map xk m token digest g)) down"
proof (cases "pending g")
  case None
  then show ?thesis
    using assms by (simp add: abort_keyboard_map_def)
next
  case (Some p)
  note q = held_pending [OF h Some]
  note f = finish_start [OF v h Some]
  have "view_ok (replay_queued_keys xk (input_queue p) (g\<lparr>pending := None\<rparr>)) \<and>
      held_ok (replay_queued_keys xk (input_queue p) (g\<lparr>pending := None\<rparr>)) down"
    using replay_ok [OF f(1,2), of "input_queue p" xk] q by simp
  moreover have "view_ok (publish_neutral_modifiers (g\<lparr>pending := None\<rparr>)) \<and>
      held_ok (publish_neutral_modifiers (g\<lparr>pending := None\<rparr>)) down"
    using publish_neutral_view [OF f(1)] held_ok_same_focus [OF publish_neutral_focus] f(2) by blast
  ultimately show ?thesis
    using v h Some by (simp add: abort_keyboard_map_def Let_def)
qed

lemma map_request_ok:
  "view_ok g \<Longrightarrow> held_ok g down \<Longrightarrow>
   view_ok (fst (keyboard_map_request xk r g)) \<and> held_ok (fst (keyboard_map_request xk r g)) down"
  by (cases r) (simp_all add: keyboard_map_request_def prepare_ok commit_ok abort_ok)

section \<open>The client's objects preserve the invariant\<close>

lemma seen_unknown:
  assumes "\<not> known_object k g"
  shows "seen k (outbox g) = {}"
proof -
  have "filter (\<lambda>x. fst x = k) (outbox g) = []"
    using assms by (auto simp: known_object_def filter_empty_conv)
  then show ?thesis
    by (simp add: seen_def)
qed

lemma get_keyboard_ok:
  assumes v: "view_ok g" and h: "held_ok g down" and new: "\<not> known_object k g"
  shows "view_ok (get_keyboard xk k (g\<lparr>live := (live g)(k := True)\<rparr>)) \<and>
    held_ok (get_keyboard xk k (g\<lparr>live := (live g)(k := True)\<rparr>)) down"
proof -
  let ?g = "g\<lparr>live := (live g)(k := True), outbox := outbox g @ [(k, M_Keymap (km_map (keymap g)))],
    keyboards := keyboards g @ [k], entered := False\<rparr>"
  have k: "k \<notin> set (keyboards g)"
    using new by (simp add: known_object_def)
  have run: "get_keyboard xk k (g\<lparr>live := (live g)(k := True)\<rparr>) = ensure_keyboard_enter xk ?g"
    by (simp add: get_keyboard_def)
  have old: "seen j (outbox ?g) = seen j (outbox g)" for j
    by (simp add: seen_append)
  have "view_ok (ensure_keyboard_enter xk ?g)"
  proof (rule ensure_enter_view)
    show "distinct (keyboards ?g)" "finite (pressed_keys ?g)" "primary ?g \<noteq> Some False"
      using v k by (simp_all add: view_ok_def)
    show "entered ?g \<Longrightarrow> view_ok ?g"
      by simp
    show "pressed_keys ?g \<noteq> {} \<Longrightarrow> focused ?g \<and> primary ?g = Some True \<and> (\<exists>j \<in> set (keyboards ?g). live ?g j)"
      using v by (auto simp: view_ok_def)
    show "\<forall>j \<in> set (keyboards ?g). live ?g j \<longrightarrow> seen j (outbox ?g) = {}" if "pressed_keys ?g = {}"
      unfolding old using v that k seen_unknown [OF new] by (auto simp: view_ok_def)
  qed
  moreover have "held_ok ?g down"
    using h by (simp add: held_ok_def)
  ultimately show ?thesis
    unfolding run by simp
qed

lemma get_toplevel_ok:
  assumes v: "view_ok g" and h: "held_ok g down"
  shows "view_ok (get_toplevel xk g) \<and> held_ok (get_toplevel xk g) down"
proof (cases "primary g")
  case None
  let ?g = "g\<lparr>primary := Some True, entered := False\<rparr>"
  have "\<not> entered g" "pressed_keys g = {}"
    using v None by (auto simp: view_ok_def)
  then have "view_ok (ensure_keyboard_enter xk ?g)"
    using v by (intro ensure_enter_view) (auto simp: view_ok_def)
  moreover have "held_ok ?g down"
    using h by (simp add: held_ok_def)
  ultimately show ?thesis
    using None by (simp add: get_toplevel_def)
qed (use assms in \<open>simp add: get_toplevel_def\<close>)

lemma drop_client_leases_ok:
  assumes h: "held_ok g down"
  shows "view_ok (drop_client_leases xk g) \<and> held_ok (drop_client_leases xk g) down"
proof -
  define b where "b = reset_state xk (g\<lparr>keyboards := [], primary := None, focused := False, entered := False,
      suppressed_keys := suppressed_keys g \<union> pressed_keys g, pressed_keys := {}\<rparr>)"
  have b: "keyboards b = []" "primary b = None" "\<not> focused b" "\<not> entered b" "pending b = pending g"
    "suppressed_keys b = suppressed_keys g \<union> pressed_keys g" "pressed_keys b = {}"
    by (simp_all add: b_def reset_state_def)
  have "held_ok (discard_queue b) down"
    using b h held_ok_queued [OF h] by (intro discard_held) (auto simp: held_ok_def)
  moreover have "view_ok (discard_queue b)"
    using b by (simp add: view_ok_def)
  moreover have "drop_client_leases xk g = discard_queue b"
    by (simp add: drop_client_leases_def b_def)
  ultimately show ?thesis
    by simp
qed

section \<open>Every run\<close>

text \<open>
  The machine together with the keys that are physically down and a mark that the primary surface
  has not been destroyed under a live connection.
\<close>

definition world_step ::
    "('m, 'x) xkb \<Rightarrow> ('m, 'x) guest \<times> nat set \<times> bool \<Rightarrow> event \<Rightarrow> (('m, 'x) guest \<times> nat set \<times> bool) \<times> map_reply option" where
  "world_step xk w ev =
     (let (g, down, clean) = w; (g', out) = guest_step xk g ev
      in ((g', upd_down ev down, clean \<and> ev \<noteq> Ev_Kill_Surface), out))"

definition world_ok :: "('m, 'x) guest \<times> nat set \<times> bool \<Rightarrow> bool" where
  "world_ok w = (let (g, down, clean) = w in clean \<longrightarrow> view_ok g \<and> held_ok g down)"

lemma guest_step_ok:
  assumes "view_ok g" and "held_ok g down" and "ev \<noteq> Ev_Kill_Surface"
  shows "view_ok (fst (guest_step xk g ev)) \<and> held_ok (fst (guest_step xk g ev)) (upd_down ev down)"
proof (cases ev)
  case (Ev_Kill_Keyboard k)
  have "view_ok (g\<lparr>live := (live g)(k := False)\<rparr>)" "held_ok (g\<lparr>live := (live g)(k := False)\<rparr>) down"
    using assms(1,2) by (auto simp: view_ok_def held_ok_def)
  then show ?thesis
    by (simp add: guest_step_def upd_down_def Ev_Kill_Keyboard)
qed (use assms in \<open>simp_all add: guest_step_def upd_down_def keyboard_enter_ok keyboard_leave_ok keyboard_key_view
      keyboard_key_held map_request_ok get_keyboard_ok get_toplevel_ok drop_client_leases_ok case_prod_beta Let_def\<close>)

interpretation display: machine "world_step xk" world_ok
  by unfold_locales (auto simp: world_ok_def world_step_def guest_step_ok case_prod_beta Let_def)

definition physically_down :: "event list \<Rightarrow> nat set" where
  "physically_down es = foldl (\<lambda>d ev. upd_down ev d) {} es"

lemma world_run:
  "fst (run_machine (world_step xk) (g, d, c) es) =
   (fst (run_machine (guest_step xk) g es), foldl (\<lambda>d ev. upd_down ev d) d es, c \<and> Ev_Kill_Surface \<notin> set es)"
  by (induction es arbitrary: g d c) (auto simp: world_step_def case_prod_beta Let_def)

lemma guest_new_ok: "world_ok (guest_new km, {}, True)"
  by (simp add: world_ok_def guest_new_def view_ok_def held_ok_def)

lemma run_ok:
  assumes "Ev_Kill_Surface \<notin> set es"
  shows "view_ok (fst (run_machine (guest_step xk) (guest_new km) es))"
    and "held_ok (fst (run_machine (guest_step xk) (guest_new km) es)) (physically_down es)"
  using display.run_inv [OF guest_new_ok, of xk km es] assms
  by (simp_all add: world_run world_ok_def physically_down_def)

section \<open>What the nested compositor receives\<close>

text \<open>The key transitions that a keyboard object was sent, and the real transitions of a queue.\<close>

definition key_msgs :: "nat \<Rightarrow> (nat \<times> 'm message) list \<Rightarrow> (nat \<times> bool) list" where
  "key_msgs k ob = concat (map (\<lambda>(j, m). case m of M_Key _ key d \<Rightarrow> if j = k then [(key, d)] else [] | _ \<Rightarrow> []) ob)"

fun transitions :: "nat set \<Rightarrow> queued_key list \<Rightarrow> (nat \<times> bool) list" where
  "transitions S [] = []"
| "transitions S (e # q) =
     (if (q_key e \<in> S) = q_pressed e then transitions S q
      else (q_key e, q_pressed e) # transitions (upd_key (q_key e) (q_pressed e) S) q)"

lemma key_msgs_append [simp]: "key_msgs k (xs @ ys) = key_msgs k xs @ key_msgs k ys"
  by (simp add: key_msgs_def)

lemma key_msgs_other: "k \<notin> fst ` set ob \<Longrightarrow> key_msgs k ob = []"
  by (induction ob) (auto simp: key_msgs_def split: message.split)

lemma key_msgs_self: "key_msgs k (map (Pair k) ms) =
   concat (map (\<lambda>m. case m of M_Key _ key d \<Rightarrow> [(key, d)] | _ \<Rightarrow> []) ms)"
  by (induction ms) (auto simp: key_msgs_def split: message.split)

lemma key_msgs_broadcast:
  assumes "distinct ks" and "k \<in> set ks"
  shows "key_msgs k (concat (map (\<lambda>k. map (Pair k) ms) ks)) =
    concat (map (\<lambda>m. case m of M_Key _ key d \<Rightarrow> [(key, d)] | _ \<Rightarrow> []) ms)"
proof -
  obtain as bs where ks: "ks = as @ k # bs"
    using assms(2) split_list by fastforce
  then have "k \<notin> set as" "k \<notin> set bs"
    using assms(1) by auto
  then have "key_msgs k (concat (map (\<lambda>k. map (Pair k) ms) as)) = []"
    "key_msgs k (concat (map (\<lambda>k. map (Pair k) ms) bs)) = []"
    by (auto intro!: key_msgs_other)
  then show ?thesis
    by (simp add: ks key_msgs_self)
qed

lemma key_msgs_emit:
  assumes "distinct (keyboards g)" and "k \<in> set (keyboards g)" and "live g k"
  shows "key_msgs k (outbox (emit ms g)) =
    key_msgs k (outbox g) @ concat (map (\<lambda>m. case m of M_Key _ key d \<Rightarrow> [(key, d)] | _ \<Rightarrow> []) ms)"
proof -
  let ?h = "retain_live (snd (next_serial g))"
  have "keyboards ?h = filter (live g) (keyboards g)" "outbox ?h = outbox g"
    by (simp_all add: retain_live_def next_serial_def)
  then show ?thesis
    using assms by (simp add: emit_def send_all_def key_msgs_broadcast)
qed

text \<open>A keyboard object that is shown the key transitions.\<close>

definition shown :: "nat \<Rightarrow> ('m, 'x) guest \<Rightarrow> bool" where
  "shown k g \<longleftrightarrow> view_ok g \<and> entered g \<and> k \<in> set (keyboards g) \<and> live g k"

lemma forward_shown:
  fixes g :: "('m, 'x) guest" and xk key pressed
  assumes s: "shown k g"
  defines "h \<equiv> forward_keyboard_key xk key pressed g"
  shows "shown k h \<and> pressed_keys h = upd_key key pressed (pressed_keys g) \<and>
    key_msgs k (outbox h) = key_msgs k (outbox g) @ (if (key \<in> pressed_keys g) = pressed then [] else [(key, pressed)])"
proof -
  let ?e = "g\<lparr>focused := True\<rparr>"
  let ?u = "update_key xk key pressed (g\<lparr>focused := True, pressed_keys := upd_key key pressed (pressed_keys g)\<rparr>)"
  let ?out = "emit [M_Key (fst (next_serial ?u)) key pressed, M_Modifiers (fst (next_serial ?u)) (masks xk (snd (next_serial ?u)))] ?u"
  have run: "h = (if (key \<in> pressed_keys g) = pressed then ?e else ?out)"
    using s by (simp add: h_def forward_keyboard_key_def ensure_keyboard_enter_def shown_def emit_def upd_key_def
        case_prod_beta Let_def)
  have u: "keyboards ?u = keyboards g" "live ?u = live g" "outbox ?u = outbox g" "entered ?u = entered g"
    "pressed_keys ?u = upd_key key pressed (pressed_keys g)"
    by (simp_all add: update_key_def)
  have k: "distinct (keyboards ?u)" "k \<in> set (keyboards ?u)" "live ?u k" "entered ?u"
    using s u by (simp_all add: shown_def view_ok_def)
  have f: "same_focus ?u ?out"
    by simp
  have "shown k h"
    using forward_spec(1) [of g xk key pressed] s run f k unfolding h_def
    by (auto simp: shown_def same_focus_def split: if_splits)
  moreover have "pressed_keys h = upd_key key pressed (pressed_keys g)"
    using run f u by (auto simp: same_focus_def upd_key_def)
  moreover have "key_msgs k (outbox h) =
      key_msgs k (outbox g) @ (if (key \<in> pressed_keys g) = pressed then [] else [(key, pressed)])"
    using run key_msgs_emit [OF k(1,2,3)] u by simp
  ultimately show ?thesis
    by blast
qed

lemma replay_shown:
  assumes "shown k g"
  shows "key_msgs k (outbox (replay_queued_keys xk q g)) = key_msgs k (outbox g) @ transitions (pressed_keys g) q"
proof -
  have "shown k g \<Longrightarrow> key_msgs k (outbox (fold (replay_event xk) q g)) =
      key_msgs k (outbox g) @ transitions (pressed_keys g) q" for g
  proof (induction q arbitrary: g)
    case (Cons e q)
    note f = forward_shown [OF Cons.prems, where xk = xk and key = "q_key e" and pressed = "q_pressed e"]
    then show ?case
      using Cons.IH [of "forward_keyboard_key xk (q_key e) (q_pressed e) g"]
      by (auto simp: replay_event_def upd_key_def insert_absorb)
  qed simp
  moreover have "focused g"
    using assms by (simp add: shown_def view_ok_def)
  ultimately show ?thesis
    using assms by (simp add: replay_queued_keys_def)
qed

text \<open>Keys pressed and released while a map is prepared only extend the queue.\<close>

definition key_event :: "queued_key \<Rightarrow> event" where
  "key_event e = Ev_Key (q_key e) (q_pressed e) (q_modifiers e)"

lemma queue_run:
  assumes "pending g = Some p" "focused g" "\<not> input_overflow p"
    and "length (input_queue p) + length q \<le> MAX_PENDING_KEY_EVENTS"
    and "\<forall>e \<in> set q. q_key e \<notin> suppressed_keys g"
  shows "\<exists>held. fst (run_machine (guest_step xk) g (map key_event q)) =
    g\<lparr>pending := Some (p\<lparr>input_queue := input_queue p @ q, queued_pressed := held\<rparr>)\<rparr>"
  using assms
proof (induction q arbitrary: g p)
  case Nil
  then show ?case
    by (intro exI [of _ "queued_pressed p"]) simp
next
  case (Cons e q)
  let ?p = "p\<lparr>input_queue := input_queue p @ [e], queued_pressed := upd_key (q_key e) (q_pressed e) (queued_pressed p)\<rparr>"
  let ?g = "g\<lparr>pending := Some ?p\<rparr>"
  have step: "fst (guest_step xk g (key_event e)) = ?g"
    using Cons.prems by (cases e) (simp add: guest_step_def key_event_def keyboard_key_cases)
  have "\<exists>held. fst (run_machine (guest_step xk) ?g (map key_event q)) =
      ?g\<lparr>pending := Some (?p\<lparr>input_queue := input_queue ?p @ q, queued_pressed := held\<rparr>)\<rparr>"
    using Cons.prems by (intro Cons.IH) auto
  then show ?case
    using step by (simp add: Let_def case_prod_beta)
qed

text \<open>Publishing a map sends no key, and nothing after it changes the map.\<close>

lemma key_msgs_quiet [simp]:
  "key_msgs k (map (\<lambda>k. (k, M_Keymap m)) ks) = []" "key_msgs k (map (\<lambda>k. (k, M_Modifiers sn ms)) ks) = []"
  by (induction ks) (simp_all add: key_msgs_def)

lemma key_msgs_publish:
  "key_msgs k (outbox (publish_keymap_and_neutral_modifiers g)) = key_msgs k (outbox g)"
  by (simp add: publish_keymap_and_neutral_modifiers_def publish_neutral_modifiers_def send_all_def
      retain_live_def next_serial_def case_prod_beta Let_def)

definition same_map :: "('m, 'x) compiled_keymap \<Rightarrow> ('m, 'x) compiled_keymap \<Rightarrow> bool" where
  "same_map a b \<longleftrightarrow> km_map a = km_map b \<and> km_digest a = km_digest b"

lemma forward_same_map: "same_map (keymap (forward_keyboard_key xk key pressed g)) (keymap g)"
  by (simp add: same_map_def forward_keyboard_key_def ensure_enter_eq enter_live_def update_key_def
      next_serial_def retain_live_def send_all_def case_prod_beta Let_def)

lemma replay_same_map: "same_map (keymap (replay_queued_keys xk q g)) (keymap g)"
proof -
  have "same_map (keymap (fold (replay_event xk) q g)) (keymap g)"
  proof (induction q arbitrary: g)
    case (Cons e q)
    then show ?case
      using forward_same_map [of xk "q_key e" "q_pressed e" g] by (simp add: same_map_def replay_event_def)
  qed (simp add: same_map_def)
  moreover have "same_map (keymap (fold (\<lambda>q g. g\<lparr>suppressed_keys := (if q_pressed q then insert (q_key q) (suppressed_keys g)
      else suppressed_keys g - {q_key q})\<rparr>) q g)) (keymap g)"
    by (induction q arbitrary: g) (simp_all add: same_map_def)
  ultimately show ?thesis
    by (simp add: replay_queued_keys_def)
qed

lemma publish_keeps_keymap: "keymap (publish_keymap_and_neutral_modifiers g) = keymap g"
  by (simp add: publish_keymap_and_neutral_modifiers_def publish_neutral_modifiers_def send_all_def
      retain_live_def next_serial_def case_prod_beta Let_def)

section \<open>Properties\<close>


text \<open>
  While a keyboard map is prepared the display is neutral: no key is held in the view of any live
  keyboard, at most 256 key events wait, a key event of the user sends nothing, and once the queue
  has overflowed nothing waits and a commit is refused without any effect.
\<close>

lemma prepared_is_neutral:
  assumes "Ev_Kill_Surface \<notin> set es" and "g = fst (run_machine (guest_step xk) (guest_new km) es)"
    and "pending g = Some p"
  shows "(\<forall>k \<in> set (keyboards g). live g k \<longrightarrow> seen k (outbox g) = {}) \<and>
    length (input_queue p) \<le> 256 \<and>
    outbox (fst (guest_step xk g (Ev_Key key down mods))) = outbox g \<and>
    (input_overflow p \<longrightarrow> input_queue p = [] \<and> fst (commit_keyboard_map xk m token digest g) = g \<and>
      (\<forall>r. snd (commit_keyboard_map xk m token digest g) = Inr r \<longrightarrow>
         (\<exists>c. completed g = Some c \<and> c_token c = token \<and> c_state c = Map_Committed)))"
proof -
  have v: "view_ok g" and h: "held_ok g (physically_down es)"
    using run_ok [OF assms(1), of xk km] assms(2) by simp_all
  have "\<forall>k \<in> set (keyboards g). live g k \<longrightarrow> seen k (outbox g) = {}"
    using v held_pending(1) [OF h assms(3)] by (simp add: view_ok_def)
  moreover have q: "queue_ok (suppressed_keys g) (physically_down es) (focused g) p"
    using h assms(3) by (simp add: held_ok_def)
  then have "length (input_queue p) \<le> 256"
    by (simp add: queue_ok_def MAX_PENDING_KEY_EVENTS_def)
  moreover have "outbox (fst (guest_step xk g (Ev_Key key down mods))) = outbox g"
    using assms(3) by (simp add: guest_step_def keyboard_key_cases)
  moreover have "input_queue p = [] \<and> fst (commit_keyboard_map xk m token digest g) = g \<and>
      (\<forall>r. snd (commit_keyboard_map xk m token digest g) = Inr r \<longrightarrow>
         (\<exists>c. completed g = Some c \<and> c_token c = token \<and> c_state c = Map_Committed))" if "input_overflow p"
    using that q assms(3) by (auto simp: commit_keyboard_map_def queue_ok_def finish_conflict_def)
  ultimately show ?thesis
    by blast
qed

text \<open>
  C32. No key is lost to a keyboard-map change. From any such state with a freshly prepared map and
  an entered keyboard, up to 256 key events that are not suppressed, followed by the commit, deliver
  to every live keyboard exactly the real transitions among these events, in order; the prepared map
  is then the active one and no transaction is pending.
\<close>

theorem no_key_lost:
  assumes "Ev_Kill_Surface \<notin> set es" and g: "g = fst (run_machine (guest_step xk) (guest_new km) es)"
    and p: "pending g = Some p" "input_queue p = []" "\<not> input_overflow p"
    and k: "entered g" "k \<in> set (keyboards g)" "live g k"
    and q: "length q \<le> 256" "\<forall>e \<in> set q. q_key e \<notin> suppressed_keys g"
    and fresh: "\<forall>c. completed g = Some c \<longrightarrow> c_token c \<noteq> p_token p"
    and h: "h = fst (run_machine (guest_step xk) g (map key_event q @ [Ev_Map (Commit (p_token p) (p_digest p))]))"
  shows "key_msgs k (outbox h) = key_msgs k (outbox g) @ transitions {} q \<and>
    same_map (keymap h) (p_keymap p) \<and> pending h = None \<and>
    completed h = Some \<lparr>c_token = p_token p, c_digest = p_digest p, c_state = Map_Committed\<rparr>"
proof -
  have v: "view_ok g" and held: "held_ok g (physically_down es)"
    using run_ok [OF assms(1), of xk km] g by simp_all
  have foc: "focused g" and e: "pressed_keys g = {}"
    using v k(1) held_pending(1) [OF held p(1)] by (simp_all add: view_ok_def)
  obtain hs where mid: "fst (run_machine (guest_step xk) g (map key_event q)) =
      g\<lparr>pending := Some (p\<lparr>input_queue := q, queued_pressed := hs\<rparr>)\<rparr>"
    using queue_run [OF p(1) foc p(3) _ q(2), of xk] p(2) q(1) by (auto simp: MAX_PENDING_KEY_EVENTS_def)
  have no_c: "\<not> (\<exists>c. completed g = Some c \<and> c_token c = p_token p)"
    using fresh by auto
  define i where "i = publish_keymap_and_neutral_modifiers (g\<lparr>pending := None, keymap := p_keymap p\<rparr>)"
  have run: "h = (replay_queued_keys xk q i)\<lparr>completed :=
      Some \<lparr>c_token = p_token p, c_digest = p_digest p, c_state = Map_Committed\<rparr>\<rparr>"
    using mid no_c p(3) unfolding h i_def
    by (auto simp: run_machine_append Let_def case_prod_beta guest_step_def keyboard_map_request_def commit_keyboard_map_def)
  have f: "view_ok i" "same_focus (g\<lparr>pending := None, keymap := p_keymap p\<rparr>) i"
    unfolding i_def using finish_start_keymap [OF v held p(1), of "p_keymap p"] by simp_all
  then have s: "shown k i" "pressed_keys i = {}" "focused i" "pending i = None"
    using k e foc by (simp_all add: shown_def same_focus_def)
  have "key_msgs k (outbox h) = key_msgs k (outbox g) @ transitions {} q"
    using replay_shown [OF s(1), of xk q] s(2) key_msgs_publish [of k "g\<lparr>pending := None, keymap := p_keymap p\<rparr>"]
    unfolding run i_def by simp
  moreover have "pending h = None"
    using replay_spec [OF f(1) s(3), of "{}" xk q] s run by simp
  moreover have "completed h = Some \<lparr>c_token = p_token p, c_digest = p_digest p, c_state = Map_Committed\<rparr>"
    using run by simp
  moreover have "same_map (keymap h) (p_keymap p)"
    using replay_same_map [of xk q i] run by (simp add: i_def publish_keeps_keymap)
  ultimately show ?thesis
    by blast
qed

lemma forward_pending: "pending (forward_keyboard_key xk key pressed g) = pending g"
  by (simp add: forward_keyboard_key_def ensure_enter_eq update_key_def
      next_serial_def retain_live_def send_all_def case_prod_beta Let_def)

lemma replay_pending: "pending (replay_queued_keys xk q g) = pending g"
proof -
  have "pending (fold (replay_event xk) q g) = pending g"
    by (induction q arbitrary: g) (simp_all add: replay_event_def forward_pending)
  moreover have "pending (fold (\<lambda>q g. g\<lparr>suppressed_keys := (if q_pressed q then insert (q_key q) (suppressed_keys g)
      else suppressed_keys g - {q_key q})\<rparr>) q g) = pending g"
    by (induction q arbitrary: g) simp_all
  ultimately show ?thesis
    by (simp add: replay_queued_keys_def)
qed

lemma publish_neutral_pending: "pending (publish_neutral_modifiers g) = pending g"
  using publish_neutral_focus [of g] by (simp add: same_focus_def)

lemma publish_keymap_pending: "pending (publish_keymap_and_neutral_modifiers g) = pending g"
  by (simp add: publish_keymap_and_neutral_modifiers_def publish_neutral_pending retain_live_def send_all_def Let_def)

lemma finished:
  assumes "commit_keyboard_map xk m token digest g = (h, Inr r) \<and> ended = Map_Committed \<or>
      abort_keyboard_map xk m token digest g = (h, Inr r) \<and> ended = Map_Aborted"
  shows "completed h = Some \<lparr>c_token = token, c_digest = digest, c_state = ended\<rparr>" and "resp_state r = ended"
    and "pending h = None \<or> h = g"
proof -
  have "completed h = Some \<lparr>c_token = token, c_digest = digest, c_state = ended\<rparr> \<and> resp_state r = ended \<and>
      (pending h = None \<or> h = g)"
    using assms
  proof
    assume "commit_keyboard_map xk m token digest g = (h, Inr r) \<and> ended = Map_Committed"
    then show ?thesis
      by (cases "completed g"; cases "pending g")
        (auto simp: commit_keyboard_map_def finish_conflict_def keyboard_map_response_def response_success_def
          replay_pending publish_keymap_pending Let_def split: if_splits)
  next
    assume "abort_keyboard_map xk m token digest g = (h, Inr r) \<and> ended = Map_Aborted"
    then show ?thesis
      by (cases "completed g"; cases "pending g")
        (auto simp: abort_keyboard_map_def finish_conflict_def keyboard_map_response_def response_success_def
          replay_pending publish_neutral_pending Let_def split: if_splits)
  qed
  then show "completed h = Some \<lparr>c_token = token, c_digest = digest, c_state = ended\<rparr>" and "resp_state r = ended"
    and "pending h = None \<or> h = g"
    by blast+
qed

text \<open>
  A keyboard-map transaction finishes once. After a successful commit or abort, repeating the
  same call answers success again without any effect, while the other call, or the same with
  another digest, is refused as a conflict without any effect. The finished transaction is no longer
  pending (unless the call was itself such a repetition), and then preparing it again reports how
  it ended and prepares nothing.
\<close>

lemma finishes_once:
  assumes "commit_keyboard_map xk m token digest g = (h, Inr r) \<and> ended = Map_Committed \<or>
      abort_keyboard_map xk m token digest g = (h, Inr r) \<and> ended = Map_Aborted"
  shows "resp_state r = ended \<and> (pending h = None \<or> h = g) \<and>
    commit_keyboard_map xk m' token d h =
      (h, if d = digest \<and> ended = Map_Committed then Inr (keyboard_map_response h m' Map_Committed) else Inl finish_conflict) \<and>
    abort_keyboard_map xk m' token d h =
      (h, if d = digest \<and> ended = Map_Aborted then Inr (keyboard_map_response h m' Map_Aborted) else Inl finish_conflict) \<and>
    (pending h = None \<longrightarrow>
      prepare_keyboard_map xk m' token sp digest h = (h, Inr (keyboard_map_response h m' ended)) \<and>
      keyboard_map_status m' token h = Inr (keyboard_map_response h m' ended))"
proof -
  note c = finished [OF assms]
  have "commit_keyboard_map xk m' token d h =
      (h, if d = digest \<and> ended = Map_Committed then Inr (keyboard_map_response h m' Map_Committed) else Inl finish_conflict)"
    "abort_keyboard_map xk m' token d h =
      (h, if d = digest \<and> ended = Map_Aborted then Inr (keyboard_map_response h m' Map_Aborted) else Inl finish_conflict)"
    using c(1) by (auto simp: commit_keyboard_map_def abort_keyboard_map_def)
  moreover have "prepare_keyboard_map xk m' token sp digest h = (h, Inr (keyboard_map_response h m' ended))"
    "keyboard_map_status m' token h = Inr (keyboard_map_response h m' ended)" if "pending h = None"
    using c(1) that by (simp_all add: prepare_keyboard_map_def keyboard_map_status_def)
  ultimately show ?thesis
    using c(2,3) by blast
qed

section \<open>The properties at a concrete display\<close>

definition demo_xkb :: "(nat, nat set) xkb" where
  "demo_xkb = \<lparr>xkb_compile = (\<lambda>sp. Inr (length (spec_layout sp), ''map'')), xkb_state_new = (\<lambda>_. {}),
     xkb_update_key = (\<lambda>x k d. upd_key k d x), xkb_masks = (\<lambda>x. (if 50 \<in> x then 1 else 0, 0, 0, 0))\<rparr>"

definition demo_keymap :: "(nat, nat set) compiled_keymap" where
  "demo_keymap = \<lparr>km_map = 0, km_state = {}, km_digest = ''d0''\<rparr>"

definition demo_entered :: "event list" where
  "demo_entered = [Ev_Toplevel, Ev_Get_Keyboard 1, Ev_Enter]"

lemmas demo_steps = demo_entered_def guest_step_def guest_new_def get_toplevel_def get_keyboard_def
  ensure_keyboard_enter_def known_object_def keyboard_enter_def retain_live_def next_serial_def send_all_def
  masks_def demo_xkb_def demo_keymap_def

lemma demo_entered_run:
  "fst (run_machine (guest_step demo_xkb) (guest_new demo_keymap) demo_entered) =
   \<lparr>serial = 2, keyboards = [1], live = (\<lambda>_. False)(1 := True), primary = Some True, focused = True,
     entered = True, keymap = demo_keymap, pending = None, completed = None, pressed_keys = {},
     suppressed_keys = {},
     outbox = [(1, M_Keymap 0), (1, M_Enter 1 []), (1, M_Modifiers 1 (0, 0, 0, 0))]\<rparr>"
  by (simp add: demo_steps)

lemma demo_pressed_run:
  "fst (run_machine (guest_step demo_xkb) (guest_new demo_keymap) (demo_entered @ [Ev_Key 30 True 0])) =
   \<lparr>serial = 3, keyboards = [1], live = (\<lambda>_. False)(1 := True), primary = Some True, focused = True,
     entered = True, keymap = \<lparr>km_map = 0, km_state = {38}, km_digest = ''d0''\<rparr>, pending = None,
     completed = None, pressed_keys = {30}, suppressed_keys = {},
     outbox = [(1, M_Keymap 0), (1, M_Enter 1 []), (1, M_Modifiers 1 (0, 0, 0, 0)),
       (1, M_Key 2 30 True), (1, M_Modifiers 2 (0, 0, 0, 0))]\<rparr>"
  by (simp add: run_machine_append demo_entered_run Let_def case_prod_beta)
    (simp add: guest_step_def keyboard_key_def forward_keyboard_key_def ensure_keyboard_enter_def update_key_def
      keycode_def next_serial_def retain_live_def send_all_def masks_def demo_xkb_def demo_keymap_def upd_key_def)


definition demo_prepare :: "event list" where
  "demo_prepare = demo_entered @ [Ev_Map (Prepare ''t'' standard_us ''d1'')]"

lemma demo_prepare_run:
  "fst (run_machine (guest_step demo_xkb) (guest_new demo_keymap) demo_prepare) =
   \<lparr>serial = 3, keyboards = [1], live = (\<lambda>_. False)(1 := True), primary = Some True, focused = True,
     entered = True, keymap = demo_keymap,
     pending = Some \<lparr>p_token = ''t'', p_digest = ''d1'', p_keymap = \<lparr>km_map = 2, km_state = {}, km_digest = ''d1''\<rparr>,
       input_queue = [], queued_pressed = {}, input_overflow = False\<rparr>,
     completed = None, pressed_keys = {}, suppressed_keys = {},
     outbox = [(1, M_Keymap 0), (1, M_Enter 1 []), (1, M_Modifiers 1 (0, 0, 0, 0)), (1, M_Modifiers 2 (0, 0, 0, 0))]\<rparr>"
  using standard_us_ok
  by (simp add: demo_prepare_def run_machine_append demo_entered_run Let_def case_prod_beta)
    (simp add: spec_ok_def guest_step_def keyboard_map_request_def prepare_keyboard_map_def
      neutralize_physical_keyboard_def release_keys_def reset_state_def publish_neutral_modifiers_def
      next_serial_def retain_live_def send_all_def demo_xkb_def demo_keymap_def standard_us_def Let_def)

lemma demo_prepare_clean: "Ev_Kill_Surface \<notin> set demo_prepare"
  by (simp add: demo_prepare_def demo_entered_def)

theorem prepared_is_neutral_witness:
  "seen 1 (outbox (fst (run_machine (guest_step demo_xkb) (guest_new demo_keymap) demo_prepare))) = {}"
  using prepared_is_neutral [OF demo_prepare_clean refl, of demo_xkb demo_keymap]
  by (simp add: demo_prepare_run)

definition demo_queue :: "queued_key list" where
  "demo_queue = [\<lparr>q_key = 30, q_pressed = True, q_modifiers = 0\<rparr>,
     \<lparr>q_key = 30, q_pressed = True, q_modifiers = 0\<rparr>, \<lparr>q_key = 30, q_pressed = False, q_modifiers = 0\<rparr>]"

lemma demo_queue_facts: "length demo_queue \<le> 256" "\<forall>e \<in> set demo_queue. q_key e \<notin> {}"
  "transitions {} demo_queue = [(30, True), (30, False)]"
  by (simp_all add: demo_queue_def upd_key_def)

theorem no_key_lost_witness:
  "key_msgs 1 (outbox (fst (run_machine (guest_step demo_xkb)
      (fst (run_machine (guest_step demo_xkb) (guest_new demo_keymap) demo_prepare))
      (map key_event demo_queue @ [Ev_Map (Commit ''t'' ''d1'')])))) = [(30, True), (30, False)]"
  (is "key_msgs 1 (outbox ?h) = _")
proof -
  have "key_msgs 1 (outbox ?h) =
      key_msgs 1 (outbox (fst (run_machine (guest_step demo_xkb) (guest_new demo_keymap) demo_prepare))) @
      transitions {} demo_queue"
    by (rule no_key_lost [OF demo_prepare_clean refl, where p = "\<lparr>p_token = ''t'', p_digest = ''d1'',
        p_keymap = \<lparr>km_map = 2, km_state = {}, km_digest = ''d1''\<rparr>,
        input_queue = [], queued_pressed = {}, input_overflow = False\<rparr>", THEN conjunct1])
      (simp_all add: demo_prepare_run demo_queue_facts)
  then show ?thesis
    by (simp add: demo_queue_facts) (simp add: demo_prepare_run key_msgs_def)
qed

definition demo_finished :: "(nat, nat set) guest \<times> map_reply" where
  "demo_finished = abort_keyboard_map demo_xkb Method_Abort ''t'' ''d1''
     (fst (run_machine (guest_step demo_xkb) (guest_new demo_keymap) demo_prepare))"

lemma demo_finished_success:
  "\<exists>r. demo_finished = (fst demo_finished, Inr r)"
  by (simp add: demo_finished_def demo_prepare_run abort_keyboard_map_def replay_queued_keys_def Let_def)

theorem finishes_once_witness:
  "commit_keyboard_map demo_xkb Method_Commit ''t'' ''d1'' (fst demo_finished) = (fst demo_finished, Inl finish_conflict)"
proof -
  obtain r where "abort_keyboard_map demo_xkb Method_Abort ''t'' ''d1''
      (fst (run_machine (guest_step demo_xkb) (guest_new demo_keymap) demo_prepare)) = (fst demo_finished, Inr r)"
    using demo_finished_success unfolding demo_finished_def by blast
  then show ?thesis
    using finishes_once [of demo_xkb Method_Abort "''t''" "''d1''" _ "fst demo_finished" r Map_Aborted Method_Commit "''d1''"]
    by simp
qed

section \<open>What the condition on the surface excludes\<close>

text \<open>
  Where the primary surface is destroyed while a key is held and the client then binds another
  keyboard object, the release is not recorded: the key stays in \<open>pressed_keys\<close> with nothing held,
  and after the client has gone it is suppressed, so that its next press is dropped.
\<close>

definition demo_stranded :: "event list" where
  "demo_stranded = [Ev_Kill_Surface, Ev_Get_Keyboard 2, Ev_Key 30 False 0]"

lemma surface_loss_strands_a_key:
  "physically_down (demo_entered @ [Ev_Key 30 True 0] @ demo_stranded) = {}"
  "pressed_keys (fst (run_machine (guest_step demo_xkb) (guest_new demo_keymap)
     (demo_entered @ [Ev_Key 30 True 0] @ demo_stranded))) = {30}"
  "suppressed_keys (fst (run_machine (guest_step demo_xkb) (guest_new demo_keymap)
     (demo_entered @ [Ev_Key 30 True 0] @ demo_stranded @ [Ev_Drop]))) = {30}"
proof -
  let ?s = "fst (run_machine (guest_step demo_xkb) (guest_new demo_keymap) (demo_entered @ [Ev_Key 30 True 0]))"
  have two: "pressed_keys (fst (run_machine (guest_step demo_xkb) ?s demo_stranded)) = {30} \<and>
      suppressed_keys (fst (run_machine (guest_step demo_xkb) ?s (demo_stranded @ [Ev_Drop]))) = {30}"
    by (simp add: demo_pressed_run demo_stranded_def guest_step_def known_object_def get_keyboard_def
        ensure_keyboard_enter_def keyboard_key_def forward_keyboard_key_def drop_client_leases_def
        discard_queue_def reset_state_def)
  then show "pressed_keys (fst (run_machine (guest_step demo_xkb) (guest_new demo_keymap)
     (demo_entered @ [Ev_Key 30 True 0] @ demo_stranded))) = {30}"
    "suppressed_keys (fst (run_machine (guest_step demo_xkb) (guest_new demo_keymap)
     (demo_entered @ [Ev_Key 30 True 0] @ demo_stranded @ [Ev_Drop]))) = {30}"
    unfolding append_assoc [symmetric, of demo_entered]
    by (simp_all add: run_machine_append [of _ _ "demo_entered @ [Ev_Key 30 True 0]"] Let_def case_prod_beta del: append_assoc)
  show "physically_down (demo_entered @ [Ev_Key 30 True 0] @ demo_stranded) = {}"
    by (simp add: physically_down_def demo_entered_def demo_stranded_def upd_down_def upd_key_def)
qed

end
