(* ===== verification/State_Files.thy ===== *)
theory State_Files
  imports Prelude
begin

text \<open>
  State files: \<open>atomic_json\<close>, \<open>tempfile_in\<close> and \<open>temp_path\<close> of
  \<open>host/crates/wb-core/src/machine.rs\<close>, over a small model of the file system. A node is a regular
  file with its mode, a directory, or a symbolic link; a final link is followed as the kernel does
  (at most 40 times), links in the middle of a path are taken as resolved. Every operation of the
  code first takes an entry of the fault schedule, so that each of them may fail, a write after any
  part of the bytes; an operation that fails otherwise does nothing. Nobody else changes the files.

  The development shows that saving is atomic: whatever fails, and wherever the process stops, the
  state file is the complete old one or the complete new one.
\<close>

section \<open>The file system\<close>

datatype fs_error = Fs_NotFound | Fs_Already_Exists | Fs_Other

datatype node = Regular "u8 list" nat | Directory | Symlink path

type_synonym nodes = "path \<rightharpoonup> node"

text \<open>An entry of the schedule: the operation goes through, or fails (a write after some bytes).\<close>

record fs =
  nodes :: nodes
  faults :: "(fs_error \<times> nat) option list"

definition take_fault :: "fs \<Rightarrow> (fs_error \<times> nat) option \<times> fs" where
  "take_fault s = (case faults s of [] \<Rightarrow> (None, s) | f # r \<Rightarrow> (f, s\<lparr>faults := r\<rparr>))"

definition fs_do :: "(nodes \<Rightarrow> fs_error + ('a \<times> nodes)) \<Rightarrow> fs \<Rightarrow> (fs_error + 'a) \<times> fs" where
  "fs_do f s =
     (case take_fault s of
        (Some (e, _), s') \<Rightarrow> (Inl e, s')
      | (None, s') \<Rightarrow>
          (case f (nodes s') of Inl e \<Rightarrow> (Inl e, s') | Inr (x, n) \<Rightarrow> (Inr x, s'\<lparr>nodes := n\<rparr>)))"

definition file_in :: "path \<Rightarrow> string \<Rightarrow> path" where
  "file_in dir name = Path (absolute dir) (components dir @ [name])"

definition path_display :: "path \<Rightarrow> string" where
  "path_display p = (if absolute p then ''/'' else []) @ join_with ''/'' (components p)"

text \<open>The path and all its ancestors.\<close>

definition ancestors :: "path \<Rightarrow> path list" where
  "ancestors p = map (\<lambda>n. Path (absolute p) (take n (components p))) [0..<Suc (length (components p))]"

fun follow :: "nat \<Rightarrow> nodes \<Rightarrow> path \<Rightarrow> path option" where
  "follow 0 n p = None"
| "follow (Suc hops) n p = (case n p of Some (Symlink q) \<Rightarrow> follow hops n q | _ \<Rightarrow> Some p)"

definition MAX_LINKS :: nat where "MAX_LINKS = 41"

definition stat_node :: "nodes \<Rightarrow> path \<Rightarrow> fs_error + node" where
  "stat_node n p = (case follow MAX_LINKS n p of None \<Rightarrow> Inl Fs_Other | Some q \<Rightarrow> ok_or Fs_NotFound (n q))"

definition make_dirs :: "path list \<Rightarrow> nodes \<Rightarrow> nodes" where
  "make_dirs ps n = (\<lambda>p. if p \<in> set ps \<and> n p = None then Some Directory else n p)"

definition fs_create_dir_all :: "path \<Rightarrow> fs \<Rightarrow> (fs_error + unit) \<times> fs" where
  "fs_create_dir_all p = fs_do (\<lambda>n.
     if list_all (\<lambda>a. case stat_node n a of Inr (Regular _ _) \<Rightarrow> False | Inl e \<Rightarrow> e = Fs_NotFound | _ \<Rightarrow> True) (ancestors p)
     then Inr ((), make_dirs (ancestors p) n) else Inl Fs_Other)"

definition fs_create_new :: "path \<Rightarrow> nat \<Rightarrow> fs \<Rightarrow> (fs_error + unit) \<times> fs" where
  "fs_create_new p mode = fs_do (\<lambda>n.
     if n p \<noteq> None then Inl Fs_Already_Exists else Inr ((), n(p \<mapsto> Regular [] mode)))"

definition fs_set_mode :: "path \<Rightarrow> nat \<Rightarrow> fs \<Rightarrow> (fs_error + unit) \<times> fs" where
  "fs_set_mode p mode = fs_do (\<lambda>n.
     case n p of Some (Regular c _) \<Rightarrow> Inr ((), n(p \<mapsto> Regular c mode)) | Some _ \<Rightarrow> Inr ((), n) | None \<Rightarrow> Inl Fs_NotFound)"

text \<open>Appending to the open file: on a fault a prefix of the bytes may have been written.\<close>

definition append_node :: "u8 list \<Rightarrow> path \<Rightarrow> nodes \<Rightarrow> nodes" where
  "append_node bs p n = (case n p of Some (Regular c m) \<Rightarrow> n(p \<mapsto> Regular (c @ bs) m) | _ \<Rightarrow> n)"

definition fs_write :: "path \<Rightarrow> u8 list \<Rightarrow> fs \<Rightarrow> (fs_error + unit) \<times> fs" where
  "fs_write p bs s =
     (case take_fault s of
        (Some (e, k), s') \<Rightarrow> (Inl e, s'\<lparr>nodes := append_node (take k bs) p (nodes s')\<rparr>)
      | (None, s') \<Rightarrow> (Inr (), s'\<lparr>nodes := append_node bs p (nodes s')\<rparr>))"

definition fs_sync :: "path \<Rightarrow> fs \<Rightarrow> (fs_error + unit) \<times> fs" where
  "fs_sync p = fs_do (\<lambda>n. Inr ((), n))"

text \<open>Opening or reading what is known to be there: nothing changes, but it may fail.\<close>

abbreviation fs_open :: "path \<Rightarrow> fs \<Rightarrow> (fs_error + unit) \<times> fs" where
  "fs_open \<equiv> fs_sync"

definition fs_rename :: "path \<Rightarrow> path \<Rightarrow> fs \<Rightarrow> (fs_error + unit) \<times> fs" where
  "fs_rename a b = fs_do (\<lambda>n.
     case n a of None \<Rightarrow> Inl Fs_NotFound
     | Some x \<Rightarrow> (if n b = Some Directory then Inl Fs_Other else Inr ((), (n(a := None))(b \<mapsto> x))))"

definition fs_remove :: "path \<Rightarrow> fs \<Rightarrow> (fs_error + unit) \<times> fs" where
  "fs_remove p = fs_do (\<lambda>n. case n p of Some (Regular _ _) \<Rightarrow> Inr ((), n(p := None)) | Some _ \<Rightarrow> Inl Fs_Other | None \<Rightarrow> Inl Fs_NotFound)"

definition fs_read :: "path \<Rightarrow> fs \<Rightarrow> (fs_error + u8 list) \<times> fs" where
  "fs_read p = fs_do (\<lambda>n. case stat_node n p of Inl e \<Rightarrow> Inl e | Inr (Regular c _) \<Rightarrow> Inr (c, n) | Inr _ \<Rightarrow> Inl Fs_Other)"

text \<open>\<open>symlink_metadata\<close> does not follow the final link.\<close>

definition fs_lstat :: "path \<Rightarrow> fs \<Rightarrow> (fs_error + node) \<times> fs" where
  "fs_lstat p = fs_do (\<lambda>n. case n p of None \<Rightarrow> Inl Fs_NotFound | Some x \<Rightarrow> Inr (x, n))"

section \<open>Saving a state file\<close>

definition TEMP_ATTEMPTS :: nat where "TEMP_ATTEMPTS = 100"

definition temp_name :: "nat \<Rightarrow> path \<Rightarrow> nat \<Rightarrow> path" where
  "temp_name pid dir attempt = file_in dir (''.wb-state-'' @ show_dec pid @ ''-'' @ show_dec attempt)"

definition temp_names :: "nat \<Rightarrow> path \<Rightarrow> path list" where
  "temp_names pid dir = map (temp_name pid dir) [0..<TEMP_ATTEMPTS]"

fun create_first :: "path list \<Rightarrow> fs \<Rightarrow> (string + path) \<times> fs" where
  "create_first [] s = (Inl ''could not create a unique temporary state file'', s)"
| "create_first (p # ps) s =
     (case fs_create_new p 0x180 s of
        (Inr _, s') \<Rightarrow> (Inr p, s')
      | (Inl Fs_Already_Exists, s') \<Rightarrow> create_first ps s'
      | (Inl _, s') \<Rightarrow> (Inl ''creating temporary state file'', s'))"

definition tempfile_in :: "nat \<Rightarrow> path \<Rightarrow> fs \<Rightarrow> (string + path) \<times> fs" where
  "tempfile_in pid dir s = create_first (temp_names pid dir) s"

text \<open>The serialized value \<open>bytes\<close>; \<open>serde_json\<close> writes it in parts.\<close>

definition atomic_json :: "nat \<Rightarrow> path \<Rightarrow> u8 list \<Rightarrow> fs \<Rightarrow> (string + unit) \<times> fs" where
  "atomic_json pid p bytes s =
     (case parent p of
        None \<Rightarrow> (Inl ''state path has no parent'', s)
      | Some dir \<Rightarrow>
          io_then (fs_create_dir_all dir s) (\<lambda>_. ''creating '' @ path_display dir) (\<lambda>_ s.
          io_then (tempfile_in pid dir s) id (\<lambda>temp s.
          io_then (fs_set_mode temp 0x180 s) (\<lambda>_. ''securing temporary state file'') (\<lambda>_ s.
          io_then (fs_write temp bytes s) (\<lambda>_. ''serializing state'') (\<lambda>_ s.
          io_then (fs_write temp [10] s) (\<lambda>_. ''finishing state file'') (\<lambda>_ s.
          io_then (fs_sync temp s) (\<lambda>_. ''syncing state file'') (\<lambda>_ s.
          io_then (fs_rename temp p s) (\<lambda>_. ''saving '' @ path_display p) (\<lambda>_ s.
          io_then (fs_sync dir s) (\<lambda>_. ''opening '' @ path_display dir @ '' for sync'') (\<lambda>_ s.
          io_then (fs_sync dir s) (\<lambda>_. ''syncing '' @ path_display dir) (\<lambda>_ s. (Inr (), s)))))))))))"

section \<open>Reasoning about sequences of operations\<close>

lemma outcome_fs_do:
  assumes "\<And>e t. nodes t = nodes s \<Longrightarrow> Q (Inl e) t"
    and "\<And>x t. f (nodes s) = Inr (x, nodes t) \<Longrightarrow> Q (Inr x) t"
  shows "outcome (fs_do f s) Q"
proof -
  obtain u s1 where t: "take_fault s = (u, s1)"
    by force
  have "nodes s1 = nodes s"
    using t by (auto simp: take_fault_def split: list.splits)
  then show ?thesis
    using t assms by (auto simp: outcome_def fs_do_def split: option.split prod.split sum.split)
qed

lemma outcome_write:
  assumes "\<And>e k t. nodes t = append_node (take k bs) p (nodes s) \<Longrightarrow> Q (Inl e) t"
    and "\<And>t. nodes t = append_node bs p (nodes s) \<Longrightarrow> Q (Inr ()) t"
  shows "outcome (fs_write p bs s) Q"
proof -
  obtain u s1 where t: "take_fault s = (u, s1)"
    by force
  have "nodes s1 = nodes s"
    using t by (auto simp: take_fault_def split: list.splits)
  then show ?thesis
    using t assms by (auto simp: outcome_def fs_write_def split: option.split)
qed

lemma create_first_outcome:
  assumes "\<And>e t. nodes t = nodes s \<Longrightarrow> Q (Inl e) t"
    and "\<And>x t. x \<in> set ps \<Longrightarrow> nodes s x = None \<Longrightarrow> nodes t = (nodes s)(x \<mapsto> Regular [] 0x180) \<Longrightarrow> Q (Inr x) t"
  shows "outcome (create_first ps s) Q"
  using assms
proof (induction ps arbitrary: s)
  case (Cons p ps)
  obtain r t where c: "fs_create_new p 0x180 s = (r, t)"
    by force
  have "outcome (fs_create_new p 0x180 s)
      (\<lambda>r t. case r of Inl _ \<Rightarrow> nodes t = nodes s
       | Inr _ \<Rightarrow> nodes s p = None \<and> nodes t = (nodes s)(p \<mapsto> Regular [] 0x180))"
    unfolding fs_create_new_def by (rule outcome_fs_do) (auto split: if_splits)
  from outcome_cases [OF c this] have o:
    "case r of Inl _ \<Rightarrow> nodes t = nodes s | Inr _ \<Rightarrow> nodes s p = None \<and> nodes t = (nodes s)(p \<mapsto> Regular [] 0x180)" .
  show ?case
  proof (cases r)
    case (Inl e)
    then have n: "nodes t = nodes s"
      using o by simp
    have "outcome (create_first ps t) Q"
      by (rule Cons.IH) (use Cons.prems n in auto)
    then show ?thesis
      using c Inl n Cons.prems(1) by (cases e) (simp_all add: outcome_def)
  next
    case (Inr u)
    then show ?thesis
      using c o Cons.prems(2) by (simp add: outcome_def)
  qed
qed (simp add: outcome_def)

section \<open>Saving is atomic\<close>

text \<open>What a save may leave behind: \<open>n\<close> before, \<open>n'\<close> after.\<close>

definition saved_or_not :: "path \<Rightarrow> node \<Rightarrow> nodes \<Rightarrow> nodes \<Rightarrow> bool" where
  "saved_or_not p x n n' \<longleftrightarrow> n' p = n p \<or> n' p = Some x"

abbreviation json_file :: "u8 list \<Rightarrow> node" where
  "json_file bytes \<equiv> Regular (bytes @ [10]) 0x180"

definition others_kept :: "path \<Rightarrow> path set \<Rightarrow> path list \<Rightarrow> nodes \<Rightarrow> nodes \<Rightarrow> bool" where
  "others_kept p temps dirs n n' \<longleftrightarrow>
     (\<forall>q. q \<noteq> p \<longrightarrow> q \<notin> temps \<longrightarrow> n' q = n q \<or> n q = None \<and> n' q = Some Directory \<and> q \<in> set dirs)"

lemma append_node_other [simp]: "q \<noteq> p \<Longrightarrow> append_node bs p n q = n q"
  by (simp add: append_node_def split: option.split node.split)

lemma append_node_file: "n p = Some (Regular c m) \<Longrightarrow> append_node bs p n p = Some (Regular (c @ bs) m)"
  by (simp add: append_node_def)

lemma ancestors_shorter: "q \<in> set (ancestors dir) \<Longrightarrow> length (components q) \<le> length (components dir)"
  by (auto simp: ancestors_def)

lemma parent_not_ancestor: "parent p = Some dir \<Longrightarrow> p \<notin> set (ancestors dir)"
  using ancestors_shorter [of p dir] by (cases "components p") (auto simp: parent_def split: if_splits)

text \<open>The part after the temporary file exists, and its end once it is complete.\<close>

definition commit_temp :: "path \<Rightarrow> path \<Rightarrow> path \<Rightarrow> fs \<Rightarrow> (string + unit) \<times> fs" where
  "commit_temp temp dir p s =
     io_then (fs_sync temp s) (\<lambda>_. ''syncing state file'') (\<lambda>_ s.
     io_then (fs_rename temp p s) (\<lambda>_. ''saving '' @ path_display p) (\<lambda>_ s.
     io_then (fs_sync dir s) (\<lambda>_. ''opening '' @ path_display dir @ '' for sync'') (\<lambda>_ s.
     io_then (fs_sync dir s) (\<lambda>_. ''syncing '' @ path_display dir) (\<lambda>_ s. (Inr (), s)))))"

definition fill_and_rename :: "path \<Rightarrow> path \<Rightarrow> path \<Rightarrow> u8 list \<Rightarrow> fs \<Rightarrow> (string + unit) \<times> fs" where
  "fill_and_rename temp dir p bytes s =
     io_then (fs_set_mode temp 0x180 s) (\<lambda>_. ''securing temporary state file'') (\<lambda>_ s.
     io_then (fs_write temp bytes s) (\<lambda>_. ''serializing state'') (\<lambda>_ s.
     io_then (fs_write temp [10] s) (\<lambda>_. ''finishing state file'') (\<lambda>_ s. commit_temp temp dir p s)))"

definition kept :: "path \<Rightarrow> fs \<Rightarrow> fs \<Rightarrow> bool" where
  "kept temp s t \<longleftrightarrow> (\<forall>q. q \<noteq> temp \<longrightarrow> nodes t q = nodes s q)"

lemma outcome_set_mode:
  assumes "nodes s p = Some (Regular c m)"
  shows "outcome (fs_set_mode p mode s) (\<lambda>r t. kept p s t \<and> (is_ok r \<longrightarrow> nodes t p = Some (Regular c mode)))"
  unfolding fs_set_mode_def using assms by (intro outcome_fs_do) (auto simp: kept_def dest: sym)

lemma outcome_append:
  assumes "nodes s p = Some (Regular c m)"
  shows "outcome (fs_write p bs s) (\<lambda>r t. kept p s t \<and> (is_ok r \<longrightarrow> nodes t p = Some (Regular (c @ bs) m)))"
  using assms by (intro outcome_write) (auto simp: kept_def append_node_file)

lemma outcome_sync: "outcome (fs_sync p s) (\<lambda>r t. nodes t = nodes s)"
  unfolding fs_sync_def by (rule outcome_fs_do) auto

lemma outcome_rename:
  assumes "nodes s a = Some x" and "a \<noteq> b"
  shows "outcome (fs_rename a b s) (\<lambda>r t. if is_ok r then nodes t b = Some x \<and> nodes t a = None \<and>
      (\<forall>q. q \<noteq> a \<longrightarrow> q \<noteq> b \<longrightarrow> nodes t q = nodes s q) else nodes t = nodes s)"
  unfolding fs_rename_def using assms by (intro outcome_fs_do) (auto split: if_splits dest: sym)

lemma kept_trans: "kept temp s t \<Longrightarrow> kept temp t u \<Longrightarrow> kept temp s u"
  by (simp add: kept_def)

lemma create_new_outcome:
  "outcome (fs_create_new p m s) (\<lambda>r t. if is_ok r then nodes t = (nodes s)(p \<mapsto> Regular [] m) else nodes t = nodes s)"
  unfolding fs_create_new_def by (rule outcome_fs_do) (auto split: if_splits)

lemma set_mode_kept: "outcome (fs_set_mode p m s) (\<lambda>r t. kept p s t)"
  unfolding fs_set_mode_def by (rule outcome_fs_do) (auto simp: kept_def split: option.splits node.splits dest: sym)

text \<open>The outcome of a save through the temporary file \<open>temp\<close>, seen from the state \<open>s\<close>.\<close>

definition save_outcome :: "path \<Rightarrow> path \<Rightarrow> node \<Rightarrow> fs \<Rightarrow> 'e + unit \<Rightarrow> fs \<Rightarrow> bool" where
  "save_outcome temp p x s r t \<longleftrightarrow>
     (\<forall>q. q \<noteq> temp \<longrightarrow> q \<noteq> p \<longrightarrow> nodes t q = nodes s q) \<and> saved_or_not p x (nodes s) (nodes t) \<and>
     (r = Inr () \<longrightarrow> nodes t p = Some x \<and> nodes t temp = None)"

lemma save_outcome_early: "kept temp s t \<Longrightarrow> temp \<noteq> p \<Longrightarrow> save_outcome temp p x s (Inl e) t"
  by (simp add: save_outcome_def saved_or_not_def kept_def)

lemma save_outcome_late:
  "nodes t p = Some x \<Longrightarrow> nodes t temp = None \<Longrightarrow> \<forall>q. q \<noteq> temp \<longrightarrow> q \<noteq> p \<longrightarrow> nodes t q = nodes s q \<Longrightarrow>
   save_outcome temp p x s r t"
  by (simp add: save_outcome_def saved_or_not_def)

lemma commit_steps_outcome:
  assumes "kept temp s u" and full: "nodes u temp = Some x" and neq: "temp \<noteq> p"
    and rest: "\<And>v. nodes v p = Some x \<Longrightarrow> nodes v temp = None \<Longrightarrow> \<forall>q. q \<noteq> temp \<longrightarrow> q \<noteq> p \<longrightarrow> nodes v q = nodes s q \<Longrightarrow>
      outcome (f v) (save_outcome temp p x s)"
  shows "outcome (io_then (fs_sync temp u) e1 (\<lambda>_ s. io_then (fs_rename temp p s) e2 (\<lambda>_ s. f s))) (save_outcome temp p x s)"
proof (rule outcome_then [OF outcome_sync])
  fix y :: unit and v :: fs
  assume v: "nodes v = nodes u"
  then have f: "nodes v temp = Some x" and k: "kept temp s v"
    using full assms(1) by (simp_all add: kept_def)
  show "outcome (io_then (fs_rename temp p v) e2 (\<lambda>_ s. f s)) (save_outcome temp p x s)"
    by (rule outcome_then [OF outcome_rename [OF f neq]])
      (use k neq in \<open>auto intro!: rest save_outcome_early simp: kept_def\<close>)
qed (use assms(1) neq in \<open>auto intro!: save_outcome_early simp: kept_def\<close>)

lemma sync_outcome:
  assumes "nodes v p = Some x" "nodes v temp = None" "\<forall>q. q \<noteq> temp \<longrightarrow> q \<noteq> p \<longrightarrow> nodes v q = nodes s q"
  shows "outcome (io_then (fs_sync dir v) e (\<lambda>_ s. (Inr (), s))) (save_outcome temp p x s)"
    and "outcome (io_then (fs_sync dir v) d (\<lambda>_ s. io_then (fs_sync dir s) e (\<lambda>_ s. (Inr (), s)))) (save_outcome temp p x s)"
  by (intro outcome_then [OF outcome_sync]; use assms in \<open>auto simp: outcome_def intro!: save_outcome_late\<close>)+

lemma commit_outcome:
  "kept temp s u \<Longrightarrow> nodes u temp = Some (Regular (bytes @ [10]) 0x180) \<Longrightarrow> temp \<noteq> p \<Longrightarrow>
   outcome (commit_temp temp dir p u) (save_outcome temp p (json_file bytes) s)"
  unfolding commit_temp_def by (rule commit_steps_outcome) (auto intro: sync_outcome(2))

lemma fill_outcome:
  assumes "nodes s temp = Some (Regular [] m)" and neq: "temp \<noteq> p"
  shows "outcome (fill_and_rename temp dir p bytes s) (save_outcome temp p (json_file bytes) s)"
  unfolding fill_and_rename_def
proof (rule outcome_then [OF outcome_set_mode [OF assms(1), of "0x180"]])
  fix x t
  assume t: "kept temp s t \<and> (is_ok (Inr x) \<longrightarrow> nodes t temp = Some (Regular [] 0x180))"
  then have f: "nodes t temp = Some (Regular [] 0x180)"
    by simp
  show "outcome (io_then (fs_write temp bytes t) (\<lambda>_. ''serializing state'') (\<lambda>_ s.
     io_then (fs_write temp [10] s) (\<lambda>_. ''finishing state file'') (\<lambda>_ s. commit_temp temp dir p s)))
     (save_outcome temp p (json_file bytes) s)"
  proof (rule outcome_then [OF outcome_append [OF f]])
    fix x v
    assume v: "kept temp t v \<and> (is_ok (Inr x) \<longrightarrow> nodes v temp = Some (Regular ([] @ bytes) 0x180))"
    then have fv: "nodes v temp = Some (Regular bytes 0x180)"
      by simp
    show "outcome (io_then (fs_write temp [10] v) (\<lambda>_. ''finishing state file'') (\<lambda>_ s. commit_temp temp dir p s))
       (save_outcome temp p (json_file bytes) s)"
      by (rule outcome_then [OF outcome_append [OF fv]])
        (use t v neq in \<open>auto intro!: commit_outcome save_outcome_early intro: kept_trans\<close>)
  qed (use t neq in \<open>auto intro!: save_outcome_early intro: kept_trans\<close>)
qed (use neq in \<open>simp add: save_outcome_early\<close>)

lemma create_dirs_outcome:
  "outcome (fs_create_dir_all dir s) (\<lambda>r t. nodes t = nodes s \<or> nodes t = make_dirs (ancestors dir) (nodes s))"
  unfolding fs_create_dir_all_def by (rule outcome_fs_do) (auto split: if_splits)

lemma atomic_json_eq:
  "parent p = Some dir \<Longrightarrow>
   atomic_json pid p bytes s =
     io_then (fs_create_dir_all dir s) (\<lambda>_. ''creating '' @ path_display dir) (\<lambda>_ s.
     io_then (tempfile_in pid dir s) id (\<lambda>temp s. fill_and_rename temp dir p bytes s))"
  by (simp add: atomic_json_def fill_and_rename_def commit_temp_def)

lemma atomic_json_outcome:
  assumes p: "parent p = Some dir" and free: "p \<notin> set (temp_names pid dir)"
  shows "outcome (atomic_json pid p bytes s) (\<lambda>r t.
    saved_or_not p (json_file bytes) (nodes s) (nodes t) \<and>
    others_kept p (set (temp_names pid dir)) (ancestors dir) (nodes s) (nodes t) \<and>
    (r = Inr () \<longrightarrow> nodes t p = Some (Regular (bytes @ [10]) 0x180)))"
    (is "outcome _ ?Q")
  unfolding atomic_json_eq [OF p]
proof (rule outcome_then [OF create_dirs_outcome])
  have np: "p \<notin> set (ancestors dir)"
    using p by (rule parent_not_ancestor)
  show "?Q (Inl e) t" if "nodes t = nodes s \<or> nodes t = make_dirs (ancestors dir) (nodes s)" for e t
    using that np by (auto simp: saved_or_not_def others_kept_def make_dirs_def split: if_splits)
  show "outcome (io_then (tempfile_in pid dir t) id (\<lambda>temp s. fill_and_rename temp dir p bytes s)) ?Q"
    if d: "nodes t = nodes s \<or> nodes t = make_dirs (ancestors dir) (nodes s)" for t
  proof -
    have base: "nodes t p = nodes s p" "others_kept p {} (ancestors dir) (nodes s) (nodes t)"
      using d np by (auto simp: others_kept_def make_dirs_def split: if_splits)
    have "outcome (fill_and_rename temp dir p bytes u) ?Q"
      if temp: "temp \<in> set (temp_names pid dir)" "nodes u = (nodes t)(temp \<mapsto> Regular [] 0x180)" for temp u
    proof -
      have neq: "temp \<noteq> p"
        using temp(1) free by blast
      have "outcome (fill_and_rename temp dir p bytes u) (save_outcome temp p (json_file bytes) u)"
        using temp(2) neq by (intro fill_outcome) simp_all
      moreover have "?Q r w" if o: "save_outcome temp p (json_file bytes) u r w" for r w
      proof -
        have "nodes w q = nodes t q" if "q \<noteq> p" "q \<notin> set (temp_names pid dir)" for q
          using o temp that by (auto simp: save_outcome_def)
        moreover have "nodes u p = nodes s p"
          using temp(2) neq base(1) by simp
        ultimately show ?thesis
          using o base(2) by (simp add: save_outcome_def saved_or_not_def others_kept_def)
      qed
      ultimately show ?thesis
        by (simp add: outcome_def)
    qed
    then show ?thesis
      unfolding tempfile_in_def using base
      by (intro outcome_io_then create_first_outcome) (auto simp: saved_or_not_def others_kept_def)
  qed
qed

text \<open>
  C22. Saving a state file is atomic and private. Whatever operation fails, the file is afterwards
  the old one or the complete new one with mode 0600; when the save reports success it is the new
  one. Nothing else changes but missing parent directories and the temporary names of this
  process.
\<close>

theorem save_is_atomic:
  assumes "parent p = Some dir" and "p \<notin> set (temp_names pid dir)" and "atomic_json pid p bytes s = (r, t)"
  shows "(nodes t p = nodes s p \<or> nodes t p = Some (Regular (bytes @ [10]) 0x180)) \<and>
    (r = Inr () \<longrightarrow> nodes t p = Some (Regular (bytes @ [10]) 0x180)) \<and>
    (\<forall>q. q \<noteq> p \<longrightarrow> q \<notin> set (temp_names pid dir) \<longrightarrow>
      nodes t q = nodes s q \<or> nodes s q = None \<and> nodes t q = Some Directory \<and> q \<in> set (ancestors dir))"
  using outcome_cases [OF assms(3) atomic_json_outcome [OF assms(1,2)]]
  by (auto simp: saved_or_not_def others_kept_def)

definition demo_fs :: "(fs_error \<times> nat) option list \<Rightarrow> fs" where
  "demo_fs fl = \<lparr>nodes = [Path True [] \<mapsto> Directory, Path True [''m''] \<mapsto> Directory,
     Path True [''m'', ''machine.json''] \<mapsto> Regular [1] 0x1A4], faults = fl\<rparr>"

theorem save_is_atomic_witness:
  "nodes (snd (atomic_json 7 (Path True [''m'', ''machine.json'']) [2, 3]
     (demo_fs [None, None, None, Some (Fs_Other, 1)]))) (Path True [''m'', ''machine.json'']) \<in>
   {Some (Regular [1] 0x1A4), Some (Regular [2, 3, 10] 0x180)}"
proof -
  have "parent (Path True [''m'', ''machine.json'']) = Some (Path True [''m''])"
    by (simp add: parent_def)
  moreover have "Path True [''m'', ''machine.json''] \<notin> set (temp_names 7 (Path True [''m'']))"
    by (auto simp: temp_names_def temp_name_def file_in_def)
  ultimately show ?thesis
    using save_is_atomic [OF _ _ prod.collapse [symmetric], of "Path True [''m'', ''machine.json'']" "Path True [''m'']" 7 "[2, 3]"
      "demo_fs [None, None, None, Some (Fs_Other, 1)]"]
    by (simp add: demo_fs_def)
qed

section \<open>Saving without faults\<close>

lemma fs_do_quiet:
  "faults s = [] \<Longrightarrow> fs_do f s = (case f (nodes s) of Inl e \<Rightarrow> (Inl e, s) | Inr (x, n) \<Rightarrow> (Inr x, s\<lparr>nodes := n\<rparr>))"
  by (simp add: fs_do_def take_fault_def)

lemma fs_write_quiet: "faults s = [] \<Longrightarrow> fs_write p bs s = (Inr (), s\<lparr>nodes := append_node bs p (nodes s)\<rparr>)"
  by (simp add: fs_write_def take_fault_def)

lemma create_first_quiet:
  assumes "faults s = []" and "\<exists>p \<in> set ps. nodes s p = None"
  shows "\<exists>p \<in> set ps. nodes s p = None \<and> create_first ps s = (Inr p, s\<lparr>nodes := (nodes s)(p \<mapsto> Regular [] 0x180)\<rparr>)"
  using assms(2)
proof (induction ps)
  case (Cons p ps)
  show ?case
  proof (cases "nodes s p")
    case None
    then show ?thesis
      using assms(1) by (intro bexI [of _ p]) (simp_all add: fs_create_new_def fs_do_quiet fun_upd_def)
  next
    case (Some x)
    then show ?thesis
      using Cons assms(1) by (simp add: fs_create_new_def fs_do_quiet)
  qed
qed simp

lemma temp_not_ancestor: "t \<in> set (temp_names pid dir) \<Longrightarrow> t \<notin> set (ancestors dir)"
  using ancestors_shorter [of t dir] by (auto simp: temp_names_def temp_name_def file_in_def)

text \<open>The ancestors are directories or missing, so that they can be created.\<close>

definition dirs_ready :: "path \<Rightarrow> nodes \<Rightarrow> bool" where
  "dirs_ready dir n \<longleftrightarrow> (\<forall>a \<in> set (ancestors dir). n a = None \<or> n a = Some Directory)"

lemma stat_dir: "n a = None \<or> n a = Some Directory \<Longrightarrow> stat_node n a = ok_or Fs_NotFound (n a)"
  by (auto simp: stat_node_def MAX_LINKS_def eval_nat_numeral)

lemma create_dirs_quiet:
  assumes "faults s = []" and "dirs_ready dir (nodes s)"
  shows "fs_create_dir_all dir s = (Inr (), s\<lparr>nodes := make_dirs (ancestors dir) (nodes s)\<rparr>)"
proof -
  have "case stat_node (nodes s) a of Inr (Regular _ _) \<Rightarrow> False | Inl e \<Rightarrow> e = Fs_NotFound | _ \<Rightarrow> True"
    if "a \<in> set (ancestors dir)" for a
    using assms(2) that stat_dir [of "nodes s" a] by (auto simp: dirs_ready_def split: sum.split node.split)
  then have "list_all (\<lambda>a. case stat_node (nodes s) a of Inr (Regular _ _) \<Rightarrow> False | Inl e \<Rightarrow> e = Fs_NotFound | _ \<Rightarrow> True) (ancestors dir)"
    by (simp add: list_all_iff)
  then show ?thesis
    using assms(1) by (simp add: fs_create_dir_all_def fs_do_quiet)
qed

lemma fill_quiet:
  assumes "faults s = []" "nodes s temp = Some (Regular [] m)" "nodes s p \<noteq> Some Directory" "temp \<noteq> p"
  shows "fst (fill_and_rename temp dir p bytes s) = Inr () \<and> faults (snd (fill_and_rename temp dir p bytes s)) = []"
  using assms
  by (simp add: fill_and_rename_def commit_temp_def fs_set_mode_def fs_do_quiet fs_write_quiet fs_sync_def
      fs_rename_def append_node_def split: option.split)

lemma save_outcome_quiet:
  assumes "faults s = []" and "dirs_ready dir (nodes s)" and "parent p = Some dir" and "nodes s p \<noteq> Some Directory"
    and "t \<in> set (temp_names pid dir)" and "nodes s t = None"
    and "p \<notin> set (temp_names pid dir)"
  shows "fst (atomic_json pid p bytes s) = Inr () \<and> faults (snd (atomic_json pid p bytes s)) = []"
proof -
  let ?s = "s\<lparr>nodes := make_dirs (ancestors dir) (nodes s)\<rparr>"
  have "nodes ?s t = None" "nodes ?s p \<noteq> Some Directory"
    using assms(4,6) temp_not_ancestor [OF assms(5)] parent_not_ancestor [OF assms(3)] by (simp_all add: make_dirs_def)
  then obtain q where q: "q \<in> set (temp_names pid dir)"
    "create_first (temp_names pid dir) ?s = (Inr q, ?s\<lparr>nodes := (nodes ?s)(q \<mapsto> Regular [] 0x180)\<rparr>)"
    using create_first_quiet [of ?s "temp_names pid dir"] assms(1,5) by auto
  then have "q \<noteq> p"
    using assms(7) by blast
  with fill_quiet [of "?s\<lparr>nodes := (nodes ?s)(q \<mapsto> Regular [] 0x180)\<rparr>" q "0x180" p dir bytes] q
  show ?thesis
    using assms(1) \<open>nodes ?s p \<noteq> Some Directory\<close>
    by (simp add: atomic_json_eq [OF assms(3)] create_dirs_quiet [OF assms(1,2)] tempfile_in_def)
qed

text \<open>
  C40. A save succeeds when nothing fails: if the ancestors of the state file are directories or
  missing, one of the hundred temporary names is free and the file is not itself a directory, the
  save returns success (and the new file is in place by the property above).
\<close>

theorem save_succeeds:
  assumes "faults s = []" and "dirs_ready dir (nodes s)" and "parent p = Some dir" and "nodes s p \<noteq> Some Directory"
    and "t \<in> set (temp_names pid dir)" and "nodes s t = None"
    and "p \<notin> set (temp_names pid dir)"
  shows "fst (atomic_json pid p bytes s) = Inr () \<and> faults (snd (atomic_json pid p bytes s)) = []"
  using save_outcome_quiet [OF assms] .

lemma demo_temp: "temp_name 7 (Path True [''m'']) 0 \<in> set (temp_names 7 (Path True [''m'']))"
  by (simp add: temp_names_def TEMP_ATTEMPTS_def)

theorem save_succeeds_witness:
  "fst (atomic_json 7 (Path True [''m'', ''machine.json'']) [2, 3] (demo_fs [])) = Inr ()"
  using save_succeeds [of "demo_fs []" "Path True [''m'']" "Path True [''m'', ''machine.json'']"
      "temp_name 7 (Path True [''m'']) 0" 7 "[2, 3]"] demo_temp
  by (auto simp: demo_fs_def dirs_ready_def ancestors_def parent_def temp_name_def file_in_def temp_names_def)

end
