(* ===== verification/Machine_Config.thy ===== *)
theory Machine_Config
  imports State_Files
begin

text \<open>
  The metadata of a machine, \<open>host/crates/wb-core/src/machine.rs\<close>: port mappings, media sharing,
  shared paths, retained OCI metadata, and the configuration with its validation, loading and
  saving. A UUID is its canonical text. The JSON encoding by \<open>serde_json\<close> is a parameter of loading and
  saving; \<open>std::net\<close> address parsing is written out. Messages show paths in normal form.
\<close>

section \<open>Addresses\<close>

text \<open>
  The parser of \<open>std::net::IpAddr\<close>: an IPv4 address of four octets without leading zeros, otherwise
  an IPv6 address; of the latter only its syntax matters here.
\<close>

datatype ip_addr = Ipv4 "nat list" | Ipv6

definition read_number :: "nat \<Rightarrow> nat \<Rightarrow> bool \<Rightarrow> nat \<Rightarrow> string \<Rightarrow> (nat \<times> string) option" where
  "read_number radix max_digits leading_zero lim s =
     (let ds = takeWhile (\<lambda>c. to_digit radix c \<noteq> None) s
      in if ds = [] \<or> max_digits < length ds then None
         else if \<not> leading_zero \<and> hd ds = CHR ''0'' \<and> 1 < length ds then None
         else map_option (\<lambda>n. (n, drop (length ds) s)) (parse_digits radix lim 0 ds))"

definition read_separator :: "char \<Rightarrow> nat \<Rightarrow> (string \<Rightarrow> ('a \<times> string) option) \<Rightarrow> string \<Rightarrow> ('a \<times> string) option" where
  "read_separator sep i inner s =
     (if i = 0 then inner s
      else case s of c # r \<Rightarrow> if c = sep then inner r else None | [] \<Rightarrow> None)"

fun read_octets :: "nat list \<Rightarrow> string \<Rightarrow> (nat list \<times> string) option" where
  "read_octets [] s = Some ([], s)"
| "read_octets (i # is) s =
     (case read_separator (CHR ''.'') i (read_number 10 3 False 256) s of
        None \<Rightarrow> None
      | Some (n, r) \<Rightarrow> map_option (\<lambda>(ns, r). (n # ns, r)) (read_octets is r))"

definition read_ipv4 :: "string \<Rightarrow> (nat list \<times> string) option" where
  "read_ipv4 s = read_octets [0, 1, 2, 3] s"

text \<open>How many of \<open>limit\<close> groups were read from index \<open>i\<close> on, and whether an embedded IPv4 address ended them.\<close>

function read_groups :: "nat \<Rightarrow> nat \<Rightarrow> string \<Rightarrow> nat \<times> bool \<times> string" where
  "read_groups limit i s =
     (if limit \<le> i then (limit, False, s)
      else case (if Suc i < limit then read_separator (CHR '':'') i read_ipv4 s else None) of
        Some (_, r) \<Rightarrow> (i + 2, True, r)
      | None \<Rightarrow>
          (case read_separator (CHR '':'') i (read_number 16 4 True 65536) s of
             Some (_, r) \<Rightarrow> read_groups limit (Suc i) r
           | None \<Rightarrow> (i, False, s)))"
  by pat_completeness auto

termination
  by (relation "measure (\<lambda>(limit, i, _). limit - i)") auto

definition read_ipv6 :: "string \<Rightarrow> string option" where
  "read_ipv6 s =
     (let (hs, v4, r) = read_groups 8 0 s
      in if hs = 8 then Some r
         else if v4 then None
         else case strip_prefix ''::'' r of
           None \<Rightarrow> None
         | Some r' \<Rightarrow> Some (snd (snd (read_groups (8 - (hs + 1)) 0 r'))))"

definition parse_ip :: "string \<Rightarrow> ip_addr option" where
  "parse_ip s =
     (case read_ipv4 s of
        Some (ns, r) \<Rightarrow> if r = [] then Some (Ipv4 ns) else None
      | None \<Rightarrow> if read_ipv6 s = Some [] then Some Ipv6 else None)"

fun is_ipv4 :: "ip_addr \<Rightarrow> bool" where
  "is_ipv4 (Ipv4 _) = True" | "is_ipv4 Ipv6 = False"

text \<open>The classes of IPv4 addresses; the code asks them only of IPv4 addresses.\<close>

fun ip_unspecified :: "ip_addr \<Rightarrow> bool" where
  "ip_unspecified (Ipv4 ns) = (ns = [0, 0, 0, 0])" | "ip_unspecified Ipv6 = False"

fun ip_multicast :: "ip_addr \<Rightarrow> bool" where
  "ip_multicast (Ipv4 ns) = (224 \<le> hd ns \<and> hd ns \<le> 239)" | "ip_multicast Ipv6 = False"

fun ip_loopback :: "ip_addr \<Rightarrow> bool" where
  "ip_loopback (Ipv4 ns) = (hd ns = 127)" | "ip_loopback Ipv6 = False"

section \<open>Ports and media\<close>

type_synonym uuid = string

datatype network_mode = Net_User | Net_Host | Net_None

datatype port_direction = Host_To_Guest | Guest_To_Host

datatype port_protocol = Tcp | Udp

record port_forward =
  port_id :: uuid
  port_enabled :: bool
  direction :: port_direction
  protocol :: port_protocol
  host_address :: string
  host_port :: nat
  guest_address :: string
  guest_port :: nat

definition port_new :: "uuid \<Rightarrow> port_direction \<Rightarrow> port_forward" where
  "port_new i d =
     \<lparr>port_id = i, port_enabled = True, direction = d, protocol = Tcp, host_address = ''127.0.0.1'',
      host_port = 8080,
      guest_address = (case d of Host_To_Guest \<Rightarrow> ''10.0.2.100'' | Guest_To_Host \<Rightarrow> ''127.0.0.1''),
      guest_port = 8080\<rparr>"

definition port_validate :: "port_forward \<Rightarrow> string + unit" where
  "port_validate p =
     then_ok (ok_or (''invalid host address '' @ [CHR 0x27] @ host_address p @ [CHR 0x27]) (parse_ip (host_address p))) (\<lambda>host.
     then_ok (ok_or (''invalid guest address '' @ [CHR 0x27] @ guest_address p @ [CHR 0x27]) (parse_ip (guest_address p))) (\<lambda>guest.
     then_ok (bail_if (\<not> is_ipv4 host \<or> \<not> is_ipv4 guest) ''port forwarding currently requires IPv4 addresses'') (\<lambda>_.
     then_ok (bail_if (host_port p = 0 \<or> guest_port p = 0) ''port forwarding ports must be between 1 and 65535'') (\<lambda>_.
     case direction p of
       Host_To_Guest \<Rightarrow>
         bail_if (ip_unspecified guest \<or> ip_multicast guest) ''host-to-guest destination must be a unicast guest address''
     | Guest_To_Host \<Rightarrow>
         then_ok (bail_if (ip_unspecified host \<or> ip_multicast host) ''guest-to-host destination must be a unicast host address'') (\<lambda>_.
         bail_if (\<not> (ip_loopback guest \<or> ip_unspecified guest))
           ''guest-to-host listener must bind 127.0.0.1 or 0.0.0.0 inside the guest'')))))"

record media_sharing =
  guest_audio_output :: bool
  host_microphone :: bool
  host_camera :: bool
  audio_target :: "string option"
  microphone_target :: "string option"
  camera_target :: "string option"

definition target_bad :: "string \<Rightarrow> bool" where
  "target_bad t \<longleftrightarrow> t = [] \<or> 256 < length t \<or> (\<exists>c \<in> set t. byte c \<in> {0, 10, 13})"

definition media_validate :: "media_sharing \<Rightarrow> string + unit" where
  "media_validate m =
     each_ok (\<lambda>(label, target).
         case target of None \<Rightarrow> Inr ()
         | Some t \<Rightarrow> bail_if (target_bad t) (label @ '' PipeWire target is invalid''))
       [(''audio output'', audio_target m), (''microphone'', microphone_target m), (''camera'', camera_target m)]"

record integration_settings =
  ports :: "port_forward list"
  media :: media_sharing

type_synonym listener = "port_direction \<times> port_protocol \<times> string \<times> nat"

definition listener_of :: "port_forward \<Rightarrow> listener" where
  "listener_of p =
     (case direction p of
        Host_To_Guest \<Rightarrow> (Host_To_Guest, protocol p, host_address p, host_port p)
      | Guest_To_Host \<Rightarrow> (Guest_To_Host, protocol p, guest_address p, guest_port p))"

text \<open>The loop over the mappings with the ids and listeners seen so far.\<close>

fun validate_ports :: "uuid set \<Rightarrow> listener set \<Rightarrow> port_forward list \<Rightarrow> string + unit" where
  "validate_ports ids listeners [] = Inr ()"
| "validate_ports ids listeners (p # ps) =
     then_ok (port_validate p) (\<lambda>_.
     then_ok (bail_if (port_id p \<in> ids) (''duplicate port mapping id '' @ port_id p)) (\<lambda>_.
     if port_enabled p then
       then_ok (bail_if (listener_of p \<in> listeners) ''two enabled mappings use the same listening address and port'')
         (\<lambda>_. validate_ports (insert (port_id p) ids) (insert (listener_of p) listeners) ps)
     else validate_ports (insert (port_id p) ids) listeners ps))"

definition integration_validate :: "network_mode \<Rightarrow> integration_settings \<Rightarrow> string + unit" where
  "integration_validate network s =
     then_ok (bail_if (network \<noteq> Net_User \<and>
         (list_ex port_enabled (ports s) \<or> guest_audio_output (media s) \<or> host_microphone (media s) \<or> host_camera (media s)))
       ''live ports and media require private user-mode networking'') (\<lambda>_.
     then_ok (bail_if (128 < length (ports s)) ''a machine may configure at most 128 port mappings'') (\<lambda>_.
     then_ok (validate_ports {} {} (ports s)) (\<lambda>_.
     media_validate (media s))))"

section \<open>Shared paths\<close>

record shared_path =
  share_id :: uuid
  host_path :: path
  guest_name :: string
  read_only :: bool

definition validate_metadata :: "shared_path \<Rightarrow> string + unit" where
  "validate_metadata s =
     then_ok (bail_if (\<not> absolute (host_path s)) (''shared host path must be absolute: '' @ path_display (host_path s))) (\<lambda>_.
     bail_if (guest_name s = [] \<or> 255 < length (guest_name s) \<or> guest_name s \<in> {''.'', ''..''} \<or>
         (\<exists>c \<in> set (guest_name s). byte c \<in> {47, 0, 10, 13}))
       ''shared guest name must be one safe non-empty path component'')"

definition guest_path :: "shared_path \<Rightarrow> path" where
  "guest_path s = path_join (path_of ''/shared'') (path_of (guest_name s))"

text \<open>
  \<open>from_host_path\<close>; what \<open>canonicalize\<close> answers and whether a name is UTF-8 are parameters, as is
  the fresh id.
\<close>

definition from_host_path ::
    "(path \<Rightarrow> fs_error + path) \<Rightarrow> (string \<Rightarrow> bool) \<Rightarrow> uuid \<Rightarrow> nodes \<Rightarrow> path \<Rightarrow> string + shared_path" where
  "from_host_path canonicalize is_utf8 fresh n p =
     then_ok (bail_if (\<not> absolute p) (''shared host path must be absolute: '' @ path_display p)) (\<lambda>_.
     then_ok (ok_or (''inspecting shared path '' @ path_display p) (n p)) (\<lambda>x.
     then_ok (bail_if (case x of Symlink _ \<Rightarrow> True | _ \<Rightarrow> False) ''shared path must be a regular file or real directory'') (\<lambda>_.
     then_ok (map_err (\<lambda>_. ''resolving shared path '' @ path_display p) (canonicalize p)) (\<lambda>q.
     then_ok (bail_if (components q = [] \<or> last (components q) = ''..'' \<or> \<not> is_utf8 (last (components q)))
       ''shared host path must have a UTF-8 file name'') (\<lambda>_.
     let share = \<lparr>share_id = fresh, host_path = q, guest_name = last (components q), read_only = False\<rparr>
     in then_ok (validate_metadata share) (\<lambda>_. Inr share))))))"

fun validate_share_list :: "uuid set \<Rightarrow> string set \<Rightarrow> path set \<Rightarrow> shared_path list \<Rightarrow> string + unit" where
  "validate_share_list ids names paths [] = Inr ()"
| "validate_share_list ids names paths (s # ss) =
     then_ok (validate_metadata s) (\<lambda>_.
     then_ok (bail_if (share_id s \<in> ids) (''duplicate shared-path id '' @ share_id s)) (\<lambda>_.
     then_ok (bail_if (guest_name s \<in> names) (''two shared paths use guest name '' @ [CHR 0x27] @ guest_name s @ [CHR 0x27])) (\<lambda>_.
     then_ok (bail_if (host_path s \<in> paths) (''host path is shared more than once: '' @ path_display (host_path s))) (\<lambda>_.
     validate_share_list (insert (share_id s) ids) (insert (guest_name s) names) (insert (host_path s) paths) ss))))"

definition validate_shares :: "shared_path list \<Rightarrow> string + unit" where
  "validate_shares ss =
     then_ok (bail_if (128 < length ss) ''a machine may configure at most 128 shared paths'') (\<lambda>_.
     validate_share_list {} {} {} ss)"

section \<open>OCI metadata\<close>

record retained_oci_archive =
  relative_path :: string
  sha256 :: string
  archive_size :: nat

definition archive_validate :: "retained_oci_archive \<Rightarrow> string + unit" where
  "archive_validate a =
     then_ok (bail_if (relative_path a \<noteq> ''cache/source.oci.tar'') ''retained OCI archive must use cache/source.oci.tar'') (\<lambda>_.
     then_ok (bail_if (length (sha256 a) \<noteq> 64 \<or> \<not> list_all ascii_hexdigit (sha256 a))
       ''retained OCI archive has an invalid SHA-256 digest'') (\<lambda>_.
     bail_if (archive_size a = 0) ''retained OCI archive cannot be empty''))"

record oci_image_metadata =
  environment :: "string list"
  labels :: "(string \<times> string) list"
  working_dir :: "string option"
  oci_user :: "string option"
  entrypoint :: "string list"
  oci_command :: "string list"
  stop_signal :: "string option"

definition MAX_ITEMS :: nat where "MAX_ITEMS = 4096"
definition MAX_OCI_TEXT_BYTES :: nat where "MAX_OCI_TEXT_BYTES = 1024 * 1024"

definition env_name_ok :: "string \<Rightarrow> bool" where
  "env_name_ok name \<longleftrightarrow> name \<noteq> [] \<and>
     (\<forall>i < length name. name ! i = CHR ''_'' \<or> ascii_alphanumeric (name ! i) \<and> (i \<noteq> 0 \<or> \<not> ascii_digit (name ! i)))"

text \<open>The lengths are summed with \<open>saturating_add\<close> on \<open>usize\<close>; \<open>opt_texts\<close> are the optional fields.\<close>

definition env_validate :: "string \<Rightarrow> string + unit" where
  "env_validate v =
     then_ok (ok_or (''OCI environment entry has no '' @ [CHR 0x27] @ ''='' @ [CHR 0x27] @ '' separator'') (split_once (CHR ''='') v)) (\<lambda>(name, _).
     bail_if (\<not> env_name_ok name) ''OCI environment entry has an invalid variable name'')"

definition opt_texts :: "oci_image_metadata \<Rightarrow> string list" where
  "opt_texts o' = List.map_filter id [working_dir o', oci_user o', stop_signal o']"

definition oci_total :: "oci_image_metadata \<Rightarrow> nat" where
  "oci_total o' = foldl sat_add64 0
     (map length (environment o') @ concat (map (\<lambda>(k, v). [length k, length v]) (labels o')) @
      map length (entrypoint o' @ oci_command o') @ map length (opt_texts o'))"

definition oci_validate :: "oci_image_metadata \<Rightarrow> string + unit" where
  "oci_validate o' =
     then_ok (bail_if (MAX_ITEMS < length (environment o') \<or> MAX_ITEMS < length (labels o') \<or>
         MAX_ITEMS < length (entrypoint o') \<or> MAX_ITEMS < length (oci_command o'))
       ''OCI process metadata contains too many entries'') (\<lambda>_.
     then_ok (each_ok env_validate (environment o')) (\<lambda>_.
     then_ok (each_ok (\<lambda>(k, _). bail_if (k = []) ''OCI label name cannot be empty'') (labels o')) (\<lambda>_.
     bail_if (MAX_OCI_TEXT_BYTES < oci_total o') ''OCI process metadata exceeds the 1 MiB limit'')))"

fun collect_pairs :: "string list \<Rightarrow> string + (string \<times> string) list" where
  "collect_pairs [] = Inr []"
| "collect_pairs (v # vs) =
     then_ok (ok_or (''OCI environment entry has no '' @ [CHR 0x27] @ ''='' @ [CHR 0x27] @ '' separator'') (split_once (CHR ''='') v)) (\<lambda>p.
     then_ok (collect_pairs vs) (\<lambda>ps. Inr (p # ps)))"

definition environment_pairs :: "oci_image_metadata \<Rightarrow> string + (string \<times> string) list" where
  "environment_pairs o' = then_ok (oci_validate o') (\<lambda>_. collect_pairs (environment o'))"

section \<open>The configuration\<close>

record machine_config =
  schema :: nat
  machine_id :: uuid
  machine_name :: string
  image :: string
  image_digest :: "string option"
  created_at :: string
  network :: network_mode
  width :: nat
  height :: nat
  title :: string
  gpus :: "string list"
  guest_scale_120 :: "nat option"
  integrations :: integration_settings
  shares :: "shared_path list"
  oci :: oci_image_metadata
  retained :: "retained_oci_archive option"

definition CONFIG_FILE :: string where "CONFIG_FILE = ''machine.json''"

definition default_media :: media_sharing where
  "default_media = \<lparr>guest_audio_output = False, host_microphone = False, host_camera = False,
     audio_target = None, microphone_target = None, camera_target = None\<rparr>"

definition default_oci :: oci_image_metadata where
  "default_oci = \<lparr>environment = [], labels = [], working_dir = None, oci_user = None, entrypoint = [],
     oci_command = [], stop_signal = None\<rparr>"

definition config_new :: "uuid \<Rightarrow> string \<Rightarrow> string \<Rightarrow> string \<Rightarrow> string \<Rightarrow> network_mode \<Rightarrow> string list \<Rightarrow> machine_config" where
  "config_new fresh now name img digest net gs =
     \<lparr>schema = 5, machine_id = fresh, machine_name = name, image = img, image_digest = Some digest,
      created_at = now, network = net, width = 1280, height = 800, title = name, gpus = gs,
      guest_scale_120 = None, integrations = \<lparr>ports = [], media = default_media\<rparr>, shares = [],
      oci = default_oci, retained = None\<rparr>"

definition validate_name :: "string \<Rightarrow> string + unit" where
  "validate_name name =
     then_ok (bail_if (name = [] \<or> 64 < length name) ''machine name must contain between 1 and 64 characters'') (\<lambda>_.
     bail_if (\<not> list_all (\<lambda>b. ascii_alphanumeric b \<or> b \<in> {CHR ''-'', CHR ''_''}) name)
       (''machine name may contain only letters, digits, '' @ [CHR 0x27] @ ''-'' @ [CHR 0x27] @ '' and '' @ [CHR 0x27] @ ''_'' @ [CHR 0x27]))"

definition gpu_ok :: "string \<Rightarrow> bool" where
  "gpu_ok gpu \<longleftrightarrow> gpu = ''all'' \<or> gpu \<noteq> [] \<and> list_all ascii_digit gpu \<or>
     (case strip_prefix ''GPU-'' gpu of None \<Rightarrow> False
      | Some u \<Rightarrow> u \<noteq> [] \<and> list_all (\<lambda>b. ascii_hexdigit b \<or> b = CHR ''-'') u)"

definition validate_gpus :: "string list \<Rightarrow> string + unit" where
  "validate_gpus gs =
     then_ok (bail_if (gs = []) ''at least one --gpu value is required'') (\<lambda>_.
     then_ok (bail_if (''all'' \<in> set gs \<and> length gs \<noteq> 1)
       (''GPU selection '' @ [CHR 0x27] @ ''all'' @ [CHR 0x27] @ '' cannot be combined with another GPU'')) (\<lambda>_.
     each_ok (\<lambda>gpu. bail_if (\<not> gpu_ok gpu) (''GPU '' @ [CHR 0x27] @ gpu @ [CHR 0x27] @ '' must be '' @ [CHR 0x27] @
       ''all'' @ [CHR 0x27] @ '', a numeric NVIDIA index, or a GPU UUID'')) gs))"

definition validate_guest_scale :: "nat option \<Rightarrow> string + unit" where
  "validate_guest_scale sc =
     bail_if (case sc of None \<Rightarrow> False | Some n \<Rightarrow> n \<notin> {120, 150, 180, 210, 240})
       ''guest desktop scale must be Follow Host, 100%, 125%, 150%, 175%, or 200%''"

definition validate_display_size :: "nat \<Rightarrow> nat \<Rightarrow> string + unit" where
  "validate_display_size w h =
     bail_if (w < 320 \<or> 16384 < w \<or> h < 240 \<or> 16384 < h)
       (''machine display size '' @ show_dec w @ ''x'' @ show_dec h @ '' is outside the supported range'')"

definition archive_option_validate :: "retained_oci_archive option \<Rightarrow> string + unit" where
  "archive_option_validate a = (case a of None \<Rightarrow> Inr () | Some a \<Rightarrow> archive_validate a)"

definition load_checks :: "machine_config \<Rightarrow> string + unit" where
  "load_checks c =
     then_ok (bail_if (schema c \<noteq> 5) (''unsupported machine metadata schema '' @ show_dec (schema c))) (\<lambda>_.
     then_ok (validate_name (machine_name c)) (\<lambda>_.
     then_ok (validate_gpus (gpus c)) (\<lambda>_.
     then_ok (validate_guest_scale (guest_scale_120 c)) (\<lambda>_.
     then_ok (oci_validate (oci c)) (\<lambda>_.
     then_ok (archive_option_validate (retained c)) (\<lambda>_.
     then_ok (integration_validate (network c) (integrations c)) (\<lambda>_.
     then_ok (validate_shares (shares c)) (\<lambda>_.
     validate_display_size (width c) (height c)))))))))"

definition machine_load :: "(u8 list \<Rightarrow> string + machine_config) \<Rightarrow> path \<Rightarrow> fs \<Rightarrow> (string + machine_config) \<times> fs" where
  "machine_load dec dir s =
     (let p = file_in dir CONFIG_FILE in
      io_then (fs_read p s) (\<lambda>_. ''reading '' @ path_display p) (\<lambda>bytes s.
        (then_ok (map_err (\<lambda>_. ''parsing '' @ path_display p) (dec bytes)) (\<lambda>c.
         then_ok (load_checks c) (\<lambda>_. Inr c)), s)))"

definition save_checks :: "machine_config \<Rightarrow> string + unit" where
  "save_checks c =
     then_ok (bail_if (schema c \<noteq> 5) (''unsupported machine metadata schema '' @ show_dec (schema c))) (\<lambda>_.
     then_ok (validate_name (machine_name c)) (\<lambda>_.
     then_ok (validate_guest_scale (guest_scale_120 c)) (\<lambda>_.
     then_ok (validate_gpus (gpus c)) (\<lambda>_.
     then_ok (validate_display_size (width c) (height c)) (\<lambda>_.
     then_ok (oci_validate (oci c)) (\<lambda>_.
     then_ok (archive_option_validate (retained c)) (\<lambda>_.
     then_ok (integration_validate (network c) (integrations c)) (\<lambda>_.
     validate_shares (shares c)))))))))"

definition machine_save :: "(machine_config \<Rightarrow> u8 list) \<Rightarrow> nat \<Rightarrow> machine_config \<Rightarrow> path \<Rightarrow> fs \<Rightarrow> (string + unit) \<times> fs" where
  "machine_save enc pid c dir s =
     (case save_checks c of Inl e \<Rightarrow> (Inl e, s)
      | Inr _ \<Rightarrow> atomic_json pid (file_in dir CONFIG_FILE) (enc c) s)"

section \<open>What validation accepts\<close>

definition ipv4_at :: "string \<Rightarrow> nat list \<Rightarrow> bool" where
  "ipv4_at text ns \<longleftrightarrow> parse_ip text = Some (Ipv4 ns)"

text \<open>A mapping leads to a definite host, and listens on the guest's own addresses only.\<close>

definition port_ok :: "port_forward \<Rightarrow> bool" where
  "port_ok p \<longleftrightarrow>
     (\<exists>h g. ipv4_at (host_address p) h \<and> ipv4_at (guest_address p) g \<and> 0 < host_port p \<and> 0 < guest_port p \<and>
        (case direction p of
           Host_To_Guest \<Rightarrow> g \<noteq> [0, 0, 0, 0] \<and> \<not> (224 \<le> hd g \<and> hd g \<le> 239)
         | Guest_To_Host \<Rightarrow> h \<noteq> [0, 0, 0, 0] \<and> \<not> (224 \<le> hd h \<and> hd h \<le> 239) \<and> (hd g = 127 \<or> g = [0, 0, 0, 0])))"

definition media_ok :: "media_sharing \<Rightarrow> bool" where
  "media_ok m \<longleftrightarrow> (\<forall>t \<in> set_option (audio_target m) \<union> set_option (microphone_target m) \<union> set_option (camera_target m).
     t \<noteq> [] \<and> length t \<le> 256 \<and> (\<forall>c \<in> set t. byte c \<notin> {0, 10, 13}))"

definition integration_ok :: "network_mode \<Rightarrow> integration_settings \<Rightarrow> bool" where
  "integration_ok net s \<longleftrightarrow>
     (net = Net_User \<or> (\<forall>p \<in> set (ports s). \<not> port_enabled p) \<and>
        \<not> (guest_audio_output (media s) \<or> host_microphone (media s) \<or> host_camera (media s))) \<and>
     length (ports s) \<le> 128 \<and> (\<forall>p \<in> set (ports s). port_ok p) \<and>
     distinct (map port_id (ports s)) \<and> distinct (map listener_of (filter port_enabled (ports s))) \<and>
     media_ok (media s)"

lemma port_validate_iff: "port_validate p = Inr () \<longleftrightarrow> port_ok p"
proof (cases "parse_ip (host_address p)")
  case None
  then show ?thesis
    by (simp add: port_validate_def port_ok_def ipv4_at_def)
next
  case (Some h)
  then show ?thesis
    by (cases "parse_ip (guest_address p)"; cases h; cases "the (parse_ip (guest_address p))"; cases "direction p")
      (auto simp: port_validate_def port_ok_def ipv4_at_def then_ok_eq_Inr)
qed

lemma media_validate_iff: "media_validate m = Inr () \<longleftrightarrow> media_ok m"
  by (cases "audio_target m"; cases "microphone_target m"; cases "camera_target m")
    (auto simp: media_validate_def media_ok_def target_bad_def then_ok_eq_Inr not_less)

lemma validate_ports_iff:
  "validate_ports ids ls ps = Inr () \<longleftrightarrow>
   (\<forall>p \<in> set ps. port_ok p) \<and> distinct (map port_id ps) \<and> port_id ` set ps \<inter> ids = {} \<and>
   distinct (map listener_of (filter port_enabled ps)) \<and> listener_of ` {p \<in> set ps. port_enabled p} \<inter> ls = {}"
proof (induction ps arbitrary: ids ls)
  case (Cons p ps)
  show ?case
    by (cases "port_enabled p") (auto simp: then_ok_eq_Inr port_validate_iff Cons.IH)
qed simp

text \<open>
  C33. Validation of the integration settings accepts exactly: no enabled mapping or media outside
  private networking; at most 128 mappings with distinct ids, each between IPv4 addresses and
  non-zero ports, leading to one definite host, and in the guest listening on loopback or all
  addresses only; no two enabled mappings with the same listener; and PipeWire targets of 1 to 256
  bytes without line breaks.
\<close>

theorem integration_validate_iff: "integration_validate net s = Inr () \<longleftrightarrow> integration_ok net s"
  by (auto simp: integration_validate_def integration_ok_def then_ok_eq_Inr validate_ports_iff media_validate_iff
      list_ex_iff not_less)

section \<open>Shares\<close>

definition safe_name :: "string \<Rightarrow> bool" where
  "safe_name s \<longleftrightarrow> s \<noteq> [] \<and> length s \<le> 255 \<and> s \<noteq> ''.'' \<and> s \<noteq> ''..'' \<and> (\<forall>c \<in> set s. byte c \<notin> {47, 0, 10, 13})"

lemma validate_metadata_iff: "validate_metadata s = Inr () \<longleftrightarrow> absolute (host_path s) \<and> safe_name (guest_name s)"
  by (auto simp: validate_metadata_def then_ok_eq_Inr safe_name_def not_less)

lemma validate_share_list_iff:
  "validate_share_list ids names paths ss = Inr () \<longleftrightarrow>
   (\<forall>s \<in> set ss. absolute (host_path s) \<and> safe_name (guest_name s)) \<and>
   distinct (map share_id ss) \<and> share_id ` set ss \<inter> ids = {} \<and>
   distinct (map guest_name ss) \<and> guest_name ` set ss \<inter> names = {} \<and>
   distinct (map host_path ss) \<and> host_path ` set ss \<inter> paths = {}"
proof (induction ss arbitrary: ids names paths)
  case (Cons s ss)
  show ?case
    by (auto simp: then_ok_eq_Inr validate_metadata_iff Cons.IH)
qed simp

lemma safe_name_path:
  assumes "safe_name s"
  shows "path_of s = Path False [s]"
proof -
  have "CHR ''/'' \<notin> set s"
    using assms by (auto simp: safe_name_def)
  then have "split_on (CHR ''/'') s = [s]"
    by (rule split_on_none)
  moreover have "hd s \<noteq> CHR ''/''"
    using assms by (cases s) (auto simp: safe_name_def)
  ultimately show ?thesis
    using assms by (simp add: path_of_def safe_name_def)
qed

lemma safe_name_slash: "safe_name s \<Longrightarrow> CHR ''/'' \<notin> set s"
  by (auto simp: safe_name_def)

lemma guest_path_safe: "safe_name (guest_name s) \<Longrightarrow> guest_path s = Path True [''shared'', guest_name s]"
  by (simp add: guest_path_def safe_name_path path_join_def) (simp add: path_of_def)

text \<open>
  Validated shares stay in their place: at most 128 of them, each showing an absolute host path
  as a direct child of \<open>/shared\<close> under one plain component, with no two at the same place and no host
  path shown twice.
\<close>

lemma shares_confined:
  assumes "validate_shares ss = Inr ()"
  shows "length ss \<le> 128 \<and> distinct (map guest_path ss) \<and> distinct (map host_path ss) \<and>
    (\<forall>s \<in> set ss. absolute (host_path s) \<and> guest_path s = Path True [''shared'', guest_name s] \<and>
       guest_name s \<notin> {[], ''.'', ''..''} \<and> CHR ''/'' \<notin> set (guest_name s))"
proof -
  have h: "length ss \<le> 128" "\<forall>s \<in> set ss. absolute (host_path s) \<and> safe_name (guest_name s)"
    "distinct (map guest_name ss)" "distinct (map host_path ss)"
    using assms by (auto simp: validate_shares_def then_ok_eq_Inr validate_share_list_iff not_less)
  have "map guest_path ss = map (\<lambda>n. Path True [''shared'', n]) (map guest_name ss)"
    using h(2) by (simp add: guest_path_safe)
  moreover have "distinct (map (\<lambda>n. Path True [''shared'', n]) (map guest_name ss))"
    using h(3) by (simp add: distinct_map inj_on_def)
  ultimately have "distinct (map guest_path ss)"
    by metis
  then show ?thesis
    using h by (simp add: guest_path_safe safe_name_slash) (simp add: safe_name_def)
qed

theorem shares_confined_witness:
  "guest_path \<lparr>share_id = ''a'', host_path = Path True [''home'', ''d''], guest_name = ''d'', read_only = False\<rparr> =
   Path True [''shared'', ''d'']"
  using shares_confined [of "[\<lparr>share_id = ''a'', host_path = Path True [''home'', ''d''], guest_name = ''d'', read_only = False\<rparr>]"]
  by (simp add: validate_shares_def validate_metadata_iff safe_name_def then_ok_eq_Inr)

section \<open>Loading what was saved\<close>

lemma parent_file_in [simp]: "parent (file_in dir name) = Some dir"
  by (cases dir) (simp add: parent_def file_in_def)

lemma config_file_not_temp: "file_in dir CONFIG_FILE \<notin> set (temp_names pid dir)"
  by (auto simp: temp_names_def temp_name_def file_in_def CONFIG_FILE_def)

lemma checks_agree: "load_checks c = Inr () \<longleftrightarrow> save_checks c = Inr ()"
  by (auto simp: load_checks_def save_checks_def then_ok_eq_Inr)

lemma read_quiet: "faults t = [] \<Longrightarrow> fst (fs_read p t) =
   (case stat_node (nodes t) p of Inl e \<Rightarrow> Inl e | Inr (Regular c _) \<Rightarrow> Inr c | Inr _ \<Rightarrow> Inl Fs_Other)"
  by (simp add: fs_read_def fs_do_def take_fault_def split: sum.split node.split)

lemma stat_not_link:
  "\<forall>q. n p \<noteq> Some (Symlink q) \<Longrightarrow> stat_node n p = ok_or Fs_NotFound (n p)"
  by (simp add: stat_node_def MAX_LINKS_def eval_nat_numeral split: option.split node.split)

lemma load_quiet:
  "faults t = [] \<Longrightarrow> fst (machine_load dec dir t) =
   then_ok (map_err (\<lambda>_. ''reading '' @ path_display (file_in dir CONFIG_FILE))
     (case stat_node (nodes t) (file_in dir CONFIG_FILE) of Inl e \<Rightarrow> Inl e | Inr (Regular c _) \<Rightarrow> Inr c | Inr _ \<Rightarrow> Inl Fs_Other))
     (\<lambda>bytes. then_ok (map_err (\<lambda>_. ''parsing '' @ path_display (file_in dir CONFIG_FILE)) (dec bytes))
        (\<lambda>c. then_ok (load_checks c) (\<lambda>_. Inr c)))"
  by (simp add: machine_load_def Let_def fst_io_then_pure read_quiet)

text \<open>
  C35. A machine's configuration is never lost. Whatever fails while it is saved, loading it
  afterwards gives the new configuration or exactly what loading gave before; when the save reports
  success, loading gives the saved configuration, with every field (for an encoding of this
  configuration that the JSON reader reads back).
\<close>

theorem config_save_load:
  assumes save: "machine_save enc pid c dir s = (r, t)" and codec: "dec (enc c @ [10]) = Inr c"
    and plain: "\<forall>q. nodes s (file_in dir CONFIG_FILE) \<noteq> Some (Symlink q)" and quiet: "faults t = []"
  shows "(r = Inr () \<longrightarrow> fst (machine_load dec dir t) = Inr c) \<and>
    fst (machine_load dec dir t) \<in> {Inr c, fst (machine_load dec dir (t\<lparr>nodes := nodes s\<rparr>))}"
proof (cases "save_checks c")
  case (Inl e)
  then have "t = s" "r = Inl e"
    using save by (simp_all add: machine_save_def)
  then show ?thesis
    by simp
next
  case (Inr u)
  let ?p = "file_in dir CONFIG_FILE"
  have "atomic_json pid ?p (enc c) s = (r, t)"
    using save Inr by (simp add: machine_save_def)
  from outcome_cases [OF this atomic_json_outcome [OF parent_file_in config_file_not_temp]]
  have o: "saved_or_not ?p (json_file (enc c)) (nodes s) (nodes t)"
    "r = Inr () \<longrightarrow> nodes t ?p = Some (Regular (enc c @ [10]) 0x180)"
    by simp_all
  have new: "fst (machine_load dec dir t) = Inr c" if "nodes t ?p = Some (Regular (enc c @ [10]) 0x180)"
    using that codec Inr checks_agree [of c] by (simp add: load_quiet [OF quiet] stat_not_link)
  have old: "fst (machine_load dec dir t) = fst (machine_load dec dir (t\<lparr>nodes := nodes s\<rparr>))" if "nodes t ?p = nodes s ?p"
    using that plain quiet by (simp add: load_quiet stat_not_link)
  show ?thesis
    using o new old by (auto simp: saved_or_not_def)
qed

definition demo_config :: machine_config where
  "demo_config = config_new ''id'' ''now'' ''demo'' ''img'' ''sha'' Net_User [''all'']"

lemma demo_config_ok: "save_checks demo_config = Inr ()"
  by (simp add: demo_config_def config_new_def save_checks_def validate_name_def validate_guest_scale_def
      validate_gpus_def gpu_ok_def validate_display_size_def oci_validate_def default_oci_def oci_total_def opt_texts_def
      archive_option_validate_def integration_validate_def media_validate_def default_media_def validate_shares_def
      ascii_alphanumeric_def ascii_lower_def map_filter_simps MAX_ITEMS_def MAX_OCI_TEXT_BYTES_def)

theorem config_save_load_witness:
  "fst (machine_load (\<lambda>_. Inr demo_config) (Path True [''m''])
     (snd (machine_save (\<lambda>_. [2, 3]) 7 demo_config (Path True [''m'']) (demo_fs [])))) = Inr demo_config"
proof -
  obtain r t where st: "machine_save (\<lambda>_. [2, 3]) 7 demo_config (Path True [''m'']) (demo_fs []) = (r, t)"
    by force
  then have a: "atomic_json 7 (file_in (Path True [''m'']) CONFIG_FILE) [2, 3] (demo_fs []) = (r, t)"
    by (simp add: machine_save_def demo_config_ok)
  have "dirs_ready (Path True [''m'']) (nodes (demo_fs []))"
    "nodes (demo_fs []) (file_in (Path True [''m'']) CONFIG_FILE) \<noteq> Some Directory"
    "nodes (demo_fs []) (temp_name 7 (Path True [''m'']) 0) = None"
    by (auto simp: demo_fs_def dirs_ready_def ancestors_def file_in_def CONFIG_FILE_def temp_name_def)
  then have t: "faults t = [] \<and> r = Inr ()"
    using save_outcome_quiet [OF _ _ parent_file_in _ demo_temp _ config_file_not_temp, of "demo_fs []" "[2, 3]"] a
    by (simp add: demo_fs_def)
  have "\<forall>q. nodes (demo_fs []) (file_in (Path True [''m'']) CONFIG_FILE) \<noteq> Some (Symlink q)"
    by (simp add: demo_fs_def file_in_def CONFIG_FILE_def)
  from config_save_load [OF st _ this, of "\<lambda>_. Inr demo_config"] t show ?thesis
    by (simp add: st)
qed

end
