(* ===== verification/Machine_Registry.thy ===== *)
theory Machine_Registry
  imports Machine_Config "HOL-Library.List_Lexorder" "HOL-Library.Char_ord"
begin

text \<open>
  The index of machines, \<open>host/crates/wb-core/src/registry.rs\<close>: opening, resolving, registering and
  unregistering over the file-system model. The state is the registry in memory with the files.
  JSON, \<open>canonicalize\<close> and the liveness of a process are parameters.
\<close>

section \<open>State\<close>

record registered_machine =
  reg_id :: uuid
  reg_name :: string
  machine_dir :: path

record registry =
  reg_path :: path
  machines :: "registered_machine list"

datatype machine_state = Starting | Running | Stopping | Stopped | Failed

text \<open>What lies outside: \<open>serde_json\<close> for the three files, the kernel's \<open>canonicalize\<close>, live processes, the own pid.\<close>

record outside =
  config_dec :: "u8 list \<Rightarrow> string + machine_config"
  runtime_dec :: "u8 list \<Rightarrow> string + (machine_state \<times> nat option)"
  doc_enc :: "nat \<times> registered_machine list \<Rightarrow> u8 list"
  doc_dec :: "u8 list \<Rightarrow> string + (nat \<times> registered_machine list)"
  canonicalize :: "path \<Rightarrow> fs_error + path"
  pid_alive :: "nat \<Rightarrow> bool"
  own_pid :: nat

definition REGISTRY_SCHEMA :: nat where "REGISTRY_SCHEMA = 1"
definition RUNTIME_FILE :: string where "RUNTIME_FILE = ''runtime.json''"

type_synonym 'a reg_result = "(string + 'a) \<times> registry \<times> fs"

text \<open>An operation on the files alone, and a result without an effect.\<close>

definition on_files :: "(fs \<Rightarrow> ('e + 'a) \<times> fs) \<Rightarrow> registry \<times> fs \<Rightarrow> ('e + 'a) \<times> registry \<times> fs" where
  "on_files f w = (let (reg, s) = w; (r, s') = f s in (r, reg, s'))"

section \<open>Checks\<close>

fun validate_entry_list :: "uuid set \<Rightarrow> string set \<Rightarrow> path set \<Rightarrow> registered_machine list \<Rightarrow> string + unit" where
  "validate_entry_list ids names paths [] = Inr ()"
| "validate_entry_list ids names paths (e # es) =
     then_ok (validate_name (reg_name e)) (\<lambda>_.
     then_ok (bail_if (\<not> absolute (machine_dir e)) (''registered machine directory must be absolute: '' @ path_display (machine_dir e))) (\<lambda>_.
     then_ok (bail_if (reg_id e \<in> ids \<or> reg_name e \<in> names \<or> machine_dir e \<in> paths)
       ''machine registry contains a duplicate id, name, or directory'') (\<lambda>_.
     validate_entry_list (insert (reg_id e) ids) (insert (reg_name e) names) (insert (machine_dir e) paths) es)))"

definition validate_entries :: "registered_machine list \<Rightarrow> string + unit" where
  "validate_entries es = validate_entry_list {} {} {} es"

definition verify_entry :: "outside \<Rightarrow> registered_machine \<Rightarrow> fs \<Rightarrow> (string + unit) \<times> fs" where
  "verify_entry o' e s =
     io_then (fs_lstat (machine_dir e) s) (\<lambda>_. ''inspecting '' @ path_display (machine_dir e)) (\<lambda>x s.
       if x \<noteq> Directory then (Inl (''registered machine directory must be a real directory: '' @ path_display (machine_dir e)), s)
       else io_then (machine_load (config_dec o') (machine_dir e) s) id (\<lambda>c s.
         (bail_if (machine_id c \<noteq> reg_id e \<or> machine_name c \<noteq> reg_name e)
           (''registered metadata for '' @ [CHR 0x27] @ reg_name e @ [CHR 0x27] @ '' does not match '' @ path_display (machine_dir e)), s)))"

text \<open>\<open>RuntimeState::load\<close>: a missing file is no state.\<close>

definition runtime_load :: "outside \<Rightarrow> path \<Rightarrow> fs \<Rightarrow> (string + (machine_state \<times> nat option) option) \<times> fs" where
  "runtime_load o' dir s =
     (let p = file_in dir RUNTIME_FILE in
      case fs_read p s of
        (Inr bytes, s') \<Rightarrow> (then_ok (map_err (\<lambda>_. ''parsing '' @ path_display p) (runtime_dec o' bytes)) (\<lambda>x. Inr (Some x)), s')
      | (Inl Fs_NotFound, s') \<Rightarrow> (Inr None, s')
      | (Inl _, s') \<Rightarrow> (Inl (''reading '' @ path_display p), s'))"

definition still_running :: "outside \<Rightarrow> (machine_state \<times> nat option) option \<Rightarrow> bool" where
  "still_running o' st =
     (case st of None \<Rightarrow> False
      | Some (m, p) \<Rightarrow> m \<in> {Starting, Running, Stopping} \<and> (case p of None \<Rightarrow> False | Some n \<Rightarrow> pid_alive o' n))"

section \<open>Operations\<close>

definition registry_open :: "outside \<Rightarrow> path \<Rightarrow> fs \<Rightarrow> (string + registry) \<times> fs" where
  "registry_open o' p s =
     (if \<not> absolute p then (Inl (''machine registry path must be absolute: '' @ path_display p), s)
      else case fs_read p s of
        (Inr bytes, s') \<Rightarrow>
          (then_ok (map_err (\<lambda>_. ''parsing '' @ path_display p) (doc_dec o' bytes)) (\<lambda>(sch, ms).
           then_ok (bail_if (sch \<noteq> REGISTRY_SCHEMA) (''unsupported machine registry schema '' @ show_dec sch)) (\<lambda>_.
           then_ok (validate_entries ms) (\<lambda>_. Inr \<lparr>reg_path = p, machines = ms\<rparr>))), s')
      | (Inl Fs_NotFound, s') \<Rightarrow> (Inr \<lparr>reg_path = p, machines = []\<rparr>, s')
      | (Inl _, s') \<Rightarrow> (Inl (''reading '' @ path_display p), s'))"

definition resolve_name :: "outside \<Rightarrow> string \<Rightarrow> registry \<Rightarrow> fs \<Rightarrow> (string + path) \<times> fs" where
  "resolve_name o' name reg s =
     (case then_ok (validate_name name) (\<lambda>_.
        ok_or (''machine '' @ [CHR 0x27] @ name @ [CHR 0x27] @ '' is not registered'') (find (\<lambda>e. reg_name e = name) (machines reg))) of
        Inl e \<Rightarrow> (Inl e, s)
      | Inr e \<Rightarrow> io_then (verify_entry o' e s) id (\<lambda>_ s. (Inr (machine_dir e), s)))"

text \<open>\<open>with_extension\<close>: the file name up to its last dot (not a leading one), and the new extension.\<close>

definition file_stem :: "string \<Rightarrow> string" where
  "file_stem name =
     (let r = rev name in
      if CHR ''.'' \<in> set name \<and> drop (Suc (length (takeWhile (\<lambda>c. c \<noteq> CHR ''.'') r))) r \<noteq> []
      then rev (drop (Suc (length (takeWhile (\<lambda>c. c \<noteq> CHR ''.'') r))) r) else name)"

definition with_extension :: "path \<Rightarrow> string \<Rightarrow> path" where
  "with_extension p ext =
     (if components p = [] then p
      else Path (absolute p) (butlast (components p) @ [file_stem (last (components p)) @ ''.'' @ ext]))"

definition temporary :: "outside \<Rightarrow> registry \<Rightarrow> path" where
  "temporary o' reg = with_extension (reg_path reg) (''json.tmp-'' @ show_dec (own_pid o'))"

definition write_registry :: "outside \<Rightarrow> path \<Rightarrow> path \<Rightarrow> path \<Rightarrow> u8 list \<Rightarrow> fs \<Rightarrow> (string + unit) \<times> fs" where
  "write_registry o' temp dir p bytes s =
     io_then (fs_write temp bytes s) (\<lambda>_. ''write'') (\<lambda>_ s.
     io_then (fs_write temp [10] s) (\<lambda>_. ''write'') (\<lambda>_ s.
     io_then (fs_sync temp s) (\<lambda>_. ''sync'') (\<lambda>_ s.
     io_then (fs_rename temp p s) (\<lambda>_. ''committing '' @ path_display p) (\<lambda>_ s.
     io_then (fs_sync dir s) (\<lambda>_. ''open'') (\<lambda>_ s.
     io_then (fs_sync dir s) (\<lambda>_. ''sync'') (\<lambda>_ s. (Inr (), s)))))))"

text \<open>Creating the temporary file, writing it and committing it; on an error it is removed.\<close>

definition replace_registry :: "outside \<Rightarrow> registry \<Rightarrow> path \<Rightarrow> fs \<Rightarrow> (string + unit) \<times> fs" where
  "replace_registry o' reg dir s =
     io_then (fs_create_new (temporary o' reg) 0x180 s) (\<lambda>_. ''creating '' @ path_display (temporary o' reg)) (\<lambda>_ s.
       (case write_registry o' (temporary o' reg) dir (reg_path reg) (doc_enc o' (REGISTRY_SCHEMA, machines reg)) s of
          (Inr u, s') \<Rightarrow> (Inr u, s')
        | (Inl e, s') \<Rightarrow> (Inl e, snd (fs_remove (temporary o' reg) s'))))"

definition registry_save :: "outside \<Rightarrow> registry \<Rightarrow> fs \<Rightarrow> (string + unit) \<times> fs" where
  "registry_save o' reg s =
     (case then_ok (validate_entries (machines reg)) (\<lambda>_. ok_or ''registry path has no parent'' (parent (reg_path reg))) of
        Inl e \<Rightarrow> (Inl e, s)
      | Inr dir \<Rightarrow>
          io_then (fs_create_dir_all dir s) (\<lambda>_. ''creating '' @ path_display dir) (\<lambda>_ s.
          io_then (fs_set_mode dir 0x1C0 s) (\<lambda>_. ''protecting '' @ path_display dir) (\<lambda>_ s.
          replace_registry o' reg dir s)))"

definition save_now :: "outside \<Rightarrow> registry \<times> fs \<Rightarrow> (string + unit) \<times> registry \<times> fs" where
  "save_now o' w = (let (r, s) = registry_save o' (fst w) (snd w) in (r, fst w, s))"

definition conflict_text :: "machine_config \<Rightarrow> registered_machine \<Rightarrow> string" where
  "conflict_text c e = ''machine '' @ [CHR 0x27] @ machine_name c @ [CHR 0x27] @ '' conflicts with registered machine '' @
     [CHR 0x27] @ reg_name e @ [CHR 0x27] @ '' at '' @ path_display (machine_dir e)"

definition taken_text :: "path \<Rightarrow> registered_machine \<Rightarrow> string" where
  "taken_text dir e = ''machine directory '' @ path_display dir @ '' is already registered as '' @ [CHR 0x27] @ reg_name e @ [CHR 0x27]"

text \<open>The first index that satisfies a predicate, as \<open>Iterator::position\<close>.\<close>

fun position :: "('a \<Rightarrow> bool) \<Rightarrow> 'a list \<Rightarrow> nat option" where
  "position P [] = None"
| "position P (x # xs) = (if P x then Some 0 else map_option Suc (position P xs))"

text \<open>The entry's directory has gone: the machine was moved to \<open>dir\<close>, unless it still runs there.\<close>

definition move_entry :: "outside \<Rightarrow> path \<Rightarrow> machine_config \<Rightarrow> nat \<Rightarrow> registry \<times> fs \<Rightarrow> (string + unit) \<times> registry \<times> fs" where
  "move_entry o' dir c i w =
     io_then (on_files (runtime_load o' dir) w) id (\<lambda>st w.
       if still_running o' st
       then (Inl (''machine '' @ [CHR 0x27] @ machine_name c @ [CHR 0x27] @
         '' is still running and cannot be re-registered at its moved directory''), w)
       else case find (\<lambda>(j, x). j \<noteq> i \<and> machine_dir x = dir) (enumerate 0 (machines (fst w))) of
         Some (_, x) \<Rightarrow> (Inl (taken_text dir x), w)
       | None \<Rightarrow> save_now o'
           ((fst w)\<lparr>machines := (machines (fst w))[i := (machines (fst w) ! i)\<lparr>machine_dir := dir\<rparr>]\<rparr>, snd w))"

text \<open>A machine whose entry exists: nothing to do, a moved directory, or a conflict.\<close>

definition reregister :: "outside \<Rightarrow> path \<Rightarrow> machine_config \<Rightarrow> nat \<Rightarrow> registry \<times> fs \<Rightarrow> (string + unit) \<times> registry \<times> fs" where
  "reregister o' dir c i w =
     (let e = machines (fst w) ! i; same = (reg_name e = machine_name c \<and> reg_id e = machine_id c)
      in if same \<and> machine_dir e = dir then (Inr (), w)
         else (let (l, w) = on_files (fs_lstat (machine_dir e)) w
               in if same \<and> l = Inl Fs_NotFound then move_entry o' dir c i w
                  else (Inl (conflict_text c e), w)))"

definition register_new :: "outside \<Rightarrow> path \<Rightarrow> machine_config \<Rightarrow> registry \<times> fs \<Rightarrow> (string + unit) \<times> registry \<times> fs" where
  "register_new o' dir c w =
     (case find (\<lambda>e. machine_dir e = dir) (machines (fst w)) of
        Some e \<Rightarrow> (Inl (taken_text dir e), w)
      | None \<Rightarrow>
          (let e = \<lparr>reg_id = machine_id c, reg_name = machine_name c, machine_dir = dir\<rparr>
           in save_now o' ((fst w)\<lparr>machines := sort_key reg_name (machines (fst w) @ [e])\<rparr>, snd w)))"

definition register_machine :: "outside \<Rightarrow> path \<Rightarrow> registry \<times> fs \<Rightarrow> (string + unit) \<times> registry \<times> fs" where
  "register_machine o' d w =
     (case map_err (\<lambda>_. ''resolving machine directory '' @ path_display d) (canonicalize o' d) of
        Inl e \<Rightarrow> (Inl e, w)
      | Inr dir \<Rightarrow>
          io_then (on_files (machine_load (config_dec o') dir) w) id (\<lambda>c w.
            case position (\<lambda>e. reg_name e = machine_name c \<or> reg_id e = machine_id c) (machines (fst w)) of
              Some i \<Rightarrow> reregister o' dir c i w
            | None \<Rightarrow> register_new o' dir c w))"

definition unregister :: "outside \<Rightarrow> string \<Rightarrow> registry \<times> fs \<Rightarrow> (string + unit) \<times> registry \<times> fs" where
  "unregister o' name w =
     (let before = length (machines (fst w));
          ms = filter (\<lambda>e. reg_name e \<noteq> name) (machines (fst w));
          w = ((fst w)\<lparr>machines := ms\<rparr>, snd w)
      in if length ms = before then (Inl (''machine '' @ [CHR 0x27] @ name @ [CHR 0x27] @ '' is not registered''), w)
         else save_now o' w)"

text \<open>\<open>discover\<close>: the environment variables as raw bytes.\<close>

definition registry_discover :: "outside \<Rightarrow> (string \<Rightarrow> string option) \<Rightarrow> fs \<Rightarrow> (string + registry) \<times> fs" where
  "registry_discover o' env s =
     (case (case env ''XDG_CONFIG_HOME'' of
              Some p \<Rightarrow> Inr (path_of p)
            | None \<Rightarrow> then_ok (ok_or ''HOME or XDG_CONFIG_HOME is required to locate the Buzzard OS registry'' (env ''HOME''))
                (\<lambda>h. Inr (path_join (path_of h) (path_of ''.config'')))) of
        Inl e \<Rightarrow> (Inl e, s)
      | Inr home \<Rightarrow>
          if \<not> absolute home then (Inl (''XDG_CONFIG_HOME must be absolute: '' @ path_display home), s)
          else registry_open o' (path_join home (path_of ''buzzardos/machines.json'')) s)"

section \<open>Consistent entries\<close>

definition entries_ok :: "registered_machine list \<Rightarrow> bool" where
  "entries_ok es \<longleftrightarrow> (\<forall>e \<in> set es. validate_name (reg_name e) = Inr () \<and> absolute (machine_dir e)) \<and>
     distinct (map reg_id es) \<and> distinct (map reg_name es) \<and> distinct (map machine_dir es)"

lemma validate_entry_list_iff:
  "validate_entry_list ids names paths es = Inr () \<longleftrightarrow>
   (\<forall>e \<in> set es. validate_name (reg_name e) = Inr () \<and> absolute (machine_dir e)) \<and>
   distinct (map reg_id es) \<and> reg_id ` set es \<inter> ids = {} \<and>
   distinct (map reg_name es) \<and> reg_name ` set es \<inter> names = {} \<and>
   distinct (map machine_dir es) \<and> machine_dir ` set es \<inter> paths = {}"
proof (induction es arbitrary: ids names paths)
  case (Cons e es)
  show ?case
    by (auto simp: then_ok_eq_Inr Cons.IH)
qed simp

lemma validate_entries_iff: "validate_entries es = Inr () \<longleftrightarrow> entries_ok es"
  by (simp add: validate_entries_def validate_entry_list_iff entries_ok_def)

lemma save_now_registry [simp]: "fst (snd (save_now o' w)) = fst w"
  by (simp add: save_now_def case_prod_beta)

lemma on_files_registry [simp]: "fst (snd (on_files f w)) = fst w"
  by (simp add: on_files_def case_prod_beta Let_def)

lemma distinct_map_sort_key: "distinct (map f (sort_key k xs)) \<longleftrightarrow> distinct (map f xs)"
  by (simp add: distinct_map)

lemma position_Some: "position P xs = Some i \<Longrightarrow> i < length xs \<and> P (xs ! i)"
  by (induction xs arbitrary: i) (auto split: if_splits)

lemma position_None: "position P xs = None \<longleftrightarrow> (\<forall>x \<in> set xs. \<not> P x)"
  by (induction xs) (auto split: if_splits)

lemma load_name_ok: "machine_load dec dir s = (Inr c, t) \<Longrightarrow> validate_name (machine_name c) = Inr ()"
  by (auto simp: machine_load_def Let_def result_simps load_checks_def)

lemma entries_ok_moved:
  assumes ok: "entries_ok es" and i: "i < length es" and dir: "absolute dir"
    and free: "\<forall>j < length es. j \<noteq> i \<longrightarrow> machine_dir (es ! j) \<noteq> dir"
  shows "entries_ok (es[i := (es ! i)\<lparr>machine_dir := dir\<rparr>])"
proof -
  let ?es = "es[i := (es ! i)\<lparr>machine_dir := dir\<rparr>]"
  have ids: "map reg_id ?es = map reg_id es" "map reg_name ?es = map reg_name es"
    using i by (auto simp: map_update intro!: list_update_same_conv [THEN iffD2])
  have "distinct (map machine_dir ?es)"
    using ok i free by (auto simp: entries_ok_def distinct_conv_nth nth_list_update)
  moreover have "validate_name (reg_name e) = Inr () \<and> absolute (machine_dir e)" if "e \<in> set ?es" for e
    using that ok i dir by (auto simp: entries_ok_def set_conv_nth nth_list_update split: if_splits)
  ultimately show ?thesis
    using ok unfolding entries_ok_def ids by blast
qed

lemma entries_ok_added:
  assumes "entries_ok es" "absolute dir" "validate_name (machine_name c) = Inr ()"
    and "\<forall>e \<in> set es. reg_name e \<noteq> machine_name c \<and> reg_id e \<noteq> machine_id c \<and> machine_dir e \<noteq> dir"
  shows "entries_ok (sort_key reg_name (es @ [\<lparr>reg_id = machine_id c, reg_name = machine_name c, machine_dir = dir\<rparr>]))"
  using assms by (auto simp: entries_ok_def distinct_map_sort_key)

lemma entries_ok_filter: "entries_ok es \<Longrightarrow> entries_ok (filter P es)"
  by (auto simp: entries_ok_def distinct_map_filter)

section \<open>The registry through every command\<close>

text \<open>
  Commands to a registry, and any change of the files by others, which also replaces the fault
  schedule.
\<close>

datatype command = Register path | Unregister string | Others fs

definition registry_step :: "outside \<Rightarrow> registry \<times> fs \<Rightarrow> command \<Rightarrow> (registry \<times> fs) \<times> (string + unit) option" where
  "registry_step o' w c =
     (case c of
        Register d \<Rightarrow> (let (r, w') = register_machine o' d w in (w', Some r))
      | Unregister n \<Rightarrow> (let (r, w') = unregister o' n w in (w', Some r))
      | Others s \<Rightarrow> ((fst w, s), None))"

definition canonical_absolute :: "outside \<Rightarrow> bool" where
  "canonical_absolute o' \<longleftrightarrow> (\<forall>d q. canonicalize o' d = Inr q \<longrightarrow> absolute q)"

definition registry_inv :: "outside \<Rightarrow> registry \<times> fs \<Rightarrow> bool" where
  "registry_inv o' w \<longleftrightarrow> (canonical_absolute o' \<longrightarrow> entries_ok (machines (fst w)))"

lemma io_then_on_files:
  assumes "\<And>x w'. fst w' = fst w \<Longrightarrow> \<exists>s. f (snd w) = (Inr x, s) \<Longrightarrow> Q (fst (snd (g x w')))" and "Q (fst w)"
  shows "Q (fst (snd (io_then (on_files f w) err g)))"
  using assms by (cases w; cases "f (snd w)"; cases "fst (f (snd w))") (auto simp: on_files_def)

lemma move_entry_ok:
  assumes "entries_ok (machines (fst w))" "absolute dir" "i < length (machines (fst w))"
  shows "entries_ok (machines (fst (snd (move_entry o' dir c i w))))"
  unfolding move_entry_def
proof (rule io_then_on_files)
  fix st and w' :: "registry \<times> fs" assume w': "fst w' = fst w"
  have free: "\<forall>j < length (machines (fst w)). j \<noteq> i \<longrightarrow> machine_dir (machines (fst w) ! j) \<noteq> dir"
    if "find (\<lambda>(j, x). j \<noteq> i \<and> machine_dir x = dir) (enumerate 0 (machines (fst w))) = None"
    using that by (auto simp: find_None_iff in_set_enumerate_eq)
  show "entries_ok (machines (fst (snd (if still_running o' st
       then (Inl (''machine '' @ [CHR 0x27] @ machine_name c @ [CHR 0x27] @
         '' is still running and cannot be re-registered at its moved directory''), w')
       else case find (\<lambda>(j, x). j \<noteq> i \<and> machine_dir x = dir) (enumerate 0 (machines (fst w'))) of
         Some (_, x) \<Rightarrow> (Inl (taken_text dir x), w')
       | None \<Rightarrow> save_now o'
           ((fst w')\<lparr>machines := (machines (fst w'))[i := (machines (fst w') ! i)\<lparr>machine_dir := dir\<rparr>]\<rparr>, snd w')))))"
    using assms w' free by (auto split: option.split intro: entries_ok_moved)
qed (use assms in simp)

lemma reregister_ok:
  assumes "entries_ok (machines (fst w))" "absolute dir" "i < length (machines (fst w))"
  shows "entries_ok (machines (fst (snd (reregister o' dir c i w))))"
proof -
  let ?l = "on_files (fs_lstat (machine_dir (machines (fst w) ! i))) w"
  have "entries_ok (machines (fst (snd (move_entry o' dir c i (snd ?l)))))"
    using assms by (intro move_entry_ok) simp_all
  then show ?thesis
    using assms(1) by (simp add: reregister_def Let_def case_prod_beta)
qed

lemma register_new_ok:
  assumes "entries_ok (machines (fst w))" "absolute dir" "validate_name (machine_name c) = Inr ()"
    and "position (\<lambda>e. reg_name e = machine_name c \<or> reg_id e = machine_id c) (machines (fst w)) = None"
  shows "entries_ok (machines (fst (snd (register_new o' dir c w))))"
  using assms by (auto simp: register_new_def Let_def position_None find_None_iff split: option.split intro!: entries_ok_added)

lemma register_machine_ok:
  assumes ok: "entries_ok (machines (fst w))" and law: "canonical_absolute o'"
  shows "entries_ok (machines (fst (snd (register_machine o' d w))))"
proof (cases "canonicalize o' d")
  case (Inl e)
  then show ?thesis
    using ok by (simp add: register_machine_def)
next
  case (Inr dir)
  have dir: "absolute dir"
    using law Inr by (simp add: canonical_absolute_def)
  have "entries_ok (machines (fst (snd (io_then (on_files (machine_load (config_dec o') dir) w) id (\<lambda>c w.
      case position (\<lambda>e. reg_name e = machine_name c \<or> reg_id e = machine_id c) (machines (fst w)) of
        Some i \<Rightarrow> reregister o' dir c i w | None \<Rightarrow> register_new o' dir c w)))))"
  proof (rule io_then_on_files)
    fix c and w' :: "registry \<times> fs" assume w': "fst w' = fst w" and "\<exists>s. machine_load (config_dec o') dir (snd w) = (Inr c, s)"
    then have "validate_name (machine_name c) = Inr ()"
      using load_name_ok by blast
    then show "entries_ok (machines (fst (snd (case position (\<lambda>e. reg_name e = machine_name c \<or> reg_id e = machine_id c) (machines (fst w')) of
        Some i \<Rightarrow> reregister o' dir c i w' | None \<Rightarrow> register_new o' dir c w'))))"
      using ok dir w' by (auto split: option.split intro!: reregister_ok register_new_ok dest: position_Some)
  qed (rule ok)
  then show ?thesis
    by (simp add: register_machine_def Inr)
qed

lemma unregister_ok: "entries_ok (machines (fst w)) \<Longrightarrow> entries_ok (machines (fst (snd (unregister o' n w))))"
  by (simp add: unregister_def Let_def entries_ok_filter)

interpretation index: machine "registry_step o'" "registry_inv o'" for o'
  by unfold_locales
    (auto simp: registry_inv_def registry_step_def register_machine_ok unregister_ok case_prod_beta split: command.split)

section \<open>What the file holds\<close>

lemma write_registry_outcome:
  assumes "nodes s temp = Some (Regular [] 0x180)" and neq: "temp \<noteq> p"
  shows "outcome (write_registry o' temp dir p bytes s) (save_outcome temp p (json_file bytes) s)"
  unfolding write_registry_def
proof (rule outcome_then [OF outcome_append [OF assms(1)]])
  fix x :: unit and v :: fs
  assume v: "kept temp s v \<and> (is_ok (Inr x) \<longrightarrow> nodes v temp = Some (Regular ([] @ bytes) 0x180))"
  then have fv: "nodes v temp = Some (Regular bytes 0x180)"
    by simp
  show "outcome (io_then (fs_write temp [10] v) (\<lambda>_. ''write'') (\<lambda>_ s.
     io_then (fs_sync temp s) (\<lambda>_. ''sync'') (\<lambda>_ s.
     io_then (fs_rename temp p s) (\<lambda>_. ''committing '' @ path_display p) (\<lambda>_ s.
     io_then (fs_sync dir s) (\<lambda>_. ''open'') (\<lambda>_ s.
     io_then (fs_sync dir s) (\<lambda>_. ''sync'') (\<lambda>_ s. (Inr (), s))))))) (save_outcome temp p (json_file bytes) s)"
    by (rule outcome_then [OF outcome_append [OF fv]])
      (use v neq in \<open>auto intro!: commit_steps_outcome save_outcome_early intro: kept_trans sync_outcome(2)\<close>)
qed (use neq in \<open>simp add: save_outcome_early\<close>)

definition registry_written :: "outside \<Rightarrow> registry \<Rightarrow> nodes \<Rightarrow> bool" where
  "registry_written o' reg n \<longleftrightarrow>
     n (reg_path reg) = Some (Regular (doc_enc o' (REGISTRY_SCHEMA, machines reg) @ [10]) 0x180)"

definition save_result :: "outside \<Rightarrow> registry \<Rightarrow> fs \<Rightarrow> string + unit \<Rightarrow> fs \<Rightarrow> bool" where
  "save_result o' reg s r t \<longleftrightarrow>
     (nodes t (reg_path reg) = nodes s (reg_path reg) \<or> registry_written o' reg (nodes t)) \<and>
     (r = Inr () \<longrightarrow> registry_written o' reg (nodes t))"

lemma save_result_early: "nodes t (reg_path reg) = nodes s (reg_path reg) \<Longrightarrow> save_result o' reg s (Inl e) t"
  by (simp add: save_result_def)

lemma replace_registry_outcome:
  assumes t: "nodes t (reg_path reg) = nodes s (reg_path reg)" and neq: "temporary o' reg \<noteq> reg_path reg"
  shows "outcome (replace_registry o' reg dir t) (save_result o' reg s)"
  unfolding replace_registry_def
proof (rule outcome_then [OF create_new_outcome])
  let ?p = "reg_path reg" and ?temp = "temporary o' reg" and ?bytes = "doc_enc o' (REGISTRY_SCHEMA, machines reg)"
  fix x :: unit and u :: fs
  assume "if is_ok (Inr x) then nodes u = (nodes t)(?temp \<mapsto> Regular [] 0x180) else nodes u = nodes t"
  then have u: "nodes u ?temp = Some (Regular [] 0x180)" "nodes u ?p = nodes s ?p"
    using neq t by simp_all
  obtain r w where w: "write_registry o' ?temp dir ?p ?bytes u = (r, w)"
    by (rule prod.exhaust)
  have o: "save_outcome ?temp ?p (json_file ?bytes) u r w"
    using outcome_cases [OF w write_registry_outcome [OF u(1) neq]] .
  have rm: "nodes (snd (fs_remove ?temp w)) ?p = nodes w ?p"
    using neq by (auto simp: fs_remove_def fs_do_def take_fault_def split: list.split option.split node.split prod.split)
  show "outcome (case write_registry o' ?temp dir ?p ?bytes u of
       (Inr v, s') \<Rightarrow> (Inr v, s') | (Inl e, s') \<Rightarrow> (Inl e, snd (fs_remove ?temp s'))) (save_result o' reg s)"
    using o w rm u(2)
    by (cases r) (auto simp: outcome_def save_outcome_def saved_or_not_def registry_written_def save_result_def)
qed (use t in \<open>auto intro!: save_result_early\<close>)

lemma registry_save_outcome:
  assumes dir: "parent (reg_path reg) = Some dir" and neq: "temporary o' reg \<noteq> reg_path reg"
    and ok: "entries_ok (machines reg)"
  shows "outcome (registry_save o' reg s) (save_result o' reg s)"
proof -
  have np: "reg_path reg \<notin> set (ancestors dir)"
    using dir by (rule parent_not_ancestor)
  then have pd: "reg_path reg \<noteq> dir"
    by (auto simp: ancestors_def)
  have secured: "outcome (io_then (fs_set_mode dir 0x1C0 t) e (\<lambda>_ s. replace_registry o' reg dir s)) (save_result o' reg s)"
    if t: "nodes t (reg_path reg) = nodes s (reg_path reg)" for t e
    by (rule outcome_then [OF set_mode_kept])
      (use t pd neq in \<open>auto intro!: save_result_early replace_registry_outcome simp: kept_def\<close>)
  have "nodes t (reg_path reg) = nodes s (reg_path reg)"
    if "nodes t = nodes s \<or> nodes t = make_dirs (ancestors dir) (nodes s)" for t
    using that np by (auto simp: make_dirs_def)
  note same = this
  have run: "registry_save o' reg s = io_then (fs_create_dir_all dir s) (\<lambda>_. ''creating '' @ path_display dir) (\<lambda>_ s.
      io_then (fs_set_mode dir 0x1C0 s) (\<lambda>_. ''protecting '' @ path_display dir) (\<lambda>_ s. replace_registry o' reg dir s))"
    using ok dir validate_entries_iff [of "machines reg"] by (simp add: registry_save_def)
  show ?thesis
    unfolding run by (rule outcome_then [OF create_dirs_outcome]) (blast intro: save_result_early same secured)+
qed

section \<open>Properties\<close>

text \<open>
  C24. The registry stays consistent. From an opened registry, after any commands, successful or
  not, with any faults and any changes of the files by others in between, every entry has a valid
  name and an absolute directory, and no two entries share an id, a name or a directory
  (for a kernel whose canonical paths are absolute).
\<close>

theorem registry_consistent:
  assumes "canonical_absolute o'" and "registry_open o' p s = (Inr reg, t)"
  shows "entries_ok (machines (fst (fst (run_machine (registry_step o') (reg, t) cs))))"
proof -
  have "entries_ok (machines reg)"
    using assms(2) validate_entries_iff
    by (auto simp: registry_open_def result_simps entries_ok_def split: if_splits prod.splits sum.splits fs_error.splits)
  then have "registry_inv o' (reg, t)"
    by (simp add: registry_inv_def)
  then have "registry_inv o' (fst (run_machine (registry_step o') (reg, t) cs))"
    by (rule index.run_inv)
  then show ?thesis
    using assms(1) by (simp add: registry_inv_def)
qed

lemma temporary_differs:
  "reg_path reg = file_in cfg ''machines.json'' \<Longrightarrow> temporary o' reg \<noteq> reg_path reg"
  by (simp add: temporary_def with_extension_def file_in_def file_stem_def)

lemma save_now_written:
  assumes save: "save_now o' w = (Inr (), w')" and path: "reg_path (fst w) = file_in cfg ''machines.json''"
  shows "fst w' = fst w" "registry_written o' (fst w) (nodes (snd w'))"
proof -
  show "fst w' = fst w"
    using save_now_registry [of o' w] by (simp add: save)
  have r: "registry_save o' (fst w) (snd w) = (Inr (), snd w')"
    using save by (auto simp: save_now_def split: prod.splits)
  then have "entries_ok (machines (fst w))"
    by (auto simp: registry_save_def validate_entries_iff [symmetric] result_simps split: sum.splits)
  then have "outcome (registry_save o' (fst w) (snd w)) (save_result o' (fst w) (snd w))"
    using path temporary_differs [OF path] by (intro registry_save_outcome) simp_all
  from outcome_cases [OF r this] show "registry_written o' (fst w) (nodes (snd w'))"
    by (simp add: save_result_def)
qed

lemma written_opens:
  assumes "registry_written o' reg (nodes s)" "faults s = []" "absolute (reg_path reg)" "entries_ok (machines reg)"
    and "doc_dec o' (doc_enc o' (REGISTRY_SCHEMA, machines reg) @ [10]) = Inr (REGISTRY_SCHEMA, machines reg)"
  shows "fst (registry_open o' (reg_path reg) s) = Inr reg"
proof -
  have "fs_read (reg_path reg) s = (Inr (doc_enc o' (REGISTRY_SCHEMA, machines reg) @ [10]), s)"
    using assms(1,2) by (simp add: registry_written_def fs_read_def fs_do_quiet stat_not_link)
  then show ?thesis
    using assms(3,4,5) validate_entries_iff [of "machines reg"] by (simp add: registry_open_def)
qed

definition entry_for :: "machine_config \<Rightarrow> path \<Rightarrow> registered_machine" where
  "entry_for c dir = \<lparr>reg_id = machine_id c, reg_name = machine_name c, machine_dir = dir\<rparr>"

lemma io_then_on_files_Inr:
  "io_then (on_files f w) err g = (Inr y, w') \<Longrightarrow> \<exists>x s. f (snd w) = (Inr x, s) \<and> g x (fst w, s) = (Inr y, w')"
  by (cases w; cases "f (snd w)"; cases "fst (f (snd w))") (auto simp: on_files_def)

lemma move_entry_done:
  assumes "move_entry o' dir c i w = (Inr (), w')"
  shows "\<exists>s. save_now o' ((fst w)\<lparr>machines := (machines (fst w))[i := (machines (fst w) ! i)\<lparr>machine_dir := dir\<rparr>]\<rparr>, s) = (Inr (), w')"
  using io_then_on_files_Inr [OF assms [unfolded move_entry_def]] by (auto split: if_splits option.splits)

lemma reregister_cases:
  assumes "reregister o' dir c i w = (Inr (), w')"
  shows "machines (fst w) ! i = entry_for c dir \<and> w' = w \<or>
    reg_name (machines (fst w) ! i) = machine_name c \<and> reg_id (machines (fst w) ! i) = machine_id c \<and>
      move_entry o' dir c i (snd (on_files (fs_lstat (machine_dir (machines (fst w) ! i))) w)) = (Inr (), w')"
  using assms by (auto simp: reregister_def Let_def case_prod_beta entry_for_def split: if_splits)

lemma reregister_done:
  assumes run: "reregister o' dir c i w = (Inr (), w')" and i: "i < length (machines (fst w))"
    and path: "reg_path (fst w) = file_in cfg ''machines.json''"
  shows "entry_for c dir \<in> set (machines (fst w')) \<and> reg_path (fst w') = reg_path (fst w) \<and>
    (fst w' = fst w \<or> registry_written o' (fst w') (nodes (snd w')))"
  using reregister_cases [OF run]
proof (elim disjE conjE)
  assume "machines (fst w) ! i = entry_for c dir" "w' = w"
  then show ?thesis
    using i nth_mem [of i "machines (fst w)"] by simp
next
  let ?e = "machines (fst w) ! i"
  assume e: "reg_name ?e = machine_name c" "reg_id ?e = machine_id c"
    and m: "move_entry o' dir c i (snd (on_files (fs_lstat (machine_dir ?e)) w)) = (Inr (), w')"
  obtain s where u: "save_now o' ((fst w)\<lparr>machines := (machines (fst w))[i := ?e\<lparr>machine_dir := dir\<rparr>]\<rparr>, s) = (Inr (), w')"
    using move_entry_done [OF m] by auto
  have "?e\<lparr>machine_dir := dir\<rparr> = entry_for c dir"
    using e by (cases ?e) (simp add: entry_for_def)
  then have "entry_for c dir \<in> set ((machines (fst w))[i := ?e\<lparr>machine_dir := dir\<rparr>])"
    using i by (simp add: set_update_memI)
  then show ?thesis
    using save_now_written [OF u] path by simp
qed

lemma register_new_done:
  assumes "register_new o' dir c w = (Inr (), w')" and path: "reg_path (fst w) = file_in cfg ''machines.json''"
  shows "entry_for c dir \<in> set (machines (fst w')) \<and> reg_path (fst w') = reg_path (fst w) \<and>
    registry_written o' (fst w') (nodes (snd w'))"
proof -
  have u: "save_now o' ((fst w)\<lparr>machines := sort_key reg_name (machines (fst w) @ [entry_for c dir])\<rparr>, snd w) = (Inr (), w')"
    using assms(1) by (auto simp: register_new_def Let_def entry_for_def split: option.splits)
  then show ?thesis
    using save_now_written [OF u] path by simp
qed

lemma register_done:
  assumes "register_machine o' d w = (Inr (), w')" and path: "reg_path (fst w) = file_in cfg ''machines.json''"
  shows "\<exists>dir c s. canonicalize o' d = Inr dir \<and> machine_load (config_dec o') dir (snd w) = (Inr c, s) \<and>
    entry_for c dir \<in> set (machines (fst w')) \<and> reg_path (fst w') = reg_path (fst w) \<and>
    (fst w' = fst w \<or> registry_written o' (fst w') (nodes (snd w')))"
proof (cases "canonicalize o' d")
  case (Inr dir)
  have run: "io_then (on_files (machine_load (config_dec o') dir) w) id (\<lambda>c w.
      case position (\<lambda>e. reg_name e = machine_name c \<or> reg_id e = machine_id c) (machines (fst w)) of
        Some i \<Rightarrow> reregister o' dir c i w | None \<Rightarrow> register_new o' dir c w) = (Inr (), w')"
    using assms(1) by (simp add: register_machine_def Inr)
  obtain c s where c: "machine_load (config_dec o') dir (snd w) = (Inr c, s)"
    and r: "(case position (\<lambda>e. reg_name e = machine_name c \<or> reg_id e = machine_id c) (machines (fst w)) of
        Some i \<Rightarrow> reregister o' dir c i (fst w, s) | None \<Rightarrow> register_new o' dir c (fst w, s)) = (Inr (), w')"
    using io_then_on_files_Inr [OF run] by auto
  have "entry_for c dir \<in> set (machines (fst w')) \<and> reg_path (fst w') = reg_path (fst w) \<and>
      (fst w' = fst w \<or> registry_written o' (fst w') (nodes (snd w')))"
  proof (cases "position (\<lambda>e. reg_name e = machine_name c \<or> reg_id e = machine_id c) (machines (fst w))")
    case None
    then show ?thesis
      using r register_new_done [of o' dir c "(fst w, s)" w' cfg] path by simp
  next
    case (Some i)
    then show ?thesis
      using r reregister_done [of o' dir c i "(fst w, s)" w' cfg] path position_Some [OF Some] by simp
  qed
  then show ?thesis
    using Inr c by auto
qed (use assms in \<open>simp add: register_machine_def\<close>)

text \<open>
  A registration that reports success holds. The machine's configuration was read from the
  canonical directory, its id, name and directory are an entry of the registry, and unless the
  registry is unchanged, opening the registry file again gives exactly the registry in memory
  (for a JSON codec that reads back what it wrote).
\<close>

lemma register_persists:
  assumes "register_machine o' d w = (Inr (), w')" and "entries_ok (machines (fst w))" and "canonical_absolute o'"
    and "reg_path (fst w) = file_in cfg ''machines.json''" and "absolute cfg" and "faults (snd w') = []"
    and "doc_dec o' (doc_enc o' (REGISTRY_SCHEMA, machines (fst w')) @ [10]) = Inr (REGISTRY_SCHEMA, machines (fst w'))"
  shows "\<exists>dir c s. canonicalize o' d = Inr dir \<and> machine_load (config_dec o') dir (snd w) = (Inr c, s) \<and>
    \<lparr>reg_id = machine_id c, reg_name = machine_name c, machine_dir = dir\<rparr> \<in> set (machines (fst w')) \<and>
    (fst w' = fst w \<or> fst (registry_open o' (reg_path (fst w')) (snd w')) = Inr (fst w'))"
proof -
  have ok: "entries_ok (machines (fst w'))"
    using register_machine_ok [OF assms(2,3), of d] assms(1) by simp
  obtain dir c s where r: "canonicalize o' d = Inr dir" "machine_load (config_dec o') dir (snd w) = (Inr c, s)"
    "entry_for c dir \<in> set (machines (fst w'))" "reg_path (fst w') = reg_path (fst w)"
    "fst w' = fst w \<or> registry_written o' (fst w') (nodes (snd w'))"
    using register_done [OF assms(1,4)] by blast
  have "absolute (reg_path (fst w'))"
    using r(4) assms(4,5) by (simp add: file_in_def)
  then have "fst w' = fst w \<or> fst (registry_open o' (reg_path (fst w')) (snd w')) = Inr (fst w')"
    using r(5) written_opens [OF _ assms(6) _ ok assms(7)] by blast
  then show ?thesis
    using r by (auto simp: entry_for_def)
qed

text \<open>
  C36. A resolved name leads to its machine. The directory returned is that of the one entry with this
  name, it is a real directory (not a link) at that moment, and its configuration passes all
  checks and carries the entry's id and this name.
\<close>

theorem resolved_machine_sound:
  assumes "resolve_name o' name reg s = (Inr d, t)" and "entries_ok (machines reg)"
  shows "\<exists>e c u. {x \<in> set (machines reg). reg_name x = name} = {e} \<and> machine_dir e = d \<and> nodes s d = Some Directory \<and>
    nodes u = nodes s \<and> machine_load (config_dec o') d u = (Inr c, t) \<and>
    machine_id c = reg_id e \<and> machine_name c = name"
proof -
  obtain e where f: "find (\<lambda>e. reg_name e = name) (machines reg) = Some e" and d: "machine_dir e = d"
    and v: "verify_entry o' e s = (Inr (), t)"
    using assms(1) by (auto simp: resolve_name_def result_simps split: sum.splits)
  then have e: "e \<in> set (machines reg)" "reg_name e = name"
    by (auto simp: find_Some_iff)
  have only: "{x \<in> set (machines reg). reg_name x = name} = {e}"
    using e assms(2) by (auto simp: entries_ok_def distinct_map inj_on_def)
  have "\<exists>c u. nodes s d = Some Directory \<and> nodes u = nodes s \<and> machine_load (config_dec o') d u = (Inr c, t) \<and>
      machine_id c = reg_id e \<and> machine_name c = reg_name e"
  proof -
    obtain x u where l: "fs_lstat (machine_dir e) s = (Inr x, u)"
      and r: "(if x \<noteq> Directory then (Inl (''registered machine directory must be a real directory: '' @ path_display (machine_dir e)), u)
       else io_then (machine_load (config_dec o') (machine_dir e) u) id (\<lambda>c s.
         (bail_if (machine_id c \<noteq> reg_id e \<or> machine_name c \<noteq> reg_name e)
           (''registered metadata for '' @ [CHR 0x27] @ reg_name e @ [CHR 0x27] @ '' does not match '' @ path_display (machine_dir e)), s))) = (Inr (), t)"
      using v unfolding verify_entry_def io_then_eq_Inr by blast
    have "outcome (fs_lstat (machine_dir e) s) (\<lambda>r u. nodes u = nodes s \<and> (\<forall>x. r = Inr x \<longrightarrow> nodes s (machine_dir e) = Some x))"
      unfolding fs_lstat_def by (rule outcome_fs_do) (auto split: option.splits)
    from outcome_cases [OF l this] have "nodes u = nodes s" "nodes s (machine_dir e) = Some x"
      by simp_all
    then show ?thesis
      using r d by (auto simp: result_simps split: if_splits)
  qed
  then show ?thesis
    using only d e(2) by blast
qed

section \<open>The properties at a concrete registry\<close>

definition demo_entry :: registered_machine where
  "demo_entry = \<lparr>reg_id = ''id'', reg_name = ''demo'', machine_dir = Path True [''m'']\<rparr>"

definition demo_outside :: outside where
  "demo_outside = \<lparr>config_dec = (\<lambda>_. Inr demo_config), runtime_dec = (\<lambda>_. Inl ''bad''), doc_enc = (\<lambda>_. [9]),
     doc_dec = (\<lambda>_. Inr (1, [demo_entry])), canonicalize = (\<lambda>p. Inr (Path True (components p))), pid_alive = (\<lambda>_. False), own_pid = 7\<rparr>"

definition demo_registry :: registry where
  "demo_registry = \<lparr>reg_path = file_in (Path True [''cfg'']) ''machines.json'', machines = []\<rparr>"

lemma demo_config_load:
  "machine_load (\<lambda>_. Inr demo_config) (Path True [''m'']) (demo_fs []) = (Inr demo_config, demo_fs [])"
  using demo_config_ok checks_agree [of demo_config]
  by (simp add: machine_load_def fs_read_def fs_do_def take_fault_def stat_not_link demo_fs_def file_in_def CONFIG_FILE_def)

lemma demo_entry_config: "entry_for demo_config (Path True [''m'']) = demo_entry"
  by (simp add: entry_for_def demo_entry_def demo_config_def config_new_def)

lemma demo_entry_ok: "entries_ok [demo_entry]"
  by (simp add: entries_ok_def demo_entry_def validate_name_def ascii_alphanumeric_def ascii_lower_def)

lemma demo_fields [simp]:
  "reg_name demo_entry = ''demo''" "reg_id demo_entry = ''id''" "machine_dir demo_entry = Path True [''m'']"
  "machine_id demo_config = ''id''" "machine_name demo_config = ''demo''"
  "config_dec demo_outside = (\<lambda>_. Inr demo_config)" "canonicalize demo_outside = (\<lambda>p. Inr (Path True (components p)))"
  "doc_enc demo_outside = (\<lambda>_. [9])" "doc_dec demo_outside = (\<lambda>_. Inr (1, [demo_entry]))"
  "machines demo_registry = []" "reg_path demo_registry = file_in (Path True [''cfg'']) ''machines.json''"
  by (simp_all add: demo_entry_def demo_outside_def demo_config_def config_new_def demo_registry_def)

lemma demo_lstat: "fs_lstat (Path True [''m'']) (demo_fs []) = (Inr Directory, demo_fs [])"
  by (simp add: fs_lstat_def fs_do_def take_fault_def demo_fs_def)

theorem resolved_machine_sound_witness: "nodes (demo_fs []) (Path True [''m'']) = Some Directory"
proof -
  have "verify_entry demo_outside demo_entry (demo_fs []) = (Inr (), demo_fs [])"
    by (simp add: verify_entry_def demo_lstat demo_config_load)
  moreover have "validate_name ''demo'' = Inr ()"
    using demo_entry_ok by (simp add: entries_ok_def)
  ultimately have "resolve_name demo_outside ''demo'' (demo_registry\<lparr>machines := [demo_entry]\<rparr>) (demo_fs []) =
      (Inr (Path True [''m'']), demo_fs [])"
    by (simp add: resolve_name_def)
  from resolved_machine_sound [OF this] demo_entry_ok show ?thesis
    by auto
qed

lemma demo_open: "registry_open demo_outside (reg_path demo_registry) (demo_fs []) = (Inr demo_registry, demo_fs [])"
  by (simp add: registry_open_def fs_read_def fs_do_def take_fault_def stat_not_link)
    (simp add: demo_fs_def demo_registry_def file_in_def stat_node_def MAX_LINKS_def eval_nat_numeral)

lemma demo_canonical: "canonical_absolute demo_outside"
  by (auto simp: canonical_absolute_def)

theorem registry_consistent_witness:
  "entries_ok (machines (fst (fst (run_machine (registry_step demo_outside) (demo_registry, demo_fs [])
     [Register (Path True [''m'']), Others (demo_fs [None, Some (Fs_Other, 0)]), Unregister ''demo'']))))"
  by (rule registry_consistent [OF demo_canonical demo_open])

lemma replace_quiet:
  assumes "faults s = []" "nodes s (temporary o' reg) = None" "nodes s (reg_path reg) \<noteq> Some Directory"
    and "temporary o' reg \<noteq> reg_path reg"
  shows "\<exists>t. replace_registry o' reg dir s = (Inr (), t) \<and> faults t = []"
  using assms
  by (simp add: replace_registry_def write_registry_def fs_create_new_def fs_do_quiet fs_write_quiet fs_sync_def
      fs_rename_def append_node_def)

lemma demo_register_save:
  "\<exists>s. registry_save demo_outside (demo_registry\<lparr>machines := [demo_entry]\<rparr>) (demo_fs []) = (Inr (), s) \<and> faults s = []"
proof -
  let ?reg = "demo_registry\<lparr>machines := [demo_entry]\<rparr>" and ?cfg = "Path True [''cfg'']"
  define s where "s = (demo_fs [])\<lparr>nodes := make_dirs (ancestors ?cfg) (nodes (demo_fs []))\<rparr>"
  have "fs_create_dir_all ?cfg (demo_fs []) = (Inr (), s)"
    unfolding s_def by (rule create_dirs_quiet) (simp_all add: demo_fs_def dirs_ready_def ancestors_def)
  moreover have q: "faults s = []" "nodes s ?cfg = Some Directory" "nodes s (reg_path ?reg) = None"
    by (simp_all add: s_def demo_fs_def make_dirs_def ancestors_def file_in_def)
  moreover have "fs_set_mode ?cfg 0x1C0 s = (Inr (), s)"
    using q by (simp add: fs_set_mode_def fs_do_quiet)
  moreover have "nodes s (temporary demo_outside ?reg) = None"
    by (simp add: s_def demo_fs_def make_dirs_def ancestors_def file_in_def temporary_def with_extension_def)
  then have "\<exists>t. replace_registry demo_outside ?reg ?cfg s = (Inr (), t) \<and> faults t = []"
    using q temporary_differs [of ?reg ?cfg demo_outside] by (intro replace_quiet) simp_all
  moreover have "validate_entries [demo_entry] = Inr ()"
    using demo_entry_ok validate_entries_iff by simp
  ultimately show ?thesis
    by (auto simp: registry_save_def)
qed

theorem register_persists_witness:
  "fst (registry_open demo_outside (file_in (Path True [''cfg'']) ''machines.json'')
     (snd (snd (register_machine demo_outside (Path True [''m'']) (demo_registry, demo_fs []))))) =
   Inr (demo_registry\<lparr>machines := [demo_entry]\<rparr>)"
proof -
  obtain s where s: "registry_save demo_outside (demo_registry\<lparr>machines := [demo_entry]\<rparr>) (demo_fs []) = (Inr (), s)" "faults s = []"
    using demo_register_save by blast
  have r: "register_machine demo_outside (Path True [''m'']) (demo_registry, demo_fs []) =
      (Inr (), demo_registry\<lparr>machines := [demo_entry]\<rparr>, s)"
    using s(1)
    by (simp add: register_machine_def on_files_def demo_config_load register_new_def save_now_def Let_def demo_entry_def [symmetric])
  have "\<not> demo_registry\<lparr>machines := [demo_entry]\<rparr> = demo_registry"
    by (simp add: demo_registry_def)
  then show ?thesis
    using register_persists [OF r, of "Path True [''cfg'']"] s(2) demo_canonical demo_entry_ok r
    by (auto simp: entries_ok_def REGISTRY_SCHEMA_def)
qed

end
