(* ===== verification/Managed_Files.thy ===== *)
theory Managed_Files
  imports State_Files
begin

text \<open>
  Managed files of the guest desktop, \<open>guest/desktop-core/src/persistence.rs\<close>: the bounded read that
  never follows a link, and the atomic replacement through the opened directory, over the
  file-system model. The names of the temporary files (fresh UUIDs) are a parameter.

  The interface \<open>managed_store\<close> is what the components that keep JSON documents rely on.
\<close>

section \<open>Operations\<close>

definition MAX_MANAGED_JSON_BYTES :: nat where "MAX_MANAGED_JSON_BYTES = 1024 * 1024"

datatype persistence_error =
  Missing_Parent string | Invalid_Filename string | Unsafe_Directory string | Unsafe_Target string
| Too_Large string nat | Json_Error | Nul_In_Path string | Io_Error string fs_error

definition io_err :: "path \<Rightarrow> fs_error \<Rightarrow> persistence_error" where
  "io_err p e = Io_Error (path_display p) e"

text \<open>\<open>file_name\<close> of a path that ends in \<open>..\<close> is absent.\<close>

definition filename :: "path \<Rightarrow> persistence_error + (path \<times> string)" where
  "filename p =
     then_ok (ok_or (Missing_Parent (path_display p)) (parent p)) (\<lambda>dir.
     if last (components p) = ''..'' \<or> last (components p) = ''.''
     then Inl (Invalid_Filename (path_display p)) else Inr (dir, last (components p)))"

definition c_string :: "string \<Rightarrow> path \<Rightarrow> persistence_error + string" where
  "c_string v p = (if CHR 0x00 \<in> set v then Inl (Nul_In_Path (path_display p)) else Inr v)"

definition open_directory :: "path \<Rightarrow> fs \<Rightarrow> (persistence_error + unit) \<times> fs" where
  "open_directory dir s =
     io_then (fs_lstat dir s) (io_err dir) (\<lambda>x s.
       if x \<noteq> Directory then (Inl (Unsafe_Directory (path_display dir)), s)
       else io_then (fs_open dir s) (io_err dir) (\<lambda>_ s. (Inr (), s)))"

definition reject_unsafe_existing_target :: "path \<Rightarrow> fs \<Rightarrow> (persistence_error + unit) \<times> fs" where
  "reject_unsafe_existing_target p s =
     (case fs_lstat p s of
        (Inr (Regular _ _), s') \<Rightarrow> (Inr (), s')
      | (Inr _, s') \<Rightarrow> (Inl (Unsafe_Target (path_display p)), s')
      | (Inl Fs_NotFound, s') \<Rightarrow> (Inr (), s')
      | (Inl e, s') \<Rightarrow> (Inl (io_err p e), s'))"

text \<open>Opening without following the final link, then the checks on the opened file.\<close>

definition read_bounded_at :: "path \<Rightarrow> nat \<Rightarrow> fs \<Rightarrow> (persistence_error + u8 list) \<times> fs" where
  "read_bounded_at p limit s =
     (case fs_lstat p s of
        (Inl e, s') \<Rightarrow> (Inl (io_err p e), s')
      | (Inr (Regular c _), s') \<Rightarrow>
          if limit < length c then (Inl (Too_Large (path_display p) limit), s')
          else io_then (fs_open p s') (io_err p) (\<lambda>_ s. (Inr c, s))
      | (Inr _, s') \<Rightarrow> (Inl (Unsafe_Target (path_display p)), s'))"

definition read_bounded :: "path \<Rightarrow> nat \<Rightarrow> fs \<Rightarrow> (persistence_error + u8 list) \<times> fs" where
  "read_bounded p limit s =
     (case filename p of
        Inl e \<Rightarrow> (Inl e, s)
      | Inr (dir, leaf) \<Rightarrow>
          io_then (open_directory dir s) id (\<lambda>_ s.
          case c_string leaf p of Inl e \<Rightarrow> (Inl e, s) | Inr _ \<Rightarrow> read_bounded_at p limit s))"

text \<open>One temporary file: its permissions, the bytes, the rename, and the directory.\<close>

definition write_temporary :: "path \<Rightarrow> path \<Rightarrow> path \<Rightarrow> u8 list \<Rightarrow> nat \<Rightarrow> fs \<Rightarrow> (persistence_error + unit) \<times> fs" where
  "write_temporary temp dir p bytes mode s =
     io_then (fs_set_mode temp mode s) (io_err p) (\<lambda>_ s.
     io_then (fs_write temp bytes s) (io_err p) (\<lambda>_ s.
     io_then (fs_sync temp s) (io_err p) (\<lambda>_ s.
     io_then (fs_rename temp p s) (io_err p) (\<lambda>_ s.
     io_then (fs_sync dir s) (io_err dir) (\<lambda>_ s. (Inr (), s))))))"

fun write_attempts :: "path list \<Rightarrow> path \<Rightarrow> path \<Rightarrow> u8 list \<Rightarrow> nat \<Rightarrow> fs \<Rightarrow> (persistence_error + unit) \<times> fs" where
  "write_attempts [] dir p bytes mode s = (Inl (io_err p Fs_Already_Exists), s)"
| "write_attempts (t # ts) dir p bytes mode s =
     (case fs_create_new t mode s of
        (Inl Fs_Already_Exists, s') \<Rightarrow> write_attempts ts dir p bytes mode s'
      | (Inl e, s') \<Rightarrow> (Inl (io_err p e), s')
      | (Inr _, s') \<Rightarrow>
          (case write_temporary t dir p bytes mode s' of
             (Inr u, s'') \<Rightarrow> (Inr u, s'')
           | (Inl e, s'') \<Rightarrow> (Inl e, snd (fs_remove t s''))))"

text \<open>Sixteen attempts with the fresh names \<open>ids\<close>.\<close>

definition temp_paths :: "(nat \<Rightarrow> string) \<Rightarrow> path \<Rightarrow> path list" where
  "temp_paths ids dir = map (\<lambda>i. file_in dir (''.buzzardos-'' @ ids i @ ''.tmp'')) [0..<16]"

definition atomic_write :: "(nat \<Rightarrow> string) \<Rightarrow> path \<Rightarrow> u8 list \<Rightarrow> nat \<Rightarrow> fs \<Rightarrow> (persistence_error + unit) \<times> fs" where
  "atomic_write ids p bytes mode s =
     (case filename p of
        Inl e \<Rightarrow> (Inl e, s)
      | Inr (dir, leaf) \<Rightarrow>
          io_then (open_directory dir s) id (\<lambda>_ s.
          io_then (reject_unsafe_existing_target p s) id (\<lambda>_ s.
          case c_string leaf p of Inl e \<Rightarrow> (Inl e, s)
          | Inr _ \<Rightarrow> write_attempts (temp_paths ids dir) dir p bytes (mode mod 512) s)))"

definition atomic_write_json :: "(nat \<Rightarrow> string) \<Rightarrow> path \<Rightarrow> u8 list \<Rightarrow> fs \<Rightarrow> (persistence_error + unit) \<times> fs" where
  "atomic_write_json ids p json s =
     (let bytes = json @ [10] in
      if MAX_MANAGED_JSON_BYTES < length bytes then (Inl (Too_Large (path_display p) MAX_MANAGED_JSON_BYTES), s)
      else atomic_write ids p bytes 0x180 s)"

section \<open>What a write leaves behind\<close>

definition temps_of :: "(nat \<Rightarrow> string) \<Rightarrow> path \<Rightarrow> path set" where
  "temps_of ids p = (case parent p of None \<Rightarrow> {} | Some dir \<Rightarrow> set (temp_paths ids dir))"

definition write_outcome :: "path \<Rightarrow> path set \<Rightarrow> node \<Rightarrow> nodes \<Rightarrow> 'e + unit \<Rightarrow> nodes \<Rightarrow> bool" where
  "write_outcome p temps x n r n' \<longleftrightarrow>
     saved_or_not p x n n' \<and> (r = Inr () \<longrightarrow> n' p = Some x) \<and> (\<forall>q. q \<noteq> p \<longrightarrow> q \<notin> temps \<longrightarrow> n' q = n q)"

lemma write_outcome_same: "n' = n \<Longrightarrow> write_outcome p temps x n (Inl e) n'"
  by (simp add: write_outcome_def saved_or_not_def)

lemma write_temporary_outcome:
  assumes "nodes s temp = Some (Regular [] m)" and neq: "temp \<noteq> p"
  shows "outcome (write_temporary temp dir p bytes mode s) (save_outcome temp p (Regular bytes mode) s)"
  unfolding write_temporary_def
proof (rule outcome_then [OF outcome_set_mode [OF assms(1)]])
  fix x :: unit and t :: fs
  assume t: "kept temp s t \<and> (is_ok (Inr x) \<longrightarrow> nodes t temp = Some (Regular [] mode))"
  then have f: "nodes t temp = Some (Regular [] mode)"
    by simp
  show "outcome (io_then (fs_write temp bytes t) (io_err p) (\<lambda>_ s.
     io_then (fs_sync temp s) (io_err p) (\<lambda>_ s.
     io_then (fs_rename temp p s) (io_err p) (\<lambda>_ s.
     io_then (fs_sync dir s) (io_err dir) (\<lambda>_ s. (Inr (), s)))))) (save_outcome temp p (Regular bytes mode) s)"
    by (rule outcome_then [OF outcome_append [OF f]])
      (use t neq in \<open>auto intro!: commit_steps_outcome save_outcome_early intro: kept_trans sync_outcome(1)\<close>)
qed (use neq in \<open>simp add: save_outcome_early\<close>)

lemma remove_other: "q \<noteq> t \<Longrightarrow> nodes (snd (fs_remove t s)) q = nodes s q"
  by (auto simp: fs_remove_def fs_do_def take_fault_def split: list.split option.split node.split prod.split)

lemma write_attempts_outcome:
  assumes "p \<notin> set ts"
  shows "outcome (write_attempts ts dir p bytes mode s) (\<lambda>r t. write_outcome p (set ts) (Regular bytes mode) (nodes s) r (nodes t))"
  using assms
proof (induction ts arbitrary: s)
  case (Cons temp ts)
  let ?x = "Regular bytes mode"
  obtain r t where c: "fs_create_new temp mode s = (r, t)"
    by (rule prod.exhaust)
  have o: "if is_ok r then nodes t = (nodes s)(temp \<mapsto> Regular [] mode) else nodes t = nodes s"
    using outcome_cases [OF c create_new_outcome] .
  show ?case
  proof (cases r)
    case (Inl e)
    then have same: "nodes t = nodes s"
      using o by simp
    have "outcome (write_attempts ts dir p bytes mode t) (\<lambda>r u. write_outcome p (set ts) ?x (nodes t) r (nodes u))"
      using Cons by simp
    then have "outcome (write_attempts ts dir p bytes mode t) (\<lambda>r u. write_outcome p (set (temp # ts)) ?x (nodes s) r (nodes u))"
      using same by (auto simp: outcome_def write_outcome_def)
    then show ?thesis
      using c Inl same by (cases e) (auto simp: outcome_def intro: write_outcome_same)
  next
    case (Inr u)
    have neq: "temp \<noteq> p"
      using Cons.prems by auto
    obtain r2 v where w: "write_temporary temp dir p bytes mode t = (r2, v)"
      by (rule prod.exhaust)
    have t: "nodes t = (nodes s)(temp \<mapsto> Regular [] mode)"
      using o Inr by simp
    then have "nodes t temp = Some (Regular [] mode)"
      by simp
    from outcome_cases [OF w write_temporary_outcome [OF this neq]]
    have "write_outcome p (set (temp # ts)) ?x (nodes s) r2 (nodes v)"
      using t neq by (auto simp: save_outcome_def write_outcome_def saved_or_not_def)
    then show ?thesis
      using c Inr w neq remove_other [of _ temp v] by (cases r2) (auto simp: outcome_def write_outcome_def saved_or_not_def)
  qed
qed (simp add: outcome_def write_outcome_same)

lemma temp_paths_not_dir:
  assumes "t \<in> set (temp_paths ids dir)"
  shows "t \<noteq> dir" and "parent t = Some dir"
proof -
  show "t \<noteq> dir"
  proof
    assume "t = dir"
    then have "length (components t) = length (components dir)"
      by simp
    then show False
      using assms by (auto simp: temp_paths_def file_in_def)
  qed
  show "parent t = Some dir"
    using assms by (cases dir) (auto simp: temp_paths_def file_in_def parent_def)
qed

lemma outcome_lstat: "outcome (fs_lstat p s) (\<lambda>r t. nodes t = nodes s \<and> (\<forall>x. r = Inr x \<longrightarrow> nodes s p = Some x))"
  unfolding fs_lstat_def by (rule outcome_fs_do) (auto split: option.splits)

lemma outcome_open_directory:
  "outcome (open_directory dir s) (\<lambda>r t. nodes t = nodes s \<and> (is_ok r \<longrightarrow> nodes s dir = Some Directory))"
proof -
  have "outcome (io_then (fs_open dir t) (io_err dir) (\<lambda>_ s. (Inr (), s))) (\<lambda>r t. nodes t = nodes s)"
    if "nodes t = nodes s" for t :: fs
    by (rule outcome_then [OF outcome_sync]) (simp_all add: outcome_def that)
  then show ?thesis
    unfolding open_directory_def
    by (intro outcome_then [OF outcome_lstat]) (auto simp: outcome_def)
qed

lemma outcome_reject: "outcome (reject_unsafe_existing_target p s) (\<lambda>r t. nodes t = nodes s)"
proof -
  obtain r t where l: "fs_lstat p s = (r, t)"
    by (rule prod.exhaust)
  show ?thesis
    using outcome_cases [OF l outcome_lstat] l
    by (auto simp: reject_unsafe_existing_target_def outcome_def split: sum.split node.split fs_error.split)
qed

lemma atomic_write_outcome:
  assumes "p \<notin> temps_of ids p"
  shows "outcome (atomic_write ids p bytes mode s)
    (\<lambda>r t. write_outcome p (temps_of ids p) (Regular bytes (mode mod 512)) (nodes s) r (nodes t) \<and>
       (is_ok r \<longrightarrow> (\<exists>dir leaf. filename p = Inr (dir, leaf) \<and> nodes s dir = Some Directory \<and> CHR 0x00 \<notin> set leaf)))"
    (is "outcome _ ?Q")
proof (cases "filename p")
  case (Inl e)
  then show ?thesis
    by (simp add: atomic_write_def outcome_def write_outcome_same)
next
  case (Inr dl)
  obtain dir leaf where dl: "dl = (dir, leaf)"
    by (rule prod.exhaust)
  have "parent p = Some dir"
    using Inr dl by (auto simp: filename_def result_simps split: if_splits)
  then have temps: "temps_of ids p = set (temp_paths ids dir)"
    by (simp add: temps_of_def)
  have quiet: "?Q (Inl e) t" if "nodes t = nodes s" for e t
    using that by (simp add: write_outcome_same)
  have attempts: "outcome (case c_string leaf p of Inl e \<Rightarrow> (Inl e, t)
       | Inr _ \<Rightarrow> write_attempts (temp_paths ids dir) dir p bytes (mode mod 512) t) ?Q"
    if t: "nodes t = nodes s" "nodes s dir = Some Directory" for t
  proof (cases "c_string leaf p")
    case (Inl e)
    then show ?thesis
      using t by (simp add: outcome_def write_outcome_same)
  next
    case s: (Inr u)
    then have "CHR 0x00 \<notin> set leaf"
      by (auto simp: c_string_def split: if_splits)
    then show ?thesis
      using s t Inr dl write_attempts_outcome [of p "temp_paths ids dir" dir bytes "mode mod 512" t] assms temps
      by (simp add: outcome_def)
  qed
  have run: "atomic_write ids p bytes mode s = io_then (open_directory dir s) id (\<lambda>_ s.
      io_then (reject_unsafe_existing_target p s) id (\<lambda>_ s.
      case c_string leaf p of Inl e \<Rightarrow> (Inl e, s)
      | Inr _ \<Rightarrow> write_attempts (temp_paths ids dir) dir p bytes (mode mod 512) s))"
    using Inr dl by (simp add: atomic_write_def)
  show ?thesis
    unfolding run
  proof (rule outcome_then [OF outcome_open_directory])
    fix x :: unit and t :: fs
    assume t: "nodes t = nodes s \<and> (is_ok (Inr x) \<longrightarrow> nodes s dir = Some Directory)"
    show "outcome (io_then (reject_unsafe_existing_target p t) id (\<lambda>_ s.
        case c_string leaf p of Inl e \<Rightarrow> (Inl e, s)
        | Inr _ \<Rightarrow> write_attempts (temp_paths ids dir) dir p bytes (mode mod 512) s)) ?Q"
      by (rule outcome_then [OF outcome_reject]) (use t quiet attempts in auto)
  qed (use quiet in auto)
qed

section \<open>Reading\<close>

lemma read_bounded_quiet:
  assumes "faults s = []"
  shows "fst (read_bounded p limit s) =
    (case filename p of Inl e \<Rightarrow> Inl e
     | Inr (dir, leaf) \<Rightarrow>
         (case nodes s dir of
            None \<Rightarrow> Inl (io_err dir Fs_NotFound)
          | Some x \<Rightarrow> if x \<noteq> Directory then Inl (Unsafe_Directory (path_display dir))
              else then_ok (c_string leaf p) (\<lambda>_.
                case nodes s p of
                  None \<Rightarrow> Inl (io_err p Fs_NotFound)
                | Some (Regular c _) \<Rightarrow> if limit < length c then Inl (Too_Large (path_display p) limit) else Inr c
                | Some _ \<Rightarrow> Inl (Unsafe_Target (path_display p)))))"
  using assms
  by (auto simp: read_bounded_def open_directory_def read_bounded_at_def fs_lstat_def fs_sync_def fs_do_quiet
      split: sum.split option.split node.split)

lemma write_attempts_quiet:
  assumes "faults s = []" and "nodes s t = None" and "nodes s p \<noteq> Some Directory" and "nodes s dir = Some Directory"
    and "t \<noteq> p" and "p \<noteq> dir"
  shows "fst (write_attempts (t # ts) dir p bytes mode s) = Inr () \<and> faults (snd (write_attempts (t # ts) dir p bytes mode s)) = []"
proof -
  have "t \<noteq> dir"
    using assms by auto
  then show ?thesis
    using assms by (simp add: fs_create_new_def write_temporary_def fs_set_mode_def fs_rename_def fs_sync_def
        fs_do_quiet fs_write_quiet append_node_def)
qed

lemma atomic_write_quiet:
  assumes "faults s = []" and "filename p = Inr (dir, leaf)" and "CHR 0x00 \<notin> set leaf" and "nodes s dir = Some Directory"
    and "nodes s p = None" and "nodes s (hd (temp_paths ids dir)) = None" and "p \<notin> set (temp_paths ids dir)" and "p \<noteq> dir"
  shows "fst (atomic_write ids p bytes mode s) = Inr () \<and> faults (snd (atomic_write ids p bytes mode s)) = []"
proof -
  obtain t ts where ts: "temp_paths ids dir = t # ts"
    by (cases "temp_paths ids dir") (auto simp: temp_paths_def)
  have "open_directory dir s = (Inr (), s)" "reject_unsafe_existing_target p s = (Inr (), s)"
    using assms by (simp_all add: open_directory_def reject_unsafe_existing_target_def fs_lstat_def fs_sync_def fs_do_quiet)
  then show ?thesis
    using assms ts write_attempts_quiet [of s t p dir ts bytes "mode mod 512"]
    by (auto simp: atomic_write_def c_string_def simp del: write_attempts.simps)
qed

section \<open>The interface of a document store\<close>

text \<open>
  What a component that keeps a JSON document relies on: after a successful \<open>put\<close> an undisturbed
  \<open>get\<close> gives the document, and after a failed one it gives the document or what it gave before.
  \<open>ok\<close> are the states and paths for which this holds.
\<close>

locale document_store =
  fixes put :: "path \<Rightarrow> 'b \<Rightarrow> 's \<Rightarrow> ('e + unit) \<times> 's"
    and get :: "path \<Rightarrow> 's \<Rightarrow> ('e + 'b) \<times> 's"
    and before :: "'s \<Rightarrow> 's \<Rightarrow> 's"
    and quiet :: "'s \<Rightarrow> bool"
    and ok :: "path \<Rightarrow> bool"
    and stored :: "'b \<Rightarrow> 'b"
  assumes put_get: "put p b s = (Inr (), t) \<Longrightarrow> ok p \<Longrightarrow> quiet t \<Longrightarrow> fst (get p t) = Inr (stored b)"
    and put_failed: "put p b s = (Inl e, t) \<Longrightarrow> ok p \<Longrightarrow> quiet t \<Longrightarrow>
      fst (get p t) = Inr (stored b) \<or> fst (get p t) = fst (get p (before s t))"
begin

text \<open>A client that checks and encodes what it saves, and decodes and checks what it loads.\<close>

definition save_doc :: "('x \<Rightarrow> 'f + unit) \<Rightarrow> ('e \<Rightarrow> 'f) \<Rightarrow> ('x \<Rightarrow> 'b) \<Rightarrow> path \<Rightarrow> 'x \<Rightarrow> 's \<Rightarrow> ('f + unit) \<times> 's" where
  "save_doc check err enc p x s =
     (case check x of Inl e \<Rightarrow> (Inl e, s) | Inr _ \<Rightarrow> io_then (put p (enc x) s) err (\<lambda>_ t. (Inr (), t)))"

definition load_doc :: "('b \<Rightarrow> 'f + 'x) \<Rightarrow> ('e \<Rightarrow> 'f) \<Rightarrow> path \<Rightarrow> 's \<Rightarrow> ('f + 'x) \<times> 's" where
  "load_doc dec err p s = io_then (get p s) err (\<lambda>b t. (dec b, t))"

lemma load_doc_fst: "fst (load_doc dec err p s) = then_ok (map_err err (fst (get p s))) dec"
  unfolding load_doc_def by (rule fst_io_then_pure)

lemma saved_loads:
  assumes "save_doc check err enc p x s = (r, t)" and "ok p" and "quiet t" and "dec (stored (enc x)) = Inr x"
  shows "(r = Inr () \<longrightarrow> fst (load_doc dec err p t) = Inr x) \<and>
    (fst (load_doc dec err p t) = Inr x \<or> fst (load_doc dec err p t) = fst (load_doc dec err p (before s t)) \<or> t = s)"
proof (cases "check x")
  case (Inl e)
  then show ?thesis
    using assms(1) by (auto simp: save_doc_def)
next
  case (Inr u)
  obtain q v where w: "put p (enc x) s = (q, v)"
    by (rule prod.exhaust)
  have v: "v = t" "r = (case q of Inl e \<Rightarrow> Inl (err e) | Inr _ \<Rightarrow> Inr ())"
    using assms(1) w Inr by (auto simp: save_doc_def io_then_def split: sum.splits)
  show ?thesis
  proof (cases q)
    case Inl
    then show ?thesis
      using put_failed [OF w [unfolded v(1) Inl] assms(2,3)] assms(4) v(2) by (auto simp: load_doc_fst)
  next
    case (Inr y)
    then have "fst (get p t) = Inr (stored (enc x))"
      using put_get [of p "enc x" s t] w v(1) assms(2,3) by simp
    then show ?thesis
      using assms(4) by (simp add: load_doc_fst)
  qed
qed

end

definition store_ok :: "(nat \<Rightarrow> string) \<Rightarrow> path \<Rightarrow> bool" where
  "store_ok ids p \<longleftrightarrow> p \<notin> temps_of ids p"

lemma filename_dir:
  assumes "filename p = Inr (dir, leaf)"
  shows "parent p = Some dir" "dir \<noteq> p" "dir \<notin> temps_of ids p"
proof -
  show d: "parent p = Some dir"
    using assms by (auto simp: filename_def result_simps split: if_splits)
  then show "dir \<noteq> p"
    using parent_not_ancestor [OF d] by (auto simp: ancestors_def)
  show "dir \<notin> temps_of ids p"
    using temp_paths_not_dir(1) by (auto simp: temps_of_def d)
qed

lemma write_read:
  assumes w: "atomic_write ids p bytes 0x180 s = (r, t)" and ok: "store_ok ids p" and quiet: "faults t = []"
    and limit: "length bytes \<le> limit"
  shows "r = Inr () \<Longrightarrow> fst (read_bounded p limit t) = Inr bytes"
    and "fst (read_bounded p limit t) = Inr bytes \<or>
      fst (read_bounded p limit t) = fst (read_bounded p limit (t\<lparr>nodes := nodes s\<rparr>))"
proof -
  let ?x = "Regular bytes 0x180"
  have o: "write_outcome p (temps_of ids p) ?x (nodes s) r (nodes t)"
    "is_ok r \<longrightarrow> (\<exists>dir leaf. filename p = Inr (dir, leaf) \<and> nodes s dir = Some Directory \<and> CHR 0x00 \<notin> set leaf)"
    using outcome_cases [OF w atomic_write_outcome] ok by (simp_all add: store_ok_def)
  have dir: "nodes t dir = nodes s dir" if "filename p = Inr (dir, leaf)" for dir leaf
    using filename_dir [OF that] o(1) by (auto simp: write_outcome_def)
  show "fst (read_bounded p limit t) = Inr bytes" if "r = Inr ()"
    using o that dir limit by (auto simp: read_bounded_quiet [OF quiet] write_outcome_def c_string_def)
  have "nodes t p = nodes s p \<or> nodes t p = Some ?x"
    using o(1) by (auto simp: write_outcome_def saved_or_not_def)
  then show "fst (read_bounded p limit t) = Inr bytes \<or>
      fst (read_bounded p limit t) = fst (read_bounded p limit (t\<lparr>nodes := nodes s\<rparr>))"
  proof (cases "filename p")
    case (Inl e)
    then show ?thesis
      using quiet by (simp add: read_bounded_quiet)
  next
    case (Inr dl)
    obtain d leaf where dl: "filename p = Inr (d, leaf)"
      using Inr by (cases dl) simp
    assume "nodes t p = nodes s p \<or> nodes t p = Some ?x"
    then show ?thesis
      using dir [OF dl] dl quiet limit
      by (cases "nodes s d"; cases "c_string leaf p") (auto simp: read_bounded_quiet)
  qed
qed

lemma json_write:
  assumes "atomic_write_json ids p json s = (r, t)"
  shows "(r = Inl (Too_Large (path_display p) MAX_MANAGED_JSON_BYTES) \<and> t = s) \<or>
    length (json @ [10]) \<le> MAX_MANAGED_JSON_BYTES \<and> atomic_write ids p (json @ [10]) 0x180 s = (r, t)"
  using assms by (auto simp: atomic_write_json_def Let_def split: if_splits)

interpretation managed: document_store "atomic_write_json ids" "\<lambda>p. read_bounded p MAX_MANAGED_JSON_BYTES"
  "\<lambda>s t. t\<lparr>nodes := nodes s\<rparr>" "\<lambda>t. faults t = []" "store_ok ids" "\<lambda>json. json @ [10]" for ids
proof unfold_locales
  fix p b s t
  assume "atomic_write_json ids p b s = (Inr (), t)" "store_ok ids p" "faults t = []"
  then show "fst (read_bounded p MAX_MANAGED_JSON_BYTES t) = Inr (b @ [10])"
    using json_write write_read(1) by blast
next
  fix p b e and s t :: fs
  assume a: "atomic_write_json ids p b s = (Inl e, t)" "store_ok ids p" "faults t = []"
  then show "fst (read_bounded p MAX_MANAGED_JSON_BYTES t) = Inr (b @ [10]) \<or>
      fst (read_bounded p MAX_MANAGED_JSON_BYTES t) = fst (read_bounded p MAX_MANAGED_JSON_BYTES (t\<lparr>nodes := nodes s\<rparr>))"
    using json_write [OF a(1)] write_read(2) [OF _ a(2,3)] by (auto simp del: length_append)
qed

lemma unsafe_target_kept:
  assumes "faults s = []" and "nodes s p = Some x" and "\<forall>c m. x \<noteq> Regular c m"
  shows "fst (atomic_write ids p bytes mode s) \<noteq> Inr () \<and> nodes (snd (atomic_write ids p bytes mode s)) = nodes s"
  using assms
  by (cases x) (auto simp: atomic_write_def open_directory_def reject_unsafe_existing_target_def fs_lstat_def fs_sync_def
      fs_do_quiet split: sum.split option.split)

text \<open>
  C25. A managed file is replaced as a whole and never through a link. Whatever fails, the file is
  afterwards the old one or the complete new document with mode 0600, within the limit of one
  megabyte; on success it is the new one; nothing else changes but the temporary names of this
  write. Where the name is a link or a directory (and nothing else fails), the write is refused and
  no file changes.
\<close>

theorem managed_write_safe:
  assumes "atomic_write_json ids p json s = (r, t)" and "p \<notin> temps_of ids p"
  shows "(nodes t p = nodes s p \<or> nodes t p = Some (Regular (json @ [10]) 0x180) \<and> length json < 1024 * 1024) \<and>
    (r = Inr () \<longrightarrow> nodes t p = Some (Regular (json @ [10]) 0x180)) \<and>
    (\<forall>q. q \<noteq> p \<longrightarrow> q \<notin> temps_of ids p \<longrightarrow> nodes t q = nodes s q) \<and>
    (\<forall>x. faults s = [] \<longrightarrow> nodes s p = Some x \<longrightarrow> (\<forall>c m. x \<noteq> Regular c m) \<longrightarrow> r \<noteq> Inr () \<and> nodes t = nodes s)"
  using json_write [OF assms(1)]
proof
  assume "r = Inl (Too_Large (path_display p) MAX_MANAGED_JSON_BYTES) \<and> t = s"
  then show ?thesis
    by simp
next
  assume w: "length (json @ [10]) \<le> MAX_MANAGED_JSON_BYTES \<and> atomic_write ids p (json @ [10]) 0x180 s = (r, t)"
  then have "write_outcome p (temps_of ids p) (Regular (json @ [10]) 0x180) (nodes s) r (nodes t)"
    using outcome_cases [OF conjunct2 [OF w] atomic_write_outcome [OF assms(2)]] by simp
  moreover have "r \<noteq> Inr () \<and> nodes t = nodes s"
    if "faults s = []" "nodes s p = Some x" "\<forall>c m. x \<noteq> Regular c m" for x
    using unsafe_target_kept [OF that, of ids "json @ [10]" "0x180"] w by simp
  ultimately show ?thesis
    using w by (auto simp: write_outcome_def saved_or_not_def MAX_MANAGED_JSON_BYTES_def)
qed

theorem managed_write_safe_witness:
  "fst (atomic_write_json (\<lambda>i. show_dec i) (Path True [''m'']) [2, 3] (demo_fs [])) \<noteq> Inr ()"
proof -
  have "Path True [''m''] \<notin> temps_of (\<lambda>i. show_dec i) (Path True [''m''])"
    by (auto simp: temps_of_def parent_def temp_paths_def file_in_def)
  from managed_write_safe [OF prod.collapse [symmetric] this, of "[2, 3]" "demo_fs []"] show ?thesis
    by (simp add: demo_fs_def)
qed

end
