(* ===== verification/Update_State.thy ===== *)
theory Update_State
  imports Managed_Files Json_Values "HOL-Library.List_Lexorder" "HOL-Library.Char_ord"
begin

text \<open>
  The desktop state of \<open>guest/desktop-core/src/state.rs\<close>: colours and scale presets, display geometry,
  and the state of the updater with its validation and its strict JSON document. \<open>serde_json\<close> is a
  parameter (the value tree, the typed value, the encoding). The transforms of points, which are
  floating-point arithmetic, are left out; the integer rule of the logical extent is in.
\<close>

section \<open>Errors\<close>

datatype validation_error =
  Out_Of_Range string nat nat nat
| Stale_Geometry nat nat
| Incoherent_Geometry string nat nat
| Empty_Text string
| Text_Too_Long string nat
| Control_Character string
| Too_Many_Packages
| Too_Many_Repository_Errors
| Duplicate_Package string
| Download_Size_Overflow
| Update_Invariant string
| Unsupported_Update_Schema nat nat

datatype update_error =
  Up_Persistence persistence_error | Up_Not_Object | Up_Missing_Schema_Version | Up_Newer_Schema nat nat
| Up_Older_Schema nat nat | Up_Unexpected_Fields string | Up_Schema string | Up_Too_Large nat
| Up_Validation validation_error

section \<open>Colours and scales\<close>

record solid_color =
  red :: u8
  green :: u8
  blue :: u8

text \<open>\<open>{:02X}\<close> and back; \<open>u8::from_str_radix\<close> also takes a leading plus sign.\<close>

definition upper_digit :: "nat \<Rightarrow> char" where
  "upper_digit d = (if d < 10 then char_of (48 + d) else char_of (55 + d))"

definition show_component :: "u8 \<Rightarrow> string" where
  "show_component b = [upper_digit (unat b div 16), upper_digit (unat b mod 16)]"

definition color_display :: "solid_color \<Rightarrow> string" where
  "color_display c = ''#'' @ show_component (red c) @ show_component (green c) @ show_component (blue c)"

definition parse_component :: "string \<Rightarrow> u8 option" where
  "parse_component s = (if list_all is_ascii s then map_option of_nat (from_str_radix 16 256 s) else None)"

definition color_parse :: "string \<Rightarrow> solid_color option" where
  "color_parse s =
     (if length s \<noteq> 7 \<or> hd s \<noteq> CHR ''#'' then None
      else Option.bind (parse_component (take 2 (drop 1 s))) (\<lambda>r.
           Option.bind (parse_component (take 2 (drop 3 s))) (\<lambda>g.
           Option.bind (parse_component (take 2 (drop 5 s))) (\<lambda>b.
           Some \<lparr>red = r, green = g, blue = b\<rparr>))))"

definition DARK_WALLPAPER :: solid_color where "DARK_WALLPAPER = \<lparr>red = 0x20, green = 0x22, blue = 0x25\<rparr>"
definition LIGHT_WALLPAPER :: solid_color where "LIGHT_WALLPAPER = \<lparr>red = 0xFA, green = 0xFA, blue = 0xFA\<rparr>"

datatype background_choice = Dark_Plain | Light_Plain | Custom_Solid solid_color

fun background_color :: "background_choice \<Rightarrow> solid_color" where
  "background_color Dark_Plain = DARK_WALLPAPER"
| "background_color Light_Plain = LIGHT_WALLPAPER"
| "background_color (Custom_Solid c) = c"

datatype scale_preset = Automatic | Percent100 | Percent125 | Percent150 | Percent175 | Percent200

fun scale_120 :: "scale_preset \<Rightarrow> nat option" where
  "scale_120 Automatic = None"
| "scale_120 Percent100 = Some 120"
| "scale_120 Percent125 = Some 150"
| "scale_120 Percent150 = Some 180"
| "scale_120 Percent175 = Some 210"
| "scale_120 Percent200 = Some 240"

definition from_percent :: "nat \<Rightarrow> scale_preset option" where
  "from_percent n =
     (if n = 100 then Some Percent100 else if n = 125 then Some Percent125 else if n = 150 then Some Percent150
      else if n = 175 then Some Percent175 else if n = 200 then Some Percent200 else None)"

section \<open>Display geometry\<close>

definition MAX_DISPLAY_EXTENT :: nat where "MAX_DISPLAY_EXTENT = 65535"
definition MIN_SCALE_120 :: nat where "MIN_SCALE_120 = 30"
definition MAX_SCALE_120 :: nat where "MAX_SCALE_120 = 960"

record display_geometry =
  physical_width :: nat
  physical_height :: nat
  host_surface_scale_120 :: nat
  guest_ui_scale_120 :: nat
  logical_width :: nat
  logical_height :: nat
  geometry_generation :: nat

definition validate_range :: "string \<Rightarrow> nat \<Rightarrow> nat \<Rightarrow> nat \<Rightarrow> validation_error + unit" where
  "validate_range field actual lo hi = bail_if (actual < lo \<or> hi < actual) (Out_Of_Range field lo hi actual)"

definition guest_logical_extent :: "nat \<Rightarrow> nat \<Rightarrow> nat" where
  "guest_logical_extent physical scale = max (sat_mul64 physical 120 div max scale 1) 1"

definition validate_axis :: "display_geometry \<Rightarrow> string \<Rightarrow> nat \<Rightarrow> nat \<Rightarrow> validation_error + unit" where
  "validate_axis g axis physical logical =
     (let expected = guest_logical_extent physical (guest_ui_scale_120 g)
      in bail_if (logical \<noteq> expected) (Incoherent_Geometry axis expected logical))"

definition geometry_validate :: "display_geometry \<Rightarrow> validation_error + unit" where
  "geometry_validate g =
     then_ok (validate_range ''physical_width'' (physical_width g) 1 MAX_DISPLAY_EXTENT) (\<lambda>_.
     then_ok (validate_range ''physical_height'' (physical_height g) 1 MAX_DISPLAY_EXTENT) (\<lambda>_.
     then_ok (validate_range ''logical_width'' (logical_width g) 1 MAX_DISPLAY_EXTENT) (\<lambda>_.
     then_ok (validate_range ''logical_height'' (logical_height g) 1 MAX_DISPLAY_EXTENT) (\<lambda>_.
     then_ok (validate_range ''host_surface_scale_120'' (host_surface_scale_120 g) MIN_SCALE_120 MAX_SCALE_120) (\<lambda>_.
     then_ok (validate_range ''guest_ui_scale_120'' (guest_ui_scale_120 g) MIN_SCALE_120 MAX_SCALE_120) (\<lambda>_.
     then_ok (validate_axis g ''horizontal'' (physical_width g) (logical_width g)) (\<lambda>_.
     validate_axis g ''vertical'' (physical_height g) (logical_height g))))))))"

definition require_generation :: "display_geometry \<Rightarrow> nat \<Rightarrow> validation_error + unit" where
  "require_generation g n = bail_if (n \<noteq> geometry_generation g) (Stale_Geometry n (geometry_generation g))"

section \<open>The updater's state\<close>

definition UPDATE_STATE_SCHEMA_VERSION :: nat where "UPDATE_STATE_SCHEMA_VERSION = 3"
definition MAX_UPDATE_PACKAGES :: nat where "MAX_UPDATE_PACKAGES = 16384"
definition MAX_REPOSITORY_ERRORS :: nat where "MAX_REPOSITORY_ERRORS = 1024"
definition MAX_RESTART_REASONS :: nat where "MAX_RESTART_REASONS = 256"
definition MAX_UPDATE_TEXT_BYTES :: nat where "MAX_UPDATE_TEXT_BYTES = 16384"

datatype update_status =
  Never_Checked | Checking | Up_To_Date | Available | Installing | Update_Failed | Restart_Recommended

datatype update_action = Upgrade | Install

datatype progress_phase = Refreshing | Resolving | Downloading | Phase_Installing | Repairing

datatype progress_unit = Unit_Bytes | Unit_Packages | Unit_Steps

record update_progress =
  phase :: progress_phase
  completed_units :: nat
  total_units :: nat
  progress_unit_of :: progress_unit
  detail :: "string option"
  cancellable :: bool

record update_package =
  package_name :: string
  installed_version :: string
  candidate_version :: string
  package_size :: nat
  security_origin :: "string option"
  package_action :: update_action

record update_state =
  schema_version :: nat
  state_generation :: nat
  status_of :: update_status
  checked_at :: "nat option"
  repository_errors :: "string list"
  packages :: "update_package list"
  download_size :: nat
  plan_generation :: "string option"
  progress :: "update_progress option"
  failure_text :: "string option"
  repair_available :: bool
  restart_reasons :: "string list"
  runtime_revision :: "string option"
  runtime_ready :: bool

definition update_default :: update_state where
  "update_default =
     \<lparr>schema_version = UPDATE_STATE_SCHEMA_VERSION, state_generation = 1, status_of = Never_Checked,
      checked_at = None, repository_errors = [], packages = [], download_size = 0, plan_generation = None,
      progress = None, failure_text = None, repair_available = False, restart_reasons = [],
      runtime_revision = None, runtime_ready = False\<rparr>"

definition validate_state_text :: "string \<Rightarrow> string \<Rightarrow> bool \<Rightarrow> validation_error + unit" where
  "validate_state_text field t nonempty =
     then_ok (bail_if (nonempty \<and> t = []) (Empty_Text field)) (\<lambda>_.
     then_ok (bail_if (MAX_UPDATE_TEXT_BYTES < length t) (Text_Too_Long field MAX_UPDATE_TEXT_BYTES)) (\<lambda>_.
     bail_if (has_control t) (Control_Character field)))"

definition is_lower_hex :: "string \<Rightarrow> nat \<Rightarrow> bool" where
  "is_lower_hex v n \<longleftrightarrow> length v = n \<and> list_all lower_hexdigit v"

definition is_debian_package_name :: "string \<Rightarrow> bool" where
  "is_debian_package_name v \<longleftrightarrow> length v \<le> 256 \<and> v \<noteq> [] \<and> ascii_alphanumeric (hd v) \<and>
     list_all (\<lambda>b. ascii_alphanumeric b \<or> b \<in> set ''+.:~-'') v"

definition is_runtime_revision :: "string \<Rightarrow> bool" where
  "is_runtime_revision v \<longleftrightarrow> length v \<le> 128 \<and> v \<noteq> [] \<and> ascii_alphanumeric (hd v) \<and>
     list_all (\<lambda>b. ascii_alphanumeric b \<or> b \<in> set ''._+~-'') v"

definition opt_text :: "string \<Rightarrow> string option \<Rightarrow> validation_error + unit" where
  "opt_text field t = (case t of None \<Rightarrow> Inr () | Some s \<Rightarrow> validate_state_text field s True)"

definition checked_add64 :: "nat \<Rightarrow> nat \<Rightarrow> nat option" where
  "checked_add64 a b = (if a + b < 2 ^ 64 then Some (a + b) else None)"

text \<open>The loop over the packages: the names seen, the previous name, and the size so far; it returns the total.\<close>

fun validate_packages :: "string set \<Rightarrow> string option \<Rightarrow> nat \<Rightarrow> update_package list \<Rightarrow> validation_error + nat" where
  "validate_packages names prev acc [] = Inr acc"
| "validate_packages names prev acc (p # ps) =
     then_ok (validate_state_text ''package.name'' (package_name p) True) (\<lambda>_.
     then_ok (bail_if (\<not> is_debian_package_name (package_name p))
       (Update_Invariant ''package.name is not a canonical Debian package identifier'')) (\<lambda>_.
     then_ok (bail_if (package_name p \<in> names) (Duplicate_Package (package_name p))) (\<lambda>_.
     then_ok (bail_if (case prev of None \<Rightarrow> False | Some q \<Rightarrow> package_name p < q)
       (Update_Invariant ''packages must be sorted by package name'')) (\<lambda>_.
     then_ok (validate_state_text ''package.installed_version'' (installed_version p) True) (\<lambda>_.
     then_ok (validate_state_text ''package.candidate_version'' (candidate_version p) True) (\<lambda>_.
     then_ok (opt_text ''package.security_origin'' (security_origin p)) (\<lambda>_.
     then_ok (ok_or Download_Size_Overflow (checked_add64 acc (package_size p))) (\<lambda>acc'.
     validate_packages (insert (package_name p) names) (Some (package_name p)) acc' ps))))))))"

fun expected_unit :: "progress_phase \<Rightarrow> progress_unit" where
  "expected_unit Refreshing = Unit_Bytes"
| "expected_unit Downloading = Unit_Bytes"
| "expected_unit Resolving = Unit_Steps"
| "expected_unit Phase_Installing = Unit_Packages"
| "expected_unit Repairing = Unit_Packages"

definition validate_progress :: "update_progress option \<Rightarrow> validation_error + unit" where
  "validate_progress po =
     (case po of None \<Rightarrow> Inr ()
      | Some p \<Rightarrow>
          then_ok (bail_if (total_units p < completed_units p) (Update_Invariant ''progress completed exceeds total'')) (\<lambda>_.
          then_ok (opt_text ''progress.detail'' (detail p)) (\<lambda>_.
          then_ok (bail_if (cancellable p \<and> phase p \<noteq> Downloading) (Update_Invariant ''only download progress may be cancellable'')) (\<lambda>_.
          bail_if (progress_unit_of p \<noteq> expected_unit (phase p)) (Update_Invariant ''update progress unit does not match its phase'')))))"

definition phase_in :: "update_state \<Rightarrow> progress_phase set \<Rightarrow> bool" where
  "phase_in s ps \<longleftrightarrow> (case progress s of None \<Rightarrow> False | Some p \<Rightarrow> phase p \<in> ps)"

text \<open>The evidence that each status requires and forbids.\<close>

definition validate_status :: "update_state \<Rightarrow> validation_error + unit" where
  "validate_status s =
     (let has_checked = (checked_at s \<noteq> None); has_plan = (plan_generation s \<noteq> None); has_packages = (packages s \<noteq> [])
      in case status_of s of
        Never_Checked \<Rightarrow>
          bail_if (has_checked \<or> has_plan \<or> has_packages \<or> repository_errors s \<noteq> [] \<or> download_size s \<noteq> 0 \<or>
              progress s \<noteq> None \<or> repair_available s \<or> restart_reasons s \<noteq> [])
            (Update_Invariant ''never_checked must not carry check results'')
      | Checking \<Rightarrow>
          bail_if (has_checked \<or> has_plan \<or> has_packages \<or> repository_errors s \<noteq> [] \<or> download_size s \<noteq> 0 \<or>
              \<not> phase_in s {Refreshing, Resolving} \<or> failure_text s \<noteq> None \<or> repair_available s \<or> restart_reasons s \<noteq> [])
            (Update_Invariant ''checking must not carry a completed check result'')
      | Up_To_Date \<Rightarrow>
          bail_if (\<not> has_checked \<or> has_plan \<or> has_packages \<or> repository_errors s \<noteq> [] \<or> download_size s \<noteq> 0 \<or>
              progress s \<noteq> None \<or> failure_text s \<noteq> None \<or> repair_available s \<or> restart_reasons s \<noteq> [])
            (Update_Invariant ''up_to_date requires a check time and no plan, packages, errors, or download'')
      | Available \<Rightarrow>
          then_ok (bail_if (\<not> has_checked \<or> \<not> has_plan \<or> \<not> has_packages)
            (Update_Invariant ''actionable update states require a check time, packages, and plan generation'')) (\<lambda>_.
          bail_if (progress s \<noteq> None \<or> failure_text s \<noteq> None \<or> repair_available s \<or> repository_errors s \<noteq> [] \<or> restart_reasons s \<noteq> [])
            (Update_Invariant ''available state carries operation-only fields''))
      | Installing \<Rightarrow>
          then_ok (bail_if (\<not> has_checked \<or> \<not> has_plan \<or> \<not> has_packages)
            (Update_Invariant ''installing requires a check time, packages, and plan generation'')) (\<lambda>_.
          bail_if (\<not> phase_in s {Downloading, Phase_Installing, Repairing} \<or> failure_text s \<noteq> None \<or> repair_available s \<or>
              repository_errors s \<noteq> [] \<or> restart_reasons s \<noteq> [])
            (Update_Invariant ''installing state carries incoherent operation fields''))
      | Restart_Recommended \<Rightarrow>
          then_ok (bail_if (\<not> has_checked \<or> \<not> has_plan \<or> \<not> has_packages \<or> restart_reasons s = [])
            (Update_Invariant ''restart_recommended requires the attempted plan and restart evidence'')) (\<lambda>_.
          bail_if (progress s \<noteq> None \<or> failure_text s \<noteq> None \<or> repair_available s \<or> repository_errors s \<noteq> [])
            (Update_Invariant ''restart_recommended carries operation-only fields''))
      | Update_Failed \<Rightarrow>
          then_ok (bail_if (repository_errors s = [] \<and> failure_text s = None)
            (Update_Invariant ''failed requires repository errors or a concrete failure'')) (\<lambda>_.
          then_ok (bail_if ((has_plan \<or> has_packages) \<and> \<not> has_checked)
            (Update_Invariant ''a failed checked plan requires a check time'')) (\<lambda>_.
          then_ok (bail_if (has_packages \<and> \<not> has_plan)
            (Update_Invariant ''failed package details require an attempted plan'')) (\<lambda>_.
          then_ok (bail_if (progress s \<noteq> None \<or> restart_reasons s \<noteq> [])
            (Update_Invariant ''failed state must not retain active progress or restart evidence'')) (\<lambda>_.
          bail_if (repair_available s \<and> \<not> has_plan)
            (Update_Invariant ''repair requires an updater-generated attempted plan''))))))"

definition validate_plan :: "string option \<Rightarrow> validation_error + unit" where
  "validate_plan g =
     (case g of None \<Rightarrow> Inr ()
      | Some g \<Rightarrow> then_ok (validate_state_text ''plan_generation'' g True) (\<lambda>_.
          bail_if (\<not> is_lower_hex g 64) (Update_Invariant ''plan_generation must be 64 lowercase hexadecimal characters'')))"

definition validate_revision :: "string option \<Rightarrow> validation_error + unit" where
  "validate_revision r =
     (case r of None \<Rightarrow> Inr ()
      | Some r \<Rightarrow> then_ok (validate_state_text ''runtime_revision'' r True) (\<lambda>_.
          bail_if (\<not> is_runtime_revision r) (Update_Invariant ''runtime_revision is not a safe single path component'')))"

definition update_validate :: "update_state \<Rightarrow> validation_error + unit" where
  "update_validate s =
     then_ok (bail_if (schema_version s \<noteq> UPDATE_STATE_SCHEMA_VERSION)
       (Unsupported_Update_Schema (schema_version s) UPDATE_STATE_SCHEMA_VERSION)) (\<lambda>_.
     then_ok (bail_if (state_generation s = 0) (Update_Invariant ''state_generation must be positive'')) (\<lambda>_.
     then_ok (bail_if (MAX_UPDATE_PACKAGES < length (packages s)) Too_Many_Packages) (\<lambda>_.
     then_ok (bail_if (MAX_REPOSITORY_ERRORS < length (repository_errors s)) Too_Many_Repository_Errors) (\<lambda>_.
     then_ok (bail_if (MAX_RESTART_REASONS < length (restart_reasons s))
       (Update_Invariant ''restart_reasons exceeds the bounded entry limit'')) (\<lambda>_.
     then_ok (each_ok (\<lambda>e. validate_state_text ''repository_errors'' e True) (repository_errors s)) (\<lambda>_.
     then_ok (each_ok (\<lambda>e. validate_state_text ''restart_reasons'' e True) (restart_reasons s)) (\<lambda>_.
     then_ok (validate_packages {} None 0 (packages s)) (\<lambda>acc.
     then_ok (bail_if (acc \<noteq> download_size s)
       (Update_Invariant ''download_size must equal the checked sum of package download sizes'')) (\<lambda>_.
     then_ok (bail_if (checked_at s = Some 0) (Update_Invariant ''checked_at_unix_seconds must be positive when present'')) (\<lambda>_.
     then_ok (validate_plan (plan_generation s)) (\<lambda>_.
     then_ok (validate_progress (progress s)) (\<lambda>_.
     then_ok (opt_text ''failure'' (failure_text s)) (\<lambda>_.
     then_ok (validate_revision (runtime_revision s)) (\<lambda>_.
     then_ok (bail_if (runtime_ready s \<noteq> (runtime_revision s \<noteq> None))
       (Update_Invariant ''runtime_ready requires exactly one validated runtime revision'')) (\<lambda>_.
     validate_status s)))))))))))))))"

section \<open>The document\<close>

definition update_keys :: "string list" where
  "update_keys =
     [''schema_version'', ''state_generation'', ''status'', ''checked_at_unix_seconds'', ''repository_errors'',
      ''packages'', ''download_size'', ''plan_generation'', ''progress'', ''failure'', ''repair_available'',
      ''restart_reasons'', ''runtime_revision'', ''runtime_ready'']"

definition package_keys :: "string list" where
  "package_keys =
     [''name'', ''installed_version'', ''candidate_version'', ''download_size'', ''security_origin'', ''action'']"

definition update_schema_version :: "(string \<rightharpoonup> json) \<Rightarrow> update_error + nat" where
  "update_schema_version m = ok_or Up_Missing_Schema_Version (Option.bind (m ''schema_version'') as_u32)"

definition exact_update_keys :: "(string \<rightharpoonup> json) \<Rightarrow> string list \<Rightarrow> update_error + unit" where
  "exact_update_keys m expected =
     bail_if (dom m \<noteq> set expected) (Up_Unexpected_Fields (join_with '', '' expected))"

definition check_package :: "json \<Rightarrow> update_error + unit" where
  "check_package v =
     (case v of J_Object m \<Rightarrow> exact_update_keys m package_keys
      | _ \<Rightarrow> Inl (Up_Unexpected_Fields ''each package must be an object''))"

definition check_document :: "json \<Rightarrow> update_error + unit" where
  "check_document v =
     (case v of
        J_Object m \<Rightarrow>
          then_ok (update_schema_version m) (\<lambda>version.
          then_ok (bail_if (UPDATE_STATE_SCHEMA_VERSION < version) (Up_Newer_Schema version UPDATE_STATE_SCHEMA_VERSION)) (\<lambda>_.
          then_ok (bail_if (version < UPDATE_STATE_SCHEMA_VERSION) (Up_Older_Schema version UPDATE_STATE_SCHEMA_VERSION)) (\<lambda>_.
          then_ok (exact_update_keys m update_keys) (\<lambda>_.
          case m ''packages'' of
            Some (J_Array ps) \<Rightarrow> each_ok check_package ps
          | _ \<Rightarrow> Inl (Up_Unexpected_Fields ''packages must be an array'')))))
      | _ \<Rightarrow> Inl Up_Not_Object)"

text \<open>
  \<open>tree\<close> and \<open>typed\<close> stand for \<open>serde_json::from_slice\<close> at the two types at which the code calls it, with
  the text of its error.
\<close>

type_synonym 'a decoder = "u8 list \<Rightarrow> string + 'a"

definition from_json_bytes :: "json decoder \<Rightarrow> update_state decoder \<Rightarrow> u8 list \<Rightarrow> update_error + update_state" where
  "from_json_bytes tree typed bytes =
     then_ok (bail_if (MAX_MANAGED_JSON_BYTES < length bytes) (Up_Too_Large MAX_MANAGED_JSON_BYTES)) (\<lambda>_.
     then_ok (map_err Up_Schema (tree bytes)) (\<lambda>v.
     then_ok (check_document v) (\<lambda>_.
     then_ok (map_err Up_Schema (typed bytes)) (\<lambda>u.
     then_ok (map_err Up_Validation (update_validate u)) (\<lambda>_. Inr u)))))"

definition update_load :: "json decoder \<Rightarrow> update_state decoder \<Rightarrow> path \<Rightarrow> fs \<Rightarrow> (update_error + update_state) \<times> fs" where
  "update_load tree typed p s =
     io_then (read_bounded p MAX_MANAGED_JSON_BYTES s) Up_Persistence (\<lambda>bytes s. (from_json_bytes tree typed bytes, s))"

definition update_save :: "(update_state \<Rightarrow> u8 list) \<Rightarrow> (nat \<Rightarrow> string) \<Rightarrow> update_state \<Rightarrow> path \<Rightarrow> fs \<Rightarrow> (update_error + unit) \<times> fs" where
  "update_save enc ids u p s =
     (case update_validate u of
        Inl e \<Rightarrow> (Inl (Up_Validation e), s)
      | Inr _ \<Rightarrow> io_then (atomic_write_json ids p (enc u) s) Up_Persistence (\<lambda>_ s. (Inr (), s)))"

section \<open>The value tree of a state\<close>

text \<open>The derived encoding: an absent value is \<open>null\<close>, and every field is present.\<close>

fun status_name :: "update_status \<Rightarrow> string" where
  "status_name Never_Checked = ''never_checked''"
| "status_name Checking = ''checking''"
| "status_name Up_To_Date = ''up_to_date''"
| "status_name Available = ''available''"
| "status_name Installing = ''installing''"
| "status_name Update_Failed = ''failed''"
| "status_name Restart_Recommended = ''restart_recommended''"

fun phase_name :: "progress_phase \<Rightarrow> string" where
  "phase_name Refreshing = ''refreshing''"
| "phase_name Resolving = ''resolving''"
| "phase_name Downloading = ''downloading''"
| "phase_name Phase_Installing = ''installing''"
| "phase_name Repairing = ''repairing''"

fun unit_name :: "progress_unit \<Rightarrow> string" where
  "unit_name Unit_Bytes = ''bytes''"
| "unit_name Unit_Packages = ''packages''"
| "unit_name Unit_Steps = ''steps''"

fun action_name :: "update_action \<Rightarrow> string" where
  "action_name Upgrade = ''upgrade''"
| "action_name Install = ''install''"

definition j_opt :: "('a \<Rightarrow> json) \<Rightarrow> 'a option \<Rightarrow> json" where
  "j_opt f x = (case x of None \<Rightarrow> J_Null | Some v \<Rightarrow> f v)"

definition j_num :: "nat \<Rightarrow> json" where "j_num n = J_Int (int n)"

definition package_json :: "update_package \<Rightarrow> json" where
  "package_json p = J_Object (map_of
     [(''name'', J_String (package_name p)), (''installed_version'', J_String (installed_version p)),
      (''candidate_version'', J_String (candidate_version p)), (''download_size'', j_num (package_size p)),
      (''security_origin'', j_opt J_String (security_origin p)), (''action'', J_String (action_name (package_action p)))])"

definition progress_json :: "update_progress \<Rightarrow> json" where
  "progress_json p = J_Object (map_of
     [(''phase'', J_String (phase_name (phase p))), (''completed'', j_num (completed_units p)), (''total'', j_num (total_units p)),
      (''unit'', J_String (unit_name (progress_unit_of p))), (''detail'', j_opt J_String (detail p)),
      (''cancellable'', J_Bool (cancellable p))])"

definition update_fields :: "update_state \<Rightarrow> (string \<times> json) list" where
  "update_fields s =
     [(''schema_version'', j_num (schema_version s)), (''state_generation'', j_num (state_generation s)),
      (''status'', J_String (status_name (status_of s))), (''checked_at_unix_seconds'', j_opt j_num (checked_at s)),
      (''repository_errors'', J_Array (map J_String (repository_errors s))), (''packages'', J_Array (map package_json (packages s))),
      (''download_size'', j_num (download_size s)), (''plan_generation'', j_opt J_String (plan_generation s)),
      (''progress'', j_opt progress_json (progress s)), (''failure'', j_opt J_String (failure_text s)),
      (''repair_available'', J_Bool (repair_available s)), (''restart_reasons'', J_Array (map J_String (restart_reasons s))),
      (''runtime_revision'', j_opt J_String (runtime_revision s)), (''runtime_ready'', J_Bool (runtime_ready s))]"

definition update_json :: "update_state \<Rightarrow> json" where
  "update_json s = J_Object (map_of (update_fields s))"

section \<open>What validation accepts\<close>

definition update_text :: "string \<Rightarrow> bool" where
  "update_text t \<longleftrightarrow> t \<noteq> [] \<and> length t \<le> 16384 \<and> \<not> has_control t"

definition package_ok :: "update_package \<Rightarrow> bool" where
  "package_ok p \<longleftrightarrow> update_text (package_name p) \<and> is_debian_package_name (package_name p) \<and>
     update_text (installed_version p) \<and> update_text (candidate_version p) \<and> pred_option update_text (security_origin p)"

definition progress_ok :: "update_progress \<Rightarrow> bool" where
  "progress_ok p \<longleftrightarrow> completed_units p \<le> total_units p \<and> pred_option update_text (detail p) \<and>
     (cancellable p \<longrightarrow> phase p = Downloading) \<and> progress_unit_of p = expected_unit (phase p)"

text \<open>The evidence, read by field and not by status.\<close>

definition evidence_ok :: "update_state \<Rightarrow> bool" where
  "evidence_ok s \<longleftrightarrow>
     (progress s \<noteq> None \<longleftrightarrow> status_of s \<in> {Checking, Installing}) \<and>
     (status_of s = Checking \<longrightarrow> phase_in s {Refreshing, Resolving}) \<and>
     (status_of s = Installing \<longrightarrow> phase_in s {Downloading, Phase_Installing, Repairing}) \<and>
     (restart_reasons s \<noteq> [] \<longleftrightarrow> status_of s = Restart_Recommended) \<and>
     (packages s \<noteq> [] \<longrightarrow> plan_generation s \<noteq> None) \<and>
     (plan_generation s \<noteq> None \<longrightarrow> checked_at s \<noteq> None) \<and>
     (status_of s \<in> {Available, Installing, Restart_Recommended} \<longrightarrow> packages s \<noteq> []) \<and>
     (status_of s \<in> {Never_Checked, Checking, Up_To_Date} \<longrightarrow> plan_generation s = None) \<and>
     (status_of s \<in> {Never_Checked, Checking} \<longrightarrow> checked_at s = None) \<and>
     (status_of s = Up_To_Date \<longrightarrow> checked_at s \<noteq> None) \<and>
     (repository_errors s \<noteq> [] \<longrightarrow> status_of s = Update_Failed) \<and>
     (failure_text s \<noteq> None \<longrightarrow> status_of s \<in> {Update_Failed, Never_Checked}) \<and>
     (status_of s = Update_Failed \<longrightarrow> repository_errors s \<noteq> [] \<or> failure_text s \<noteq> None) \<and>
     (repair_available s \<longrightarrow> status_of s = Update_Failed \<and> plan_generation s \<noteq> None)"

definition update_ok :: "update_state \<Rightarrow> bool" where
  "update_ok s \<longleftrightarrow>
     schema_version s = 3 \<and> state_generation s > 0 \<and>
     length (packages s) \<le> 16384 \<and> length (repository_errors s) \<le> 1024 \<and> length (restart_reasons s) \<le> 256 \<and>
     list_all update_text (repository_errors s) \<and> list_all update_text (restart_reasons s) \<and>
     list_all package_ok (packages s) \<and> sorted_wrt (<) (map package_name (packages s)) \<and>
     sum_list (map package_size (packages s)) = download_size s \<and> download_size s < 2 ^ 64 \<and>
     checked_at s \<noteq> Some 0 \<and> pred_option progress_ok (progress s) \<and>
     pred_option (\<lambda>g. is_lower_hex g 64) (plan_generation s) \<and> pred_option update_text (failure_text s) \<and>
     pred_option is_runtime_revision (runtime_revision s) \<and> runtime_ready s = (runtime_revision s \<noteq> None) \<and>
     evidence_ok s"

lemma validate_state_text_iff: "validate_state_text f t True = Inr u \<longleftrightarrow> update_text t"
  by (auto simp: validate_state_text_def update_text_def then_ok_eq_Inr MAX_UPDATE_TEXT_BYTES_def)

lemma opt_text_iff: "opt_text f t = Inr u \<longleftrightarrow> pred_option update_text t"
  by (cases t) (auto simp: opt_text_def validate_state_text_iff)

lemma validate_packages_iff:
  "validate_packages names prev acc ps = Inr r \<longleftrightarrow>
     list_all package_ok ps \<and> sorted_wrt (<) (map package_name ps) \<and>
     (ps \<noteq> [] \<longrightarrow> pred_option (\<lambda>q. q \<le> package_name (hd ps)) prev) \<and>
     (\<forall>p \<in> set ps. package_name p \<notin> names) \<and>
     r = acc + sum_list (map package_size ps) \<and> (ps \<noteq> [] \<longrightarrow> r < 2 ^ 64)"
proof (induction ps arbitrary: names prev acc)
  case (Cons p ps)
  have prev: "(case prev of None \<Rightarrow> False | Some q \<Rightarrow> package_name p < q) \<longleftrightarrow> \<not> pred_option (\<lambda>q. q \<le> package_name p) prev"
    by (cases prev) auto
  have head: "validate_packages names prev acc (p # ps) = Inr r \<longleftrightarrow>
      package_ok p \<and> package_name p \<notin> names \<and> pred_option (\<lambda>q. q \<le> package_name p) prev \<and> acc + package_size p < 2 ^ 64 \<and>
      validate_packages (insert (package_name p) names) (Some (package_name p)) (acc + package_size p) ps = Inr r"
    by (auto simp: then_ok_eq_Inr validate_state_text_iff opt_text_iff package_ok_def checked_add64_def ok_or_eq_Inr prev)
  have sorted: "sorted_wrt (<) (map package_name ps) \<and> (ps \<noteq> [] \<longrightarrow> package_name p \<le> package_name (hd ps)) \<and>
      (\<forall>q \<in> set ps. package_name q \<noteq> package_name p) \<longleftrightarrow> sorted_wrt (<) (map package_name (p # ps))"
    by (cases ps) (auto intro: less_trans simp: less_le)
  have "sum_list (map package_size ps) = 0" if "ps = []"
    using that by simp
  then show ?case
    unfolding head Cons.IH using sorted by auto
qed auto

lemma validate_progress_iff: "validate_progress p = Inr u \<longleftrightarrow> pred_option progress_ok p"
  by (cases p) (auto simp: validate_progress_def progress_ok_def then_ok_eq_Inr opt_text_iff)

lemma hex_control: "list_all lower_hexdigit v \<Longrightarrow> \<not> has_control v"
  by (induction v rule: has_control.induct) (auto simp: lower_hexdigit_def ascii_control_def ascii_digit_def)

lemma validate_plan_iff: "validate_plan g = Inr u \<longleftrightarrow> pred_option (\<lambda>g. is_lower_hex g 64) g"
  by (cases g) (auto simp: validate_plan_def then_ok_eq_Inr validate_state_text_iff update_text_def is_lower_hex_def hex_control)

lemma revision_control: "list_all (\<lambda>b. ascii_alphanumeric b \<or> b \<in> set ''._+~-'') v \<Longrightarrow> \<not> has_control v"
  by (induction v rule: has_control.induct)
    (auto simp: ascii_alphanumeric_def ascii_lower_def ascii_upper_def ascii_control_def ascii_digit_def)

lemma validate_revision_iff: "validate_revision r = Inr u \<longleftrightarrow> pred_option is_runtime_revision r"
  by (cases r) (auto simp: validate_revision_def then_ok_eq_Inr validate_state_text_iff update_text_def is_runtime_revision_def revision_control)

lemma phase_in_progress: "phase_in s ps \<Longrightarrow> progress s \<noteq> None"
  by (auto simp: phase_in_def split: option.splits)

lemma validate_status_iff:
  assumes "packages s = [] \<longrightarrow> download_size s = 0"
  shows "validate_status s = Inr u \<longleftrightarrow> evidence_ok s"
proof (cases "status_of s")
  case Never_Checked
  then show ?thesis
    using assms by (auto simp: validate_status_def evidence_ok_def Let_def)
next
  case Checking
  then show ?thesis
    using assms phase_in_progress [of s] by (auto simp: validate_status_def evidence_ok_def Let_def)
next
  case Up_To_Date
  then show ?thesis
    using assms by (auto simp: validate_status_def evidence_ok_def Let_def)
next
  case Available
  then show ?thesis
    by (auto simp: validate_status_def evidence_ok_def Let_def then_ok_eq_Inr)
next
  case Installing
  then show ?thesis
    using phase_in_progress [of s] by (auto simp: validate_status_def evidence_ok_def Let_def then_ok_eq_Inr)
next
  case Restart_Recommended
  then show ?thesis
    by (auto simp: validate_status_def evidence_ok_def Let_def then_ok_eq_Inr)
next
  case Update_Failed
  then show ?thesis
    by (auto simp: validate_status_def evidence_ok_def Let_def then_ok_eq_Inr)
qed

lemma package_sum_iff:
  "validate_packages {} None 0 (packages s) = Inr (download_size s) \<longleftrightarrow>
     list_all package_ok (packages s) \<and> sorted_wrt (<) (map package_name (packages s)) \<and>
     sum_list (map package_size (packages s)) = download_size s \<and> download_size s < 2 ^ 64"
  unfolding validate_packages_iff by (cases "packages s") auto

lemma validate_bounds_iff:
  "update_validate s = Inr u \<longleftrightarrow>
     (schema_version s = 3 \<and> state_generation s > 0 \<and>
      length (packages s) \<le> 16384 \<and> length (repository_errors s) \<le> 1024 \<and> length (restart_reasons s) \<le> 256 \<and>
      list_all update_text (repository_errors s) \<and> list_all update_text (restart_reasons s)) \<and>
     validate_packages {} None 0 (packages s) = Inr (download_size s) \<and>
     checked_at s \<noteq> Some 0 \<and> pred_option (\<lambda>g. is_lower_hex g 64) (plan_generation s) \<and>
     pred_option progress_ok (progress s) \<and> pred_option update_text (failure_text s) \<and>
     pred_option is_runtime_revision (runtime_revision s) \<and> runtime_ready s = (runtime_revision s \<noteq> None) \<and>
     validate_status s = Inr ()"
  unfolding update_validate_def
  by (auto simp: then_ok_eq_Inr validate_state_text_iff opt_text_iff validate_progress_iff validate_plan_iff validate_revision_iff
      list_all_iff UPDATE_STATE_SCHEMA_VERSION_def MAX_UPDATE_PACKAGES_def MAX_REPOSITORY_ERRORS_def MAX_RESTART_REASONS_def)

lemma update_valid_iff: "update_validate s = Inr u \<longleftrightarrow> update_ok s"
proof (cases "validate_packages {} None 0 (packages s) = Inr (download_size s)")
  case True
  then have "packages s = [] \<longrightarrow> download_size s = 0"
    by auto
  note st = validate_status_iff [OF this]
  show ?thesis
    unfolding validate_bounds_iff st update_ok_def package_sum_iff by blast
next
  case False
  then show ?thesis
    unfolding validate_bounds_iff update_ok_def package_sum_iff by blast
qed

text \<open>
  Validation accepts exactly the coherent states of the updater: within the limits, with
  packages in strictly increasing order of their names, sizes that add up to the total without
  overflow, and evidence that fits the status, here stated field by field: progress only during a
  check or an installation and in its phases, restart reasons only with a recommended restart,
  packages only with a plan, a plan only after a check, errors and repair only after a failure.
\<close>

lemma update_validate_iff: "update_validate s = Inr () \<longleftrightarrow> update_ok s"
  by (rule update_valid_iff)

section \<open>Loading and saving\<close>

lemma exact_keys_iff: "exact_update_keys m ks = Inr u \<longleftrightarrow> dom m = set ks"
  by (simp add: exact_update_keys_def)

lemma check_package_iff: "check_package v = Inr u \<longleftrightarrow> (\<exists>k. v = J_Object k \<and> dom k = set package_keys)"
  by (cases v) (auto simp: check_package_def exact_keys_iff)

lemma array_case_iff:
  "(case x of Some (J_Array ps) \<Rightarrow> f ps | _ \<Rightarrow> Inl e) = Inr u \<longleftrightarrow> (\<exists>ps. x = Some (J_Array ps) \<and> f ps = Inr u)"
  by (auto split: option.split json.split)

lemma schema_version_iff: "update_schema_version m = Inr n \<longleftrightarrow> m ''schema_version'' = Some (J_Int (int n)) \<and> n < 2 ^ 32"
  by (auto simp: update_schema_version_def ok_or_eq_Inr bind_eq_Some_conv as_u32_Some)

lemma check_document_iff:
  "check_document v = Inr u \<longleftrightarrow>
     (\<exists>m ps. v = J_Object m \<and> dom m = set update_keys \<and> m ''schema_version'' = Some (J_Int 3) \<and>
       m ''packages'' = Some (J_Array ps) \<and> (\<forall>p \<in> set ps. \<exists>k. p = J_Object k \<and> dom k = set package_keys))"
proof (cases v)
  case (J_Object m)
  have "check_document v = Inr u \<longleftrightarrow>
      (\<exists>n. update_schema_version m = Inr n \<and> n = 3 \<and> dom m = set update_keys \<and>
        (\<exists>ps. m ''packages'' = Some (J_Array ps) \<and> each_ok check_package ps = Inr ()))"
    by (auto simp: check_document_def J_Object then_ok_eq_Inr exact_keys_iff array_case_iff UPDATE_STATE_SCHEMA_VERSION_def)
  also have "\<dots> \<longleftrightarrow> (m ''schema_version'' = Some (J_Int 3) \<and> dom m = set update_keys \<and>
        (\<exists>ps. m ''packages'' = Some (J_Array ps) \<and> (\<forall>p \<in> set ps. \<exists>k. p = J_Object k \<and> dom k = set package_keys)))"
    by (simp add: schema_version_iff check_package_iff)
  finally show ?thesis
    using J_Object by auto
qed (auto simp: check_document_def)

text \<open>
  C38. What the reader of the updater's state accepts, whatever JSON library it uses: a document
  of at most one megabyte, an object with exactly the fourteen fields of schema 3, whose packages are objects
  with exactly their six fields, and a typed value that is a coherent state.  A document of a
  newer or older schema or with a field too many is refused.
\<close>

theorem update_document_iff:
  "from_json_bytes tree typed bytes = Inr s \<longleftrightarrow>
     length bytes \<le> 1024 * 1024 \<and>
     (\<exists>m ps. tree bytes = Inr (J_Object m) \<and> dom m = set update_keys \<and> m ''schema_version'' = Some (J_Int 3) \<and>
        m ''packages'' = Some (J_Array ps) \<and> list_all (\<lambda>p. \<exists>k. p = J_Object k \<and> dom k = set package_keys) ps) \<and>
     typed bytes = Inr s \<and> update_ok s"
  by (auto simp: from_json_bytes_def then_ok_eq_Inr map_err_eq_Inr check_document_iff list_all_iff update_valid_iff MAX_MANAGED_JSON_BYTES_def)

definition update_check :: "update_state \<Rightarrow> update_error + unit" where
  "update_check u = map_err Up_Validation (update_validate u)"

lemma update_save_doc: "update_save enc ids u p s = managed.save_doc ids update_check Up_Persistence enc p u s"
  by (simp add: update_save_def managed.save_doc_def update_check_def split: sum.split)

lemma update_load_doc: "update_load tree typed = managed.load_doc (from_json_bytes tree typed) Up_Persistence"
  by (intro ext) (simp add: update_load_def managed.load_doc_def)

lemma update_json_document: "update_ok u \<Longrightarrow> check_document (update_json u) = Inr ()"
proof -
  assume "update_ok u"
  then have "schema_version u = 3"
    by (simp add: update_ok_def)
  moreover have "dom (map_of (update_fields u)) = set update_keys"
    by (simp add: update_fields_def update_keys_def dom_map_of_conv_image_fst)
  moreover have "\<exists>k. package_json p = J_Object k \<and> dom k = set package_keys" for p
    by (auto simp: package_json_def package_keys_def)
  ultimately show ?thesis
    unfolding check_document_iff
    by (intro exI [of _ "map_of (update_fields u)"] exI [of _ "map package_json (packages u)"])
      (auto simp: update_json_def update_fields_def j_num_def)
qed

text \<open>
  The updater's state survives its file. Whatever fails during a save, loading afterwards gives the
  new state or exactly what loading gave before, and after a successful save it gives the saved state
  with every field (for a JSON library that reads back what it wrote). A state that is not coherent is
  never written: the save reports the validation error and touches nothing.
\<close>

lemma update_save_load:
  assumes save: "update_save enc ids u p s = (r, t)" and "store_ok ids p" and quiet: "faults t = []"
    and codec: "tree (enc u @ [10]) = Inr (update_json u)" "typed (enc u @ [10]) = Inr u"
  shows "(r = Inr () \<longrightarrow> fst (update_load tree typed p t) = Inr u) \<and>
    fst (update_load tree typed p t) \<in> {Inr u, fst (update_load tree typed p (t\<lparr>nodes := nodes s\<rparr>))} \<and>
    (\<not> update_ok u \<longrightarrow> (\<exists>e. r = Inl (Up_Validation e)) \<and> t = s)"
proof -
  have bad: "(\<exists>e. r = Inl (Up_Validation e)) \<and> t = s" if "\<not> update_ok u"
    using that save update_valid_iff [of u] by (cases "update_validate u") (auto simp: update_save_def)
  show ?thesis
  proof (cases "update_ok u \<and> length (enc u @ [10]) \<le> MAX_MANAGED_JSON_BYTES")
    case True
    then have "from_json_bytes tree typed (enc u @ [10]) = Inr u"
      using codec update_json_document [of u]
      by (auto simp: from_json_bytes_def then_ok_eq_Inr map_err_eq_Inr update_valid_iff)
    from managed.saved_loads [where dec = "from_json_bytes tree typed" and enc = enc and x = u, OF save [unfolded update_save_doc] assms(2) quiet this] show ?thesis
      using True by (auto simp: update_load_doc)
  next
    case False
    then have "t = s \<and> is_ok r = False"
      using bad save update_valid_iff [of u "()"] by (cases "update_ok u")
        (auto simp: update_save_def atomic_write_json_def Let_def io_then_def split: sum.splits)
    then show ?thesis
      using bad by auto
  qed
qed

lemma default_update_ok: "update_ok update_default"
  by (simp add: update_ok_def update_default_def evidence_ok_def UPDATE_STATE_SCHEMA_VERSION_def)

lemma demo_update_written:
  "fst (atomic_write_json (\<lambda>i. show_dec i) (Path True [''m'', ''u'']) [2, 3] (demo_fs [])) = Inr () \<and>
   faults (snd (atomic_write_json (\<lambda>i. show_dec i) (Path True [''m'', ''u'']) [2, 3] (demo_fs []))) = []"
  using atomic_write_quiet [of "demo_fs []" "Path True [''m'', ''u'']" "Path True [''m'']" "''u''" "\<lambda>i. show_dec i" "[2, 3, 10]" "0x180"]
  by (simp add: atomic_write_json_def MAX_MANAGED_JSON_BYTES_def filename_def parent_def demo_fs_def temp_paths_def file_in_def
      image_def hd_map)

theorem update_save_load_witness:
  "fst (update_load (\<lambda>_. Inr (update_json update_default)) (\<lambda>_. Inr update_default) (Path True [''m'', ''u''])
     (snd (update_save (\<lambda>_. [2, 3]) (\<lambda>i. show_dec i) update_default (Path True [''m'', ''u'']) (demo_fs [])))) =
   Inr update_default"
proof -
  obtain r t where st: "update_save (\<lambda>_. [2, 3]) (\<lambda>i. show_dec i) update_default (Path True [''m'', ''u'']) (demo_fs []) = (r, t)"
    by (rule prod.exhaust)
  obtain a b where w: "atomic_write_json (\<lambda>i. show_dec i) (Path True [''m'', ''u'']) [2, 3] (demo_fs []) = (a, b)"
    by (rule prod.exhaust)
  have "update_validate update_default = Inr ()"
    using default_update_ok by (simp add: update_valid_iff)
  then have t: "r = Inr ()" "faults t = []"
    using st w demo_update_written by (auto simp: update_save_def)
  have "store_ok (\<lambda>i. show_dec i) (Path True [''m'', ''u''])"
    by (auto simp: store_ok_def temps_of_def parent_def temp_paths_def file_in_def)
  from update_save_load [OF st this t(2), of "\<lambda>_. Inr (update_json update_default)" "\<lambda>_. Inr update_default"] t(1)
  show ?thesis
    by (simp add: st)
qed

end
