(* ===== verification/Sudo_Request.thy ===== *)
theory Sudo_Request
  imports Prelude
begin

unbundle bit_operations_syntax

text \<open>
  The request that the unprivileged \<open>sudo\<close> of the guest hands to its root service
  (\<open>guest/sudo-bridge/src/transport.rs\<close>): the encoder, the decoder with its checks of the passed
  descriptors, and the frames of the session. Open files are what \<open>fstat\<close> and \<open>isatty\<close> say of them.
\<close>

section \<open>Constants and errors\<close>

definition SUDO_MAGIC :: "u8 list" where "SUDO_MAGIC = bytes_of ''BZSDO001''"
definition INTERACTIVE_UID :: nat where "INTERACTIVE_UID = 1000"
definition INTERACTIVE_GID :: nat where "INTERACTIVE_GID = 1000"
definition MAX_REQUEST_BYTES :: nat where "MAX_REQUEST_BYTES = 2 * 1024 * 1024"
definition MAX_SUDO_ITEMS :: nat where "MAX_SUDO_ITEMS = 16384"
definition MAX_ITEM_BYTES :: nat where "MAX_ITEM_BYTES = 1024 * 1024"
definition MAX_FRAME_BYTES :: nat where "MAX_FRAME_BYTES = 64 * 1024"
definition REQUIRED_FDS :: nat where "REQUIRED_FDS = 4"
definition REQUIRED_FDS_WITH_TTY :: nat where "REQUIRED_FDS_WITH_TTY = 5"

datatype sudo_error =
  Sudo_Invalid string | Sudo_Denied string | Sudo_Io io_error | Sudo_Service "u8 list" | Sudo_Os

section \<open>Encoding\<close>

definition mode_byte :: "string \<Rightarrow> sudo_error + u8" where
  "mode_byte mode =
     (if mode = ''sudo'' then Inr 0 else if mode = ''sudoedit'' then Inr 1
      else Inl (Sudo_Invalid ''invalid sudo invocation mode''))"

fun encode_items :: "u8 list \<Rightarrow> u8 list list \<Rightarrow> sudo_error + u8 list" where
  "encode_items body [] = Inr body"
| "encode_items body (v # vs) =
     then_ok (bail_if (MAX_ITEM_BYTES < length v \<or> 0 \<in> set v) (Sudo_Invalid ''sudo request item is invalid or too long'')) (\<lambda>_.
     let body = body @ be_bytes 4 (length v) @ v in
     then_ok (bail_if (MAX_REQUEST_BYTES < length body) (Sudo_Invalid ''sudo request exceeds the protocol limit''))
       (\<lambda>_. encode_items body vs))"

definition encode_request ::
    "string \<Rightarrow> u32 \<Rightarrow> u8 \<Rightarrow> bool \<Rightarrow> u8 list list \<Rightarrow> u8 list list \<Rightarrow> sudo_error + u8 list" where
  "encode_request mode umask ttys has_tty args env =
     then_ok (bail_if (MAX_SUDO_ITEMS < length args) (Sudo_Invalid ''too many sudo arguments'')) (\<lambda>_.
     then_ok (bail_if (MAX_SUDO_ITEMS < length env) (Sudo_Invalid ''too many environment entries'')) (\<lambda>_.
     then_ok (mode_byte mode) (\<lambda>m.
     then_ok (encode_items
        (SUDO_MAGIC @ [m, ttys AND 7, if has_tty then 1 else 0, 0] @ be_bytes 4 (unat umask) @
         be_bytes 4 (length args) @ be_bytes 4 (length env)) (args @ env)) (\<lambda>body.
     Inr (be_bytes 4 (length body) @ body)))))"

section \<open>Descriptors\<close>

text \<open>What \<open>fstat\<close> and \<open>isatty\<close> report of an open file, and an identity that the model adds.\<close>

record file_status =
  st_dev :: nat
  st_rdev :: nat
  st_mode :: u32
  st_uid :: nat
  st_gid :: nat

record open_file =
  file_id :: nat
  status_of_file :: "file_status option"
  is_tty :: bool

definition S_IFMT :: u32 where "S_IFMT = 0xF000"
definition S_IFDIR :: u32 where "S_IFDIR = 0x4000"
definition S_IFREG :: u32 where "S_IFREG = 0x8000"

definition descriptor_metadata :: "open_file \<Rightarrow> sudo_error + file_status" where
  "descriptor_metadata f = ok_or Sudo_Os (status_of_file f)"

definition same_terminal :: "file_status \<Rightarrow> file_status \<Rightarrow> bool" where
  "same_terminal a b \<longleftrightarrow> st_dev a = st_dev b \<and> st_rdev a = st_rdev b"

fun terminal_mask_from :: "nat \<Rightarrow> u8 \<Rightarrow> file_status \<Rightarrow> open_file list \<Rightarrow> sudo_error + u8" where
  "terminal_mask_from i acc tty [] = Inr acc"
| "terminal_mask_from i acc tty (f # fs) =
     then_ok (descriptor_metadata f) (\<lambda>m.
     terminal_mask_from (Suc i) (if is_tty f \<and> same_terminal m tty then acc OR push_bit i 1 else acc) tty fs)"

definition matching_terminal_mask :: "open_file list \<Rightarrow> open_file \<Rightarrow> sudo_error + u8" where
  "matching_terminal_mask fs tty =
     then_ok (descriptor_metadata tty) (\<lambda>m. terminal_mask_from 0 0 m fs)"

definition validate_descriptors :: "open_file list \<Rightarrow> u8 \<Rightarrow> bool \<Rightarrow> sudo_error + unit" where
  "validate_descriptors fs ttys has_tty =
     then_ok (descriptor_metadata (fs ! 3)) (\<lambda>cwd.
     then_ok (bail_if (st_mode cwd AND S_IFMT \<noteq> S_IFDIR)
       (Sudo_Invalid ''sudo working-directory descriptor is not a directory'')) (\<lambda>_.
     if has_tty then
       then_ok (bail_if (\<not> is_tty (fs ! 4)) (Sudo_Invalid ''sudo terminal descriptor is not a terminal'')) (\<lambda>_.
       then_ok (matching_terminal_mask (take 3 fs) (fs ! 4)) (\<lambda>m.
       bail_if (m \<noteq> ttys) (Sudo_Invalid ''sudo terminal descriptor metadata does not match'')))
     else Inr ()))"

section \<open>Decoding\<close>

text \<open>The name of an entry ends at its first equals sign (byte 61).\<close>

definition env_entry_ok :: "u8 list \<Rightarrow> sudo_error + unit" where
  "env_entry_ok e =
     (case split_once 61 e of
        None \<Rightarrow> Inl (Sudo_Invalid ''sudo environment entry has no name separator'')
      | Some (name, _) \<Rightarrow>
          bail_if (name = [] \<or> 61 \<in> set name) (Sudo_Invalid ''sudo environment entry has an invalid name''))"

definition validate_environment :: "u8 list list \<Rightarrow> sudo_error + unit" where
  "validate_environment env = each_ok env_entry_ok env"

text \<open>One item at the front of what is left of the payload, and \<open>n\<close> of them.\<close>

definition decode_item :: "u8 list \<Rightarrow> sudo_error + (u8 list \<times> u8 list)" where
  "decode_item bs =
     (if length bs < 4 then Inl (Sudo_Invalid ''truncated sudo request item'')
      else let n = from_be (take 4 bs); r = drop 4 bs in
        if MAX_ITEM_BYTES < n \<or> length r < n then Inl (Sudo_Invalid ''invalid sudo request item length'')
        else if 0 \<in> set (take n r) then Inl (Sudo_Invalid ''sudo request item contains NUL'')
        else Inr (take n r, drop n r))"

fun decode_items :: "nat \<Rightarrow> u8 list \<Rightarrow> sudo_error + (u8 list list \<times> u8 list)" where
  "decode_items 0 bs = Inr ([], bs)"
| "decode_items (Suc n) bs =
     then_ok (decode_item bs) (\<lambda>(v, bs). then_ok (decode_items n bs) (\<lambda>(vs, bs). Inr (v # vs, bs)))"

record sudo_request =
  invocation :: string
  request_umask :: u32
  tty_mask :: u8
  has_tty :: bool
  arguments :: "u8 list list"
  environment :: "u8 list list"
  descriptors :: "nat list"

definition mode_of_byte :: "u8 \<Rightarrow> sudo_error + string" where
  "mode_of_byte b =
     (if b = 0 then Inr ''sudo'' else if b = 1 then Inr ''sudoedit'' else Inl (Sudo_Invalid ''invalid sudo protocol mode''))"

definition tty_of_byte :: "u8 \<Rightarrow> sudo_error + bool" where
  "tty_of_byte b =
     (if b = 0 then Inr False else if b = 1 then Inr True
      else Inl (Sudo_Invalid ''invalid sudo terminal-presence metadata''))"

text \<open>\<open>files\<close> is the descriptor table of the service; the request names its descriptors by number.\<close>

definition decode_request :: "(nat \<Rightarrow> open_file) \<Rightarrow> u8 list \<Rightarrow> nat list \<Rightarrow> sudo_error + sudo_request" where
  "decode_request files p fds =
     then_ok (bail_if (length p < 24 \<or> take 8 p \<noteq> SUDO_MAGIC) (Sudo_Invalid ''invalid sudo protocol header'')) (\<lambda>_.
     then_ok (mode_of_byte (p ! 8)) (\<lambda>mode.
     let ttys = p ! 9 in
     then_ok (tty_of_byte (p ! 10)) (\<lambda>has.
     then_ok (bail_if (ttys AND NOT 7 \<noteq> 0 \<or> p ! 11 \<noteq> 0 \<or> (\<not> has \<and> ttys \<noteq> 0))
       (Sudo_Invalid ''invalid sudo terminal metadata'')) (\<lambda>_.
     let umask = (of_nat (from_be (take 4 (drop 12 p))) :: u32) in
     then_ok (bail_if (umask AND NOT 0x1FF \<noteq> 0) (Sudo_Invalid ''invalid sudo umask'')) (\<lambda>_.
     let nargs = from_be (take 4 (drop 16 p)); nenv = from_be (take 4 (drop 20 p)) in
     then_ok (bail_if (MAX_SUDO_ITEMS < nargs \<or> MAX_SUDO_ITEMS < nenv) (Sudo_Invalid ''sudo request has too many items'')) (\<lambda>_.
     then_ok (bail_if (length fds \<noteq> (if has then REQUIRED_FDS_WITH_TTY else REQUIRED_FDS))
       (Sudo_Invalid ''sudo request has the wrong descriptor count'')) (\<lambda>_.
     then_ok (validate_descriptors (map files fds) ttys has) (\<lambda>_.
     then_ok (decode_items (nargs + nenv) (drop 24 p)) (\<lambda>(values, rest).
     then_ok (bail_if (rest \<noteq> []) (Sudo_Invalid ''sudo request has trailing data'')) (\<lambda>_.
     then_ok (validate_environment (drop nargs values)) (\<lambda>_.
     Inr \<lparr>invocation = mode, request_umask = umask, tty_mask = ttys, has_tty = has,
          arguments = take nargs values, environment = drop nargs values, descriptors = fds\<rparr>)))))))))))"

section \<open>Frames of the session\<close>

definition FRAME_READY :: u8 where "FRAME_READY = 1"
definition FRAME_INPUT :: u8 where "FRAME_INPUT = 2"
definition FRAME_OUTPUT :: u8 where "FRAME_OUTPUT = 3"
definition FRAME_SIGNAL :: u8 where "FRAME_SIGNAL = 4"
definition FRAME_RESIZE :: u8 where "FRAME_RESIZE = 5"
definition FRAME_STOPPED :: u8 where "FRAME_STOPPED = 6"
definition FRAME_STATUS :: u8 where "FRAME_STATUS = 7"
definition FRAME_ERROR :: u8 where "FRAME_ERROR = 8"

definition sudo_frame_bytes :: "u8 \<times> u8 list \<Rightarrow> u8 list" where
  "sudo_frame_bytes f = fst f # be_bytes 4 (length (snd f)) @ snd f"

definition send_frame :: "u8 \<Rightarrow> u8 list \<Rightarrow> writer \<Rightarrow> (sudo_error + unit) \<times> writer" where
  "send_frame k p w =
     (if MAX_FRAME_BYTES < length p then (Inl (Sudo_Invalid ''sudo protocol frame is too large''), w)
      else io_then (write_all w (k # be_bytes 4 (length p))) Sudo_Io (\<lambda>_ w.
           io_then (write_all w p) Sudo_Io (\<lambda>_ w. (Inr (), w))))"

definition sudo_read_frame :: "io_error \<Rightarrow> u8 list \<Rightarrow> sudo_error + ((u8 \<times> u8 list) \<times> u8 list)" where
  "sudo_read_frame t bs =
     then_ok (map_err Sudo_Io (read_exact t 5 bs)) (\<lambda>(h, bs).
     let n = from_be (tl h) in
     then_ok (bail_if (MAX_FRAME_BYTES < n) (Sudo_Invalid ''sudo protocol frame exceeds the limit'')) (\<lambda>_.
     then_ok (map_err Sudo_Io (read_exact t n bs)) (\<lambda>(p, bs). Inr ((hd h, p), bs))))"

section \<open>What the decoder accepts\<close>

definition item_ok :: "u8 list \<Rightarrow> bool" where
  "item_ok v \<longleftrightarrow> length v \<le> MAX_ITEM_BYTES \<and> 0 \<notin> set v"

definition item_bytes :: "u8 list \<Rightarrow> u8 list" where
  "item_bytes v = be_bytes 4 (length v) @ v"

lemma from_be_4: "n < 2 ^ 32 \<Longrightarrow> from_be (be_bytes 4 n) = n"
  by (rule from_be_be_bytes) simp

lemma item_length_fits: "item_ok v \<Longrightarrow> from_be (be_bytes 4 (length v)) = length v"
  by (intro from_be_4) (simp add: item_ok_def MAX_ITEM_BYTES_def)

interpretation sudo_items: strict_codec item_bytes decode_item item_ok
proof unfold_locales
  fix v rest
  assume "item_ok v"
  then show "decode_item (item_bytes v @ rest) = Inr (v, rest)"
    using item_length_fits [of v] by (simp add: decode_item_def item_bytes_def item_ok_def)
next
  fix bs v rest
  assume d: "decode_item bs = Inr (v, rest)"
  define n where "n = from_be (take 4 bs)"
  have "4 \<le> length bs" "n \<le> length (drop 4 bs)" "v = take n (drop 4 bs)" "rest = drop n (drop 4 bs)" "item_ok v"
    using d by (auto simp: decode_item_def Let_def n_def item_ok_def split: if_splits)
  moreover then have "length v = n"
    by simp
  moreover have "be_bytes 4 n = take 4 bs"
    using \<open>4 \<le> length bs\<close> by (simp add: n_def)
  ultimately show "item_ok v \<and> bs = item_bytes v @ rest"
    by (metis append.assoc append_take_drop_id item_bytes_def)
qed

lemma decode_items_iff:
  "decode_items n bs = Inr (vs, rest) \<longleftrightarrow>
     length vs = n \<and> list_all item_ok vs \<and> bs = concat (map item_bytes vs) @ rest"
proof (induction n arbitrary: bs vs)
  case (Suc n)
  show ?case
    by (cases vs) (auto simp: then_ok_eq_Inr sudo_items.dec_iff Suc.IH)
qed auto

definition frame_small :: "u8 \<times> u8 list \<Rightarrow> bool" where
  "frame_small f \<longleftrightarrow> length (snd f) \<le> MAX_FRAME_BYTES"

interpretation sudo_frames: strict_codec sudo_frame_bytes "sudo_read_frame t" frame_small for t
proof unfold_locales
  fix f :: "u8 \<times> u8 list" and rest
  assume "frame_small f"
  then have "from_be (be_bytes 4 (length (snd f))) = length (snd f)" "length (snd f) \<le> MAX_FRAME_BYTES"
    by (auto intro!: from_be_4 simp: frame_small_def MAX_FRAME_BYTES_def)
  moreover have "read_exact t 5 (sudo_frame_bytes f @ rest) = Inr (fst f # be_bytes 4 (length (snd f)), snd f @ rest)"
    using read_exact_append [of "fst f # be_bytes 4 (length (snd f))" 5 t "snd f @ rest"] by (simp add: sudo_frame_bytes_def)
  ultimately show "sudo_read_frame t (sudo_frame_bytes f @ rest) = Inr (f, rest)"
    by (simp add: sudo_read_frame_def)
next
  fix bs rest and f :: "u8 \<times> u8 list"
  assume "sudo_read_frame t bs = Inr (f, rest)"
  then obtain h p where h: "bs = h @ p @ rest" "length h = 5" "length p = from_be (tl h)" "from_be (tl h) \<le> MAX_FRAME_BYTES" "f = (hd h, p)"
    by (auto simp: sudo_read_frame_def then_ok_eq_Inr map_err_eq_Inr read_exact_Inr Let_def)
  have "be_bytes 4 (from_be (tl h)) = tl h"
    using h(2) by simp
  then show "frame_small f \<and> bs = sudo_frame_bytes f @ rest"
    using h by (cases h) (auto simp: frame_small_def sudo_frame_bytes_def)
qed

definition request_wire :: "sudo_request \<Rightarrow> u8 list" where
  "request_wire r =
     SUDO_MAGIC @ [if invocation r = ''sudo'' then 0 else 1, tty_mask r, if has_tty r then 1 else 0, 0] @
     be_bytes 4 (unat (request_umask r)) @ be_bytes 4 (length (arguments r)) @ be_bytes 4 (length (environment r)) @
     concat (map item_bytes (arguments r @ environment r))"

definition request_ok :: "sudo_request \<Rightarrow> bool" where
  "request_ok r \<longleftrightarrow> invocation r \<in> {''sudo'', ''sudoedit''} \<and>
     tty_mask r AND NOT 7 = 0 \<and> (has_tty r \<or> tty_mask r = 0) \<and> request_umask r AND NOT 0x1FF = 0 \<and>
     length (arguments r) \<le> MAX_SUDO_ITEMS \<and> length (environment r) \<le> MAX_SUDO_ITEMS \<and>
     list_all item_ok (arguments r @ environment r) \<and>
     list_all (\<lambda>e. \<exists>n v. e = n @ 61 # v \<and> n \<noteq> [] \<and> 61 \<notin> set n) (environment r)"

definition descriptors_ok :: "(nat \<Rightarrow> open_file) \<Rightarrow> sudo_request \<Rightarrow> bool" where
  "descriptors_ok files r \<longleftrightarrow>
     (let file = (\<lambda>i. files (descriptors r ! i)) in
      length (descriptors r) = (if has_tty r then 5 else 4) \<and>
      (\<exists>m. status_of_file (file 3) = Some m \<and> st_mode m AND S_IFMT = S_IFDIR) \<and>
      (has_tty r \<longrightarrow> is_tty (file 4) \<and>
         (\<exists>t. status_of_file (file 4) = Some t \<and>
            (\<forall>i < 3. \<exists>m. status_of_file (file i) = Some m \<and> (bit (tty_mask r) i \<longleftrightarrow> is_tty (file i) \<and> same_terminal m t)))))"

lemma bit_seven: "bit (7 :: u8) i \<longleftrightarrow> i < 3"
proof -
  have "(7 :: u8) = mask 3"
    by (simp add: mask_eq_exp_minus_1)
  then show ?thesis
    unfolding \<open>7 = mask 3\<close> bit_mask_iff by (auto simp: possible_bit_def)
qed

lemma bit_high: "i < 8 \<Longrightarrow> bit ((w :: u8) AND NOT 7) i \<longleftrightarrow> bit w i \<and> \<not> i < 3"
  unfolding bit_and_iff bit_not_iff bit_seven by (simp add: possible_bit_def)

lemma low_bits_iff: "(w :: u8) AND NOT 7 = 0 \<longleftrightarrow> (\<forall>i. bit w i \<longrightarrow> i < 3)"
proof
  assume a: "w AND NOT 7 = 0"
  show "\<forall>i. bit w i \<longrightarrow> i < 3"
  proof (intro allI impI)
    fix i
    assume b: "bit w i"
    then have "i < 8"
      using bit_imp_le_length [of w i] by simp
    from bit_high [OF this, of w] b show "i < 3"
      unfolding a by simp
  qed
next
  assume r: "\<forall>i. bit w i \<longrightarrow> i < 3"
  show "w AND NOT 7 = 0"
  proof (rule bit_word_eqI)
    fix i
    assume "i < LENGTH(8)"
    then have "i < 8"
      by simp
    from bit_high [OF this, of w] r show "bit (w AND NOT 7) i = bit 0 i"
      by auto
  qed
qed

lemma terminal_mask_bits:
  assumes "i + length fs \<le> 8"
  shows "terminal_mask_from i acc t fs = Inr m \<longleftrightarrow>
    (\<forall>k < length fs. status_of_file (fs ! k) \<noteq> None) \<and>
    (\<forall>j < 8. bit m j \<longleftrightarrow> bit acc j \<or> (i \<le> j \<and> j < i + length fs \<and> is_tty (fs ! (j - i)) \<and>
        (\<exists>s. status_of_file (fs ! (j - i)) = Some s \<and> same_terminal s t)))"
  using assms
proof (induction fs arbitrary: i acc)
  case Nil
  have "acc = m \<longleftrightarrow> (\<forall>j < 8. bit m j = bit acc j)"
    by (auto intro: bit_word_eqI)
  then show ?case
    by (auto dest: leD)
next
  case (Cons f fs)
  show ?case
  proof (cases "status_of_file f")
    case None
    then show ?thesis
      by (auto simp: descriptor_metadata_def)
  next
    case (Some s)
    define acc' where "acc' = (if is_tty f \<and> same_terminal s t then acc OR push_bit i 1 else acc)"
    have bits: "bit acc' j \<longleftrightarrow> bit acc j \<or> (j = i \<and> is_tty f \<and> same_terminal s t)" if "j < 8" for j
      using that Cons.prems by (auto simp: acc'_def bit_or_iff bit_exp_iff)
    have step: "terminal_mask_from i acc t (f # fs) = terminal_mask_from (Suc i) acc' t fs"
      using Some by (simp add: descriptor_metadata_def acc'_def)
    have nth: "(f # fs) ! (j - i) = (if j = i then f else fs ! (j - Suc i))" if "i \<le> j" for j
      using that by (auto simp: nth_Cons split: nat.split) (metis Suc_diff_Suc diff_Suc_Suc le_neq_implies_less nat.inject)
    have all: "(\<forall>k < length (f # fs). status_of_file ((f # fs) ! k) \<noteq> None) \<longleftrightarrow> (\<forall>k < length fs. status_of_file (fs ! k) \<noteq> None)"
      using Some by (auto simp: nth_Cons split: nat.splits)
    have "terminal_mask_from i acc t (f # fs) = Inr m \<longleftrightarrow>
      (\<forall>k < length fs. status_of_file (fs ! k) \<noteq> None) \<and>
      (\<forall>j < 8. bit m j \<longleftrightarrow> bit acc' j \<or> (Suc i \<le> j \<and> j < Suc i + length fs \<and> is_tty (fs ! (j - Suc i)) \<and>
        (\<exists>s. status_of_file (fs ! (j - Suc i)) = Some s \<and> same_terminal s t)))"
      unfolding step using Cons.prems by (intro Cons.IH) simp
    also have "\<dots> \<longleftrightarrow> (\<forall>k < length fs. status_of_file (fs ! k) \<noteq> None) \<and>
      (\<forall>j < 8. bit m j \<longleftrightarrow> bit acc j \<or> (i \<le> j \<and> j < i + length (f # fs) \<and> is_tty ((f # fs) ! (j - i)) \<and>
        (\<exists>s. status_of_file ((f # fs) ! (j - i)) = Some s \<and> same_terminal s t)))"
    proof -
      have "(bit acc' j \<or> (Suc i \<le> j \<and> j < Suc i + length fs \<and> is_tty (fs ! (j - Suc i)) \<and>
          (\<exists>s. status_of_file (fs ! (j - Suc i)) = Some s \<and> same_terminal s t))) \<longleftrightarrow>
        (bit acc j \<or> (i \<le> j \<and> j < i + length (f # fs) \<and> is_tty ((f # fs) ! (j - i)) \<and>
          (\<exists>s. status_of_file ((f # fs) ! (j - i)) = Some s \<and> same_terminal s t)))" if "j < 8" for j
        using bits [OF that] Some by (cases "j = i"; cases "i \<le> j") (auto simp: nth)
      then show ?thesis
        by simp
    qed
    finally show ?thesis
      unfolding all .
  qed
qed

lemma validate_descriptors_iff:
  assumes fds: "length (descriptors r) = (if has_tty r then 5 else 4)" and low: "tty_mask r AND NOT 7 = 0"
  shows "validate_descriptors (map files (descriptors r)) (tty_mask r) (has_tty r) = Inr u \<longleftrightarrow> descriptors_ok files r"
proof -
  let ?fs = "map files (descriptors r)"
  have mask: "matching_terminal_mask (take 3 ?fs) (?fs ! 4) = Inr (tty_mask r) \<longleftrightarrow>
      (\<exists>t. status_of_file (files (descriptors r ! 4)) = Some t \<and>
        (\<forall>i < 3. \<exists>m. status_of_file (files (descriptors r ! i)) = Some m \<and>
          (bit (tty_mask r) i \<longleftrightarrow> is_tty (files (descriptors r ! i)) \<and> same_terminal m t)))" if "has_tty r"
  proof -
    have n: "length (descriptors r) = 5"
      using fds that by simp
    have high: "\<not> bit (tty_mask r) j" if "\<not> j < 3" for j
      using low_bits_iff [THEN iffD1, OF low] that by blast
    have at: "take 3 ?fs ! k = files (descriptors r ! k)" if "k < 3" for k
      using that n by simp
    have "terminal_mask_from 0 0 t (take 3 ?fs) = Inr (tty_mask r) \<longleftrightarrow>
        (\<forall>i < 3. \<exists>m. status_of_file (files (descriptors r ! i)) = Some m \<and>
          (bit (tty_mask r) i \<longleftrightarrow> is_tty (files (descriptors r ! i)) \<and> same_terminal m t))" (is "?l = ?r") for t
    proof -
      have len: "length (take 3 ?fs) = 3"
        using n by simp
      have "?l \<longleftrightarrow> (\<forall>k < 3. status_of_file (files (descriptors r ! k)) \<noteq> None) \<and>
        (\<forall>j < 8. bit (tty_mask r) j \<longleftrightarrow> j < 3 \<and> is_tty (files (descriptors r ! j)) \<and>
          (\<exists>s. status_of_file (files (descriptors r ! j)) = Some s \<and> same_terminal s t))"
        using terminal_mask_bits [of 0 "take 3 ?fs" 0 t "tty_mask r"] n
        by (simp add: at cong: conj_cong)
      also have "\<dots> \<longleftrightarrow> ?r"
      proof
        assume a: "(\<forall>k < 3. status_of_file (files (descriptors r ! k)) \<noteq> None) \<and>
          (\<forall>j < 8. bit (tty_mask r) j \<longleftrightarrow> j < 3 \<and> is_tty (files (descriptors r ! j)) \<and>
            (\<exists>s. status_of_file (files (descriptors r ! j)) = Some s \<and> same_terminal s t))"
        show ?r
        proof (rule allI, rule impI)
          fix i :: nat
          assume i: "i < 3"
          with a obtain m where "status_of_file (files (descriptors r ! i)) = Some m"
            by blast
          with a i show "\<exists>m. status_of_file (files (descriptors r ! i)) = Some m \<and>
              (bit (tty_mask r) i \<longleftrightarrow> is_tty (files (descriptors r ! i)) \<and> same_terminal m t)"
            by simp
        qed
      next
        assume a: ?r
        have "bit (tty_mask r) j \<longleftrightarrow> j < 3 \<and> is_tty (files (descriptors r ! j)) \<and>
            (\<exists>s. status_of_file (files (descriptors r ! j)) = Some s \<and> same_terminal s t)" for j
          using a high [of j] by (cases "j < 3") auto
        then show "(\<forall>k < 3. status_of_file (files (descriptors r ! k)) \<noteq> None) \<and>
          (\<forall>j < 8. bit (tty_mask r) j \<longleftrightarrow> j < 3 \<and> is_tty (files (descriptors r ! j)) \<and>
            (\<exists>s. status_of_file (files (descriptors r ! j)) = Some s \<and> same_terminal s t))"
          using a by blast
      qed
      finally show ?thesis .
    qed
    then show ?thesis
      using n by (auto simp: matching_terminal_mask_def then_ok_eq_Inr descriptor_metadata_def ok_or_eq_Inr)
  qed
  show ?thesis
    using fds mask
    by (auto simp: validate_descriptors_def descriptors_ok_def Let_def then_ok_eq_Inr descriptor_metadata_def ok_or_eq_Inr)
qed

section \<open>The decoder as an equivalence\<close>

lemma take_split: "take n bs = a \<Longrightarrow> drop n bs = r \<Longrightarrow> bs = a @ r"
  by (metis append_take_drop_id)

lemma header_of_payload:
  assumes "24 \<le> length p"
  shows "p = take 8 p @ [p ! 8, p ! 9, p ! 10, p ! 11] @ take 4 (drop 12 p) @ take 4 (drop 16 p) @ take 4 (drop 20 p) @ drop 24 p"
proof -
  have "drop 8 p = [p ! 8, p ! 9, p ! 10, p ! 11] @ drop 12 p"
    using assms by (simp add: Cons_nth_drop_Suc [symmetric])
  moreover have "drop 12 p = take 4 (drop 12 p) @ take 4 (drop 16 p) @ take 4 (drop 20 p) @ drop 24 p"
    using append_take_drop_id [of 4 "drop 12 p"] append_take_drop_id [of 4 "drop 16 p"] append_take_drop_id [of 4 "drop 20 p"]
    by simp
  ultimately show ?thesis
    by (metis append_assoc append_take_drop_id)
qed

text \<open>The fields of a payload that begins with a given header.\<close>

lemma header_read:
  fixes m t h z :: u8
  assumes p: "p = SUDO_MAGIC @ [m, t, h, z] @ u @ a @ e @ rest" and len: "length u = 4" "length a = 4" "length e = 4"
  shows "24 \<le> length p" "take 8 p = SUDO_MAGIC" "p ! 8 = m" "p ! 9 = t" "p ! 10 = h" "p ! 11 = z"
    "take 4 (drop 12 p) = u" "take 4 (drop 16 p) = a" "take 4 (drop 20 p) = e" "drop 24 p = rest"
proof -
  have "length SUDO_MAGIC = 8"
    by (simp add: SUDO_MAGIC_def)
  then show "24 \<le> length p" "take 8 p = SUDO_MAGIC" "p ! 8 = m" "p ! 9 = t" "p ! 10 = h" "p ! 11 = z"
    "take 4 (drop 12 p) = u" "take 4 (drop 16 p) = a" "take 4 (drop 20 p) = e" "drop 24 p = rest"
    using len by (simp_all add: p nth_append)
qed

lemma env_entry_iff: "env_entry_ok e = Inr u \<longleftrightarrow> (\<exists>n v. e = n @ 61 # v \<and> n \<noteq> [] \<and> 61 \<notin> set n)"
proof (cases "split_once 61 e")
  case None
  then show ?thesis
    by (simp add: env_entry_ok_def) (auto simp: split_once_None)
next
  case (Some nv)
  obtain n v where nv: "split_once 61 e = Some (n, v)"
    using Some by (cases nv) simp
  then have e: "e = n @ 61 # v" "61 \<notin> set n"
    by (simp_all add: split_once_Some)
  have "n = n'" if "e = n' @ 61 # v'" "61 \<notin> set n'" for n' v'
    using split_once_append [of 61 n' v'] that nv by simp
  then have "(\<exists>n v. e = n @ 61 # v \<and> n \<noteq> [] \<and> 61 \<notin> set n) \<longleftrightarrow> n \<noteq> []"
    using e by metis
  moreover have "env_entry_ok e = Inr u \<longleftrightarrow> n \<noteq> []"
    using e(2) by (simp add: env_entry_ok_def nv)
  ultimately show ?thesis
    by simp
qed

lemma unat_umask: "of_nat (unat w) = (w :: u32)" "unat (w :: u32) < 2 ^ 32"
  using unsigned_less [of w, where 'a = nat] by simp_all

lemma mode_of_byte_iff: "mode_of_byte b = Inr m \<longleftrightarrow> m \<in> {''sudo'', ''sudoedit''} \<and> b = (if m = ''sudo'' then 0 else 1)"
  by (auto simp: mode_of_byte_def)

lemma tty_of_byte_iff: "tty_of_byte b = Inr h \<longleftrightarrow> b = (if h then 1 else 0)"
  by (cases h) (auto simp: tty_of_byte_def)

lemma count_fits: "n \<le> MAX_SUDO_ITEMS \<Longrightarrow> from_be (be_bytes 4 n) = n"
  by (rule from_be_4) (simp add: MAX_SUDO_ITEMS_def)

lemma decode_request_wire:
  assumes ok: "request_ok r" and fds: "descriptors_ok files r"
  shows "decode_request files (request_wire r) (descriptors r) = Inr r"
proof -
  let ?rest = "concat (map item_bytes (arguments r @ environment r))"
  note h = header_read [OF request_wire_def [of r] length_be_bytes length_be_bytes length_be_bytes]
  have n: "length (descriptors r) = (if has_tty r then 5 else 4)"
    using fds by (auto simp: descriptors_ok_def Let_def)
  have low: "tty_mask r AND NOT 7 = 0"
    using ok by (auto simp: request_ok_def)
  have items: "decode_items (length (arguments r) + length (environment r)) ?rest = Inr (arguments r @ environment r, [])"
    using ok by (auto simp: decode_items_iff request_ok_def)
  have "validate_descriptors (map files (descriptors r)) (tty_mask r) (has_tty r) = Inr ()"
    using fds validate_descriptors_iff [OF n low] by blast
  moreover have "validate_environment (environment r) = Inr ()"
    using ok by (auto simp: validate_environment_def env_entry_iff request_ok_def list_all_iff)
  moreover have "mode_of_byte (if invocation r = ''sudo'' then 0 else 1) = Inr (invocation r)"
    using ok by (auto simp: mode_of_byte_iff request_ok_def)
  moreover have "tty_of_byte (if has_tty r then 1 else 0) = Inr (has_tty r)"
    by (simp add: tty_of_byte_iff)
  moreover have "from_be (be_bytes 4 (length (arguments r))) = length (arguments r)"
    "from_be (be_bytes 4 (length (environment r))) = length (environment r)"
    using ok by (simp_all add: count_fits request_ok_def)
  moreover have "\<not> (tty_mask r AND NOT 7 \<noteq> 0 \<or> (0 :: u8) \<noteq> 0 \<or> \<not> has_tty r \<and> tty_mask r \<noteq> 0)"
    "\<not> (request_umask r AND NOT 0x1FF \<noteq> 0)" "\<not> (MAX_SUDO_ITEMS < length (arguments r) \<or> MAX_SUDO_ITEMS < length (environment r))"
    using ok low by (simp_all add: request_ok_def)
  moreover have "(of_nat (from_be (be_bytes 4 (unat (request_umask r)))) :: u32) = request_umask r"
    by (simp only: from_be_4 [OF unat_umask(2)] unat_umask(1))
  ultimately show ?thesis
    using n items h(1,2) ok
    by (cases "has_tty r") (simp_all add: decode_request_def h(3-10) Let_def request_ok_def REQUIRED_FDS_def REQUIRED_FDS_WITH_TTY_def)
qed

lemma decode_request_sound:
  assumes d: "decode_request files p fds = Inr r"
  shows "request_ok r \<and> descriptors_ok files r \<and> descriptors r = fds \<and> p = request_wire r"
proof -
  define nargs where "nargs = from_be (take 4 (drop 16 p))"
  define nenv where "nenv = from_be (take 4 (drop 20 p))"
  define um where "um = take 4 (drop 12 p)"
  obtain mode where m: "24 \<le> length p" "take 8 p = SUDO_MAGIC" "mode_of_byte (p ! 8) = Inr mode"
    using d by (auto simp: decode_request_def then_ok_eq_Inr)
  obtain has where t: "tty_of_byte (p ! 10) = Inr has"
    using d m by (auto simp: decode_request_def then_ok_eq_Inr Let_def)
  note d1 = d [unfolded decode_request_def Let_def nargs_def [symmetric] nenv_def [symmetric] um_def [symmetric] m t then_ok_Inr]
  have c: "p ! 9 AND NOT 7 = 0" "p ! 11 = 0" "has \<or> p ! 9 = 0" "(of_nat (from_be um) :: u32) AND NOT 0x1FF = 0"
      "nargs \<le> MAX_SUDO_ITEMS" "nenv \<le> MAX_SUDO_ITEMS" "length fds = (if has then 5 else 4)"
      "validate_descriptors (map files fds) (p ! 9) has = Inr ()"
    using d1 by (auto simp: then_ok_eq_Inr REQUIRED_FDS_def REQUIRED_FDS_WITH_TTY_def split: if_splits)
  obtain vals where v: "decode_items (nargs + nenv) (drop 24 p) = Inr (vals, [])"
      "validate_environment (drop nargs vals) = Inr ()"
    and r: "r = \<lparr>invocation = mode, request_umask = of_nat (from_be um), tty_mask = p ! 9, has_tty = has,
          arguments = take nargs vals, environment = drop nargs vals, descriptors = fds\<rparr>"
    using d1 by (auto simp: then_ok_eq_Inr)
  note h = m t c v
  have w: "length vals = nargs + nenv" "list_all item_ok vals" "drop 24 p = concat (map item_bytes vals)"
    using v by (simp_all add: decode_items_iff)
  have "length um = 4"
    using h(1) by (simp add: um_def)
  then have "from_be um < 2 ^ 32"
    using from_be_bound [of um] by simp
  then have um: "be_bytes 4 (unat (of_nat (from_be um) :: u32)) = um"
    using \<open>length um = 4\<close> by (simp add: unsigned_of_nat take_bit_nat_eq_self)
  have "be_bytes 4 nargs = take 4 (drop 16 p)" "be_bytes 4 nenv = take 4 (drop 20 p)"
    using h(1) by (simp_all add: nargs_def nenv_def)
  then have "p = request_wire r"
    using header_of_payload [OF h(1)] h w um
    by (simp add: request_wire_def r mode_of_byte_iff tty_of_byte_iff um_def [symmetric])
  moreover have "request_ok r"
    using h w by (auto simp: request_ok_def r mode_of_byte_iff validate_environment_def env_entry_iff list_all_iff)
  moreover have "descriptors_ok files r"
    using validate_descriptors_iff [of r files "()"] h r by simp
  ultimately show ?thesis
    by (simp add: r)
qed

text \<open>
  C34. The root service accepts exactly the requests of the sudo client. A payload decodes to a request if and
  only if it is that request in the client's encoding, with nothing left over, and the request is
  admissible: a known mode, a umask of nine bits, at most 16384 arguments and as many environment
  entries, each without NUL and within a megabyte, each environment entry with a name, and exactly the
  four or five descriptors whose kinds fit: a directory to work in, and, with a terminal, a mask that
  says for each standard stream whether it is that very terminal.
\<close>

theorem sudo_request_iff:
  "decode_request files p fds = Inr r \<longleftrightarrow>
     request_ok r \<and> descriptors_ok files r \<and> descriptors r = fds \<and> p = request_wire r"
  using decode_request_sound [of files p fds r] decode_request_wire [of r files] by blast

end
