(* ===== verification/Sudo_Relay.thy ===== *)
theory Sudo_Relay
  imports Sudo_Request
begin

text \<open>
  The two relays of a sudo session (\<open>guest/sudo-bridge/src/transport.rs\<close>): the service's, between the
  socket and the pseudo terminal of the child, and the client's, between the socket and the user's
  terminal. Each is a machine with one event for each turn of its loop; the event says what \<open>waitpid\<close>,
  \<open>poll\<close> and the reads and writes of that turn returned.
\<close>

section \<open>The relay of the service\<close>

text \<open>An exit status has eight bits, a signal number seven.\<close>

datatype child_end = Exited u8 | Signaled "7 word"

definition SIGHUP :: nat where "SIGHUP = 1"

datatype wait_result = Wait_Failed | Wait_Nothing | Wait_Stopped nat | Wait_Continued | Wait_Ended child_end

datatype poll_result =
  Poll_Interrupted | Poll_Failed
| Poll_Ready (conn_in: bool) (conn_hup: bool) (master_in: bool) (master_hup: bool)

datatype tty_read = Got "u8 list" | Tty_Eof | Tty_Again | Tty_Interrupted | Tty_Eio | Tty_Error

datatype tty_write = Wrote nat | Write_Interrupted | Write_Failed

record relay_event =
  waited :: wait_result
  polled :: poll_result
  tty_writes :: "tty_write list"
  tty_reads :: "tty_read list"

record relay =
  final_status :: "child_end option"
  has_master :: bool
  master_open :: bool
  from_client :: "u8 list"
  to_client :: writer
  typed :: "u8 list"
  printed :: "u8 list"
  kills :: "nat list"
  sizes :: "(nat \<times> nat \<times> nat \<times> nat) list"
  finished :: "(sudo_error + unit) option"

text \<open>\<open>write_all_fd\<close>: the outcome, and the bytes that were accepted.\<close>

fun write_all_fd :: "tty_write list \<Rightarrow> u8 list \<Rightarrow> (sudo_error + unit) \<times> u8 list" where
  "write_all_fd ws [] = (Inr (), [])"
| "write_all_fd [] bs = (Inr (), bs)"
| "write_all_fd (Write_Interrupted # ws) bs = write_all_fd ws bs"
| "write_all_fd (Write_Failed # ws) bs = (Inl Sudo_Os, [])"
| "write_all_fd (Wrote n # ws) bs =
     (if n = 0 then (Inl (Sudo_Io Io_Other), [])
      else case write_all_fd ws (drop n bs) of (r, w) \<Rightarrow> (r, take n bs @ w))"

definition send_to :: "u8 \<Rightarrow> u8 list \<Rightarrow> relay \<Rightarrow> (sudo_error + unit) \<times> relay" where
  "send_to k p s = (case send_frame k p (to_client s) of (r, w) \<Rightarrow> (r, s\<lparr>to_client := w\<rparr>))"

definition kill_group :: "nat \<Rightarrow> relay \<Rightarrow> relay" where
  "kill_group sig s = s\<lparr>kills := kills s @ [sig]\<rparr>"

text \<open>\<open>SIGHUP\<close>, \<open>SIGINT\<close>, \<open>SIGQUIT\<close>, \<open>SIGTERM\<close>, \<open>SIGTSTP\<close>, \<open>SIGCONT\<close>, \<open>SIGWINCH\<close>.\<close>

definition allowed_signal :: "nat \<Rightarrow> bool" where
  "allowed_signal n \<longleftrightarrow> n \<in> {1, 2, 3, 15, 20, 18, 28}"

definition wait_phase :: "wait_result \<Rightarrow> relay \<Rightarrow> (sudo_error + unit) \<times> relay" where
  "wait_phase w s =
     (if final_status s \<noteq> None then (Inr (), s)
      else case w of
        Wait_Failed \<Rightarrow> (Inl Sudo_Os, s)
      | Wait_Stopped n \<Rightarrow> send_to FRAME_STOPPED (be_bytes 4 n) s
      | Wait_Ended e \<Rightarrow> (Inr (), s\<lparr>final_status := Some e\<rparr>)
      | _ \<Rightarrow> (Inr (), s))"

fun status_payload :: "child_end \<Rightarrow> u8 list" where
  "status_payload (Exited n) = be_bytes 4 (unat n) @ be_bytes 4 0"
| "status_payload (Signaled n) = be_bytes 4 (128 + unat n) @ be_bytes 4 (unat n)"

text \<open>One frame of the client; \<open>i32\<close> signals outside the allowed ones, negative ones too, are ignored.\<close>

definition client_frame_phase :: "tty_write list \<Rightarrow> relay \<Rightarrow> (sudo_error + unit) \<times> relay" where
  "client_frame_phase ws s =
     (case sudo_read_frame UnexpectedEof (from_client s) of
        Inl e \<Rightarrow>
          if e = Sudo_Io UnexpectedEof then (Inr (), kill_group SIGHUP (s\<lparr>from_client := []\<rparr>)) else (Inl e, s)
      | Inr ((k, p), rest) \<Rightarrow>
          let s = s\<lparr>from_client := rest\<rparr> in
          if k = FRAME_INPUT \<and> master_open s then
            (case write_all_fd ws p of (r, w) \<Rightarrow> (r, s\<lparr>typed := typed s @ w\<rparr>))
          else if k = FRAME_SIGNAL \<and> length p = 4 then
            (Inr (), if allowed_signal (from_be p) then kill_group (from_be p) s else s)
          else if k = FRAME_RESIZE \<and> length p = 8 \<and> master_open s then
            (Inr (), s\<lparr>sizes := sizes s @ [(from_be (take 2 p), from_be (take 2 (drop 2 p)),
               from_be (take 2 (drop 4 p)), from_be (drop 6 p))]\<rparr>)
          else (Inl (Sudo_Invalid ''invalid sudo client frame''), s))"

definition print_out :: "u8 list \<Rightarrow> relay \<Rightarrow> (sudo_error + unit) \<times> relay" where
  "print_out bs s = send_to FRAME_OUTPUT bs (s\<lparr>printed := printed s @ bs\<rparr>)"

text \<open>A read of the terminal delivers at most 16384 bytes, and never none.\<close>

definition tty_chunk :: "u8 list \<Rightarrow> bool" where
  "tty_chunk bs \<longleftrightarrow> bs \<noteq> [] \<and> length bs \<le> 16384"

fun master_in_phase :: "tty_read list \<Rightarrow> relay \<Rightarrow> (sudo_error + tty_read list) \<times> relay" where
  "master_in_phase [] s = (Inr [], s)"
| "master_in_phase (Got bs # rs) s =
     (if tty_chunk bs then io_then (print_out bs s) id (\<lambda>_ s. (Inr rs, s)) else (Inr rs, s))"
| "master_in_phase (Tty_Eof # rs) s = (Inr rs, s\<lparr>master_open := False\<rparr>)"
| "master_in_phase (Tty_Again # rs) s = (Inr rs, s)"
| "master_in_phase (Tty_Eio # rs) s = (Inr rs, s\<lparr>master_open := False\<rparr>)"
| "master_in_phase (Tty_Interrupted # rs) s = (Inl Sudo_Os, s)"
| "master_in_phase (Tty_Error # rs) s = (Inl Sudo_Os, s)"

fun drain :: "tty_read list \<Rightarrow> relay \<Rightarrow> (sudo_error + unit) \<times> relay" where
  "drain (Got bs # rs) s =
     (if tty_chunk bs then io_then (print_out bs s) id (\<lambda>_ s. drain rs s) else drain rs s)"
| "drain rs s = (Inr (), s)"

definition master_phase :: "tty_read list \<Rightarrow> bool \<Rightarrow> bool \<Rightarrow> relay \<Rightarrow> (sudo_error + unit) \<times> relay" where
  "master_phase rs readable hup s =
     io_then (if master_open s \<and> readable then master_in_phase rs s else (Inr rs, s)) id (\<lambda>rs s.
     if master_open s \<and> hup then io_then (drain rs s) id (\<lambda>_ s. (Inr (), s\<lparr>master_open := False\<rparr>))
     else (Inr (), s))"

definition relay_rest :: "relay_event \<Rightarrow> relay \<Rightarrow> (sudo_error + bool) \<times> relay" where
  "relay_rest e s =
     (case polled e of
        Poll_Interrupted \<Rightarrow> (Inr False, s)
      | Poll_Failed \<Rightarrow> (Inl Sudo_Os, s)
      | Poll_Ready ci ch mi mh \<Rightarrow>
          io_then (if ci then client_frame_phase (tty_writes e) s else (Inr (), s)) id (\<lambda>_ s.
          let s = (if ch \<and> \<not> ci then kill_group SIGHUP s else s) in
          io_then (master_phase (tty_reads e) mi mh s) id (\<lambda>_ s. (Inr False, s))))"

text \<open>A turn of the loop; the answer says whether the relay returns.\<close>

definition relay_turn :: "relay_event \<Rightarrow> relay \<Rightarrow> (sudo_error + bool) \<times> relay" where
  "relay_turn e s =
     io_then (wait_phase (waited e) s) id (\<lambda>_ s.
     case final_status s of
       Some st \<Rightarrow>
         if \<not> master_open s then io_then (send_to FRAME_STATUS (status_payload st) s) id (\<lambda>_ s. (Inr True, s))
         else relay_rest e s
     | None \<Rightarrow> relay_rest e s)"

definition relay_step :: "relay \<Rightarrow> relay_event \<Rightarrow> relay \<times> unit" where
  "relay_step s e =
     (if finished s \<noteq> None then (s, ())
      else case relay_turn e s of
        (Inl er, s) \<Rightarrow> (s\<lparr>finished := Some (Inl er)\<rparr>, ())
      | (Inr ret, s) \<Rightarrow> (s\<lparr>finished := (if ret then Some (Inr ()) else None)\<rparr>, ()))"

definition relay_start :: "bool \<Rightarrow> u8 list \<Rightarrow> writer \<Rightarrow> relay" where
  "relay_start m incoming out =
     \<lparr>final_status = None, has_master = m, master_open = m, from_client = incoming, to_client = out, typed = [],
      printed = [], kills = [], sizes = [], finished = None\<rparr>"

section \<open>The relay of the client\<close>

record client =
  ready :: bool
  on_terminal :: bool
  raw_mode :: bool
  from_service :: "u8 list"
  to_service :: writer
  shown :: "u8 list"
  returned :: "(sudo_error + nat) option"

datatype client_poll =
  Client_Interrupted | Client_Failed
| Client_Ready (service_in: bool) (service_hup: bool) (tty_in: bool) (signal_in: bool)

record client_event =
  client_polled :: client_poll
  set_raw_ok :: bool
  winsize :: "(nat \<times> nat \<times> nat \<times> nat) option"
  show_writes :: "tty_write list"
  suspend_ok :: bool
  key_read :: tty_read
  signal_read :: "nat list"

definition client_send :: "u8 \<Rightarrow> u8 list \<Rightarrow> client \<Rightarrow> (sudo_error + unit) \<times> client" where
  "client_send k p s = (case send_frame k p (to_service s) of (r, w) \<Rightarrow> (r, s\<lparr>to_service := w\<rparr>))"

definition enter_raw :: "bool \<Rightarrow> client \<Rightarrow> (sudo_error + unit) \<times> client" where
  "enter_raw ok s =
     (if \<not> on_terminal s \<or> raw_mode s then (Inr (), s)
      else if ok then (Inr (), s\<lparr>raw_mode := True\<rparr>) else (Inl Sudo_Os, s))"

definition restore :: "client \<Rightarrow> client" where
  "restore s = s\<lparr>raw_mode := False\<rparr>"

definition send_resize :: "(nat \<times> nat \<times> nat \<times> nat) option \<Rightarrow> client \<Rightarrow> (sudo_error + unit) \<times> client" where
  "send_resize dims s =
     (case dims of
        None \<Rightarrow> (Inl Sudo_Os, s)
      | Some (r, c, x, y) \<Rightarrow> client_send FRAME_RESIZE (be_bytes 2 r @ be_bytes 2 c @ be_bytes 2 x @ be_bytes 2 y) s)"

definition resize_if_terminal :: "client_event \<Rightarrow> client \<Rightarrow> (sudo_error + unit) \<times> client" where
  "resize_if_terminal e s = (if on_terminal s then send_resize (winsize e) s else (Inr (), s))"

text \<open>One frame of the service; the answer is the exit code, once there is one.\<close>

definition on_service_frame :: "client_event \<Rightarrow> u8 \<Rightarrow> u8 list \<Rightarrow> client \<Rightarrow> (sudo_error + nat option) \<times> client" where
  "on_service_frame e k p s =
     (if k = FRAME_READY \<and> p = [] then
       io_then (enter_raw (set_raw_ok e) (s\<lparr>ready := True\<rparr>)) id (\<lambda>_ s.
       io_then (resize_if_terminal e s) id (\<lambda>_ s. (Inr None, s)))
     else if k = FRAME_OUTPUT then
       (case write_all_fd (show_writes e) p of
          (Inl er, w) \<Rightarrow> (Inl er, s\<lparr>shown := shown s @ w\<rparr>)
        | (Inr _, w) \<Rightarrow> (Inr None, s\<lparr>shown := shown s @ w\<rparr>))
     else if k = FRAME_STOPPED \<and> length p = 4 then
       (if \<not> suspend_ok e then (Inl Sudo_Os, restore s)
        else io_then (enter_raw (set_raw_ok e) (restore s)) id (\<lambda>_ s.
          io_then (client_send FRAME_SIGNAL (be_bytes 4 18) s) id (\<lambda>_ s. (Inr None, s))))
     else if k = FRAME_STATUS \<and> length p = 8 then
       (let code = from_be (take 4 p) in (Inr (Some (if code < 256 then code else 255)), restore s))
     else if k = FRAME_ERROR then (Inl (Sudo_Service p), restore s)
     else (Inl (Sudo_Invalid ''invalid sudo service frame''), s))"

definition service_frame_phase :: "client_event \<Rightarrow> client \<Rightarrow> (sudo_error + nat option) \<times> client" where
  "service_frame_phase e s =
     (case sudo_read_frame UnexpectedEof (from_service s) of
        Inl er \<Rightarrow> (Inl er, s)
      | Inr ((k, p), rest) \<Rightarrow> on_service_frame e k p (s\<lparr>from_service := rest\<rparr>))"

definition key_phase :: "client_event \<Rightarrow> client \<Rightarrow> (sudo_error + unit) \<times> client" where
  "key_phase e s =
     (case key_read e of
        Got bs \<Rightarrow> if tty_chunk bs then client_send FRAME_INPUT bs s else (Inr (), s)
      | Tty_Eof \<Rightarrow> (Inr (), s)
      | Tty_Interrupted \<Rightarrow> (Inr (), s)
      | _ \<Rightarrow> (Inl Sudo_Os, s))"

fun signals_phase :: "client_event \<Rightarrow> nat list \<Rightarrow> client \<Rightarrow> (sudo_error + unit) \<times> client" where
  "signals_phase e [] s = (Inr (), s)"
| "signals_phase e (n # ns) s =
     io_then (if n = 28 then resize_if_terminal e s
              else if allowed_signal n then client_send FRAME_SIGNAL (be_bytes 4 n) s
              else (Inr (), s)) id (\<lambda>_ s. signals_phase e ns s)"

definition client_turn :: "client_event \<Rightarrow> client \<Rightarrow> (sudo_error + nat option) \<times> client" where
  "client_turn e s =
     (case client_polled e of
        Client_Interrupted \<Rightarrow> (Inr None, s)
      | Client_Failed \<Rightarrow> (Inl Sudo_Os, s)
      | Client_Ready si sh ti gi \<Rightarrow>
          io_then (if si then service_frame_phase e s else (Inr None, s)) id (\<lambda>code s.
          if code \<noteq> None then (Inr code, s)
          else if sh \<and> \<not> si then (Inl (Sudo_Io UnexpectedEof), s)
          else
            io_then (if ready s \<and> on_terminal s \<and> ti then key_phase e s else (Inr (), s)) id (\<lambda>_ s.
            io_then (if gi then signals_phase e (take 64 (signal_read e)) s else (Inr (), s)) id (\<lambda>_ s. (Inr None, s)))))"

text \<open>However the relay ends, the destructor of the terminal guard restores the terminal.\<close>

definition client_step :: "client \<Rightarrow> client_event \<Rightarrow> client \<times> unit" where
  "client_step s e =
     (if returned s \<noteq> None then (s, ())
      else case client_turn e s of
        (Inl er, s) \<Rightarrow> ((restore s)\<lparr>returned := Some (Inl er)\<rparr>, ())
      | (Inr (Some code), s) \<Rightarrow> ((restore s)\<lparr>returned := Some (Inr code)\<rparr>, ())
      | (Inr None, s) \<Rightarrow> (s, ()))"

definition client_start :: "bool \<Rightarrow> u8 list \<Rightarrow> writer \<Rightarrow> client" where
  "client_start tty incoming out =
     \<lparr>ready = False, on_terminal = tty, raw_mode = False, from_service = incoming, to_service = out, shown = [], returned = None\<rparr>"

section \<open>What a relay preserves\<close>

definition payloads :: "u8 \<Rightarrow> (u8 \<times> u8 list) list \<Rightarrow> u8 list" where
  "payloads k fs = concat (map snd (filter (\<lambda>f. fst f = k) fs))"

definition wire_of :: "(u8 \<times> u8 list) list \<Rightarrow> u8 list" where
  "wire_of fs = concat (map sudo_frame_bytes fs)"

lemma payloads_append [simp]: "payloads k (fs @ gs) = payloads k fs @ payloads k gs"
  by (simp add: payloads_def)

lemma wire_of_append [simp]: "wire_of (fs @ gs) = wire_of fs @ wire_of gs"
  by (simp add: wire_of_def)

lemma payloads_one [simp]: "payloads k [] = []" "payloads k [f] = (if fst f = k then snd f else [])"
  by (simp_all add: payloads_def)

lemma wire_of_one [simp]: "wire_of [] = []" "wire_of [f] = sudo_frame_bytes f"
  by (simp_all add: wire_of_def)

lemma send_frame_Inr:
  "send_frame k p w = (Inr u, w') \<Longrightarrow> frame_small (k, p) \<and> written w' = written w @ sudo_frame_bytes (k, p)"
  by (auto simp: send_frame_def frame_small_def sudo_frame_bytes_def io_then_eq_Inr write_all_def split: if_splits)

lemma write_all_fd_Inr: "write_all_fd ws bs = (Inr u, w) \<Longrightarrow> w = bs"
  by (induction ws bs arbitrary: w rule: write_all_fd.induct) (auto split: prod.splits if_splits)

text \<open>The frames that the service sends before the status.\<close>

definition session_frame :: "u8 \<times> u8 list \<Rightarrow> bool" where
  "session_frame f \<longleftrightarrow> frame_small f \<and> (fst f = FRAME_OUTPUT \<or> fst f = FRAME_STOPPED \<and> length (snd f) = 4)"

definition signals_ok :: "relay \<Rightarrow> bool" where
  "signals_ok s \<longleftrightarrow> list_all allowed_signal (kills s)"

definition told_ok :: "u8 list \<Rightarrow> relay \<Rightarrow> bool" where
  "told_ok w0 s \<longleftrightarrow>
     (\<exists>fs. list_all session_frame fs \<and> written (to_client s) = w0 @ wire_of fs \<and> printed s = payloads FRAME_OUTPUT fs)"

definition heard_ok :: "u8 list \<Rightarrow> relay \<Rightarrow> bool" where
  "heard_ok i0 s \<longleftrightarrow>
     (\<exists>gs rest. i0 = wire_of gs @ rest \<and> typed s = payloads FRAME_INPUT gs \<and> from_client s \<in> {rest, []})"

definition relayed_ok :: "u8 list \<Rightarrow> u8 list \<Rightarrow> relay \<Rightarrow> bool" where
  "relayed_ok w0 i0 s \<longleftrightarrow> told_ok w0 s \<and> heard_ok i0 s"

definition good :: "u8 list \<Rightarrow> u8 list \<Rightarrow> 'e + 'a \<Rightarrow> relay \<Rightarrow> bool" where
  "good w0 i0 r s \<longleftrightarrow> signals_ok s \<and> (is_ok r \<longrightarrow> relayed_ok w0 i0 s)"

lemma good_then:
  assumes "outcome c (good w0 i0)" and "\<And>x t. good w0 i0 (Inr x :: 'e + 'a) t \<Longrightarrow> outcome (f x t) (good w0 i0)"
  shows "outcome (io_then (c :: ('e + 'a) \<times> relay) err f) (good w0 i0)"
  using assms(1) by (rule outcome_then) (use assms(2) in \<open>auto simp: good_def\<close>)

lemma good_Inr [simp]: "outcome (Inr x, s) (good w0 i0) \<longleftrightarrow> signals_ok s \<and> relayed_ok w0 i0 s"
  and good_Inl [simp]: "outcome (Inl e, s) (good w0 i0) \<longleftrightarrow> signals_ok s"
  and good_value [simp]: "good w0 i0 (Inr x) s \<longleftrightarrow> signals_ok s \<and> relayed_ok w0 i0 s"
  by (simp_all add: outcome_def good_def)

lemma send_good:
  assumes "signals_ok s" and "relayed_ok w0 i0 s" and "length p \<le> MAX_FRAME_BYTES \<Longrightarrow> session_frame (k, p)"
  shows "outcome (send_to k p (s\<lparr>printed := printed s @ (if k = FRAME_OUTPUT then p else [])\<rparr>)) (good w0 i0)"
proof -
  let ?s = "s\<lparr>printed := printed s @ (if k = FRAME_OUTPUT then p else [])\<rparr>"
  obtain r w where f: "send_frame k p (to_client s) = (r, w)"
    by (rule prod.exhaust)
  have "relayed_ok w0 i0 (?s\<lparr>to_client := w\<rparr>)" if r: "r = Inr ()"
  proof -
    obtain fs where fs: "list_all session_frame fs" "written (to_client s) = w0 @ wire_of fs" "printed s = payloads FRAME_OUTPUT fs"
      using assms(2) by (auto simp: relayed_ok_def told_ok_def)
    have "frame_small (k, p)" "written w = written (to_client s) @ sudo_frame_bytes (k, p)"
      using send_frame_Inr [OF f [unfolded r]] by simp_all
    then have "list_all session_frame (fs @ [(k, p)])" "written w = w0 @ wire_of (fs @ [(k, p)])"
      using fs assms(3) by (simp_all add: frame_small_def)
    moreover have "printed ?s = payloads FRAME_OUTPUT (fs @ [(k, p)])"
      using fs by simp
    ultimately have "told_ok w0 (?s\<lparr>to_client := w\<rparr>)"
      unfolding told_ok_def by (intro exI [of _ "fs @ [(k, p)]"]) simp
    then show ?thesis
      using assms(2) by (simp add: relayed_ok_def heard_ok_def)
  qed
  then show ?thesis
    using f assms(1) by (cases r) (auto simp: send_to_def outcome_def good_def signals_ok_def)
qed

lemma print_good: "signals_ok s \<Longrightarrow> relayed_ok w0 i0 s \<Longrightarrow> outcome (print_out bs s) (good w0 i0)"
  using send_good [of s w0 i0 bs FRAME_OUTPUT]
  by (simp add: print_out_def session_frame_def frame_small_def)

lemma wait_good: "signals_ok s \<Longrightarrow> relayed_ok w0 i0 s \<Longrightarrow> outcome (wait_phase w s) (good w0 i0)"
  using send_good [of s w0 i0 _ FRAME_STOPPED]
  by (auto simp: wait_phase_def session_frame_def frame_small_def FRAME_STOPPED_def FRAME_OUTPUT_def signals_ok_def
      relayed_ok_def told_ok_def heard_ok_def split: wait_result.split)

lemma heard_step:
  assumes "heard_ok i0 s" and "from_client s = sudo_frame_bytes f @ rest"
  shows "heard_ok i0 (s\<lparr>from_client := rest, typed := typed s @ (if fst f = FRAME_INPUT then snd f else [])\<rparr>)"
proof -
  obtain gs r where g: "i0 = wire_of gs @ r" "typed s = payloads FRAME_INPUT gs" "from_client s \<in> {r, []}"
    using assms(1) by (auto simp: heard_ok_def)
  have "r = sudo_frame_bytes f @ rest"
    using g(3) assms(2) by (auto simp: sudo_frame_bytes_def)
  then have "i0 = wire_of (gs @ [f]) @ rest" "typed s @ (if fst f = FRAME_INPUT then snd f else []) = payloads FRAME_INPUT (gs @ [f])"
    using g by simp_all
  then show ?thesis
    unfolding heard_ok_def by (intro exI [of _ "gs @ [f]"] exI [of _ rest]) simp
qed

lemma told_other [simp]:
  "told_ok w0 (s\<lparr>from_client := a, typed := b\<rparr>) = told_ok w0 s" "told_ok w0 (s\<lparr>from_client := a\<rparr>) = told_ok w0 s"
  "told_ok w0 (s\<lparr>kills := c\<rparr>) = told_ok w0 s" "told_ok w0 (s\<lparr>sizes := d\<rparr>) = told_ok w0 s"
  "told_ok w0 (s\<lparr>master_open := e\<rparr>) = told_ok w0 s"
  by (simp_all add: told_ok_def)

lemma heard_other [simp]:
  "heard_ok i0 (s\<lparr>kills := c\<rparr>) = heard_ok i0 s" "heard_ok i0 (s\<lparr>sizes := d\<rparr>) = heard_ok i0 s"
  "heard_ok i0 (s\<lparr>master_open := e\<rparr>) = heard_ok i0 s"
  by (simp_all add: heard_ok_def)

lemma signals_other [simp]:
  "signals_ok (s\<lparr>from_client := a\<rparr>) = signals_ok s" "signals_ok (s\<lparr>typed := b\<rparr>) = signals_ok s"
  "signals_ok (s\<lparr>sizes := d\<rparr>) = signals_ok s" "signals_ok (s\<lparr>master_open := e\<rparr>) = signals_ok s"
  by (simp_all add: signals_ok_def)

lemma kill_signals: "signals_ok s \<Longrightarrow> allowed_signal n \<Longrightarrow> signals_ok (kill_group n s)"
  by (simp add: signals_ok_def kill_group_def)

lemma client_frame_good:
  assumes "signals_ok s" and "relayed_ok w0 i0 s"
  shows "outcome (client_frame_phase ws s) (good w0 i0)"
proof (cases "sudo_read_frame UnexpectedEof (from_client s)")
  case (Inl e)
  have "heard_ok i0 (s\<lparr>from_client := []\<rparr>)"
    using assms(2) by (auto simp: relayed_ok_def heard_ok_def)
  then show ?thesis
    using assms Inl kill_signals [of "s\<lparr>from_client := []\<rparr>" SIGHUP]
    by (auto simp: client_frame_phase_def relayed_ok_def kill_group_def SIGHUP_def allowed_signal_def)
next
  case (Inr x)
  obtain k p rest where x: "sudo_read_frame UnexpectedEof (from_client s) = Inr ((k, p), rest)"
    using Inr by (cases x) auto
  have h: "heard_ok i0 (s\<lparr>from_client := rest, typed := typed s @ (if k = FRAME_INPUT then p else [])\<rparr>)"
    using heard_step [of i0 s "(k, p)" rest] assms(2) x unfolding sudo_frames.dec_iff relayed_ok_def fst_conv snd_conv by blast
  then have quiet: "heard_ok i0 (s\<lparr>from_client := rest\<rparr>)" if "k \<noteq> FRAME_INPUT"
    using that by (simp add: heard_ok_def)
  obtain r w where w: "write_all_fd ws p = (r, w)"
    by (rule prod.exhaust)
  show ?thesis
    using assms x h quiet w write_all_fd_Inr [of ws p _ w] kill_signals [of "s\<lparr>from_client := rest\<rparr>" "from_be p"]
    by (cases r) (auto simp: client_frame_phase_def Let_def relayed_ok_def kill_group_def FRAME_SIGNAL_def FRAME_RESIZE_def
        FRAME_INPUT_def)
qed

lemma master_in_good:
  "signals_ok s \<Longrightarrow> relayed_ok w0 i0 s \<Longrightarrow> outcome (master_in_phase rs s) (good w0 i0)"
  by (cases "(rs, s)" rule: master_in_phase.cases)
    (auto intro!: good_then print_good simp: relayed_ok_def)

lemma drain_good:
  "signals_ok s \<Longrightarrow> relayed_ok w0 i0 s \<Longrightarrow> outcome (drain rs s) (good w0 i0)"
  by (induction rs s rule: drain.induct) (auto intro!: good_then print_good simp: relayed_ok_def)

lemma master_good:
  assumes "signals_ok s" and "relayed_ok w0 i0 s"
  shows "outcome (master_phase rs a b s) (good w0 i0)"
  unfolding master_phase_def
proof (rule good_then)
  show "outcome (if master_open s \<and> a then master_in_phase rs s else (Inr rs, s)) (good w0 i0)"
    using assms by (auto intro: master_in_good)
next
  fix rs' :: "tty_read list" and t
  assume g: "good w0 i0 (Inr rs' :: sudo_error + tty_read list) t"
  show "outcome (if master_open t \<and> b then io_then (drain rs' t) id (\<lambda>_ s. (Inr (), s\<lparr>master_open := False\<rparr>)) else (Inr (), t))
      (good w0 i0)"
    using g by (auto intro!: good_then drain_good simp: relayed_ok_def)
qed

lemma relay_rest_good:
  assumes "signals_ok s" and "relayed_ok w0 i0 s"
  shows "outcome (relay_rest e s) (good w0 i0)"
proof (cases "polled e")
  case (Poll_Ready ci ch mi mh)
  have "outcome (io_then (if ci then client_frame_phase (tty_writes e) s else (Inr (), s)) id (\<lambda>_ s.
          let s = (if ch \<and> \<not> ci then kill_group SIGHUP s else s) in
          io_then (master_phase (tty_reads e) mi mh s) id (\<lambda>_ s. (Inr False :: sudo_error + bool, s)))) (good w0 i0)"
  proof (rule good_then)
    show "outcome (if ci then client_frame_phase (tty_writes e) s else (Inr (), s)) (good w0 i0)"
      using assms by (auto intro: client_frame_good)
  next
    fix x :: unit and t
    assume g: "good w0 i0 (Inr x :: sudo_error + unit) t"
    define u where "u = (if ch \<and> \<not> ci then kill_group SIGHUP t else t)"
    have "signals_ok u" "relayed_ok w0 i0 u"
      using g kill_signals [of t SIGHUP] by (auto simp: u_def relayed_ok_def SIGHUP_def allowed_signal_def kill_group_def)
    then show "outcome (let s = (if ch \<and> \<not> ci then kill_group SIGHUP t else t) in
          io_then (master_phase (tty_reads e) mi mh s) id (\<lambda>_ s. (Inr False :: sudo_error + bool, s))) (good w0 i0)"
      unfolding Let_def u_def [symmetric] by (intro good_then master_good) auto
  qed
  then show ?thesis
    by (simp add: relay_rest_def Poll_Ready)
qed (use assms in \<open>simp_all add: relay_rest_def\<close>)

definition told_status :: "u8 list \<Rightarrow> relay \<Rightarrow> bool" where
  "told_status w0 s \<longleftrightarrow>
     (\<exists>fs e. list_all session_frame fs \<and> final_status s = Some e \<and> \<not> master_open s \<and> printed s = payloads FRAME_OUTPUT fs \<and>
        written (to_client s) = w0 @ wire_of (fs @ [(FRAME_STATUS, status_payload e)]))"

definition relay_inv :: "u8 list \<Rightarrow> u8 list \<Rightarrow> relay \<Rightarrow> bool" where
  "relay_inv w0 i0 s \<longleftrightarrow> signals_ok s \<and>
     (case finished s of
        None \<Rightarrow> relayed_ok w0 i0 s
      | Some (Inl _) \<Rightarrow> True
      | Some (Inr _) \<Rightarrow> told_status w0 s \<and> heard_ok i0 s)"

lemma length_status [simp]: "length (status_payload e) = 8"
  by (cases e) simp_all

lemma send_status:
  assumes "signals_ok s" and "relayed_ok w0 i0 s" and "final_status s = Some e" and "\<not> master_open s"
  shows "outcome (send_to FRAME_STATUS (status_payload e) s)
    (\<lambda>r t. signals_ok t \<and> (r = Inr () \<longrightarrow> told_status w0 t \<and> heard_ok i0 t))"
proof -
  obtain r w where f: "send_frame FRAME_STATUS (status_payload e) (to_client s) = (r, w)"
    by (rule prod.exhaust)
  obtain fs where fs: "list_all session_frame fs" "written (to_client s) = w0 @ wire_of fs" "printed s = payloads FRAME_OUTPUT fs"
    using assms(2) by (auto simp: relayed_ok_def told_ok_def)
  have "told_status w0 (s\<lparr>to_client := w\<rparr>)" if "r = Inr ()"
    using send_frame_Inr [OF f [unfolded that]] fs assms(3,4)
    unfolding told_status_def by (intro exI [of _ fs] exI [of _ e]) simp
  then show ?thesis
    using f assms by (auto simp: send_to_def outcome_def relayed_ok_def heard_ok_def signals_ok_def)
qed

lemma relay_turn_inv:
  assumes "signals_ok s" and "relayed_ok w0 i0 s"
  shows "outcome (relay_turn e s) (\<lambda>r t. signals_ok t \<and> (r = Inr False \<longrightarrow> relayed_ok w0 i0 t) \<and>
    (r = Inr True \<longrightarrow> told_status w0 t \<and> heard_ok i0 t))" (is "outcome _ ?Q")
  unfolding relay_turn_def
proof (rule outcome_then [OF wait_good [OF assms]])
  fix x :: unit and t
  assume "good w0 i0 (Inr x :: sudo_error + unit) t"
  then have t: "signals_ok t" "relayed_ok w0 i0 t"
    by simp_all
  have rest: "outcome (relay_rest e t) ?Q"
  proof -
    have only: "fst (relay_rest e t) \<noteq> Inr True"
      by (auto simp: relay_rest_def io_then_def Let_def split: poll_result.split prod.split sum.split)
    show ?thesis
      using relay_rest_good [OF t, of e] only by (auto simp: outcome_def good_def)
  qed
  show "outcome (case final_status t of None \<Rightarrow> relay_rest e t
      | Some st \<Rightarrow> if \<not> master_open t then io_then (send_to FRAME_STATUS (status_payload st) t) id (\<lambda>_ s. (Inr True, s))
          else relay_rest e t) ?Q"
  proof (cases "final_status t")
    case (Some st)
    have "outcome (io_then (send_to FRAME_STATUS (status_payload st) t) id (\<lambda>_ s. (Inr True, s))) ?Q" if "\<not> master_open t"
      by (rule outcome_then [OF send_status [OF t Some that]]) (auto simp: outcome_def)
    then show ?thesis
      using Some rest by simp
  qed (use rest in simp)
qed (auto simp: good_def)

interpretation service_relay: machine relay_step "relay_inv w0 i0" for w0 i0
proof unfold_locales
  fix s e
  assume inv: "relay_inv w0 i0 s"
  show "relay_inv w0 i0 (fst (relay_step s e))"
  proof (cases "finished s")
    case None
    then have s: "signals_ok s" "relayed_ok w0 i0 s"
      using inv by (simp_all add: relay_inv_def)
    obtain r t where t: "relay_turn e s = (r, t)"
      by (rule prod.exhaust)
    from outcome_cases [OF t relay_turn_inv [OF s]] show ?thesis
      using None t
      by (cases r) (auto simp: relay_step_def relay_inv_def relayed_ok_def told_ok_def heard_ok_def told_status_def signals_ok_def)
  next
    case (Some a)
    then show ?thesis
      using inv by (simp add: relay_step_def)
  qed
qed

lemma relay_start_inv: "relay_inv (written out) i0 (relay_start m i0 out)"
  unfolding relay_inv_def relay_start_def relayed_ok_def told_ok_def heard_ok_def signals_ok_def
  by (auto intro: exI [of _ "[]"])

section \<open>What the client preserves\<close>

definition side :: "client \<Rightarrow> client \<Rightarrow> bool" where
  "side s t \<longleftrightarrow> from_service t = from_service s \<and> shown t = shown s \<and> on_terminal t = on_terminal s \<and>
     returned t = returned s \<and> (raw_mode t \<longrightarrow> raw_mode s \<or> on_terminal s)"

lemma side_refl [simp]: "side s s"
  by (simp add: side_def)

lemma side_trans: "side s t \<Longrightarrow> side t u \<Longrightarrow> side s u"
  by (auto simp: side_def)

lemma side_then:
  assumes "outcome c (\<lambda>_. side s)" and "\<And>x t. side s t \<Longrightarrow> outcome (f x t) (\<lambda>_. side s)"
  shows "outcome (io_then c err f) (\<lambda>_. side s)"
  by (rule outcome_then [OF assms(1)]) (use assms(2) in auto)

lemma side_pure [simp]: "outcome (r, t) (\<lambda>_. side s) \<longleftrightarrow> side s t"
  by (simp add: outcome_def)

lemma side_after: "side s t \<Longrightarrow> outcome c (\<lambda>_. side t) \<Longrightarrow> outcome c (\<lambda>_. side s)"
  by (auto simp: outcome_def intro: side_trans)

lemma side_send: "outcome (client_send k p s) (\<lambda>_. side s)"
  by (auto simp: client_send_def side_def outcome_def split: prod.split)

lemma side_raw: "outcome (enter_raw ok s) (\<lambda>_. side s)"
  by (auto simp: enter_raw_def side_def outcome_def)

lemma side_resize: "outcome (resize_if_terminal e s) (\<lambda>_. side s)"
  by (auto simp: resize_if_terminal_def send_resize_def side_send split: option.split)

lemma side_key: "outcome (key_phase e s) (\<lambda>_. side s)"
  by (auto simp: key_phase_def side_send split: tty_read.split)

lemma side_signals: "outcome (signals_phase e ns s) (\<lambda>_. side s)"
proof (induction ns arbitrary: s)
  case (Cons n ns)
  have "outcome (if n = 28 then resize_if_terminal e s
      else if allowed_signal n then client_send FRAME_SIGNAL (be_bytes 4 n) s else (Inr (), s)) (\<lambda>_. side s)"
    by (simp add: side_resize side_send)
  then show ?case
    unfolding signals_phase.simps by (rule side_then) (use Cons.IH side_after in blast)
qed simp

lemma side_steps:
  "side s t \<Longrightarrow> side s (snd (resize_if_terminal e t))" "side s t \<Longrightarrow> side s (snd (client_send k p t))"
  "side s t \<Longrightarrow> side s (snd (key_phase e t))" "side s t \<Longrightarrow> side s (snd (signals_phase e ns t))"
  using side_resize [of e t] side_send [of k p t] side_key [of e t] side_signals [of e ns t]
  by (auto simp: outcome_def intro: side_trans)

definition before_status :: "(u8 \<times> u8 list) list \<Rightarrow> bool" where
  "before_status gs \<longleftrightarrow> list_all (\<lambda>f. frame_small f \<and> fst f \<noteq> FRAME_STATUS) gs"

definition client_ok :: "u8 list \<Rightarrow> client \<Rightarrow> bool" where
  "client_ok i0 s \<longleftrightarrow>
     (\<exists>gs. before_status gs \<and> i0 = wire_of gs @ from_service s \<and> shown s = payloads FRAME_OUTPUT gs)"

definition client_done :: "u8 list \<Rightarrow> nat \<Rightarrow> client \<Rightarrow> bool" where
  "client_done i0 code s \<longleftrightarrow>
     (\<exists>gs p. before_status gs \<and> frame_small (FRAME_STATUS, p) \<and> i0 = wire_of (gs @ [(FRAME_STATUS, p)]) @ from_service s \<and>
        shown s = payloads FRAME_OUTPUT gs \<and> code = (if from_be (take 4 p) < 256 then from_be (take 4 p) else 255))"

lemma client_ok_side: "client_ok i0 s \<Longrightarrow> side s t \<Longrightarrow> client_ok i0 t"
  by (simp add: client_ok_def side_def)

lemma client_frame_read:
  assumes "client_ok i0 s" and "sudo_read_frame t (from_service s) = Inr ((k, p), rest)" and "k \<noteq> FRAME_STATUS"
  shows "client_ok i0 (s\<lparr>from_service := rest, shown := shown s @ (if k = FRAME_OUTPUT then p else [])\<rparr>)"
proof -
  obtain gs where "before_status gs" "i0 = wire_of gs @ from_service s" "shown s = payloads FRAME_OUTPUT gs"
    using assms(1) by (auto simp: client_ok_def)
  then show ?thesis
    using assms(2,3) unfolding client_ok_def sudo_frames.dec_iff
    by (intro exI [of _ "gs @ [(k, p)]"]) (simp add: before_status_def)
qed

definition turn_ok :: "u8 list \<Rightarrow> client \<Rightarrow> sudo_error + nat option \<Rightarrow> client \<Rightarrow> bool" where
  "turn_ok i0 s r t \<longleftrightarrow> returned t = returned s \<and> (raw_mode t \<longrightarrow> on_terminal t) \<and>
     (r = Inr None \<longrightarrow> client_ok i0 t) \<and> (\<forall>code. r = Inr (Some code) \<longrightarrow> client_done i0 code t)"

lemma turn_then_side:
  assumes "client_ok i0 s" and "raw_mode s \<longrightarrow> on_terminal s" and "outcome c (\<lambda>_. side s)"
    and "\<And>x t. side s t \<Longrightarrow> outcome (f x t) (turn_ok i0 s)"
  shows "outcome (io_then c err f) (turn_ok i0 s)"
  by (rule outcome_then [OF assms(3)]) (use assms in \<open>auto simp: turn_ok_def side_def\<close>)

lemma turn_ok_side: "client_ok i0 s \<Longrightarrow> raw_mode s \<longrightarrow> on_terminal s \<Longrightarrow> side s t \<Longrightarrow> turn_ok i0 s (Inr None) t"
  by (auto simp: turn_ok_def side_def client_ok_def)

lemma turn_ok_returned: "returned t = returned s \<Longrightarrow> turn_ok i0 t = turn_ok i0 s"
  by (intro ext) (simp add: turn_ok_def)

lemma service_frame_turn:
  assumes ok: "client_ok i0 s" and raw: "raw_mode s \<longrightarrow> on_terminal s"
  shows "outcome (service_frame_phase e s) (turn_ok i0 s)"
proof (cases "sudo_read_frame UnexpectedEof (from_service s)")
  case (Inl er)
  then show ?thesis
    using raw by (simp add: service_frame_phase_def outcome_def turn_ok_def)
next
  case (Inr x)
  obtain k p rest where x: "sudo_read_frame UnexpectedEof (from_service s) = Inr ((k, p), rest)"
    using Inr by (cases x) auto
  define t where "t = s\<lparr>from_service := rest\<rparr>"
  have tr: "raw_mode t \<longrightarrow> on_terminal t" "returned t = returned s"
    using raw by (simp_all add: t_def)
  have read: "client_ok i0 (t\<lparr>shown := shown t @ (if k = FRAME_OUTPUT then p else [])\<rparr>)" if "k \<noteq> FRAME_STATUS"
    using client_frame_read [OF ok x that] by (simp add: t_def)
  have quiet: "client_ok i0 t" if "k \<noteq> FRAME_STATUS" "k \<noteq> FRAME_OUTPUT"
    using read [OF that(1)] that(2) by (simp add: client_ok_def)
  have body: "service_frame_phase e s = on_service_frame e k p t"
    using x by (simp add: service_frame_phase_def t_def)
  consider (ready) "k = FRAME_READY" "p = []" | (out) "k = FRAME_OUTPUT" | (stop) "k = FRAME_STOPPED" "length p = 4"
    | (status) "k = FRAME_STATUS" "length p = 8"
    | (other) "\<not> (k = FRAME_READY \<and> p = [])" "k \<noteq> FRAME_OUTPUT" "\<not> (k = FRAME_STOPPED \<and> length p = 4)"
        "\<not> (k = FRAME_STATUS \<and> length p = 8)"
    by blast
  then show ?thesis
  proof cases
    case ready
    have "client_ok i0 (t\<lparr>ready := True\<rparr>)"
      using quiet ready by (simp add: client_ok_def FRAME_READY_def FRAME_STATUS_def FRAME_OUTPUT_def)
    then have "outcome (io_then (enter_raw (set_raw_ok e) (t\<lparr>ready := True\<rparr>)) id (\<lambda>_ s.
            io_then (resize_if_terminal e s) id (\<lambda>_ s. (Inr None, s)))) (turn_ok i0 (t\<lparr>ready := True\<rparr>))"
      using tr(1) by (intro turn_then_side side_raw)
        (auto intro!: turn_then_side intro: side_steps simp: outcome_def intro: turn_ok_side client_ok_side)
    then show ?thesis
      using ready tr(2) turn_ok_returned [of "t\<lparr>ready := True\<rparr>" s] by (simp add: body on_service_frame_def)
  next
    case out
    obtain r w where w: "write_all_fd (show_writes e) p = (r, w)"
      by (rule prod.exhaust)
    have "k \<noteq> FRAME_STATUS" "\<not> (k = FRAME_READY \<and> p = [])"
      using out by (simp_all add: FRAME_OUTPUT_def FRAME_STATUS_def FRAME_READY_def)
    then show ?thesis
      using out w read write_all_fd_Inr [of "show_writes e" p "()" w] tr
      by (cases r) (auto simp: body on_service_frame_def outcome_def turn_ok_def)
  next
    case stop
    then have k: "k \<noteq> FRAME_STATUS" "k \<noteq> FRAME_OUTPUT" "k \<noteq> FRAME_READY"
      by (simp_all add: FRAME_STOPPED_def FRAME_OUTPUT_def FRAME_STATUS_def FRAME_READY_def)
    then have "client_ok i0 (restore t)"
      using quiet by (simp add: client_ok_def restore_def)
    then have "outcome (io_then (enter_raw (set_raw_ok e) (restore t)) id (\<lambda>_ s.
               io_then (client_send FRAME_SIGNAL (be_bytes 4 18) s) id (\<lambda>_ s. (Inr None, s)))) (turn_ok i0 (restore t))"
      by (intro turn_then_side side_raw)
        (auto intro!: turn_then_side intro: side_steps simp: outcome_def restore_def intro: turn_ok_side client_ok_side)
    then show ?thesis
      using stop k tr turn_ok_returned [of "restore t" s]
      by (simp add: body on_service_frame_def restore_def) (simp add: outcome_def turn_ok_def)
  next
    case status
    obtain gs where gs: "before_status gs" "i0 = wire_of gs @ from_service s" "shown s = payloads FRAME_OUTPUT gs"
      using ok by (auto simp: client_ok_def)
    have "client_done i0 (if from_be (take 4 p) < 256 then from_be (take 4 p) else 255) (restore t)"
      unfolding client_done_def using gs x status
      by (intro exI [of _ gs] exI [of _ p]) (simp add: sudo_frames.dec_iff restore_def t_def)
    then show ?thesis
      using status tr by (auto simp: body on_service_frame_def outcome_def turn_ok_def Let_def restore_def FRAME_STATUS_def FRAME_READY_def
          FRAME_OUTPUT_def FRAME_STOPPED_def)
  next
    case other
    then show ?thesis
      using tr by (auto simp: body on_service_frame_def outcome_def turn_ok_def restore_def)
  qed
qed

lemma turn_last:
  assumes "client_ok i0 s" and "raw_mode s \<longrightarrow> on_terminal s" and "side s t" and "outcome c (\<lambda>_. side t)"
  shows "outcome (io_then c id (\<lambda>_ s. (Inr None, s))) (turn_ok i0 s)"
  by (rule turn_then_side [OF assms(1,2) side_after [OF assms(3,4)]])
    (use assms in \<open>auto simp: outcome_def intro: turn_ok_side\<close>)

lemma client_turn_ok:
  assumes ok: "client_ok i0 s" and raw: "raw_mode s \<longrightarrow> on_terminal s"
  shows "outcome (client_turn e s) (turn_ok i0 s)"
proof (cases "client_polled e")
  case (Client_Ready si sh ti gi)
  let ?keys = "\<lambda>s. io_then (if ready s \<and> on_terminal s \<and> ti then key_phase e s else (Inr (), s)) id (\<lambda>_ s.
      io_then (if gi then signals_phase e (take 64 (signal_read e)) s else (Inr (), s)) id (\<lambda>_ s. (Inr None :: sudo_error + nat option, s)))"
  have keys: "outcome (?keys t) (turn_ok i0 s)" if "turn_ok i0 s (Inr None) t" for t
  proof -
    have t: "client_ok i0 t" "raw_mode t \<longrightarrow> on_terminal t" "returned t = returned s"
      using that by (simp_all add: turn_ok_def)
    have "outcome (?keys t) (turn_ok i0 t)"
    proof (rule turn_then_side [OF t(1,2)])
      show "outcome (if ready t \<and> on_terminal t \<and> ti then key_phase e t else (Inr (), t)) (\<lambda>_. side t)"
        by (simp add: side_key)
    next
      fix x :: unit and u
      assume "side t u"
      then show "outcome (io_then (if gi then signals_phase e (take 64 (signal_read e)) u else (Inr (), u)) id
          (\<lambda>_ s. (Inr None, s))) (turn_ok i0 t)"
        by (rule turn_last [OF t(1,2)]) (cases gi; simp add: side_signals)
    qed
    then show ?thesis
      unfolding turn_ok_returned [OF t(3)] .
  qed
  have first: "outcome (if si then service_frame_phase e s else (Inr None, s)) (turn_ok i0 s)"
    using service_frame_turn [OF ok raw, of e] ok raw by (simp add: outcome_def turn_ok_def)
  have "outcome (io_then (if si then service_frame_phase e s else (Inr None, s)) id (\<lambda>code s.
          if code \<noteq> None then (Inr code, s)
          else if sh \<and> \<not> si then (Inl (Sudo_Io UnexpectedEof), s) else ?keys s)) (turn_ok i0 s)"
  proof (rule outcome_then [OF first])
    fix x t
    assume t: "turn_ok i0 s (Inr x) t"
    show "outcome (if x \<noteq> None then (Inr x, t)
          else if sh \<and> \<not> si then (Inl (Sudo_Io UnexpectedEof), t) else ?keys t) (turn_ok i0 s)"
    proof (cases x)
      case None
      have "turn_ok i0 s (Inl (Sudo_Io UnexpectedEof)) t"
        using t by (simp add: turn_ok_def)
      then show ?thesis
        using keys [of t] t None by (simp add: outcome_def)
    qed (use t in \<open>simp add: outcome_def\<close>)
  qed (simp add: turn_ok_def)
  then show ?thesis
    by (simp add: client_turn_def Client_Ready)
qed (use ok raw in \<open>simp_all add: client_turn_def outcome_def turn_ok_def\<close>)

definition client_inv :: "u8 list \<Rightarrow> client \<Rightarrow> bool" where
  "client_inv i0 s \<longleftrightarrow> (raw_mode s \<longrightarrow> on_terminal s \<and> returned s = None) \<and>
     (case returned s of None \<Rightarrow> client_ok i0 s | Some (Inl _) \<Rightarrow> True | Some (Inr code) \<Rightarrow> client_done i0 code s)"

interpretation client_relay: machine client_step "client_inv i0" for i0
proof unfold_locales
  fix s e
  assume inv: "client_inv i0 s"
  show "client_inv i0 (fst (client_step s e))"
  proof (cases "returned s")
    case None
    then have s: "client_ok i0 s" "raw_mode s \<longrightarrow> on_terminal s"
      using inv by (simp_all add: client_inv_def)
    obtain r t where t: "client_turn e s = (r, t)"
      by (rule prod.exhaust)
    have ok: "turn_ok i0 s r t"
      by (rule outcome_cases [OF t client_turn_ok [OF s]])
    show ?thesis
    proof (cases r)
      case (Inl er)
      then show ?thesis
        using None t by (simp add: client_step_def client_inv_def restore_def)
    next
      case (Inr x)
      then show ?thesis
        using None t ok
        by (cases x) (auto simp: client_step_def client_inv_def restore_def turn_ok_def client_done_def)
    qed
  next
    case (Some a)
    then show ?thesis
      using inv by (simp add: client_step_def)
  qed
qed

lemma client_start_inv: "client_inv i0 (client_start tty i0 out)"
  unfolding client_inv_def client_start_def client_ok_def before_status_def
  by (auto intro: exI [of _ "[]"])

section \<open>The two together\<close>

lemma wire_of_Cons: "wire_of (f # fs) = sudo_frame_bytes f @ wire_of fs"
  by (simp add: wire_of_def)

lemma first_frame:
  assumes "wire_of (f # fs) @ r = wire_of (g # gs) @ s" and "frame_small f" and "frame_small g"
  shows "f = g \<and> wire_of fs @ r = wire_of gs @ s"
  using sudo_frames.enc_prefix_free [OF assms(2,3)] assms(1) unfolding wire_of_Cons append_assoc by blast

lemma status_unique:
  assumes "before_status fs" and "before_status gs" and p: "frame_small (FRAME_STATUS, p)" and q: "frame_small (FRAME_STATUS, q)"
    and "wire_of (fs @ [(FRAME_STATUS, p)]) @ r = wire_of (gs @ [(FRAME_STATUS, q)]) @ s"
  shows "fs = gs \<and> p = q"
  using assms(1,2,5)
proof (induction fs arbitrary: gs)
  case Nil
  show ?case
  proof (cases gs)
    case (Cons g gs')
    have "frame_small g" "fst g \<noteq> FRAME_STATUS"
      using Nil.prems(2) Cons by (simp_all add: before_status_def)
    then show ?thesis
      using first_frame [of "(FRAME_STATUS, p)" "[]" r g "gs' @ [(FRAME_STATUS, q)]" s] Nil.prems(3) p
      unfolding Cons append_Cons append_Nil by force
  next
    case g: Nil
    show ?thesis
      using first_frame [of "(FRAME_STATUS, p)" "[]" r "(FRAME_STATUS, q)" "[]" s] Nil.prems(3) p q
      unfolding g append_Nil by blast
  qed
next
  case (Cons f fs)
  have f: "frame_small f" "fst f \<noteq> FRAME_STATUS" "before_status fs"
    using Cons.prems(1) by (simp_all add: before_status_def)
  show ?case
  proof (cases gs)
    case Nil
    show ?thesis
      using first_frame [of f "fs @ [(FRAME_STATUS, p)]" r "(FRAME_STATUS, q)" "[]" s] Cons.prems(3) q f
      unfolding Nil append_Cons append_Nil by force
  next
    case g: (Cons g gs')
    have small: "frame_small g" "before_status gs'"
      using Cons.prems(2) g by (simp_all add: before_status_def)
    have "f = g \<and> wire_of (fs @ [(FRAME_STATUS, p)]) @ r = wire_of (gs' @ [(FRAME_STATUS, q)]) @ s"
      using first_frame [of f "fs @ [(FRAME_STATUS, p)]" r g "gs' @ [(FRAME_STATUS, q)]" s] Cons.prems(3) f(1) small(1)
      unfolding g append_Cons by blast
    with Cons.IH [OF f(3) small(2)] g show ?thesis
      by blast
  qed
qed

fun exit_code :: "child_end \<Rightarrow> nat" where
  "exit_code (Exited n) = unat n"
| "exit_code (Signaled n) = 128 + unat n"

lemma exit_code_byte: "exit_code e < 256"
proof (cases e)
  case (Signaled n)
  have "unat n < 2 ^ 7"
    using unsigned_less [of n, where 'a = nat] by simp
  then show ?thesis
    using Signaled by simp
qed simp

lemma status_code: "from_be (take 4 (status_payload e)) = exit_code e"
proof -
  have "from_be (be_bytes 4 (exit_code e)) = exit_code e"
    using exit_code_byte [of e] by (intro from_be_4) simp
  then show ?thesis
    by (cases e) simp_all
qed

lemma session_before_status: "list_all session_frame fs \<Longrightarrow> before_status fs"
  by (auto simp: before_status_def list_all_iff session_frame_def FRAME_OUTPUT_def FRAME_STOPPED_def FRAME_STATUS_def)


section \<open>A session run through\<close>

definition demo_writer :: "u8 list \<Rightarrow> writer" where
  "demo_writer bs = \<lparr>written = bs, room = 1000, fault = Io_Other, can_flush = True\<rparr>"

definition demo_turn :: "wait_result \<Rightarrow> poll_result \<Rightarrow> tty_read list \<Rightarrow> relay_event" where
  "demo_turn w p rs = \<lparr>waited = w, polled = p, tty_writes = [], tty_reads = rs\<rparr>"

definition demo_relay :: relay where
  "demo_relay = fst (run_machine relay_step (relay_start True [] (demo_writer (sudo_frame_bytes (FRAME_READY, []))))
     [demo_turn Wait_Nothing (Poll_Ready False False True False) [Got [104, 105]],
      demo_turn (Wait_Ended (Exited 3)) (Poll_Ready False False False True) [],
      demo_turn Wait_Nothing Poll_Interrupted []])"

definition demo_client_turn :: client_event where
  "demo_client_turn = \<lparr>client_polled = Client_Ready True False False False, set_raw_ok = True, winsize = Some (24, 80, 0, 0),
     show_writes = [Wrote 1], suspend_ok = True, key_read = Tty_Eof, signal_read = []\<rparr>"

definition demo_client :: client where
  "demo_client = fst (run_machine client_step (client_start True (written (to_client demo_relay)) (demo_writer []))
     [demo_client_turn, demo_client_turn, demo_client_turn])"

lemmas relay_defs = relay_step_def relay_start_def relay_turn_def relay_rest_def wait_phase_def master_phase_def
  print_out_def send_to_def send_frame_def write_all_def MAX_FRAME_BYTES_def tty_chunk_def client_frame_phase_def
  kill_group_def sudo_read_frame_def read_exact_def from_be_def

lemmas client_defs = client_step_def client_start_def client_turn_def service_frame_phase_def on_service_frame_def
  enter_raw_def resize_if_terminal_def send_resize_def client_send_def restore_def signals_phase.simps

lemmas frame_kinds = FRAME_READY_def FRAME_INPUT_def FRAME_OUTPUT_def FRAME_SIGNAL_def FRAME_RESIZE_def FRAME_STOPPED_def
  FRAME_STATUS_def FRAME_ERROR_def

lemma be_bytes_4: "be_bytes 4 n = [of_nat (n div 256 div 256 div 256 mod 256), of_nat (n div 256 div 256 mod 256),
    of_nat (n div 256 mod 256), of_nat (n mod 256)]"
proof -
  have four: "(4 :: nat) = Suc (Suc (Suc (Suc 0)))"
    by simp
  show ?thesis
    unfolding four be_bytes.simps append_Cons append_Nil by simp
qed

lemma demo_relay_run:
  "finished demo_relay = Some (Inr ())" "printed demo_relay = [104, 105]" "final_status demo_relay = Some (Exited 3)"
  "written (to_client demo_relay) = [1, 0, 0, 0, 0, 3, 0, 0, 0, 2, 104, 105, 7, 0, 0, 0, 8, 0, 0, 0, 3, 0, 0, 0, 0]"
  by (simp_all add: demo_relay_def demo_turn_def demo_writer_def relay_defs frame_kinds sudo_frame_bytes_def be_bytes_4)

lemma demo_client_run: "returned demo_client = Some (Inr 3)" "shown demo_client = [104, 105]"
  by (simp_all add: demo_client_def demo_client_turn_def demo_relay_run demo_writer_def relay_defs client_defs frame_kinds be_bytes_4)


text \<open>
  A frame that arrives between the end of the terminal and the end of the child is refused as invalid,
  and with it the session: the service stops without a status while the child goes on.
\<close>

lemma late_key_breaks_session:
  "finished (fst (run_machine relay_step (relay_start True (sudo_frame_bytes (FRAME_INPUT, [113])) (demo_writer []))
     [demo_turn Wait_Nothing (Poll_Ready False False False True) [],
      demo_turn Wait_Nothing (Poll_Ready True False False False) []])) =
   Some (Inl (Sudo_Invalid ''invalid sudo client frame''))"
  by (simp add: demo_turn_def demo_writer_def relay_defs frame_kinds sudo_frame_bytes_def be_bytes_4)

end
