(* ===== verification/Sudo_Session.thy ===== *)
theory Sudo_Session
  imports Sudo_Relay "HOL-Library.Sublist"
begin

text \<open>
  The sudo service and its client (\<open>guest/sudo-bridge/src/transport.rs\<close>): the peer check, the
  receipt of a request with its descriptors, the child that becomes the real \<open>sudo\<close>, and their
  composition with the relay. The kernel is given by the results of its calls.
\<close>

section \<open>Receiving a request\<close>

record peer =
  ucred_complete :: bool
  peer_pid :: int
  peer_uid :: nat
  peer_gid :: nat

definition validate_peer :: "peer option \<Rightarrow> sudo_error + unit" where
  "validate_peer p =
     (case p of
        None \<Rightarrow> Inl Sudo_Os
      | Some c \<Rightarrow>
          then_ok (bail_if (\<not> ucred_complete c) (Sudo_Invalid ''invalid sudo peer credentials'')) (\<lambda>_.
          bail_if (peer_pid c < 2 \<or> peer_uid c \<noteq> INTERACTIVE_UID \<or> peer_gid c \<noteq> INTERACTIVE_GID)
            (Sudo_Denied ''sudo socket peer is not the interactive guest user'')))"

text \<open>What \<open>recvmsg\<close> delivers: the bytes of one message and its control header with the descriptors.\<close>

record message =
  msg_bytes :: "u8 list"
  msg_flags :: u32
  msg_controllen :: nat
  cmsg_level :: nat
  cmsg_type :: nat
  cmsg_length :: nat
  raw_fds :: "nat list"

definition MSG_CTRUNC :: u32 where "MSG_CTRUNC = 0x08"
definition MSG_TRUNC :: u32 where "MSG_TRUNC = 0x20"
definition SOL_SOCKET :: nat where "SOL_SOCKET = 1"
definition SCM_RIGHTS :: nat where "SCM_RIGHTS = 1"
definition CMSGHDR_SIZE :: nat where "CMSGHDR_SIZE = 16"

definition cmsg_align :: "nat \<Rightarrow> nat" where "cmsg_align n = (n + 7) div 8 * 8"
definition cmsg_len :: "nat \<Rightarrow> nat" where "cmsg_len n = cmsg_align CMSGHDR_SIZE + n"
definition cmsg_space :: "nat \<Rightarrow> nat" where "cmsg_space n = cmsg_align CMSGHDR_SIZE + cmsg_align n"

definition receive_with_fds :: "message option \<Rightarrow> sudo_error + (u8 list \<times> nat list)" where
  "receive_with_fds m =
     (case m of
        None \<Rightarrow> Inl Sudo_Os
      | Some m \<Rightarrow>
          then_ok (bail_if (msg_bytes m = []) (Sudo_Invalid ''empty sudo request'')) (\<lambda>_.
          then_ok (bail_if (msg_flags m AND (MSG_CTRUNC OR MSG_TRUNC) \<noteq> 0)
            (Sudo_Invalid ''truncated sudo request descriptors'')) (\<lambda>_.
          then_ok (bail_if (msg_controllen m < CMSGHDR_SIZE \<or> cmsg_level m \<noteq> SOL_SOCKET \<or> cmsg_type m \<noteq> SCM_RIGHTS)
            (Sudo_Invalid ''sudo request did not include descriptors'')) (\<lambda>_.
          then_ok (bail_if (cmsg_length m < cmsg_align CMSGHDR_SIZE) (Sudo_Invalid ''invalid sudo descriptor message'')) (\<lambda>_.
          let size = cmsg_length m - cmsg_align CMSGHDR_SIZE; n = size div 4 in
          then_ok (bail_if (size mod 4 \<noteq> 0) (Sudo_Invalid ''misaligned sudo descriptor message'')) (\<lambda>_.
          then_ok (bail_if (n \<noteq> REQUIRED_FDS \<and> n \<noteq> REQUIRED_FDS_WITH_TTY)
            (Sudo_Invalid ''sudo request has an invalid descriptor count'')) (\<lambda>_.
          Inr (msg_bytes m, take n (raw_fds m)))))))))"

text \<open>
  The rest of the stream: the bytes that are still to come before the peer closes, and how many a
  \<open>read\<close> delivers (\<open>None\<close> is a failure; once the list is empty a read delivers all that it may).
\<close>

record inbound =
  pending :: "u8 list"
  reads :: "nat option list"

definition read_some :: "nat \<Rightarrow> inbound \<Rightarrow> (sudo_error + u8 list) \<times> inbound" where
  "read_some wanted c =
     (case reads c of
        [] \<Rightarrow> (Inr (take wanted (pending c)), c\<lparr>pending := drop wanted (pending c)\<rparr>)
      | None # rs \<Rightarrow> (Inl Sudo_Os, c\<lparr>reads := rs\<rparr>)
      | Some k # rs \<Rightarrow>
          let n = min wanted (Suc k)
          in (Inr (take n (pending c)), \<lparr>pending = drop n (pending c), reads = rs\<rparr>))"

function receive_more :: "nat \<Rightarrow> u8 list \<Rightarrow> inbound \<Rightarrow> (sudo_error + u8 list) \<times> inbound" where
  "receive_more target bytes c =
     (if length bytes < target then
        case read_some (min (target - length bytes) 65536) c of
          (Inl e, c) \<Rightarrow> (Inl e, c)
        | (Inr got, c) \<Rightarrow>
            if got = [] then (Inl (Sudo_Invalid ''truncated sudo request''), c)
            else receive_more target (bytes @ got) c
      else (Inr bytes, c))"
  by pat_completeness auto
termination
  by (relation "measure (\<lambda>(target, bytes, c). target - length bytes)") (auto intro!: diff_less_mono2)

definition receive_request ::
    "(nat \<Rightarrow> open_file) \<Rightarrow> message option \<Rightarrow> inbound \<Rightarrow> (sudo_error + sudo_request) \<times> inbound" where
  "receive_request files m c =
     (case receive_with_fds m of
        Inl e \<Rightarrow> (Inl e, c)
      | Inr (bytes, fds) \<Rightarrow>
          if length bytes < 4 then (Inl (Sudo_Invalid ''truncated sudo request length''), c)
          else let n = from_be (take 4 bytes) in
            if MAX_REQUEST_BYTES < n then (Inl (Sudo_Invalid ''sudo request exceeds the protocol limit''), c)
            else io_then (receive_more (n + 4) bytes c) id (\<lambda>bytes c.
              if length bytes \<noteq> n + 4 then (Inl (Sudo_Invalid ''sudo request has trailing data''), c)
              else (decode_request files (drop 4 bytes) fds, c)))"

section \<open>The child\<close>

datatype syscall =
  Sys_Tcgetattr | Sys_Winsize | Sys_Openpty | Sys_Nonblock | Sys_Fork | Sys_Setsid | Sys_Ctty | Sys_Setpgid | Sys_Deathsig
| Sys_Dup2 nat | Sys_Fchdir | Sys_Initgroups | Sys_Setresgid | Sys_Setresuid | Sys_Open_Sudo | Sys_Execve

text \<open>A descriptor table gives each open number its file and its close-on-exec flag.\<close>

type_synonym fd_table = "nat \<Rightarrow> (open_file \<times> bool) option"

record process =
  fds :: fd_table
  session_leader :: bool
  control_tty :: "open_file option"
  group_leader :: bool
  death_signal :: "nat option"
  work_dir :: "open_file option"
  umask_of :: u32
  group_list_of :: "string option"
  gids :: "nat \<times> nat \<times> nat"
  uids :: "nat \<times> nat \<times> nat"

record image =
  argv :: "u8 list list"
  envp :: "u8 list list"
  executable :: file_status
  running :: process

definition file_at :: "fd_table \<Rightarrow> nat \<Rightarrow> open_file option" where
  "file_at t fd = map_option fst (t fd)"

definition S_ISUID :: u32 where "S_ISUID = 0x800"

type_synonym kernel = "syscall \<Rightarrow> bool"

definition sys :: "kernel \<Rightarrow> syscall \<Rightarrow> (process \<Rightarrow> process) \<Rightarrow> process \<Rightarrow> (sudo_error + unit) \<times> process" where
  "sys k c f p = (if k c then (Inr (), f p) else (Inl Sudo_Os, p))"

definition dup2 :: "kernel \<Rightarrow> nat \<Rightarrow> nat \<Rightarrow> process \<Rightarrow> (sudo_error + unit) \<times> process" where
  "dup2 k source target p =
     (case fds p source of
        None \<Rightarrow> (Inl Sudo_Os, p)
      | Some (f, cloexec) \<Rightarrow>
          if \<not> k (Sys_Dup2 target) then (Inl Sudo_Os, p)
          else if source = target then (Inr (), p)
          else (Inr (), p\<lparr>fds := (fds p)(target \<mapsto> (f, False))\<rparr>))"

definition stream_source :: "sudo_request \<Rightarrow> nat option \<Rightarrow> nat \<Rightarrow> nat" where
  "stream_source r slave i =
     (if bit (tty_mask r) i then the slave else descriptors r ! i)"

definition trusted_sudo :: "file_status \<Rightarrow> bool" where
  "trusted_sudo m \<longleftrightarrow> st_mode m AND S_IFMT = S_IFREG \<and> st_uid m = 0 \<and> st_gid m = 0 \<and>
     st_mode m AND 0x12 = 0 \<and> st_mode m AND S_ISUID \<noteq> 0"

definition c_strings :: "string \<Rightarrow> u8 list list \<Rightarrow> sudo_error + u8 list list" where
  "c_strings what vs = (if list_all (\<lambda>v. 0 \<notin> set v) vs then Inr vs else Inl (Sudo_Invalid what))"

definition exec_real_sudo :: "kernel \<Rightarrow> file_status option \<Rightarrow> sudo_request \<Rightarrow> process \<Rightarrow> sudo_error + image" where
  "exec_real_sudo k sudo r p =
     then_ok (bail_if (\<not> k Sys_Open_Sudo) Sudo_Os) (\<lambda>_.
     then_ok (ok_or Sudo_Os sudo) (\<lambda>m.
     then_ok (bail_if (\<not> trusted_sudo m) (Sudo_Denied ''real sudo is not a trusted root-owned setuid executable'')) (\<lambda>_.
     then_ok (c_strings ''sudo argument contains NUL'' (arguments r)) (\<lambda>args.
     then_ok (c_strings ''sudo environment contains NUL'' (environment r)) (\<lambda>env.
     then_ok (bail_if (\<not> k Sys_Execve) Sudo_Os) (\<lambda>_.
     Inr \<lparr>argv = bytes_of (invocation r) # args, envp = env, executable = m,
          running = p\<lparr>fds := (\<lambda>fd. case fds p fd of Some (f, False) \<Rightarrow> Some (f, False) | _ \<Rightarrow> None)\<rparr>\<rparr>))))))"

definition child_exec ::
    "kernel \<Rightarrow> file_status option \<Rightarrow> sudo_request \<Rightarrow> nat option \<Rightarrow> nat option \<Rightarrow> process \<Rightarrow> (sudo_error + image) \<times> process" where
  "child_exec k sudo r master slave p =
     (let p = (case master of None \<Rightarrow> p | Some m \<Rightarrow> p\<lparr>fds := (fds p)(m := None)\<rparr>) in
      io_then
        (case slave of
           Some s \<Rightarrow>
             io_then (sys k Sys_Setsid (\<lambda>p. p\<lparr>session_leader := True, group_leader := True\<rparr>) p) id (\<lambda>_ p.
             sys k Sys_Ctty (\<lambda>p. p\<lparr>control_tty := file_at (fds p) s\<rparr>) p)
         | None \<Rightarrow> sys k Sys_Setpgid (\<lambda>p. p\<lparr>group_leader := True\<rparr>) p) id (\<lambda>_ p.
      io_then (sys k Sys_Deathsig (\<lambda>p. p\<lparr>death_signal := Some SIGHUP\<rparr>) p) id (\<lambda>_ p.
      io_then (dup2 k (stream_source r slave 0) 0 p) id (\<lambda>_ p.
      io_then (dup2 k (stream_source r slave 1) 1 p) id (\<lambda>_ p.
      io_then (dup2 k (stream_source r slave 2) 2 p) id (\<lambda>_ p.
      io_then (sys k Sys_Fchdir (\<lambda>p. p\<lparr>work_dir := file_at (fds p) (descriptors r ! 3)\<rparr>) p) id (\<lambda>_ p.
      let p = p\<lparr>umask_of := request_umask r\<rparr> in
      io_then (sys k Sys_Initgroups (\<lambda>p. p\<lparr>group_list_of := Some ''user''\<rparr>) p) id (\<lambda>_ p.
      io_then (sys k Sys_Setresgid (\<lambda>p. p\<lparr>gids := (INTERACTIVE_GID, INTERACTIVE_GID, INTERACTIVE_GID)\<rparr>) p) id (\<lambda>_ p.
      io_then (sys k Sys_Setresuid (\<lambda>p. p\<lparr>uids := (INTERACTIVE_UID, 0, 0)\<rparr>) p) id (\<lambda>_ p.
      (exec_real_sudo k sudo r p, p)))))))))))"

section \<open>The service and the client\<close>

text \<open>What the service meets: its socket, its descriptors and the results of its system calls.\<close>

record service_world =
  is_root :: bool
  socket_peer :: "peer option"
  first_message :: "message option"
  more_input :: inbound
  service_process :: process
  kernel_says :: kernel
  sudo_status :: "file_status option"
  pty_master :: "nat \<times> open_file"
  pty_slave :: "nat \<times> open_file"
  connection :: writer
  turns :: "relay_event list"

record served =
  answer :: "(sudo_error + unit) option"
  child :: "((sudo_error + image) \<times> process) option"
  relayed :: "relay option"
  replies :: writer

definition open_pty :: "service_world \<Rightarrow> sudo_request \<Rightarrow> process \<Rightarrow> (sudo_error + (nat \<times> nat) option) \<times> process" where
  "open_pty w r p =
     (if \<not> has_tty r then (Inr None, p)
      else if kernel_says w Sys_Tcgetattr \<and> kernel_says w Sys_Winsize \<and> kernel_says w Sys_Openpty \<and> kernel_says w Sys_Nonblock
      then (Inr (Some (fst (pty_master w), fst (pty_slave w))),
            p\<lparr>fds := (fds p)(fst (pty_master w) \<mapsto> (snd (pty_master w), False), fst (pty_slave w) \<mapsto> (snd (pty_slave w), False))\<rparr>)
      else (Inl Sudo_Os, p))"

definition run_server_request :: "service_world \<Rightarrow> sudo_request \<Rightarrow> u8 list \<Rightarrow> process \<Rightarrow> served" where
  "run_server_request w r later p =
     (let stop = (\<lambda>e out. \<lparr>answer = Some (Inl e), child = None, relayed = None, replies = out\<rparr>)
      in case open_pty w r p of
        (Inl e, _) \<Rightarrow> stop e (connection w)
      | (Inr pty, p) \<Rightarrow>
          (case send_frame FRAME_READY [] (connection w) of
             (Inl e, out) \<Rightarrow> stop e out
           | (Inr _, out) \<Rightarrow>
               if \<not> kernel_says w Sys_Fork then stop Sudo_Os out
               else
                 let c = child_exec (kernel_says w) (sudo_status w) r (map_option fst pty) (map_option snd pty) p;
                     s = fst (run_machine relay_step (relay_start (pty \<noteq> None) later out) (turns w))
                 in \<lparr>answer = finished s, child = Some c, relayed = Some s, replies = to_client s\<rparr>))"

text \<open>\<open>text\<close> renders an error; a failing service tries to tell it to the client.\<close>

definition serve :: "(sudo_error \<Rightarrow> u8 list) \<Rightarrow> service_world \<Rightarrow> served" where
  "serve text w =
     (let stop = (\<lambda>e. \<lparr>answer = Some (Inl e), child = None, relayed = None, replies = connection w\<rparr>);
          tell = (\<lambda>v. case answer v of
             Some (Inl e) \<Rightarrow> v\<lparr>replies := snd (send_frame FRAME_ERROR (text e) (replies v))\<rparr> | _ \<Rightarrow> v)
      in if \<not> is_root w then stop (Sudo_Denied ''sudo service did not start as guest root'')
         else tell (case validate_peer (socket_peer w) of
             Inl e \<Rightarrow> stop e
           | Inr _ \<Rightarrow>
               (case receive_request (\<lambda>fd. the (file_at (fds (service_process w)) fd)) (first_message w) (more_input w) of
                  (Inl e, _) \<Rightarrow> stop e
                | (Inr r, c) \<Rightarrow> run_server_request w r (pending c) (service_process w))))"

definition invocation_mode :: "string \<Rightarrow> string option" where
  "invocation_mode name =
     (if name = ''sudo'' \<or> name = ''buzzardos-sudo'' then Some ''sudo''
      else if name = ''sudoedit'' then Some ''sudoedit'' else None)"

text \<open>The bytes a client sends: its arguments, and its environment as \<open>name=value\<close> entries.\<close>

definition client_request ::
    "string \<Rightarrow> u32 \<Rightarrow> open_file list \<Rightarrow> u8 list list \<Rightarrow> (u8 list \<times> u8 list) list \<Rightarrow> sudo_error + u8 list" where
  "client_request mode umask files args env =
     (let tty = (length files = REQUIRED_FDS_WITH_TTY) in
      then_ok (if tty then matching_terminal_mask (take 3 files) (files ! 4) else Inr 0) (\<lambda>ttys.
      encode_request mode umask ttys tty args (map (\<lambda>(n, v). n @ [61] @ v) env)))"

section \<open>What the service received\<close>

lemma read_some_Inr: "read_some n c = (Inr got, c') \<Longrightarrow> pending c = got @ pending c'"
  by (auto simp: read_some_def Let_def split: list.splits option.splits)

lemma receive_more_Inr: "receive_more n bs c = (Inr all, c') \<Longrightarrow> all @ pending c' = bs @ pending c"
proof (induction n bs c rule: receive_more.induct)
  case (1 n bs c)
  show ?case
  proof (cases "length bs < n")
    case True
    obtain r d where r: "read_some (min (n - length bs) 65536) c = (r, d)"
      by (rule prod.exhaust)
    then obtain got where got: "r = Inr got" "got \<noteq> []" "receive_more n (bs @ got) d = (Inr all, c')"
      using 1(2) True by (cases r) (auto split: if_splits)
    have "all @ pending c' = (bs @ got) @ pending d"
      using 1(1) [OF True r [symmetric] got(1) got(2)] got(3) by simp
    then show ?thesis
      using read_some_Inr [of "min (n - length bs) 65536" c got d] r got(1) by simp
  qed (use 1(2) in simp)
qed

lemma receive_request_Inr:
  assumes "receive_request files m c = (Inr r, c')"
  shows "\<exists>msg. m = Some msg \<and> request_ok r \<and> descriptors_ok files r \<and> prefix (descriptors r) (raw_fds msg) \<and>
    msg_bytes msg @ pending c = be_bytes 4 (length (request_wire r)) @ request_wire r @ pending c' \<and>
    length (request_wire r) \<le> MAX_REQUEST_BYTES"
proof -
  obtain bs fds where rf: "receive_with_fds m = Inr (bs, fds)"
    using assms by (cases "receive_with_fds m") (auto simp: receive_request_def)
  then obtain msg where msg: "m = Some msg" "bs = msg_bytes msg" "prefix fds (raw_fds msg)"
    by (auto simp: receive_with_fds_def then_ok_eq_Inr Let_def take_is_prefix split: option.splits)
  define n where "n = from_be (take 4 bs)"
  obtain all d where all: "receive_more (n + 4) bs c = (Inr all, d)" "length all = n + 4" "decode_request files (drop 4 all) fds = Inr r"
    "4 \<le> length bs" "n \<le> MAX_REQUEST_BYTES" "d = c'"
    using assms rf unfolding receive_request_def n_def
    by (auto simp: Let_def io_then_eq_Inr simp del: receive_more.simps split: if_splits)
  have stream: "all @ pending c' = bs @ pending c"
    using receive_more_Inr [OF all(1)] all(6) by simp
  have "take 4 all = take 4 bs"
    using arg_cong [OF stream, of "take 4"] all(2,4) by simp
  then have "be_bytes 4 n = take 4 all"
    using all(4) by (simp add: n_def)
  moreover have d: "request_ok r" "descriptors_ok files r" "descriptors r = fds" "drop 4 all = request_wire r"
    using decode_request_sound [OF all(3)] by simp_all
  moreover have "n = length (request_wire r)"
    using all(2) by (simp flip: d(4))
  ultimately have "all = be_bytes 4 (length (request_wire r)) @ request_wire r"
    by (metis append_take_drop_id)
  then show ?thesis
    using stream msg d all(5) \<open>n = length (request_wire r)\<close> by auto
qed

section \<open>What the client sent\<close>

lemma encode_items_Inr:
  "encode_items body vs = Inr b \<Longrightarrow>
     b = body @ concat (map item_bytes vs) \<and> list_all item_ok vs \<and> (b = body \<or> length b \<le> MAX_REQUEST_BYTES)"
proof (induction vs arbitrary: body)
  case (Cons v vs)
  then have v: "item_ok v" "length (body @ item_bytes v) \<le> MAX_REQUEST_BYTES" "encode_items (body @ item_bytes v) vs = Inr b"
    by (auto simp: then_ok_eq_Inr Let_def item_ok_def item_bytes_def)
  from Cons.IH [OF v(3)] v show ?case
    by auto
qed simp

text \<open>The request that a client means by its call; the descriptors travel beside the bytes.\<close>

definition meant :: "string \<Rightarrow> u32 \<Rightarrow> u8 \<Rightarrow> bool \<Rightarrow> u8 list list \<Rightarrow> u8 list list \<Rightarrow> sudo_request" where
  "meant mode um ttys has args env =
     \<lparr>invocation = mode, request_umask = um, tty_mask = ttys AND 7, has_tty = has, arguments = args, environment = env,
      descriptors = []\<rparr>"

lemma encode_request_Inr:
  assumes "encode_request mode um ttys has args env = Inr bs"
  shows "bs = be_bytes 4 (length (request_wire (meant mode um ttys has args env))) @ request_wire (meant mode um ttys has args env) \<and>
    length (request_wire (meant mode um ttys has args env)) \<le> MAX_REQUEST_BYTES \<and> mode \<in> {''sudo'', ''sudoedit''} \<and>
    length args \<le> MAX_SUDO_ITEMS \<and> length env \<le> MAX_SUDO_ITEMS \<and> list_all item_ok (args @ env)"
proof -
  obtain mb body where b: "length args \<le> MAX_SUDO_ITEMS" "length env \<le> MAX_SUDO_ITEMS" "mode_byte mode = Inr mb"
    "encode_items (SUDO_MAGIC @ [mb, ttys AND 7, if has then 1 else 0, 0] @ be_bytes 4 (unat um) @
         be_bytes 4 (length args) @ be_bytes 4 (length env)) (args @ env) = Inr body"
    "bs = be_bytes 4 (length body) @ body"
    using assms by (auto simp: encode_request_def then_ok_eq_Inr)
  have mode: "mode \<in> {''sudo'', ''sudoedit''}" "mb = (if mode = ''sudo'' then 0 else 1)"
    using b(3) by (auto simp: mode_byte_def split: if_splits)
  have body: "body = request_wire (meant mode um ttys has args env)" "list_all item_ok (args @ env)"
    using encode_items_Inr [OF b(4)] mode(2) by (simp_all add: request_wire_def meant_def)
  define h where "h = SUDO_MAGIC @ [mb, ttys AND 7, if has then 1 else 0, 0] @ be_bytes 4 (unat um) @
         be_bytes 4 (length args) @ be_bytes 4 (length env)"
  have "length h \<le> MAX_REQUEST_BYTES"
    by (simp add: h_def SUDO_MAGIC_def MAX_REQUEST_BYTES_def)
  moreover have "body = h \<or> length body \<le> MAX_REQUEST_BYTES"
    using encode_items_Inr [OF b(4)] unfolding h_def by blast
  ultimately have "length body \<le> MAX_REQUEST_BYTES"
    by blast
  then show ?thesis
    using b body mode(1) by simp
qed

lemma umask_inj:
  assumes "be_bytes 4 (unat a) = be_bytes 4 (unat b)"
  shows "a = (b :: u32)"
proof -
  have "unat a = unat b"
    using from_be_4 [OF unat_umask(2) [of a]] from_be_4 [OF unat_umask(2) [of b]] unfolding assms by (rule trans [OF sym])
  then show ?thesis
    by (simp add: word_unat_eq_iff)
qed

lemma count_inj:
  assumes "be_bytes 4 a = be_bytes 4 b" and "a \<le> MAX_SUDO_ITEMS" and "b \<le> MAX_SUDO_ITEMS"
  shows "a = b"
  using count_fits [OF assms(2)] count_fits [OF assms(3)] unfolding assms(1) by (rule trans [OF sym])

lemma request_wire_inj:
  assumes "request_wire q = request_wire r"
    and "invocation q \<in> {''sudo'', ''sudoedit''}" "invocation r \<in> {''sudo'', ''sudoedit''}"
    and "length (arguments q) \<le> MAX_SUDO_ITEMS" "length (arguments r) \<le> MAX_SUDO_ITEMS"
    and "length (environment q) \<le> MAX_SUDO_ITEMS" "length (environment r) \<le> MAX_SUDO_ITEMS"
    and "list_all item_ok (arguments q @ environment q)" "list_all item_ok (arguments r @ environment r)"
  shows "invocation q = invocation r \<and> request_umask q = request_umask r \<and> tty_mask q = tty_mask r \<and> has_tty q = has_tty r \<and>
    arguments q = arguments r \<and> environment q = environment r"
proof -
  note hq = header_read [OF request_wire_def [of q] length_be_bytes length_be_bytes length_be_bytes]
  note hr = header_read [OF request_wire_def [of r] length_be_bytes length_be_bytes length_be_bytes]
  have same: "be_bytes 4 (unat (request_umask q)) = be_bytes 4 (unat (request_umask r))"
    "be_bytes 4 (length (arguments q)) = be_bytes 4 (length (arguments r))"
    "be_bytes 4 (length (environment q)) = be_bytes 4 (length (environment r))"
    "concat (map item_bytes (arguments q @ environment q)) = concat (map item_bytes (arguments r @ environment r))"
    "(if invocation q = ''sudo'' then 0 else 1 :: u8) = (if invocation r = ''sudo'' then 0 else 1)"
    "tty_mask q = tty_mask r" "(if has_tty q then 1 else 0 :: u8) = (if has_tty r then 1 else 0)"
    by (rule trans [OF hq(7) [unfolded assms(1), symmetric] hr(7)], rule trans [OF hq(8) [unfolded assms(1), symmetric] hr(8)],
        rule trans [OF hq(9) [unfolded assms(1), symmetric] hr(9)], rule trans [OF hq(10) [unfolded assms(1), symmetric] hr(10)],
        rule trans [OF hq(3) [unfolded assms(1), symmetric] hr(3)], rule trans [OF hq(4) [unfolded assms(1), symmetric] hr(4)],
        rule trans [OF hq(5) [unfolded assms(1), symmetric] hr(5)])
  have um: "request_umask q = request_umask r"
    by (rule umask_inj [OF same(1)])
  have n: "length (arguments q) = length (arguments r)" "length (environment q) = length (environment r)"
    by (rule count_inj [OF same(2) assms(4,5)], rule count_inj [OF same(3) assms(6,7)])
  have "decode_items (length (arguments q @ environment q)) (concat (map item_bytes (arguments q @ environment q))) =
      Inr (arguments q @ environment q, [])"
    "decode_items (length (arguments r @ environment r)) (concat (map item_bytes (arguments r @ environment r))) =
      Inr (arguments r @ environment r, [])"
    unfolding decode_items_iff using assms(8,9) by simp_all
  then have "arguments q = arguments r \<and> environment q = environment r"
    using n unfolding same(4) length_append by simp
  moreover have "invocation q = invocation r"
    using same(5) assms(2,3) by (cases "invocation q = ''sudo''"; cases "invocation r = ''sudo''") simp_all
  moreover have "has_tty q = has_tty r"
    using same(7) by (cases "has_tty q"; cases "has_tty r") simp_all
  ultimately show ?thesis
    using um same(6) by blast
qed

section \<open>What the child becomes\<close>

lemma sys_Inr: "sys k c f p = (Inr u, q) \<longleftrightarrow> k c \<and> q = f p"
  by (auto simp: sys_def)

lemma dup2_Inr:
  "dup2 k s t p = (Inr u, q) \<Longrightarrow> s \<noteq> t \<Longrightarrow>
   (\<exists>f. file_at (fds p) s = Some f \<and> q = p\<lparr>fds := (fds p)(t \<mapsto> (f, False))\<rparr>)"
  by (auto simp: dup2_def file_at_def split: option.splits if_splits)

definition child_table :: "nat option \<Rightarrow> process \<Rightarrow> fd_table" where
  "child_table master p = (case master of None \<Rightarrow> fds p | Some m \<Rightarrow> (fds p)(m := None))"

definition becomes :: "file_status option \<Rightarrow> sudo_request \<Rightarrow> nat option \<Rightarrow> fd_table \<Rightarrow> image \<Rightarrow> bool" where
  "becomes sudo r slave t img \<longleftrightarrow>
     argv img = bytes_of (invocation r) # arguments r \<and> envp img = environment r \<and>
     sudo = Some (executable img) \<and> trusted_sudo (executable img) \<and>
     (\<forall>i < 3. file_at (fds (running img)) i = file_at t (stream_source r slave i) \<and> file_at (fds (running img)) i \<noteq> None) \<and>
     work_dir (running img) = file_at t (descriptors r ! 3) \<and> umask_of (running img) = request_umask r \<and>
     uids (running img) = (1000, 0, 0) \<and> gids (running img) = (1000, 1000, 1000) \<and> group_list_of (running img) = Some ''user'' \<and>
     group_leader (running img) \<and> death_signal (running img) = Some 1"

lemma exec_real_sudo_Inr:
  "exec_real_sudo k sudo r p = Inr img \<Longrightarrow>
     argv img = bytes_of (invocation r) # arguments r \<and> envp img = environment r \<and> sudo = Some (executable img) \<and>
     trusted_sudo (executable img) \<and>
     running img = p\<lparr>fds := (\<lambda>fd. case fds p fd of Some (f, False) \<Rightarrow> Some (f, False) | _ \<Rightarrow> None)\<rparr>"
  by (auto simp: exec_real_sudo_def then_ok_eq_Inr ok_or_eq_Inr c_strings_def split: if_splits)

lemma child_exec_becomes:
  assumes c: "child_exec k sudo r master slave p = (Inr img, p')"
    and src: "\<forall>i < 3. 3 \<le> stream_source r slave i" and wd: "3 \<le> descriptors r ! 3"
  shows "becomes sudo r slave (child_table master p) img"
proof -
  define p0 where "p0 = (case master of None \<Rightarrow> p | Some m \<Rightarrow> p\<lparr>fds := (fds p)(m := None)\<rparr>)"
  have t0: "fds p0 = child_table master p"
    by (simp add: p0_def child_table_def split: option.split)
  note c' = c [unfolded child_exec_def Let_def p0_def [symmetric]]
  obtain q0 u where q0: "(case slave of
           Some s \<Rightarrow>
             io_then (sys k Sys_Setsid (\<lambda>p. p\<lparr>session_leader := True, group_leader := True\<rparr>) p0) id (\<lambda>_ p.
             sys k Sys_Ctty (\<lambda>p. p\<lparr>control_tty := file_at (fds p) s\<rparr>) p)
         | None \<Rightarrow> sys k Sys_Setpgid (\<lambda>p. p\<lparr>group_leader := True\<rparr>) p0) = (Inr u, q0)"
    using c' unfolding io_then_eq_Inr by blast
  have q0_facts: "fds q0 = fds p0" "group_leader q0"
    using q0 by (auto simp: io_then_eq_Inr sys_Inr split: option.splits)
  define q1 where "q1 = q0\<lparr>death_signal := Some SIGHUP\<rparr>"
  obtain q2 q3 q4 v0 v1 v2 where d: "dup2 k (stream_source r slave 0) 0 q1 = (Inr v0, q2)"
    "dup2 k (stream_source r slave 1) 1 q2 = (Inr v1, q3)" "dup2 k (stream_source r slave 2) 2 q3 = (Inr v2, q4)"
    and rest: "io_then (sys k Sys_Fchdir (\<lambda>p. p\<lparr>work_dir := file_at (fds p) (descriptors r ! 3)\<rparr>) q4) id (\<lambda>_ p.
      io_then (sys k Sys_Initgroups (\<lambda>p. p\<lparr>group_list_of := Some ''user''\<rparr>) (p\<lparr>umask_of := request_umask r\<rparr>)) id (\<lambda>_ p.
      io_then (sys k Sys_Setresgid (\<lambda>p. p\<lparr>gids := (INTERACTIVE_GID, INTERACTIVE_GID, INTERACTIVE_GID)\<rparr>) p) id (\<lambda>_ p.
      io_then (sys k Sys_Setresuid (\<lambda>p. p\<lparr>uids := (INTERACTIVE_UID, 0, 0)\<rparr>) p) id (\<lambda>_ p.
      (exec_real_sudo k sudo r p, p))))) = (Inr img, p')"
    using c' unfolding q0 io_then_simps unfolding io_then_eq_Inr sys_Inr q1_def by blast
  have s: "3 \<le> stream_source r slave 0" "3 \<le> stream_source r slave 1" "3 \<le> stream_source r slave 2"
    using src by simp_all
  obtain f0 where f0: "file_at (fds q1) (stream_source r slave 0) = Some f0" "q2 = q1\<lparr>fds := (fds q1)(0 \<mapsto> (f0, False))\<rparr>"
    using dup2_Inr [OF d(1)] s(1) by auto
  obtain f1 where f1: "file_at (fds q2) (stream_source r slave 1) = Some f1" "q3 = q2\<lparr>fds := (fds q2)(1 \<mapsto> (f1, False))\<rparr>"
    using dup2_Inr [OF d(2)] s(2) by auto
  obtain f2 where f2: "file_at (fds q3) (stream_source r slave 2) = Some f2" "q4 = q3\<lparr>fds := (fds q3)(2 \<mapsto> (f2, False))\<rparr>"
    using dup2_Inr [OF d(3)] s(3) by auto
  define q5 where "q5 = q4\<lparr>work_dir := file_at (fds q4) (descriptors r ! 3), umask_of := request_umask r, group_list_of := Some ''user'',
      gids := (INTERACTIVE_GID, INTERACTIVE_GID, INTERACTIVE_GID), uids := (INTERACTIVE_UID, 0, 0)\<rparr>"
  have e: "exec_real_sudo k sudo r q5 = Inr img"
    using rest unfolding io_then_eq_Inr sys_Inr by (auto simp: q5_def)
  note x = exec_real_sudo_Inr [OF e]
  have t4: "fds q4 = (fds p0)(0 \<mapsto> (f0, False), 1 \<mapsto> (f1, False), 2 \<mapsto> (f2, False))"
    using f0 f1 f2 q0_facts by (simp add: q1_def)
  have high: "file_at (fds q4) n = file_at (fds p0) n" if "3 \<le> n" for n
    using that by (simp add: t4 file_at_def)
  have src_files: "file_at (fds p0) (stream_source r slave 0) = Some f0" "file_at (fds p0) (stream_source r slave 1) = Some f1"
    "file_at (fds p0) (stream_source r slave 2) = Some f2"
    using f0 f1 f2 s q0_facts by (simp_all add: q1_def file_at_def)
  have out: "file_at (fds (running img)) i = Some (if i = 0 then f0 else if i = 1 then f1 else f2)" if "i < 3" for i
    using that x by (auto simp: q5_def t4 file_at_def)
  have "file_at (fds (running img)) i = file_at (fds p0) (stream_source r slave i)" if i: "i < 3" for i
  proof -
    have "i = 0 \<or> i = 1 \<or> i = 2"
      using i by linarith
    then show ?thesis
      using src_files out [OF i] by (elim disjE) simp_all
  qed
  moreover have "file_at (fds (running img)) i \<noteq> None" if "i < 3" for i
    using out [OF that] by simp
  moreover have "group_leader q4" "death_signal q4 = Some 1"
    using f0 f1 f2 q0_facts by (simp_all add: q1_def SIGHUP_def)
  ultimately show ?thesis
    using x high [OF wd] by (simp add: becomes_def t0 q5_def INTERACTIVE_GID_def INTERACTIVE_UID_def)
qed

section \<open>From the client's call to the running sudo\<close>

definition at_terminal :: "open_file list \<Rightarrow> nat \<Rightarrow> bool" where
  "at_terminal files i \<longleftrightarrow> length files = 5 \<and> is_tty (files ! i) \<and>
     (\<exists>a b. status_of_file (files ! i) = Some a \<and> status_of_file (files ! 4) = Some b \<and> same_terminal a b)"

definition entries :: "(u8 list \<times> u8 list) list \<Rightarrow> u8 list list" where
  "entries env = map (\<lambda>(n, v). n @ [61] @ v) env"

lemma serve_child:
  assumes "child (serve text w) = Some (Inr img, p')"
  obtains r c pty p where "validate_peer (socket_peer w) = Inr ()"
    "receive_request (\<lambda>fd. the (file_at (fds (service_process w)) fd)) (first_message w) (more_input w) = (Inr r, c)"
    "open_pty w r (service_process w) = (Inr pty, p)"
    "child_exec (kernel_says w) (sudo_status w) r (map_option fst pty) (map_option snd pty) p = (Inr img, p')"
proof -
  have tell: "child (case answer v of Some (Inl e) \<Rightarrow> v\<lparr>replies := x e\<rparr> | _ \<Rightarrow> v) = child v" for v x
    by (simp split: option.split sum.split)
  show ?thesis
    using assms unfolding serve_def Let_def tell
    by (auto simp: tell run_server_request_def Let_def split: if_splits sum.splits prod.splits intro: that)
qed

lemma client_meant:
  assumes c: "client_request mode um files args env = Inr bs" and r: "request_ok r" "length (request_wire r) \<le> MAX_REQUEST_BYTES"
    and stream: "be_bytes 4 (length (request_wire r)) @ request_wire r @ rest = bs @ later"
  shows "invocation r = mode \<and> request_umask r = um \<and> has_tty r = (length files = 5) \<and> arguments r = args \<and> environment r = entries env"
proof -
  obtain ttys where e: "encode_request mode um ttys (length files = 5) args (entries env) = Inr bs"
    using c by (auto simp: client_request_def Let_def then_ok_eq_Inr entries_def REQUIRED_FDS_WITH_TTY_def split: if_splits)
  define q where "q = meant mode um ttys (length files = 5) args (entries env)"
  note s = encode_request_Inr [OF e, folded q_def]
  have "be_bytes 4 (length (request_wire r)) = be_bytes 4 (length (request_wire q)) \<and>
      request_wire r @ rest = request_wire q @ later"
    using stream s by (simp add: append_eq_append_conv)
  moreover have "length (request_wire r) = length (request_wire q)"
  proof -
    have "length (request_wire r) < 2 ^ 32" "length (request_wire q) < 2 ^ 32"
      using r(2) s by (auto simp: MAX_REQUEST_BYTES_def)
    from from_be_4 [OF this(1)] from_be_4 [OF this(2)] conjunct1 [OF calculation] show ?thesis
      by metis
  qed
  ultimately have "request_wire r = request_wire q"
    by simp
  from request_wire_inj [OF this] r s show ?thesis
    by (simp add: q_def meant_def request_ok_def)
qed

lemma stream_of_request:
  assumes ok: "request_ok r" "descriptors_ok table r" and pre: "prefix (descriptors r) (raw_fds m)"
    and tty: "has_tty r = (length files = 5)" and len: "length files = length (raw_fds m)"
    and at: "\<And>i. i < length files \<Longrightarrow> table (raw_fds m ! i) = files ! i" and i: "i < 3"
  shows "bit (tty_mask r) i = at_terminal files i \<and> descriptors r ! i = raw_fds m ! i \<and> descriptors r ! 3 = raw_fds m ! 3 \<and>
    4 \<le> length files"
proof -
  have d: "length (descriptors r) = (if length files = 5 then 5 else 4)"
    using ok(2) tty by (auto simp: descriptors_ok_def Let_def)
  have l: "length (descriptors r) \<le> length files"
    using pre len by (simp add: prefix_length_le)
  have nth: "descriptors r ! j = raw_fds m ! j" if "j < length (descriptors r)" for j
    using pre that by (auto simp: prefix_def nth_append)
  have bit: "bit (tty_mask r) i = at_terminal files i"
  proof (cases "length files = 5")
    case True
    have "table (descriptors r ! j) = files ! j" if "j < 5" for j
      using nth [of j] at [of j] d that True by simp
    then have "table (descriptors r ! i) = files ! i" "table (descriptors r ! 4) = files ! 4"
      using i by simp_all
    then show ?thesis
      using ok(2) tty True i by (auto simp: descriptors_ok_def Let_def at_terminal_def)
  next
    case False
    then have "tty_mask r = 0"
      using ok(1) tty by (auto simp: request_ok_def)
    then show ?thesis
      using False by (simp add: at_terminal_def)
  qed
  then show ?thesis
    using nth [of i] nth [of 3] d l i by (simp split: if_splits)
qed

text \<open>
  C16. Whatever runs as sudo is what the interactive user called. If the service's child becomes the real
  sudo, its peer was the guest user, and, when the client sent its request over that socket with its
  files, the program that runs is a root-owned setuid executable that nobody else can write, started
  with exactly the client's arguments, environment, umask and directory; each standard stream is the
  client's own file, or the new pseudo terminal just where that file was the client's terminal; and only
  its real user and its groups are the user's.
\<close>

theorem sudo_executes_request:
  assumes run: "child (serve text w) = Some (Inr img, p')" and msg: "first_message w = Some m"
    and sent: "client_request mode um files args env = Inr bs" "msg_bytes m @ pending (more_input w) = bs @ later"
    and passed: "length files = length (raw_fds m)"
      "\<forall>i < length files. file_at (fds (service_process w)) (raw_fds m ! i) = Some (files ! i)"
    and fresh: "\<forall>fd \<in> set (raw_fds m). 3 \<le> fd" "{fst (pty_master w), fst (pty_slave w)} \<inter> set (raw_fds m) = {}"
      "fst (pty_master w) \<noteq> fst (pty_slave w)" "3 \<le> fst (pty_slave w)"
  shows "(\<exists>c. socket_peer w = Some c \<and> peer_uid c = 1000 \<and> peer_gid c = 1000) \<and>
    argv img = bytes_of mode # args \<and> envp img = entries env \<and> umask_of (running img) = um \<and>
    sudo_status w = Some (executable img) \<and> trusted_sudo (executable img) \<and>
    uids (running img) = (1000, 0, 0) \<and> gids (running img) = (1000, 1000, 1000) \<and> work_dir (running img) = Some (files ! 3) \<and>
    (\<forall>i < 3. file_at (fds (running img)) i = Some (if at_terminal files i then snd (pty_slave w) else files ! i))"
proof -
  obtain r c pty p where peer: "validate_peer (socket_peer w) = Inr ()"
    and rr: "receive_request (\<lambda>fd. the (file_at (fds (service_process w)) fd)) (first_message w) (more_input w) = (Inr r, c)"
    and pty: "open_pty w r (service_process w) = (Inr pty, p)"
    and ch: "child_exec (kernel_says w) (sudo_status w) r (map_option fst pty) (map_option snd pty) p = (Inr img, p')"
    using serve_child [OF run] .
  have r: "request_ok r" "descriptors_ok (\<lambda>fd. the (file_at (fds (service_process w)) fd)) r" "prefix (descriptors r) (raw_fds m)"
    "msg_bytes m @ pending (more_input w) = be_bytes 4 (length (request_wire r)) @ request_wire r @ pending c"
    "length (request_wire r) \<le> MAX_REQUEST_BYTES"
    using receive_request_Inr [OF rr] msg by auto
  have eq: "invocation r = mode" "request_umask r = um" "has_tty r = (length files = 5)" "arguments r = args" "environment r = entries env"
    using client_meant [OF sent(1) r(1,5) trans [OF r(4) [symmetric] sent(2)]] by simp_all
  have st: "bit (tty_mask r) i = at_terminal files i" "descriptors r ! i = raw_fds m ! i" "descriptors r ! 3 = raw_fds m ! 3"
      "4 \<le> length files" if "i < 3" for i
    using stream_of_request [OF r(1,2,3) eq(3) passed(1) _ that] passed by simp_all
  let ?t = "child_table (map_option fst pty) p"
  have in_raw: "raw_fds m ! i \<in> set (raw_fds m)" if "i < 4" for i
    using st(4) [of 0] that passed(1) by (intro nth_mem) simp
  have ne: "raw_fds m ! i \<noteq> fst (pty_master w)" "raw_fds m ! i \<noteq> fst (pty_slave w)" if "i < 4" for i
    using in_raw [OF that] fresh(2) by auto
  have keeps: "file_at ?t (raw_fds m ! i) = Some (files ! i)" if "i < 4" for i
    using pty ne [OF that] st(4) [of 0] that passed
    by (auto simp: open_pty_def child_table_def file_at_def split: if_splits)
  have slave: "file_at ?t (the (map_option snd pty)) = Some (snd (pty_slave w)) \<and> 3 \<le> the (map_option snd pty)" if "at_terminal files i" for i
    using pty that eq(3) fresh by (auto simp: open_pty_def child_table_def file_at_def at_terminal_def split: if_splits)
  have source: "stream_source r (map_option snd pty) i = (if at_terminal files i then the (map_option snd pty) else raw_fds m ! i)"
    if "i < 3" for i
    using st [OF that] by (simp add: stream_source_def)
  have "\<forall>i < 3. 3 \<le> stream_source r (map_option snd pty) i"
    using source slave in_raw fresh(1) by auto
  moreover have "3 \<le> descriptors r ! 3"
    using st(3) [of 0] in_raw [of 3] fresh(1) by simp
  ultimately have "becomes (sudo_status w) r (map_option snd pty) ?t img"
    by (rule child_exec_becomes [OF ch])
  moreover have "\<exists>c. socket_peer w = Some c \<and> peer_uid c = 1000 \<and> peer_gid c = 1000"
    using peer by (auto simp: validate_peer_def then_ok_eq_Inr INTERACTIVE_UID_def INTERACTIVE_GID_def split: option.splits)
  ultimately show ?thesis
    using eq st(3) [of 0] keeps [of 3] keeps source slave by (auto simp: becomes_def)
qed

section \<open>A request run through\<close>

definition demo_file :: "nat \<Rightarrow> open_file" where
  "demo_file n = \<lparr>file_id = n, status_of_file = Some \<lparr>st_dev = 1, st_rdev = n, st_mode = 0x41ED, st_uid = 1000, st_gid = 1000\<rparr>,
     is_tty = False\<rparr>"

definition demo_world :: service_world where
  "demo_world =
     \<lparr>is_root = True, socket_peer = Some \<lparr>ucred_complete = True, peer_pid = 77, peer_uid = 1000, peer_gid = 1000\<rparr>,
      first_message = Some \<lparr>msg_bytes = [0, 0, 0, 30] @ SUDO_MAGIC @ [0, 0, 0, 0] @ [0, 0, 0, 18] @ [0, 0, 0, 1] @ [0, 0, 0, 0] @
          [0, 0, 0, 2] @ [105, 100],
        msg_flags = 0, msg_controllen = 32, cmsg_level = 1, cmsg_type = 1, cmsg_length = 32, raw_fds = [3, 4, 5, 6]\<rparr>,
      more_input = \<lparr>pending = [], reads = []\<rparr>,
      service_process = \<lparr>fds = (\<lambda>n. Some (demo_file n, True)), session_leader = False, control_tty = None, group_leader = False,
        death_signal = None, work_dir = None, umask_of = 0, group_list_of = None, gids = (0, 0, 0), uids = (0, 0, 0)\<rparr>,
      kernel_says = (\<lambda>_. True),
      sudo_status = Some \<lparr>st_dev = 1, st_rdev = 0, st_mode = 0x89ED, st_uid = 0, st_gid = 0\<rparr>,
      pty_master = (7, demo_file 7), pty_slave = (8, demo_file 8), connection = demo_writer [], turns = []\<rparr>"

definition demo_request :: sudo_request where
  "demo_request = \<lparr>invocation = ''sudo'', request_umask = 18, tty_mask = 0, has_tty = False, arguments = [[105, 100]],
     environment = [], descriptors = [3, 4, 5, 6]\<rparr>"

lemma demo_wire:
  "request_wire demo_request = SUDO_MAGIC @ [0, 0, 0, 0] @ [0, 0, 0, 18] @ [0, 0, 0, 1] @ [0, 0, 0, 0] @ [0, 0, 0, 2] @ [105, 100]"
  by (simp add: request_wire_def demo_request_def item_bytes_def be_bytes_4)

lemma demo_received:
  "receive_request (\<lambda>fd. the (file_at (fds (service_process demo_world)) fd)) (first_message demo_world) (more_input demo_world) =
   (Inr demo_request, \<lparr>pending = [], reads = []\<rparr>)"
proof -
  have "descriptors_ok demo_file demo_request" "request_ok demo_request"
    by (simp_all add: descriptors_ok_def demo_request_def demo_file_def S_IFMT_def S_IFDIR_def request_ok_def item_ok_def
        MAX_SUDO_ITEMS_def MAX_ITEM_BYTES_def Let_def)
  from decode_request_wire [OF this(2,1)] have d: "decode_request demo_file (request_wire demo_request) [3, 4, 5, 6] = Inr demo_request"
    by (simp add: demo_request_def)
  have t: "(\<lambda>fd. the (file_at (fds (service_process demo_world)) fd)) = demo_file"
    by (simp add: demo_world_def file_at_def)
  have n: "length SUDO_MAGIC = 8"
    by (simp add: SUDO_MAGIC_def)
  have r: "receive_with_fds (first_message demo_world) = Inr ([0, 0, 0, 30] @ request_wire demo_request, [3, 4, 5, 6])"
    by (simp add: receive_with_fds_def demo_world_def demo_wire MSG_CTRUNC_def MSG_TRUNC_def CMSGHDR_SIZE_def SOL_SOCKET_def
        SCM_RIGHTS_def cmsg_align_def REQUIRED_FDS_def REQUIRED_FDS_WITH_TTY_def Let_def)
  have l: "length (request_wire demo_request) = 30"
    by (simp add: demo_wire n)
  show ?thesis
    using d l unfolding t by (simp add: receive_request_def r from_be_def MAX_REQUEST_BYTES_def Let_def) (simp add: demo_world_def)
qed

definition demo_image :: image where
  "demo_image = (case child (serve (\<lambda>_. []) demo_world) of Some (Inr img, _) \<Rightarrow> img)"

lemma demo_child: "\<exists>p. child (serve (\<lambda>_. []) demo_world) = Some (Inr demo_image, p)"
proof -
  have "\<exists>img p. child (serve (\<lambda>_. []) demo_world) = Some (Inr img, p)"
    using demo_received
    by (auto simp: serve_def Let_def demo_world_def validate_peer_def INTERACTIVE_UID_def INTERACTIVE_GID_def
        run_server_request_def open_pty_def demo_request_def send_frame_def MAX_FRAME_BYTES_def demo_writer_def write_all_def
        child_exec_def sys_def dup2_def stream_source_def exec_real_sudo_def trusted_sudo_def c_strings_def
        S_IFMT_def S_IFREG_def S_ISUID_def FRAME_READY_def relay_start_def)
  then show ?thesis
    by (auto simp: demo_image_def)
qed

theorem sudo_executes_request_witness: "argv demo_image = [bytes_of ''sudo'', [105, 100]] \<and> umask_of (running demo_image) = 18"
proof -
  obtain p where c: "child (serve (\<lambda>_. []) demo_world) = Some (Inr demo_image, p)"
    using demo_child by blast
  have "client_request ''sudo'' 18 (map demo_file [3, 4, 5, 6]) [[105, 100]] [] = Inr ([0, 0, 0, 30] @ request_wire demo_request)"
    by (simp add: client_request_def encode_request_def demo_wire MAX_SUDO_ITEMS_def MAX_ITEM_BYTES_def mode_byte_def be_bytes_4
        MAX_REQUEST_BYTES_def REQUIRED_FDS_WITH_TTY_def SUDO_MAGIC_def bytes_of_def)
  note sent = this
  obtain m where m: "first_message demo_world = Some m" "raw_fds m = [3, 4, 5, 6]"
    "msg_bytes m @ pending (more_input demo_world) = ([0, 0, 0, 30] @ request_wire demo_request) @ []"
    by (simp add: demo_world_def demo_wire)
  have "length (map demo_file [3, 4, 5, 6]) = length (raw_fds m)"
    "\<forall>i < length (map demo_file [3, 4, 5, 6]). file_at (fds (service_process demo_world)) (raw_fds m ! i) = Some (map demo_file [3, 4, 5, 6] ! i)"
    by (simp_all add: m(2) demo_world_def file_at_def del: list.map(2))
  moreover have "\<forall>fd \<in> set (raw_fds m). 3 \<le> fd"
    "{fst (pty_master demo_world), fst (pty_slave demo_world)} \<inter> set (raw_fds m) = {}"
    "fst (pty_master demo_world) \<noteq> fst (pty_slave demo_world)" "3 \<le> fst (pty_slave demo_world)"
    by (simp_all add: m(2) demo_world_def)
  ultimately show ?thesis
    using sudo_executes_request [OF c m(1) sent m(3)] by blast
qed

end
