(* ===== verification/Id_Map.thy ===== *)
theory Id_Map
  imports Prelude
begin

text \<open>
  The identities of the guest: \<open>host/crates/wb-core/src/idmap.rs\<close>, which finds the subordinate id ranges
  of the host account and the trusted mapping helpers and builds the arguments of the two \<open>unshare\<close>
  commands, and \<open>map_nested_user_namespace\<close> of \<open>host/crates/buzzardos-broker/src/main.rs\<close>, which writes
  the map of the guest's own namespace below the first one. \<open>unshare\<close> and the kernel's reading of a map
  file are not part of the program: they are arguments, with their documented meaning as hypotheses.

  The theorem composes both: guest user 1000 is the host user and nobody else is; every other guest
  identity, root included, is a different subordinate id.
\<close>

unbundle bit_operations_syntax

section \<open>The host account\<close>

definition GUEST_USER_ID :: nat where "GUEST_USER_ID = 1000"
definition GUEST_ID_COUNT :: nat where "GUEST_ID_COUNT = 65536"

record helper_meta =
  is_regular :: bool
  owner_uid :: nat
  mode_bits :: u32

record account_host =
  real_uid :: nat
  real_gid :: nat
  effective_uid :: nat
  passwd_entry :: "string + string option"
  id_file :: "string \<Rightarrow> string + string"
  helper_file :: "string \<Rightarrow> helper_meta option"

record id_map =
  subuid_start :: nat
  subgid_start :: nat
  mapping_path :: string

text \<open>\<open>str::lines\<close>: a line loses its line feed and a carriage return before it.\<close>

definition strip_cr :: "string \<Rightarrow> string" where
  "strip_cr l = (if l \<noteq> [] \<and> last l = CHR 0x0D then butlast l else l)"

definition text_lines :: "string \<Rightarrow> string list" where
  "text_lines s =
     (let ls = split_on (CHR 0x0A) s in map strip_cr (butlast ls) @ (if last ls = [] then [] else [last ls]))"

definition range_contains :: "nat \<Rightarrow> nat \<Rightarrow> nat \<Rightarrow> bool" where
  "range_contains start count i \<longleftrightarrow> start \<le> i \<and> i - start < count"

definition range_field :: "string \<Rightarrow> string \<Rightarrow> string list \<Rightarrow> string + nat" where
  "range_field missing invalid parts =
     (case parts of [] \<Rightarrow> Inl missing | f # _ \<Rightarrow> ok_or invalid (parse_u32 f))"

fun find_in_lines :: "string \<Rightarrow> string \<Rightarrow> string list \<Rightarrow> string + (nat \<times> nat)" where
  "find_in_lines user numeric [] = Inl (''no subordinate ID range for account '' @ user)"
| "find_in_lines user numeric (l # ls) =
     (let parts = split_on (CHR '':'') l; owner = hd parts in
      if owner \<noteq> user \<and> owner \<noteq> numeric then find_in_lines user numeric ls
      else then_ok (range_field ''subordinate ID entry has no start'' ''invalid subordinate ID start'' (drop 1 parts)) (\<lambda>start.
           then_ok (range_field ''subordinate ID entry has no count'' ''invalid subordinate ID count'' (drop 2 parts)) (\<lambda>count.
           Inr (start, count))))"

definition find_range :: "account_host \<Rightarrow> string \<Rightarrow> string \<Rightarrow> string \<Rightarrow> string + (nat \<times> nat)" where
  "find_range h file user numeric =
     then_ok (map_err (\<lambda>_. ''reading '' @ file) (id_file h file)) (\<lambda>contents.
     find_in_lines user numeric (text_lines contents))"

text \<open>Executable bits \<open>0o111\<close> and the set-user-id bit \<open>0o4000\<close>.\<close>

definition trusted_mapping_helper :: "account_host \<Rightarrow> string \<Rightarrow> bool" where
  "trusted_mapping_helper h p =
     (case helper_file h p of
        None \<Rightarrow> False
      | Some m \<Rightarrow> is_regular m \<and> owner_uid m = 0 \<and> mode_bits m AND 0x49 \<noteq> 0
                \<and> (mode_bits m AND 0x800 \<noteq> 0 \<or> effective_uid h = 0))"

definition helpers_in :: "account_host \<Rightarrow> string \<Rightarrow> bool" where
  "helpers_in h d \<longleftrightarrow>
     list_all (\<lambda>name. trusted_mapping_helper h (d @ ''/'' @ name)) [''newuidmap'', ''newgidmap'']"

definition mapping_helper_path :: "account_host \<Rightarrow> string + string" where
  "mapping_helper_path h =
     ok_or ''host lacks trusted newuidmap/newgidmap gates for subordinate IDs''
       (find (helpers_in h) [''/usr/bin'', ''/bin'', ''/usr/sbin'', ''/sbin''])"

definition discover :: "account_host \<Rightarrow> string + id_map" where
  "discover h =
     then_ok (map_err (\<lambda>_. ''looking up current user'') (passwd_entry h)) (\<lambda>entry.
     then_ok (ok_or ''current uid has no passwd entry'' entry) (\<lambda>user.
     let numeric = show_dec (real_uid h) in
     then_ok (find_range h ''/etc/subuid'' user numeric) (\<lambda>(ustart, ucount).
     then_ok (find_range h ''/etc/subgid'' user numeric) (\<lambda>(gstart, gcount).
     then_ok (bail_if (ucount < GUEST_ID_COUNT \<or> gcount < GUEST_ID_COUNT) ''not enough subordinate UIDs and GIDs'') (\<lambda>_.
     then_ok (bail_if (range_contains ustart GUEST_ID_COUNT (real_uid h) \<or> range_contains gstart GUEST_ID_COUNT (real_gid h))
       ''a subordinate ID range overlaps the host UID/GID'') (\<lambda>_.
     then_ok (mapping_helper_path h) (\<lambda>dir.
     Inr \<lparr>subuid_start = ustart, subgid_start = gstart, mapping_path = dir\<rparr>)))))))"

section \<open>The commands\<close>

definition block_text :: "nat \<Rightarrow> nat \<Rightarrow> nat \<Rightarrow> string" where
  "block_text inner outer n = show_dec inner @ '':'' @ show_dec outer @ '':'' @ show_dec n"

definition unshare_args :: "string \<Rightarrow> string \<Rightarrow> string \<Rightarrow> string list" where
  "unshare_args users self groups =
     [''--user'', ''--map-users'', users, ''--map-user'', self, ''--map-groups'', groups, ''--map-group'', self,
      ''--mount'', ''--setuid'', ''0'', ''--setgid'', ''0'', ''--'']"

definition namespace_args :: "id_map \<Rightarrow> string list" where
  "namespace_args m =
     unshare_args (block_text 0 (subuid_start m) GUEST_ID_COUNT) (show_dec GUEST_USER_ID)
       (block_text 0 (subgid_start m) GUEST_ID_COUNT)"

definition mount_setup_namespace_args :: "id_map \<Rightarrow> string list" where
  "mount_setup_namespace_args m =
     unshare_args (block_text 1 (subuid_start m) GUEST_ID_COUNT) ''0'' (block_text 1 (subgid_start m) GUEST_ID_COUNT)"

definition guest_namespace_args_from_mount_setup :: "string list" where
  "guest_namespace_args_from_mount_setup =
     unshare_args (block_text 0 1 GUEST_ID_COUNT) (show_dec GUEST_USER_ID) (block_text 0 1 GUEST_ID_COUNT)"

section \<open>The map of the guest namespace\<close>

text \<open>
  The mapper child of the namespace holder: what it was given, the parent it has, whether its start
  byte arrives and each of its three writes succeeds. The files of \<open>/proc/PID\<close> it wrote are the result.
\<close>

definition NESTED_MAP :: string where
  "NESTED_MAP = ''0 1 1000'' @ [CHR 0x0A] @ ''1000 0 1'' @ [CHR 0x0A] @ ''1001 1001 64535'' @ [CHR 0x0A]"

record mapper_run =
  start_signal :: bool
  uid_write :: bool
  gid_write :: bool
  done_write :: bool

type_synonym map_files = "string \<rightharpoonup> string"

definition write_map :: "bool \<Rightarrow> string \<Rightarrow> map_files \<Rightarrow> (unit + unit) \<times> map_files" where
  "write_map ok name f = (if ok then (Inr (), f(name \<mapsto> NESTED_MAP)) else (Inl (), f))"

definition map_nested_user_namespace ::
    "nat \<Rightarrow> nat \<Rightarrow> int \<Rightarrow> int \<Rightarrow> mapper_run \<Rightarrow> map_files \<Rightarrow> (string + unit) \<times> map_files" where
  "map_nested_user_namespace ppid holder start_fd done_fd r f =
     (if holder \<noteq> ppid \<or> start_fd < 3 \<or> done_fd < 3 \<or> start_fd = done_fd then
        (Inl ''nested user namespace mapper received invalid authority'', f)
      else if \<not> start_signal r then (Inl ''waiting for nested namespace creation'', f)
      else io_then (write_map (uid_write r) ''uid_map'' f) (\<lambda>_. ''installing nested guest UID map'') (\<lambda>_ f.
           io_then (write_map (gid_write r) ''gid_map'' f) (\<lambda>_. ''installing nested guest GID map'') (\<lambda>_ f.
           (if done_write r then Inr () else Inl ''reporting nested guest identity mapping'', f))))"

section \<open>What the ranges and helpers are\<close>

lemma range_contains_iff: "range_contains s n i \<longleftrightarrow> s \<le> i \<and> i < s + n"
  by (auto simp: range_contains_def)

lemma find_in_lines_first:
  assumes "find_in_lines user numeric ls = Inr (start, count)"
  shows "\<exists>before l after. ls = before @ l # after
     \<and> list_all (\<lambda>x. hd (split_on (CHR '':'') x) \<notin> {user, numeric}) before
     \<and> (\<exists>owner a b rest. split_on (CHR '':'') l = owner # a # b # rest \<and> owner \<in> {user, numeric}
          \<and> parse_u32 a = Some start \<and> parse_u32 b = Some count)"
  using assms
proof (induction ls)
  case (Cons l ls)
  obtain owner fs where s: "split_on (CHR '':'') l = owner # fs"
    by (cases "split_on (CHR '':'') l") auto
  show ?case
  proof (cases "owner \<in> {user, numeric}")
    case True
    then have "\<exists>a b rest. fs = a # b # rest \<and> parse_u32 a = Some start \<and> parse_u32 b = Some count"
      using Cons.prems s by (auto simp: Let_def result_simps range_field_def split: list.splits)
    then obtain a b rest where f: "fs = a # b # rest" "parse_u32 a = Some start" "parse_u32 b = Some count"
      by blast
    have "\<exists>owner a b rest. split_on (CHR '':'') l = owner # a # b # rest \<and> owner \<in> {user, numeric}
        \<and> parse_u32 a = Some start \<and> parse_u32 b = Some count"
      by (intro exI [where x = owner] exI [where x = a] exI [where x = b] exI [where x = rest])
        (use True s f in simp)
    then show ?thesis
      by (intro exI [where x = "[]"] exI [where x = l] exI [where x = ls]) simp
  next
    case False
    then have "find_in_lines user numeric ls = Inr (start, count)"
      using Cons.prems s by (auto simp: Let_def)
    from Cons.IH [OF this] obtain before l' after where
      IH: "ls = before @ l' # after" "list_all (\<lambda>x. hd (split_on (CHR '':'') x) \<notin> {user, numeric}) before"
      "\<exists>owner a b rest. split_on (CHR '':'') l' = owner # a # b # rest \<and> owner \<in> {user, numeric}
          \<and> parse_u32 a = Some start \<and> parse_u32 b = Some count"
      by blast
    show ?thesis
      using IH False s by (intro exI [where x = "l # before"] exI [where x = l'] exI [where x = after]) simp
  qed
qed simp

lemma find_range_bound: "find_range h file user numeric = Inr (start, n) \<Longrightarrow> start < 2 ^ 32"
  by (auto simp: find_range_def result_simps parse_u32_def from_str_radix_bound dest!: find_in_lines_first)

lemma discover_sound:
  assumes "discover h = Inr m"
  shows "\<not> range_contains (subuid_start m) GUEST_ID_COUNT (real_uid h)"
    and "\<not> range_contains (subgid_start m) GUEST_ID_COUNT (real_gid h)"
    and "helpers_in h (mapping_path m)"
    and "subuid_start m < 2 ^ 32" and "subgid_start m < 2 ^ 32"
  using assms
  by (auto simp: discover_def Let_def result_simps mapping_helper_path_def split: if_splits dest: find_range_bound)

section \<open>What the maps mean\<close>

text \<open>
  A line of a map file is a block: first id inside, first id outside, how many. The kernel reads the
  file as the blocks it lists; \<open>unshare\<close> with \<open>--map-users\<close> (or \<open>--map-groups\<close>) and \<open>--map-user\<close>
  (\<open>--map-group\<close>) maps the block and the caller's own id. Both are stated only for what the program
  relies on: a file that is the text of some blocks, and an own id below the block.
\<close>

type_synonym id_block = "nat \<times> nat \<times> nat"

fun through_blocks :: "id_block list \<Rightarrow> nat \<rightharpoonup> nat" where
  "through_blocks [] i = None"
| "through_blocks ((inner, outer, n) # bs) i =
     (if inner \<le> i \<and> i < inner + n then Some (outer + (i - inner)) else through_blocks bs i)"

definition block_line :: "id_block \<Rightarrow> string" where
  "block_line b =
     (case b of (inner, outer, n) \<Rightarrow> join_with '' '' [show_dec inner, show_dec outer, show_dec n] @ [CHR 0x0A])"

definition block_fits :: "id_block \<Rightarrow> bool" where
  "block_fits b = (case b of (inner, outer, n) \<Rightarrow> list_all (\<lambda>x. x < 2 ^ 32) [inner, outer, n])"

definition kernel_reads_maps :: "(string \<Rightarrow> nat \<rightharpoonup> nat) \<Rightarrow> bool" where
  "kernel_reads_maps krn \<longleftrightarrow> (\<forall>bs. list_all block_fits bs \<longrightarrow> krn (concat (map block_line bs)) = through_blocks bs)"

fun option_value :: "string \<Rightarrow> string list \<Rightarrow> string option" where
  "option_value opt (a # v # r) = (if a = opt then Some v else option_value opt (v # r))"
| "option_value opt r = None"

definition unshare_maps :: "string \<Rightarrow> string \<Rightarrow> (string list \<Rightarrow> nat \<Rightarrow> nat \<rightharpoonup> nat) \<Rightarrow> bool" where
  "unshare_maps block_opt self_opt un \<longleftrightarrow>
     (\<forall>args own inner outer n self.
        block_fits (inner, outer, n) \<longrightarrow>
        option_value block_opt args = Some (block_text inner outer n) \<longrightarrow>
        option_value self_opt args = Some (show_dec self) \<longrightarrow> self < inner \<longrightarrow>
        un args own = (through_blocks [(inner, outer, n)])(self \<mapsto> own))"

text \<open>The identity on the host that an identity of the guest stands for.\<close>

definition guest_identity :: "(string \<Rightarrow> nat \<rightharpoonup> nat) \<Rightarrow> (nat \<rightharpoonup> nat) \<Rightarrow> string \<Rightarrow> nat \<rightharpoonup> nat" where
  "guest_identity krn setup file i = Option.bind (krn file i) setup"

definition keep_id :: "(nat \<rightharpoonup> nat) \<Rightarrow> nat \<Rightarrow> nat \<Rightarrow> bool" where
  "keep_id f own start \<longleftrightarrow>
     dom f = {..<GUEST_ID_COUNT} \<and> inj_on f {..<GUEST_ID_COUNT}
     \<and> f GUEST_USER_ID = Some own \<and> f 0 = Some start
     \<and> (\<forall>i x. f i = Some x \<and> i \<noteq> GUEST_USER_ID \<longrightarrow> range_contains start GUEST_ID_COUNT x \<and> x \<noteq> own)"

lemma decimal_digits:
  "digit_char 0 = CHR ''0''" "digit_char (Suc 0) = CHR ''1''" "digit_char 3 = CHR ''3''" "digit_char 4 = CHR ''4''"
  "digit_char 5 = CHR ''5''" "digit_char 6 = CHR ''6''"
  by code_simp+

lemma nested_blocks_fit: "list_all block_fits [(0, 1, 1000), (1000, 0, 1), (1001, 1001, 64535)]"
  by (simp add: block_fits_def)

lemma nested_map_blocks: "NESTED_MAP = concat (map block_line [(0, 1, 1000), (1000, 0, 1), (1001, 1001, 64535)])"
  by (simp add: NESTED_MAP_def block_line_def show_dec_def show_radix.simps decimal_digits)

lemma setup_map:
  assumes "unshare_maps b o' un" and "option_value b (mount_setup_namespace_args m) = Some (block_text 1 start GUEST_ID_COUNT)"
    and "option_value o' (mount_setup_namespace_args m) = Some ''0''" and "start < 2 ^ 32"
  shows "un (mount_setup_namespace_args m) own = (through_blocks [(1, start, GUEST_ID_COUNT)])(0 \<mapsto> own)"
proof -
  have "show_dec 0 = ''0''"
    by code_simp
  then show ?thesis
    using assms unfolding unshare_maps_def
    by (auto simp: block_fits_def GUEST_ID_COUNT_def elim!: allE [where x = "mount_setup_namespace_args m"])
qed

lemma block_text_1: "block_text 1 outer n = CHR ''1'' # tl (block_text 1 outer n)"
proof -
  have "show_dec 1 = ''1''"
    by code_simp
  then show ?thesis
    by (simp add: block_text_def)
qed

lemma setup_options:
  "option_value ''--map-users'' (mount_setup_namespace_args m) = Some (block_text 1 (subuid_start m) GUEST_ID_COUNT)"
  "option_value ''--map-groups'' (mount_setup_namespace_args m) = Some (block_text 1 (subgid_start m) GUEST_ID_COUNT)"
  "option_value ''--map-user'' (mount_setup_namespace_args m) = Some ''0''"
  "option_value ''--map-group'' (mount_setup_namespace_args m) = Some ''0''"
proof -
  define u where "u = block_text 1 (subuid_start m) GUEST_ID_COUNT"
  define g where "g = block_text 1 (subgid_start m) GUEST_ID_COUNT"
  have "u = CHR ''1'' # tl u" "g = CHR ''1'' # tl g"
    unfolding u_def g_def by (rule block_text_1)+
  then obtain x y where "u = CHR ''1'' # x" "g = CHR ''1'' # y"
    by blast
  then show "option_value ''--map-users'' (mount_setup_namespace_args m) = Some u"
    "option_value ''--map-groups'' (mount_setup_namespace_args m) = Some g"
    "option_value ''--map-user'' (mount_setup_namespace_args m) = Some ''0''"
    "option_value ''--map-group'' (mount_setup_namespace_args m) = Some ''0''"
    unfolding mount_setup_namespace_args_def unshare_args_def u_def [symmetric] g_def [symmetric] by simp_all
qed

lemma guest_identity_keeps:
  assumes k: "kernel_reads_maps krn"
    and s: "setup = (through_blocks [(1, start, GUEST_ID_COUNT)])(0 \<mapsto> own)"
    and free: "\<not> range_contains start GUEST_ID_COUNT own"
  shows "keep_id (guest_identity krn setup NESTED_MAP) own start"
proof -
  have f: "guest_identity krn setup NESTED_MAP i =
      (if i < 1000 then Some (start + i) else if i = 1000 then Some own
       else if i < 65536 then Some (start + (i - 1)) else None)" for i
  proof -
    have "krn NESTED_MAP = through_blocks [(0, 1, 1000), (1000, 0, 1), (1001, 1001, 64535)]"
      using k unfolding kernel_reads_maps_def nested_map_blocks by (blast intro: nested_blocks_fit)
    then show ?thesis
      by (auto simp: guest_identity_def s GUEST_ID_COUNT_def)
  qed
  show ?thesis
    unfolding keep_id_def
    using free by (auto simp: f GUEST_ID_COUNT_def GUEST_USER_ID_def range_contains_iff inj_on_def split: if_splits)
qed

section \<open>A concrete host\<close>

definition read_block :: "char \<Rightarrow> string \<Rightarrow> id_block option" where
  "read_block c t =
     (case map parse_u32 (split_on c t) of [Some i, Some outer, Some n] \<Rightarrow> Some (i, outer, n) | _ \<Rightarrow> None)"

definition demo_kernel :: "string \<Rightarrow> nat \<rightharpoonup> nat" where
  "demo_kernel s = through_blocks (List.map_filter (read_block (CHR '' '')) (split_on (CHR 0x0A) s))"

definition demo_unshare :: "string \<Rightarrow> string \<Rightarrow> string list \<Rightarrow> nat \<Rightarrow> nat \<rightharpoonup> nat" where
  "demo_unshare b o' args own =
     (case (Option.bind (option_value b args) (read_block (CHR '':'')), Option.bind (option_value o' args) parse_u32) of
        (Some blk, Some self) \<Rightarrow> (through_blocks [blk])(self \<mapsto> own)
      | _ \<Rightarrow> Map.empty)"

definition demo_account :: account_host where
  "demo_account =
     \<lparr>real_uid = 1000, real_gid = 1000, effective_uid = 1000, passwd_entry = Inr (Some ''me''),
      id_file = (\<lambda>_. Inr (''me'' @ CHR '':'' # show_dec 100000 @ CHR '':'' # show_dec 65536)),
      helper_file = (\<lambda>p. if starts_with p ''/usr/bin/'' then Some \<lparr>is_regular = True, owner_uid = 0, mode_bits = 0x9ED\<rparr> else None)\<rparr>"

definition demo_mapping :: id_map where
  "demo_mapping = \<lparr>subuid_start = 100000, subgid_start = 100000, mapping_path = ''/usr/bin''\<rparr>"

lemma show_dec_no_sep: "c \<in> {CHR '':'', CHR '' '', CHR 0x0A} \<Longrightarrow> c \<notin> set (show_dec n)"
  using show_dec_digits [of c n] by (auto simp: ascii_digit_def)

lemma read_block_text:
  assumes "block_fits (i, outer, n)" and "c \<in> {CHR '':'', CHR '' ''}"
  shows "read_block c (show_dec i @ c # show_dec outer @ c # show_dec n) = Some (i, outer, n)"
proof -
  have "c \<notin> set (show_dec k)" for k
    using assms(2) by (intro show_dec_no_sep) auto
  then show ?thesis
    using assms(1) by (simp add: read_block_def split_on_append split_on_none parse_u32_show block_fits_def)
qed

lemma demo_kernel_reads: "kernel_reads_maps demo_kernel"
proof -
  have "list_all block_fits bs \<Longrightarrow>
      List.map_filter (read_block (CHR '' '')) (split_on (CHR 0x0A) (concat (map block_line bs))) = bs" for bs
  proof (induction bs)
    case Nil
    show ?case
      by (simp add: List.map_filter_def read_block_def parse_u32_def from_str_radix_def)
  next
    case (Cons b bs)
    obtain i outer n where b: "b = (i, outer, n)"
      by (rule prod_cases3)
    define t where "t = show_dec i @ CHR '' '' # show_dec outer @ CHR '' '' # show_dec n"
    have "CHR 0x0A \<notin> set t"
      using show_dec_no_sep [of "CHR 0x0A"] by (simp add: t_def)
    then have "split_on (CHR 0x0A) (concat (map block_line (b # bs))) = t # split_on (CHR 0x0A) (concat (map block_line bs))"
      using split_on_append [of "CHR 0x0A" t "concat (map block_line bs)"] by (simp add: b block_line_def t_def)
    moreover have "read_block (CHR '' '') t = Some b"
      unfolding t_def b by (rule read_block_text) (use Cons.prems b in auto)
    ultimately show ?case
      using Cons by (simp add: List.map_filter_def) (simp add: b)
  qed
  then show ?thesis
    by (simp add: kernel_reads_maps_def demo_kernel_def)
qed

lemma demo_unshare_maps: "unshare_maps b o' (demo_unshare b o')"
  by (auto simp: unshare_maps_def demo_unshare_def block_text_def read_block_text parse_u32_show block_fits_def)

lemma demo_discover: "discover demo_account = Inr demo_mapping"
proof -
  have "find_range demo_account f ''me'' num = Inr (100000, 65536)" for f num
    using show_dec_no_sep [of "CHR '':''"] show_dec_no_sep [of "CHR 0x0A"]
    by (simp add: find_range_def demo_account_def text_lines_def split_on_none split_on_append range_field_def parse_u32_show)
  moreover have helpers: "helpers_in demo_account ''/usr/bin''"
    by (simp add: helpers_in_def trusted_mapping_helper_def demo_account_def starts_with_def)
  moreover have demo_account_facts: "passwd_entry demo_account = Inr (Some ''me'')" "real_uid demo_account = 1000"
      "real_gid demo_account = 1000"
    by (simp_all add: demo_account_def)
  ultimately show ?thesis
    by (simp add: discover_def mapping_helper_path_def range_contains_iff GUEST_ID_COUNT_def demo_mapping_def)
qed

section \<open>Who the guest's users are\<close>

text \<open>
  C14. Whenever the id map of an account is found and the nested map is installed, guest user and group
  1000 are the account's own and every other guest identity, root included, is one of 65536 subordinate
  ids that differ from it and from each other. The kernel and \<open>unshare\<close> are assumed to map as documented.
\<close>

theorem guest_identities:
  assumes "discover h = Inr m"
    and "map_nested_user_namespace ppid holder start_fd done_fd r Map.empty = (Inr (), files)"
    and "kernel_reads_maps krn"
    and "unshare_maps ''--map-users'' ''--map-user'' users"
    and "unshare_maps ''--map-groups'' ''--map-group'' groups"
  shows "\<exists>u g. files = [''uid_map'' \<mapsto> u, ''gid_map'' \<mapsto> g]
    \<and> keep_id (guest_identity krn (users (mount_setup_namespace_args m) (real_uid h)) u) (real_uid h) (subuid_start m)
    \<and> keep_id (guest_identity krn (groups (mount_setup_namespace_args m) (real_gid h)) g) (real_gid h) (subgid_start m)"
proof -
  note m = discover_sound [OF assms(1)]
  have "files = [''uid_map'' \<mapsto> NESTED_MAP, ''gid_map'' \<mapsto> NESTED_MAP]"
    using assms(2) by (auto simp: map_nested_user_namespace_def write_map_def result_simps split: if_splits)
  moreover have "keep_id (guest_identity krn (users (mount_setup_namespace_args m) (real_uid h)) NESTED_MAP) (real_uid h) (subuid_start m)"
    by (intro guest_identity_keeps [OF assms(3)] setup_map [OF assms(4)] setup_options m)
  moreover have "keep_id (guest_identity krn (groups (mount_setup_namespace_args m) (real_gid h)) NESTED_MAP) (real_gid h) (subgid_start m)"
    by (intro guest_identity_keeps [OF assms(3)] setup_map [OF assms(5)] setup_options m)
  ultimately show ?thesis
    by blast
qed

theorem guest_identities_witness:
  "\<exists>u g. Map.empty(''uid_map'' \<mapsto> NESTED_MAP, ''gid_map'' \<mapsto> NESTED_MAP) = [''uid_map'' \<mapsto> u, ''gid_map'' \<mapsto> g]
    \<and> keep_id (guest_identity demo_kernel (demo_unshare ''--map-users'' ''--map-user''
        (mount_setup_namespace_args demo_mapping) (real_uid demo_account)) u) (real_uid demo_account) (subuid_start demo_mapping)
    \<and> keep_id (guest_identity demo_kernel (demo_unshare ''--map-groups'' ''--map-group''
        (mount_setup_namespace_args demo_mapping) (real_gid demo_account)) g) (real_gid demo_account) (subgid_start demo_mapping)"
proof (rule guest_identities [OF demo_discover _ demo_kernel_reads demo_unshare_maps demo_unshare_maps])
  show "map_nested_user_namespace 7 7 3 4 \<lparr>start_signal = True, uid_write = True, gid_write = True, done_write = True\<rparr>
      Map.empty = (Inr (), [''uid_map'' \<mapsto> NESTED_MAP, ''gid_map'' \<mapsto> NESTED_MAP])"
    by (simp add: map_nested_user_namespace_def write_map_def)
qed

end
