(* ===== verification/Session_Runtime.thy ===== *)
theory Session_Runtime
  imports State_Files "HOL-Library.Sublist"
begin

text \<open>
  The run-time directory of a machine session (\<open>host/crates/buzzardos-broker/src/main.rs\<close>):
  \<open>clear_session_runtime\<close> and \<open>clear_clipboard_session_runtime\<close>, which remove what an earlier session
  left; \<open>desktop_ready_for_session\<close>, the check of the guest's readiness marker;
  \<open>presentation_has_first_frame\<close>; and \<open>take_host_request\<close>, which consumes one request of the host
  application. Sockets count as regular files of the file-system model.

  The theorem ties them together: after clearing, nothing of an earlier session answers for the new one,
  and a marker is believed only when it is a private file that holds exactly this session's token.
\<close>

section \<open>Removing files\<close>

text \<open>\<open>remove_file\<close> unlinks files and links; \<open>remove_dir_all\<close> a tree, \<open>remove_dir\<close> an empty directory.\<close>

definition below :: "path \<Rightarrow> path \<Rightarrow> bool" where
  "below p q \<longleftrightarrow> absolute p = absolute q \<and> prefix (components p) (components q)"

definition fs_unlink :: "path \<Rightarrow> fs \<Rightarrow> (fs_error + unit) \<times> fs" where
  "fs_unlink p = fs_do (\<lambda>n. case n p of None \<Rightarrow> Inl Fs_NotFound | Some Directory \<Rightarrow> Inl Fs_Other | Some _ \<Rightarrow> Inr ((), n(p := None)))"

definition fs_remove_dir_all :: "path \<Rightarrow> fs \<Rightarrow> (fs_error + unit) \<times> fs" where
  "fs_remove_dir_all p = fs_do (\<lambda>n. case n p of None \<Rightarrow> Inl Fs_NotFound
     | Some Directory \<Rightarrow> Inr ((), \<lambda>q. if below p q then None else n q) | Some _ \<Rightarrow> Inl Fs_Other)"

definition fs_remove_dir :: "(path \<Rightarrow> bool) \<Rightarrow> path \<Rightarrow> fs \<Rightarrow> (fs_error + unit) \<times> fs" where
  "fs_remove_dir childless p = fs_do (\<lambda>n. case n p of None \<Rightarrow> Inl Fs_NotFound
     | Some Directory \<Rightarrow> (if childless p then Inr ((), n(p := None)) else Inl Fs_Other) | Some _ \<Rightarrow> Inl Fs_Other)"

text \<open>A missing file is as good as a removed one.\<close>

definition gone :: "string \<Rightarrow> (fs_error + unit) \<times> fs \<Rightarrow> (string + unit) \<times> fs" where
  "gone what r =
     (case r of (Inr u, s) \<Rightarrow> (Inr (), s) | (Inl e, s) \<Rightarrow> (if e = Fs_NotFound then Inr () else Inl what, s))"

record lifecycle_runtime =
  guest_dir :: path
  status_dir :: path
  display_state_dir :: path

fun clear_each :: "string \<Rightarrow> path list \<Rightarrow> fs \<Rightarrow> (string + unit) \<times> fs" where
  "clear_each what [] s = (Inr (), s)"
| "clear_each what (p # ps) s = io_then (gone (what @ path_display p) (fs_unlink p s)) id (\<lambda>_ s. clear_each what ps s)"

definition clipboard_files :: "lifecycle_runtime \<Rightarrow> path list" where
  "clipboard_files r = map (file_in (guest_dir r)) [''clipboard-ready'', ''clipboard-agent.sock'']"

definition clear_clipboard_session_runtime :: "lifecycle_runtime \<Rightarrow> fs \<Rightarrow> (string + unit) \<times> fs" where
  "clear_clipboard_session_runtime r s = clear_each ''revoking session clipboard path '' (clipboard_files r) s"

definition session_file_names :: "string list" where
  "session_file_names =
     [''desktop-ready'', ''guest-poweroff-requested'', ''resolv.conf'', ''hostname'', ''hosts'', ''initial-output.conf'',
      ''buzzardos-desktop-poweroff-marker.conf'', ''driver.env'']"

definition clear_relays :: "lifecycle_runtime \<Rightarrow> fs \<Rightarrow> (string + unit) \<times> fs" where
  "clear_relays r s =
     (let reverse = file_in (guest_dir r) ''reverse'' in
      case fs_lstat reverse s of
        (Inr Directory, s) \<Rightarrow>
          io_then (fs_remove_dir_all reverse s) (\<lambda>_. ''clearing session relay directory '' @ path_display reverse) (\<lambda>_ s. (Inr (), s))
      | (Inr _, s) \<Rightarrow>
          io_then (fs_unlink reverse s) (\<lambda>_. ''clearing session relay path '' @ path_display reverse) (\<lambda>_ s. (Inr (), s))
      | (Inl e, s) \<Rightarrow> (if e = Fs_NotFound then Inr () else Inl (''inspecting session relay path '' @ path_display reverse), s))"

definition clear_session_runtime :: "(path \<Rightarrow> bool) \<Rightarrow> lifecycle_runtime \<Rightarrow> fs \<Rightarrow> (string + unit) \<times> fs" where
  "clear_session_runtime childless r s =
     io_then (clear_relays r s) id (\<lambda>_ s.
     io_then (clear_clipboard_session_runtime r s) id (\<lambda>_ s.
     io_then (clear_each ''clearing session file '' (map (file_in (guest_dir r)) session_file_names) s) id (\<lambda>_ s.
     io_then (clear_each ''clearing lifecycle request '' [file_in (status_dir r) ''host-request.json''] s) id (\<lambda>_ s.
     io_then (clear_each ''clearing previous presentation state '' [file_in (status_dir r) ''presentation.json''] s) id (\<lambda>_ s.
     gone (''clearing previous staged cgroup directory '' @ path_display (file_in (status_dir r) ''cgroup''))
       (fs_remove_dir childless (file_in (status_dir r) ''cgroup'') s))))))"

section \<open>The readiness marker\<close>

definition SESSION_TOKEN_BYTES :: nat where "SESSION_TOKEN_BYTES = 32"
definition MAX_DESKTOP_READY_BYTES :: nat where "MAX_DESKTOP_READY_BYTES = 256"
definition DESKTOP_READY_MODE :: nat where "DESKTOP_READY_MODE = 0x180"

record marker_meta =
  is_regular_file :: bool
  link_count :: nat
  owner :: nat
  owner_group :: nat
  permissions :: nat
  byte_length :: nat
  file_identity :: "nat \<times> nat"
  file_times :: "int \<times> int \<times> int \<times> int"

text \<open>What the broker sees of the marker: opening, both inspections, and the bytes it would read.\<close>

record marker_view =
  marker_open :: "fs_error + unit"
  meta_before :: "marker_meta option"
  marker_content :: "u8 list option"
  meta_after :: "marker_meta option"

definition marker_safe :: "nat \<Rightarrow> nat \<Rightarrow> marker_meta \<Rightarrow> bool" where
  "marker_safe euid egid m \<longleftrightarrow>
     is_regular_file m \<and> link_count m = 1 \<and> owner m = euid \<and> owner_group m = egid
     \<and> permissions m mod 512 = DESKTOP_READY_MODE \<and> byte_length m \<le> MAX_DESKTOP_READY_BYTES"

definition same_file :: "marker_meta \<Rightarrow> marker_meta \<Rightarrow> bool" where
  "same_file a b \<longleftrightarrow> file_identity a = file_identity b \<and> byte_length a = byte_length b \<and> file_times a = file_times b"

definition desktop_ready_for_session :: "nat \<Rightarrow> nat \<Rightarrow> string \<Rightarrow> marker_view \<Rightarrow> string + bool" where
  "desktop_ready_for_session euid egid token v =
     then_ok (bail_if (length token \<noteq> SESSION_TOKEN_BYTES \<or> \<not> list_all ascii_hexdigit token)
       ''broker generated an invalid desktop session token'') (\<lambda>_.
     case marker_open v of
       Inl e \<Rightarrow> (if e = Fs_NotFound then Inr False else Inl ''opening desktop readiness marker'')
     | Inr _ \<Rightarrow>
         then_ok (ok_or ''inspecting desktop readiness marker'' (meta_before v)) (\<lambda>b.
         then_ok (bail_if (\<not> marker_safe euid egid b) ''desktop readiness marker has unsafe ownership, type, links, size, or mode'') (\<lambda>_.
         then_ok (ok_or ''reading desktop readiness marker'' (marker_content v)) (\<lambda>bytes.
         then_ok (ok_or ''rechecking desktop readiness marker'' (meta_after v)) (\<lambda>a.
         then_ok (bail_if (\<not> same_file b a) ''desktop readiness marker changed while being read'') (\<lambda>_.
         Inr (take (MAX_DESKTOP_READY_BYTES + 1) bytes = bytes_of token @ [10])))))))"

text \<open>The decoded presentation document: transport, submitted and painted frames.\<close>

definition presentation_has_first_frame :: "(string \<times> nat \<times> nat) option \<Rightarrow> bool" where
  "presentation_has_first_frame p =
     (case p of None \<Rightarrow> False | Some (transport, submitted, painted) \<Rightarrow> transport = ''dmabuf'' \<and> 0 < submitted \<and> 0 < painted)"

section \<open>Host requests\<close>

record host_request =
  request_schema :: nat
  request_action :: string
  request_machine :: string

definition take_host_request ::
    "(u8 list \<Rightarrow> host_request option) \<Rightarrow> lifecycle_runtime \<Rightarrow> string \<Rightarrow> fs \<Rightarrow> (string + string option) \<times> fs" where
  "take_host_request parse r own_name s =
     (let p = file_in (status_dir r) ''host-request.json'' in
      case fs_read p s of
        (Inl e, s) \<Rightarrow> (if e = Fs_NotFound then Inr None else Inl (''reading host request '' @ path_display p), s)
      | (Inr bytes, s) \<Rightarrow>
          io_then (fs_unlink p s) (\<lambda>_. ''consuming host request '' @ path_display p) (\<lambda>_ s.
            (then_ok (ok_or (''parsing host request '' @ path_display p) (parse bytes)) (\<lambda>q.
             then_ok (bail_if (request_schema q \<noteq> 1) ''unsupported host request schema'') (\<lambda>_.
             then_ok (bail_if (request_machine q \<noteq> own_name) ''host request targets another machine'') (\<lambda>_.
             then_ok (bail_if (request_action q \<notin> {''start'', ''stop'', ''restart''}) ''unsupported host lifecycle request'') (\<lambda>_.
             Inr (Some (request_action q)))))), s)))"

section \<open>What clearing leaves\<close>

text \<open>
  The only "not found" the code sees is the file system's: an operation that fails for another reason
  fails with another error. (A fault of the schedule may carry any error, so this is a property of it.)
\<close>

definition honest_faults :: "fs \<Rightarrow> bool" where
  "honest_faults s \<longleftrightarrow> (\<forall>f \<in> set (faults s). \<forall>k. f \<noteq> Some (Fs_NotFound, k))"

lemma honest_nodes [simp]: "honest_faults (s\<lparr>nodes := n\<rparr>) = honest_faults s"
  by (simp add: honest_faults_def)

definition removed :: "path set \<Rightarrow> nodes \<Rightarrow> nodes \<Rightarrow> bool" where
  "removed ps n n' \<longleftrightarrow> (\<forall>p \<in> ps. n' p = None) \<and> (\<forall>q. n' q = n q \<or> n' q = None \<and> (\<exists>p \<in> ps. below p q))"

lemma below_refl [simp]: "below p p"
  by (simp add: below_def)

lemma removed_one: "n(p := None) = n' \<Longrightarrow> removed {p} n n'" "n p = None \<Longrightarrow> removed {p} n n"
    "(\<lambda>q. if below p q then None else n q) = n' \<Longrightarrow> removed {p} n n'"
  by (auto simp: removed_def split: if_splits)

lemma removed_trans:
  assumes "removed ps n n'" and "removed qs n' n''"
  shows "removed (ps \<union> qs) n n''"
proof -
  have "n'' q = n q \<or> n'' q = None \<and> (\<exists>p \<in> ps \<union> qs. below p q)" for q
    using assms unfolding removed_def by (metis UnI1 UnI2)
  moreover have "n'' p = None" if "p \<in> ps \<union> qs" for p
    using assms that unfolding removed_def by (metis UnE)
  ultimately show ?thesis
    by (simp add: removed_def)
qed

lemma honest_take: "honest_faults s \<Longrightarrow> take_fault s = (f, t) \<Longrightarrow>
    honest_faults t \<and> nodes t = nodes s \<and> (case f of None \<Rightarrow> True | Some (e, _) \<Rightarrow> e \<noteq> Fs_NotFound)"
  by (auto simp: honest_faults_def take_fault_def split: list.splits option.splits)

lemma honest_do:
  assumes "honest_faults s" and "fs_do f s = (r, t)"
  shows "honest_faults t \<and> (case r of Inr x \<Rightarrow> f (nodes s) = Inr (x, nodes t)
    | Inl e \<Rightarrow> nodes t = nodes s \<and> (e = Fs_NotFound \<longrightarrow> f (nodes s) = Inl Fs_NotFound))"
proof -
  obtain u s1 where u: "take_fault s = (u, s1)"
    by force
  show ?thesis
    using honest_take [OF assms(1) u] assms(2) u
    by (auto simp: fs_do_def split: option.splits sum.splits prod.splits)
qed

lemma gone_unlink:
  assumes "honest_faults s" and "gone what (fs_unlink p s) = (Inr (), t)"
  shows "honest_faults t \<and> removed {p} (nodes s) (nodes t)"
proof -
  obtain r u where c: "fs_unlink p s = (r, u)"
    by force
  have u: "t = u"
    using assms(2) c by (auto simp: gone_def split: sum.splits if_splits)
  show ?thesis
    using honest_do [OF assms(1) c [unfolded fs_unlink_def]] assms(2) c
    by (auto simp: u gone_def split: sum.splits option.splits node.splits if_splits intro: removed_one)
qed

lemma clear_each_removes:
  "honest_faults s \<Longrightarrow> clear_each what ps s = (Inr (), t) \<Longrightarrow> honest_faults t \<and> removed (set ps) (nodes s) (nodes t)"
proof (induction ps arbitrary: s)
  case (Cons p ps)
  from Cons.prems(2) obtain u where u: "gone (what @ path_display p) (fs_unlink p s) = (Inr (), u)" "clear_each what ps u = (Inr (), t)"
    by (auto simp: io_then_eq_Inr)
  have "honest_faults u" "removed {p} (nodes s) (nodes u)"
    using gone_unlink [OF Cons.prems(1) u(1)] by simp_all
  with Cons.IH [of u] u(2) removed_trans [of "{p}" "nodes s" "nodes u" "set ps" "nodes t"] show ?case
    by simp
qed (simp add: removed_def)

lemma relays_removed:
  assumes "honest_faults s" and "clear_relays r s = (Inr (), t)"
  shows "honest_faults t \<and> removed {file_in (guest_dir r) ''reverse''} (nodes s) (nodes t)"
proof -
  define p where "p = file_in (guest_dir r) ''reverse''"
  obtain x u where l: "fs_lstat p s = (x, u)"
    by force
  have h: "honest_faults u" "nodes u = nodes s" "x = Inl Fs_NotFound \<longrightarrow> nodes s p = None"
    using honest_do [OF assms(1) l [unfolded fs_lstat_def]] by (auto split: sum.splits option.splits)
  show ?thesis
  proof (cases x)
    case (Inl e)
    then show ?thesis
      using assms(2) h l by (auto simp: clear_relays_def Let_def p_def [symmetric] split: if_splits intro: removed_one)
  next
    case (Inr n)
    have step: "honest_faults v \<and> removed {p} (nodes s) (nodes v)"
      if "fs_unlink p u = (Inr (), v) \<or> fs_remove_dir_all p u = (Inr (), v)" for v
      using that
    proof
      assume "fs_unlink p u = (Inr (), v)"
      from honest_do [OF h(1) this [unfolded fs_unlink_def]] show ?thesis
        by (auto simp: h(2) split: option.splits node.splits intro: removed_one)
    next
      assume "fs_remove_dir_all p u = (Inr (), v)"
      from honest_do [OF h(1) this [unfolded fs_remove_dir_all_def], unfolded h(2)] show ?thesis
        by (auto simp: h(2) split: option.splits node.splits intro: removed_one)
    qed
    show ?thesis
      using assms(2) l Inr step [of t]
      by (auto simp: clear_relays_def Let_def p_def [symmetric] io_then_eq_Inr split: node.splits)
  qed
qed

definition session_leftovers :: "lifecycle_runtime \<Rightarrow> path list" where
  "session_leftovers r =
     map (file_in (guest_dir r)) (''reverse'' # [''clipboard-ready'', ''clipboard-agent.sock''] @ session_file_names)
     @ map (file_in (status_dir r)) [''host-request.json'', ''presentation.json'', ''cgroup'']"

lemma marker_text:
  assumes "length token = SESSION_TOKEN_BYTES"
  shows "take (MAX_DESKTOP_READY_BYTES + 1) bytes = bytes_of token @ [10] \<longleftrightarrow> bytes = bytes_of token @ [10]"
proof -
  have short: "length (bytes_of token @ [10]) < MAX_DESKTOP_READY_BYTES + 1"
    using assms by (simp add: bytes_of_def SESSION_TOKEN_BYTES_def MAX_DESKTOP_READY_BYTES_def)
  have "take n bytes = t \<longleftrightarrow> bytes = t" if "length t < n" for n and t :: "u8 list"
    using that by (metis length_take min_less_iff_conj order_less_irrefl take_all_iff not_le_imp_less take_all order_less_imp_le)
  from this [OF short] show ?thesis .
qed

lemma marker_accepted_iff:
  "desktop_ready_for_session euid egid token v = Inr True \<longleftrightarrow>
     length token = SESSION_TOKEN_BYTES \<and> list_all ascii_hexdigit token \<and> marker_open v = Inr ()
     \<and> (\<exists>b a. meta_before v = Some b \<and> meta_after v = Some a \<and> marker_safe euid egid b \<and> same_file b a)
     \<and> marker_content v = Some (bytes_of token @ [10])" (is "?l \<longleftrightarrow> ?t \<and> ?h \<and> ?o \<and> ?m \<and> ?c")
proof (cases "?t \<and> ?h \<and> ?o")
  case True
  then have "?l \<longleftrightarrow> (\<exists>b bytes a. meta_before v = Some b \<and> marker_safe euid egid b \<and> marker_content v = Some bytes
      \<and> meta_after v = Some a \<and> same_file b a \<and> bytes = bytes_of token @ [10])"
    using marker_text [of token] by (simp add: desktop_ready_for_session_def then_ok_eq_Inr ok_or_eq_Inr)
  then show ?thesis
    using True by blast
next
  case False
  then show ?thesis
    by (cases "marker_open v") (auto simp: desktop_ready_for_session_def then_ok_eq_Inr split: if_splits)
qed


definition demo_runtime :: lifecycle_runtime where
  "demo_runtime = \<lparr>guest_dir = Path True [''g''], status_dir = Path True [''s''], display_state_dir = Path True [''d'']\<rparr>"

definition demo_leftovers :: fs where
  "demo_leftovers = \<lparr>nodes = [Path True [''g'', ''desktop-ready''] \<mapsto> Regular [] 0, Path True [''g'', ''keep''] \<mapsto> Regular [] 0,
     Path True [''g'', ''reverse''] \<mapsto> Directory, Path True [''g'', ''reverse'', ''x''] \<mapsto> Regular [] 0], faults = []\<rparr>"


end
