(* ===== verification/Machine_Lifecycle.thy ===== *)
theory Machine_Lifecycle
  imports Session_Runtime Machine_Registry
begin

text \<open>
  The supervision of a machine (\<open>host/crates/buzzardos-broker/src/main.rs\<close>): \<open>wait_for_desktop\<close>, the part of
  \<open>launch_container\<close> from the started container to its end, and the loop of \<open>run_machine\<close> around it. The
  run-time state on disk is shared with the launcher, which may write it at any time: every load and save of
  the broker first takes an entry of the schedule, which lets it go through, fail, or go through after
  another process has written. What a turn of a loop sees of the world (processes, marker, requests, clock) is
  an observation; a stream of observations drives a loop. Integration settings and diagnostics are opaque.
\<close>

section \<open>The run-time state\<close>

record run_state =
  phase :: machine_state
  launcher_pid :: "nat option"
  container_pid :: "nat option"
  detail :: "string option"
  display_diag :: "string option"
  integration_diag :: "string option"

definition run_state_new :: "nat \<Rightarrow> machine_state \<Rightarrow> run_state" where
  "run_state_new pid m =
     \<lparr>phase = m, launcher_pid = Some pid, container_pid = None, detail = None, display_diag = None, integration_diag = None\<rparr>"

datatype io_entry = Goes | Fails | Goes_After run_state

datatype effect = Poweroff | Terminate_Container | Terminate_Network | Kill_Cgroup

record broker =
  own_pid :: nat
  disk :: "run_state option"
  entries :: "io_entry list"
  saves :: "run_state list"
  effects :: "effect list"
  reaped :: bool

definition take_entry :: "broker \<Rightarrow> bool \<times> broker" where
  "take_entry b =
     (case entries b of
        [] \<Rightarrow> (True, b)
      | Goes # r \<Rightarrow> (True, b\<lparr>entries := r\<rparr>)
      | Fails # r \<Rightarrow> (False, b\<lparr>entries := r\<rparr>)
      | Goes_After x # r \<Rightarrow> (True, b\<lparr>entries := r, disk := Some x\<rparr>))"

definition load_state :: "broker \<Rightarrow> (string + run_state option) \<times> broker" where
  "load_state b = (let (ok, b) = take_entry b in (if ok then Inr (disk b) else Inl ''loading runtime state'', b))"

text \<open>
  \<open>reaped\<close>: the container's process was waited for, by an observed exit or by \<open>terminate\<close>.

  Saving replaces the whole file; \<open>saves\<close> records what this broker wrote.\<close>

definition save_state :: "run_state \<Rightarrow> broker \<Rightarrow> (string + unit) \<times> broker" where
  "save_state r b =
     (let (ok, b) = take_entry b in
      if ok then (Inr (), b\<lparr>disk := Some r, saves := saves b @ [r]\<rparr>) else (Inl ''saving runtime state'', b))"

definition do_effect :: "effect \<Rightarrow> broker \<Rightarrow> broker" where
  "do_effect e b = b\<lparr>effects := effects b @ [e], reaped := (reaped b \<or> e = Terminate_Container)\<rparr>"

text \<open>\<open>kill(SIGRTMIN + 3)\<close>: a process that is already gone (\<open>ESRCH\<close>) is no failure.\<close>

definition ESRCH :: nat where "ESRCH = 3"

definition power_off :: "string \<Rightarrow> nat option \<Rightarrow> broker \<Rightarrow> (string + unit) \<times> broker" where
  "power_off what errno b =
     (if errno = None \<or> errno = Some ESRCH then (Inr (), do_effect Poweroff b) else (Inl what, do_effect Poweroff b))"

datatype exit_status = Exit nat | Killed nat

definition exit_success :: "exit_status \<Rightarrow> bool" where
  "exit_success e \<longleftrightarrow> e = Exit 0"

text \<open>Rust appends the name of the signal, which is left out.\<close>

definition status_text :: "exit_status \<Rightarrow> string" where
  "status_text st = (case st of Exit n \<Rightarrow> ''exit status: '' @ show_dec n | Killed n \<Rightarrow> ''signal: '' @ show_dec n)"

definition is_stopping :: "run_state option \<Rightarrow> bool" where
  "is_stopping r \<longleftrightarrow> (case r of None \<Rightarrow> False | Some x \<Rightarrow> phase x = Stopping)"

definition save_diagnostics_preserving_stop :: "run_state \<Rightarrow> broker \<Rightarrow> (string + run_state) \<times> broker" where
  "save_diagnostics_preserving_stop r b =
     io_then (load_state b) id (\<lambda>latest b.
       let r' = (case latest of Some l \<Rightarrow> if phase l = Stopping then r\<lparr>phase := Stopping, detail := detail l\<rparr> else r | None \<Rightarrow> r)
       in io_then (save_state r' b) id (\<lambda>_ b. (Inr r', b)))"

section \<open>Waiting for the desktop\<close>

datatype wait_error = Desktop_Deadline nat | Frame_Deadline nat | Wait_Error string

datatype desktop_wait = Ready | Exited exit_status bool

record wait_obs =
  seen_marker :: marker_view
  seen_frame :: "(string \<times> nat \<times> nat) option"
  seen_request :: "string + string option"
  seen_errno :: "nat option"
  seen_exit :: "string + exit_status option"
  seen_clock :: nat

definition cancel_startup :: "wait_obs \<Rightarrow> broker \<Rightarrow> (string + bool option) \<times> broker" where
  "cancel_startup o' b =
     (case seen_request o' of
        Inl e \<Rightarrow> (Inl e, b)
      | Inr None \<Rightarrow> (Inr None, b)
      | Inr (Some action) \<Rightarrow>
          if action = ''start'' then (Inr None, b)
          else if action = ''stop'' \<or> action = ''restart'' then
            let restart = (action = ''restart'') in
            io_then (load_state b) id (\<lambda>latest b.
              let r = (case latest of None \<Rightarrow> run_state_new (own_pid b) Stopping | Some r \<Rightarrow> r);
                  r' = r\<lparr>phase := Stopping, detail := Some (if restart
                    then ''host application cancelled startup for an orderly restart'' else ''host application cancelled startup'')\<rparr>
              in io_then (save_state r' b) id (\<lambda>_ b.
                 io_then (power_off ''cancelling desktop startup'' (seen_errno o') b) id (\<lambda>_ b. (Inr (Some restart), b))))
          else (Inl ''unreachable: validated host request'', b))"

type_synonym wait_result = "(wait_error + desktop_wait) \<times> broker"

text \<open>One turn: finished, or the restart request so far and the next turn.\<close>

definition exit_turn :: "exit_status \<Rightarrow> bool option \<Rightarrow> broker \<Rightarrow> wait_result" where
  "exit_turn st asked b =
     (case asked of
        Some restart \<Rightarrow> (Inr (Exited st restart), b)
      | None \<Rightarrow> io_then (load_state b) Wait_Error (\<lambda>latest b.
          (if is_stopping latest then Inr (Exited st False)
           else Inl (Wait_Error (''container exited with '' @ status_text st @ '' before the desktop compositor became ready'')), b)))"

definition wait_turn ::
    "nat \<Rightarrow> nat \<Rightarrow> string \<Rightarrow> nat \<Rightarrow> nat \<Rightarrow> wait_obs \<Rightarrow> bool option \<Rightarrow> broker \<Rightarrow> wait_result + (bool option \<times> broker)" where
  "wait_turn euid egid token deadline seconds o' asked b =
     (case desktop_ready_for_session euid egid token (seen_marker o') of
        Inl e \<Rightarrow> Inl (Inl (Wait_Error e), b)
      | Inr ready \<Rightarrow>
          if ready \<and> presentation_has_first_frame (seen_frame o') then Inl (Inr Ready, b)
          else case (if asked = None then cancel_startup o' b else (Inr asked, b)) of
            (Inl e, b) \<Rightarrow> Inl (Inl (Wait_Error e), b)
          | (Inr asked, b) \<Rightarrow>
              case seen_exit o' of
                Inl e \<Rightarrow> Inl (Inl (Wait_Error e), b)
              | Inr (Some st) \<Rightarrow> Inl (exit_turn st asked (b\<lparr>reaped := True\<rparr>))
              | Inr None \<Rightarrow>
                  if deadline \<le> seen_clock o' then
                    Inl (Inl (if ready then Frame_Deadline seconds else Desktop_Deadline seconds), do_effect Terminate_Container b)
                  else Inr (asked, b))"

partial_function (option) wait_loop ::
    "nat \<Rightarrow> nat \<Rightarrow> string \<Rightarrow> nat \<Rightarrow> nat \<Rightarrow> (nat \<Rightarrow> wait_obs) \<Rightarrow> nat \<Rightarrow> bool option \<Rightarrow> broker \<Rightarrow> wait_result option" where
  "wait_loop euid egid token deadline seconds obs n asked b =
     (case wait_turn euid egid token deadline seconds (obs n) asked b of
        Inl r \<Rightarrow> Some r
      | Inr (asked, b) \<Rightarrow> wait_loop euid egid token deadline seconds obs (Suc n) asked b)"

declare wait_loop.simps [code]

text \<open>Times in milliseconds; a whole turn sleeps for 100 of them.\<close>

definition wait_for_desktop ::
    "nat \<Rightarrow> nat \<Rightarrow> string \<Rightarrow> nat \<Rightarrow> nat \<Rightarrow> (nat \<Rightarrow> wait_obs) \<Rightarrow> broker \<Rightarrow> wait_result option" where
  "wait_for_desktop euid egid token now timeout obs b =
     wait_loop euid egid token (now + timeout) (timeout div 1000) obs 0 None b"

section \<open>The wait returns\<close>

definition asked_from :: "(nat \<Rightarrow> wait_obs) \<Rightarrow> nat \<Rightarrow> bool option \<Rightarrow> bool" where
  "asked_from obs n asked \<longleftrightarrow>
     (case asked of None \<Rightarrow> True
      | Some restart \<Rightarrow> \<exists>k < n. seen_request (obs k) = Inr (Some (if restart then ''restart'' else ''stop'')))"

text \<open>What a verdict at turn \<open>m\<close> rests on.\<close>

definition wait_verdict :: "nat \<Rightarrow> nat \<Rightarrow> string \<Rightarrow> nat \<Rightarrow> (nat \<Rightarrow> wait_obs) \<Rightarrow> nat \<Rightarrow> wait_result \<Rightarrow> bool" where
  "wait_verdict euid egid token deadline obs m r \<longleftrightarrow>
     (case fst r of
        Inr Ready \<Rightarrow> desktop_ready_for_session euid egid token (seen_marker (obs m)) = Inr True
          \<and> presentation_has_first_frame (seen_frame (obs m))
      | Inr (Exited st restart) \<Rightarrow> seen_exit (obs m) = Inr (Some st)
          \<and> (restart \<longrightarrow> (\<exists>k \<le> m. seen_request (obs k) = Inr (Some ''restart'')))
      | Inl (Wait_Error _) \<Rightarrow> True
      | Inl _ \<Rightarrow> deadline \<le> seen_clock (obs m) \<and> Terminate_Container \<in> set (effects (snd r)))"

lemma cancel_asked:
  assumes "cancel_startup (obs n) b = (Inr asked, b')"
  shows "asked_from obs (Suc n) asked"
  using assms
  by (auto simp: cancel_startup_def asked_from_def Let_def io_then_eq_Inr split: sum.splits option.splits if_splits)

lemma asked_Suc: "asked_from obs n asked \<Longrightarrow> asked_from obs (Suc n) asked"
  unfolding asked_from_def by (auto split: option.splits) (meson less_SucI)+

lemma wait_turn_cases:
  assumes "asked_from obs n asked"
  shows "case wait_turn euid egid token deadline seconds (obs n) asked b of
      Inl r \<Rightarrow> wait_verdict euid egid token deadline obs n r
    | Inr (asked', b') \<Rightarrow> asked_from obs (Suc n) asked' \<and> seen_clock (obs n) < deadline"
proof -
  obtain c b1 where c: "(if asked = None then cancel_startup (obs n) b else (Inr asked, b)) = (c, b1)"
    by force
  have c_ok: "asked_from obs (Suc n) a" if "c = Inr a" for a
    using c that assms by (auto split: if_splits intro: cancel_asked asked_Suc)
  have exit: "wait_verdict euid egid token deadline obs n (exit_turn st a (b1\<lparr>reaped := True\<rparr>))"
    if "c = Inr a" "seen_exit (obs n) = Inr (Some st)" for a st
  proof (cases a)
    case (Some restart)
    then show ?thesis
      using c_ok [OF that(1)] that(2) by (auto simp: exit_turn_def wait_verdict_def asked_from_def less_Suc_eq_le)
  next
    case None
    obtain l b2 where "load_state (b1\<lparr>reaped := True\<rparr>) = (l, b2)"
      by force
    then show ?thesis
      using None that(2) by (cases l) (auto simp: exit_turn_def wait_verdict_def)
  qed
  note turn = wait_turn_def [of euid egid token deadline seconds "obs n" asked b, unfolded c]
  show ?thesis
    unfolding turn using c_ok exit
    by (cases "desktop_ready_for_session euid egid token (seen_marker (obs n))"; cases c; cases "seen_exit (obs n)")
      (auto simp: wait_verdict_def do_effect_def split: option.splits)
qed

lemma wait_loop_ends:
  assumes "asked_from obs n asked" and "deadline \<le> seen_clock (obs (n + d))"
  shows "\<exists>r m. wait_loop euid egid token deadline seconds obs n asked b = Some r \<and> m \<le> n + d
    \<and> wait_verdict euid egid token deadline obs m r"
  using assms
proof (induction d arbitrary: n asked b)
  case 0
  then show ?case
    using wait_turn_cases [OF 0(1), of euid egid token deadline seconds b]
    by (subst wait_loop.simps) (auto split: sum.splits)
next
  case (Suc d)
  note turn = wait_turn_cases [OF Suc(2), of euid egid token deadline seconds b]
  show ?case
  proof (cases "wait_turn euid egid token deadline seconds (obs n) asked b")
    case (Inl r)
    then show ?thesis
      using turn by (subst wait_loop.simps) (auto intro: exI [where x = n])
  next
    case (Inr p)
    obtain asked' b' where p: "p = (asked', b')"
      by (rule prod.exhaust)
    have "asked_from obs (Suc n) asked'" "deadline \<le> seen_clock (obs (Suc n + d))"
      using turn Inr p Suc(3) by auto
    from Suc.IH [OF this, of b'] show ?thesis
      using Inr p by (subst wait_loop.simps) auto
  qed
qed

text \<open>
  C26. Starting a machine never hangs: when every turn takes its 100 milliseconds, the wait ends within
  the turns its timeout allows (900 for the 90 seconds the broker gives), whatever happens meanwhile. It
  reports the desktop as ready only for a marker of this very session and a painted frame, an exit only
  with the status seen, a restart only if one was asked for, and at the deadline it has terminated the
  container.
\<close>

theorem wait_returns:
  assumes "\<And>n. seen_clock (obs n) + 100 \<le> seen_clock (obs (Suc n))" and "now \<le> seen_clock (obs 0)"
  shows "\<exists>r m. wait_for_desktop euid egid token now timeout obs b = Some r \<and> m \<le> (timeout + 99) div 100
    \<and> wait_verdict euid egid token (now + timeout) obs m r"
proof -
  have "now + 100 * n \<le> seen_clock (obs n)" for n
  proof (induction n)
    case (Suc n)
    then show ?case
      using assms(1) [of n] by simp
  qed (use assms(2) in simp)
  from this [of "(timeout + 99) div 100"] have "now + timeout \<le> seen_clock (obs (0 + (timeout + 99) div 100))"
    by simp
  then show ?thesis
    using wait_loop_ends [where n = 0 and asked = None and obs = obs and deadline = "now + timeout"
        and d = "(timeout + 99) div 100" and euid = euid and egid = egid and token = token and seconds = "timeout div 1000" and b = b]
    by (simp add: wait_for_desktop_def asked_from_def)
qed

definition idle_obs :: "nat \<Rightarrow> wait_obs" where
  "idle_obs n =
     \<lparr>seen_marker = \<lparr>marker_open = Inl Fs_NotFound, meta_before = None, marker_content = None, meta_after = None\<rparr>,
      seen_frame = None, seen_request = Inr None, seen_errno = None, seen_exit = Inr None, seen_clock = 100 * n\<rparr>"

definition idle_broker :: broker where
  "idle_broker = \<lparr>own_pid = 1, disk = None, entries = [], saves = [], effects = [], reaped = False\<rparr>"

theorem wait_returns_witness:
  "\<exists>r m. wait_for_desktop 1000 1000 (replicate 32 (CHR ''a'')) 0 300 idle_obs idle_broker = Some r \<and> m \<le> (300 + 99) div 100
    \<and> wait_verdict 1000 1000 (replicate 32 (CHR ''a'')) (0 + 300) idle_obs m r"
  by (rule wait_returns) (simp_all add: idle_obs_def)

section \<open>Supervising a running machine\<close>

text \<open>
  \<open>current\<close> is the broker's own copy of the run-time state; the other fields are the variables of the
  loop. One reading of the clock (milliseconds) serves a whole turn.
\<close>

record supervisor =
  core :: broker
  current :: run_state
  close_sent :: bool
  action_sent :: bool
  restart_asked :: bool
  display_gone :: bool
  grace :: "nat option"
  display_status :: "exit_status option"
  network_up :: bool
  settings :: integration_settings
  last_attempt :: nat
  last_refresh :: nat
  window_seen :: "u8 list option"
  presentation_seen :: "u8 list option"

record turn_obs =
  container_exit :: "string + exit_status option"
  poweroff_marker :: bool
  display_exit :: "string + exit_status option"
  close_at_exit :: bool
  clock :: nat
  network_exit :: "string + exit_status option"
  config_now :: "string + integration_settings"
  reconciled :: "integration_settings \<Rightarrow> string + string"
  diagnostics_of :: "integration_settings \<Rightarrow> string"
  host_action :: "string + string option"
  action_errno :: "nat option"
  window_bytes :: "u8 list option"
  presentation_bytes :: "u8 list option"
  fresh_display :: "string + string"
  signature :: "string \<Rightarrow> string"
  close_requested :: bool
  close_errno :: "nat option"

type_synonym turn = "((string + exit_status) \<times> supervisor) + supervisor"

text \<open>An operation on the broker that may end the loop with its error (\<open>?\<close> in the loop body).\<close>

definition or_leave :: "(broker \<Rightarrow> (string + 'a) \<times> broker) \<Rightarrow> supervisor \<Rightarrow> ('a \<Rightarrow> supervisor \<Rightarrow> turn) \<Rightarrow> turn" where
  "or_leave f s k =
     (case f (core s) of (Inl e, b) \<Rightarrow> Inl (Inl e, s\<lparr>core := b\<rparr>) | (Inr x, b) \<Rightarrow> k x (s\<lparr>core := b\<rparr>))"

definition enter_stopping :: "string \<Rightarrow> supervisor \<Rightarrow> supervisor" where
  "enter_stopping d s = s\<lparr>current := (current s)\<lparr>phase := Stopping, detail := Some d\<rparr>\<rparr>"

definition save_current :: "supervisor \<Rightarrow> (supervisor \<Rightarrow> turn) \<Rightarrow> turn" where
  "save_current s k = or_leave (save_state (current s)) s (\<lambda>_. k)"

definition save_preserving :: "supervisor \<Rightarrow> turn" where
  "save_preserving s = or_leave (save_diagnostics_preserving_stop (current s)) s (\<lambda>r s. Inr (s\<lparr>current := r\<rparr>))"

definition container_stage :: "turn_obs \<Rightarrow> supervisor \<Rightarrow> turn" where
  "container_stage o' s =
     (case container_exit o' of
        Inl e \<Rightarrow> Inl (Inl e, s)
      | Inr None \<Rightarrow> Inr s
      | Inr (Some st) \<Rightarrow>
          let s = s\<lparr>core := (core s)\<lparr>reaped := True\<rparr>\<rparr> in
          if grace s \<noteq> None \<or> poweroff_marker o' then
            save_current (enter_stopping (if poweroff_marker o' then ''guest requested an orderly systemd poweroff''
              else ''guest display stopped during orderly systemd poweroff'') s) (\<lambda>s. Inl (Inr st, s))
          else Inl (Inr st, s))"

definition display_stage :: "turn_obs \<Rightarrow> supervisor \<Rightarrow> turn" where
  "display_stage o' s =
     (if display_gone s then Inr s
      else case display_exit o' of
        Inl e \<Rightarrow> Inl (Inl e, s)
      | Inr None \<Rightarrow> Inr s
      | Inr (Some st) \<Rightarrow>
          or_leave load_state s (\<lambda>latest s.
            if close_at_exit o' \<or> is_stopping latest then Inr (s\<lparr>display_gone := True\<rparr>)
            else Inr (s\<lparr>display_gone := True, grace := Some (clock o' + 5000), display_status := Some st\<rparr>)))"

definition stop_network :: "supervisor \<Rightarrow> supervisor" where
  "stop_network s = (if network_up s then s\<lparr>core := do_effect Terminate_Network (core s), network_up := False\<rparr> else s)"

definition terminate_container :: "supervisor \<Rightarrow> supervisor" where
  "terminate_container s = s\<lparr>core := do_effect Terminate_Container (core s)\<rparr>"

definition grace_stage :: "turn_obs \<Rightarrow> supervisor \<Rightarrow> turn" where
  "grace_stage o' s =
     (if (case grace s of None \<Rightarrow> False | Some d \<Rightarrow> d \<le> clock o') then
        or_leave load_state s (\<lambda>latest s.
          if is_stopping latest then Inr s
          else let s = stop_network (terminate_container s) in
               case display_status s of
                 None \<Rightarrow> Inl (Inl ''missing exited display status'', s)
               | Some st \<Rightarrow> Inl (Inl (if exit_success st then ''display gateway exited while systemd remained running''
                                     else ''display gateway exited unexpectedly with '' @ status_text st), s))
      else Inr s)"

definition network_stage :: "turn_obs \<Rightarrow> supervisor \<Rightarrow> turn" where
  "network_stage o' s =
     (if network_up s then
        case network_exit o' of
          Inl e \<Rightarrow> Inl (Inl e, s)
        | Inr None \<Rightarrow> Inr s
        | Inr (Some st) \<Rightarrow> Inl (Inl (''user-mode network helper exited unexpectedly with '' @ status_text st), terminate_container s)
      else Inr s)"

definition integration_stage :: "turn_obs \<Rightarrow> supervisor \<Rightarrow> turn" where
  "integration_stage o' s =
     (case config_now o' of
        Inl e \<Rightarrow> Inr s
      | Inr latest \<Rightarrow>
          if last_attempt s + 1000 \<le> clock o' then
            let changed = (latest \<noteq> settings s); s = s\<lparr>last_attempt := clock o', settings := latest\<rparr> in
            case reconciled o' latest of
              Inr diag \<Rightarrow>
                if changed \<or> integration_diag (current s) \<noteq> Some diag then
                  save_preserving (s\<lparr>current := (current s)\<lparr>integration_diag := Some diag,
                    detail := Some ''systemd, desktop, and live integrations ready''\<rparr>\<rparr>)
                else Inr s
            | Inl e \<Rightarrow>
                save_preserving (s\<lparr>current := (current s)\<lparr>integration_diag := Some (diagnostics_of o' latest),
                  detail := Some (''live integration rejected: '' @ e)\<rparr>\<rparr>)
          else Inr s)"

definition request_stage :: "turn_obs \<Rightarrow> supervisor \<Rightarrow> turn" where
  "request_stage o' s =
     (if action_sent s then Inr s
      else case host_action o' of
        Inl e \<Rightarrow> Inl (Inl e, s)
      | Inr None \<Rightarrow> Inr s
      | Inr (Some action) \<Rightarrow>
          if action = ''start'' then Inr s
          else if action = ''stop'' \<or> action = ''restart'' then
            let s = enter_stopping (if action = ''restart'' then ''host application requested an orderly restart''
                      else ''host application requested an orderly shutdown'') (s\<lparr>restart_asked := (action = ''restart'')\<rparr>)
            in save_current s (\<lambda>s. or_leave (power_off ''requesting shutdown from native host application'' (action_errno o')) s
                 (\<lambda>_ s. Inr (s\<lparr>action_sent := True\<rparr>)))
          else Inl (Inl ''unreachable: validated host request'', s))"

definition diagnostics_stage :: "turn_obs \<Rightarrow> supervisor \<Rightarrow> turn" where
  "diagnostics_stage o' s =
     (if window_bytes o' \<noteq> window_seen s \<or> presentation_bytes o' \<noteq> presentation_seen s \<or> last_refresh s + 2000 \<le> clock o' then
        case fresh_display o' of
          Inl e \<Rightarrow> Inl (Inl e, s)
        | Inr diag \<Rightarrow>
            let changed = (case display_diag (current s) of None \<Rightarrow> True
                           | Some previous \<Rightarrow> signature o' previous \<noteq> signature o' diag);
                live = diagnostics_of o' (settings s)
            in then_ok (if changed \<or> integration_diag (current s) \<noteq> Some live
                 then save_preserving (s\<lparr>current := (current s)\<lparr>display_diag := Some diag, integration_diag := Some live\<rparr>\<rparr>)
                 else Inr s) (\<lambda>s.
               Inr (s\<lparr>window_seen := window_bytes o', presentation_seen := presentation_bytes o', last_refresh := clock o'\<rparr>))
      else Inr s)"

definition close_stage :: "turn_obs \<Rightarrow> supervisor \<Rightarrow> turn" where
  "close_stage o' s =
     (if close_sent s \<or> \<not> close_requested o' then Inr s
      else save_current (enter_stopping ''host window closed; orderly systemd shutdown requested'' s) (\<lambda>s.
           or_leave (power_off ''requesting shutdown after host window close'' (close_errno o')) s
             (\<lambda>_ s. Inr (s\<lparr>close_sent := True\<rparr>))))"

definition supervise_turn :: "turn_obs \<Rightarrow> supervisor \<Rightarrow> turn" where
  "supervise_turn o' s =
     then_ok (container_stage o' s) (\<lambda>s. then_ok (display_stage o' s) (\<lambda>s. then_ok (grace_stage o' s) (\<lambda>s.
     then_ok (network_stage o' s) (\<lambda>s. then_ok (integration_stage o' s) (\<lambda>s. then_ok (request_stage o' s) (\<lambda>s.
     then_ok (diagnostics_stage o' s) (close_stage o')))))))"

partial_function (option) supervise :: "(nat \<Rightarrow> turn_obs) \<Rightarrow> nat \<Rightarrow> supervisor \<Rightarrow> ((string + exit_status) \<times> supervisor) option" where
  "supervise obs n s =
     (case supervise_turn (obs n) s of Inl r \<Rightarrow> Some r | Inr s \<Rightarrow> supervise obs (Suc n) s)"

section \<open>A recorded stop is final\<close>

fun stop_final :: "machine_state list \<Rightarrow> bool" where
  "stop_final [] \<longleftrightarrow> True"
| "stop_final (p # ps) \<longleftrightarrow> (p = Stopping \<longrightarrow> list_all ((=) Stopping) ps) \<and> stop_final ps"

lemma stop_final_snoc: "stop_final (ps @ [q]) \<longleftrightarrow> stop_final ps \<and> (Stopping \<in> set ps \<longrightarrow> q = Stopping)"
  by (induction ps) auto

text \<open>What was written since \<open>k\<close> and the phase held in memory.\<close>

definition phases_since :: "nat \<Rightarrow> broker \<Rightarrow> machine_state list" where
  "phases_since k b = map phase (drop k (saves b))"

definition log_ok :: "nat \<Rightarrow> broker \<Rightarrow> machine_state \<Rightarrow> bool" where
  "log_ok k b m \<longleftrightarrow> k \<le> length (saves b) \<and> stop_final (phases_since k b) \<and> set (phases_since k b) \<subseteq> {Running, Stopping}
     \<and> m \<in> {Running, Stopping} \<and> (Stopping \<in> set (phases_since k b) \<longrightarrow> m = Stopping)"

definition poweroffs :: "broker \<Rightarrow> nat" where
  "poweroffs b = count_list (effects b) Poweroff"

definition sup_inv :: "nat \<Rightarrow> nat \<Rightarrow> supervisor \<Rightarrow> bool" where
  "sup_inv k c s \<longleftrightarrow> log_ok k (core s) (phase (current s))
     \<and> poweroffs (core s) = c + of_bool (close_sent s) + of_bool (action_sent s)"

definition sup_end :: "nat \<Rightarrow> nat \<Rightarrow> supervisor \<Rightarrow> bool" where
  "sup_end k c s \<longleftrightarrow> log_ok k (core s) (phase (current s)) \<and> poweroffs (core s) \<le> c + 2"

lemma log_ok_cong: "saves b' = saves b \<Longrightarrow> log_ok k b' m = log_ok k b m"
  by (simp add: log_ok_def phases_since_def)

lemma poweroffs_cong: "effects b' = effects b \<Longrightarrow> poweroffs b' = poweroffs b"
  by (simp add: poweroffs_def)

lemma log_ok_mono: "log_ok k b m \<Longrightarrow> m' = Stopping \<or> m' = m \<Longrightarrow> log_ok k b m'"
  by (auto simp: log_ok_def)

lemma log_ok_snoc:
  assumes "log_ok k b m" and "phase r = Stopping \<or> phase r = m" and "saves b' = saves b @ [r]"
  shows "log_ok k b' (phase r)"
proof -
  have "phases_since k b' = phases_since k b @ [phase r]" "k \<le> length (saves b')"
    using assms(1,3) by (simp_all add: phases_since_def log_ok_def)
  then show ?thesis
    using log_ok_mono [OF assms(1,2)] by (auto simp: log_ok_def stop_final_snoc)
qed

lemma take_entry_same:
  assumes "take_entry b = (ok, b')"
  shows "saves b' = saves b" and "effects b' = effects b" and "reaped b' = reaped b"
  using assms by (auto simp: take_entry_def split: list.splits io_entry.splits)

lemma save_outcome_state:
  assumes "save_state r b = (x, b')"
  shows "case x of Inr _ \<Rightarrow> saves b' = saves b @ [r] \<and> disk b' = Some r | Inl _ \<Rightarrow> saves b' = saves b"
    and "effects b' = effects b" and "reaped b' = reaped b"
proof -
  obtain ok b1 where t: "take_entry b = (ok, b1)"
    by force
  show "case x of Inr _ \<Rightarrow> saves b' = saves b @ [r] \<and> disk b' = Some r | Inl _ \<Rightarrow> saves b' = saves b"
    "effects b' = effects b" "reaped b' = reaped b"
    using assms t take_entry_same [OF t] by (auto simp: save_state_def split: if_splits)
qed

lemma log_ok_save:
  assumes "log_ok k b m" and "phase r = Stopping \<or> phase r = m" and "save_state r b = (x, b')"
  shows "log_ok k b' (phase r)" and "poweroffs b' = poweroffs b"
proof -
  note o = save_outcome_state [OF assms(3)]
  show "poweroffs b' = poweroffs b"
    by (rule poweroffs_cong) (rule o(2))
  show "log_ok k b' (phase r)"
  proof (cases x)
    case (Inl e)
    then have "saves b' = saves b"
      using o(1) by simp
    then have "log_ok k b' m"
      using assms(1) log_ok_cong [of b' b k m] by simp
    then show ?thesis
      using assms(2) by (rule log_ok_mono)
  next
    case (Inr u)
    then have "saves b' = saves b @ [r]"
      using o(1) by simp
    then show ?thesis
      by (rule log_ok_snoc [OF assms(1,2)])
  qed
qed

lemma load_same:
  assumes "load_state b = (x, b')"
  shows "log_ok k b' m = log_ok k b m" and "poweroffs b' = poweroffs b" and "reaped b' = reaped b"
proof -
  obtain ok b1 where t: "take_entry b = (ok, b1)"
    by force
  then have "b1 = b'"
    using assms by (simp add: load_state_def)
  note same = take_entry_same [OF t, unfolded this]
  show "log_ok k b' m = log_ok k b m"
    by (rule log_ok_cong [OF same(1)])
  show "poweroffs b' = poweroffs b"
    by (rule poweroffs_cong [OF same(2)])
  show "reaped b' = reaped b"
    by (rule same(3))
qed

lemma effect_same:
  "log_ok k (do_effect e b) m = log_ok k b m" "poweroffs (do_effect e b) = poweroffs b + of_bool (e = Poweroff)"
  by (auto simp: do_effect_def log_ok_def phases_since_def poweroffs_def)

text \<open>A turn, stage by stage.\<close>

definition turn_ok :: "nat \<Rightarrow> nat \<Rightarrow> turn \<Rightarrow> bool" where
  "turn_ok k c t \<longleftrightarrow> (case t of Inl (_, s) \<Rightarrow> sup_end k c s | Inr s \<Rightarrow> sup_inv k c s)"

lemma sup_inv_end: "sup_inv k c s \<Longrightarrow> sup_end k c s"
  by (auto simp: sup_inv_def sup_end_def)

lemma turn_ok_then: "turn_ok k c t \<Longrightarrow> (\<And>s. sup_inv k c s \<Longrightarrow> turn_ok k c (f s)) \<Longrightarrow> turn_ok k c (then_ok t f)"
  by (cases t) (auto simp: turn_ok_def)

lemma turn_ok_simps:
  "turn_ok k c (Inr s) = sup_inv k c s" "turn_ok k c (Inl (r, s)) = sup_end k c s"
  by (simp_all add: turn_ok_def)

lemma turn_ok_load:
  assumes "sup_inv k c s" and "\<And>x s. sup_inv k c s \<Longrightarrow> turn_ok k c (f x s)"
  shows "turn_ok k c (or_leave load_state s f)"
proof -
  obtain x b where l: "load_state (core s) = (x, b)"
    by force
  have "sup_inv k c (s\<lparr>core := b\<rparr>)"
    using assms(1) load_same [OF l] by (simp add: sup_inv_def)
  then show ?thesis
    using assms(2) l by (cases x) (auto simp: or_leave_def turn_ok_simps sup_inv_end)
qed

lemma turn_ok_save_current:
  assumes "sup_inv k c s" and "\<And>s'. sup_inv k c s' \<Longrightarrow> close_sent s' = close_sent s \<Longrightarrow> action_sent s' = action_sent s \<Longrightarrow> turn_ok k c (f s')"
  shows "turn_ok k c (save_current s f)"
proof -
  obtain x b where l: "save_state (current s) (core s) = (x, b)"
    by force
  have "sup_inv k c (s\<lparr>core := b\<rparr>)"
    using assms(1) log_ok_save [OF _ disjI2 [OF refl] l, of k] by (simp add: sup_inv_def)
  then show ?thesis
    using assms(2) l by (cases x) (auto simp: save_current_def or_leave_def turn_ok_simps sup_inv_end)
qed

lemma turn_ok_preserving:
  assumes "sup_inv k c s"
  shows "turn_ok k c (save_preserving s)"
proof -
  obtain x b where l: "load_state (core s) = (x, b)"
    by force
  note same = load_same [OF l]
  show ?thesis
  proof (cases x)
    case (Inl e)
    then have "save_preserving s = Inl (Inl e, s\<lparr>core := b\<rparr>)"
      using l by (simp add: save_preserving_def or_leave_def save_diagnostics_preserving_stop_def)
    then show ?thesis
      using assms same by (simp add: turn_ok_simps sup_inv_def sup_end_def)
  next
    case (Inr latest)
    define r where "r = (case latest of Some l \<Rightarrow> if phase l = Stopping then (current s)\<lparr>phase := Stopping, detail := detail l\<rparr> else current s
      | None \<Rightarrow> current s)"
    have r: "phase r = Stopping \<or> phase r = phase (current s)"
      by (auto simp: r_def split: option.split)
    obtain y b2 where v: "save_state r b = (y, b2)"
      by force
    have old: "log_ok k b (phase (current s))"
      using assms same by (simp add: sup_inv_def)
    note b2 = log_ok_save [OF old r v]
    have "save_diagnostics_preserving_stop (current s) (core s) = (case y of Inl e \<Rightarrow> (Inl e, b2) | Inr u \<Rightarrow> (Inr r, b2))"
      using l Inr v by (cases y) (simp_all add: save_diagnostics_preserving_stop_def r_def Let_def)
    moreover have "log_ok k b2 (phase (current s))" if "y = Inl e" for e
      using save_outcome_state(1) [OF v] that old log_ok_cong [of b2 b k "phase (current s)"] by simp
    ultimately show ?thesis
      using assms b2 same
      by (cases y) (auto simp: save_preserving_def or_leave_def turn_ok_simps sup_inv_def sup_end_def)
  qed
qed

lemma sup_inv_stopping: "sup_inv k c s \<Longrightarrow> sup_inv k c (enter_stopping d s)"
  by (auto simp: sup_inv_def enter_stopping_def intro: log_ok_mono)

lemma turn_ok_power_off:
  assumes "sup_inv k c s" and "\<not> close_sent s \<or> \<not> action_sent s"
    and "\<And>b. log_ok k b (phase (current s)) \<Longrightarrow> poweroffs b = Suc (poweroffs (core s)) \<Longrightarrow> turn_ok k c (f () (s\<lparr>core := b\<rparr>))"
  shows "turn_ok k c (or_leave (power_off what errno) s f)"
  using assms
  by (auto simp: or_leave_def power_off_def turn_ok_simps sup_inv_def sup_end_def effect_same)

lemma sup_inv_cong:
  "sup_inv k c s \<Longrightarrow> core s' = core s \<Longrightarrow> phase (current s') = phase (current s) \<Longrightarrow> close_sent s' = close_sent s
    \<Longrightarrow> action_sent s' = action_sent s \<Longrightarrow> sup_inv k c s'"
  by (simp add: sup_inv_def)

lemma ok_container: "sup_inv k c s \<Longrightarrow> turn_ok k c (container_stage o' s)"
proof -
  assume i: "sup_inv k c s"
  define u where "u = s\<lparr>core := (core s)\<lparr>reaped := True\<rparr>\<rparr>"
  have u: "sup_inv k c u"
    using i by (simp add: sup_inv_def u_def log_ok_def phases_since_def poweroffs_def)
  have "turn_ok k c (save_current (enter_stopping d u) (\<lambda>s. Inl (r, s)))" for d r
    by (rule turn_ok_save_current [OF sup_inv_stopping [OF u]]) (simp add: turn_ok_simps sup_inv_end)
  then show ?thesis
    using i u by (auto simp: container_stage_def u_def [symmetric] turn_ok_simps sup_inv_end Let_def split: sum.split option.split)
qed

lemma ok_display: "sup_inv k c s \<Longrightarrow> turn_ok k c (display_stage o' s)"
  by (auto simp: display_stage_def turn_ok_simps sup_inv_end split: sum.split option.split
      intro!: turn_ok_load) (simp_all add: sup_inv_def)

lemma ok_terminate: "sup_inv k c s \<Longrightarrow> sup_end k c (terminate_container s)" "sup_inv k c s \<Longrightarrow> sup_end k c (stop_network (terminate_container s))"
  by (auto simp: sup_inv_def sup_end_def terminate_container_def stop_network_def effect_same)

lemma ok_grace: "sup_inv k c s \<Longrightarrow> turn_ok k c (grace_stage o' s)"
  by (auto simp: grace_stage_def turn_ok_simps ok_terminate Let_def split: option.split intro!: turn_ok_load)

lemma ok_network: "sup_inv k c s \<Longrightarrow> turn_ok k c (network_stage o' s)"
  by (auto simp: network_stage_def turn_ok_simps ok_terminate sup_inv_end split: sum.split option.split)

lemma ok_integration: "sup_inv k c s \<Longrightarrow> turn_ok k c (integration_stage o' s)"
  by (auto simp: integration_stage_def turn_ok_simps Let_def split: sum.split intro!: turn_ok_preserving elim: sup_inv_cong)

lemma ok_send:
  assumes "sup_inv k c s" and "\<not> close_sent s \<or> \<not> action_sent s"
    and "\<And>b. log_ok k b (phase (current s)) \<Longrightarrow> poweroffs b = Suc (poweroffs (core s)) \<Longrightarrow> sup_inv k c (f (s\<lparr>core := b\<rparr>))"
  shows "turn_ok k c (or_leave (power_off what errno) s (\<lambda>_ s. Inr (f s)))"
  by (rule turn_ok_power_off [OF assms(1,2)]) (simp add: turn_ok_simps assms(3))

lemma ok_request: "sup_inv k c s \<Longrightarrow> turn_ok k c (request_stage o' s)"
proof -
  assume i: "sup_inv k c s"
  have send: "turn_ok k c (save_current (enter_stopping d (s\<lparr>restart_asked := a\<rparr>)) (\<lambda>s.
      or_leave (power_off what errno) s (\<lambda>_ s. Inr (s\<lparr>action_sent := True\<rparr>))))" if n: "\<not> action_sent s" for d a what errno
  proof (rule turn_ok_save_current)
    show "sup_inv k c (enter_stopping d (s\<lparr>restart_asked := a\<rparr>))"
      by (rule sup_inv_stopping) (rule sup_inv_cong [OF i]; simp)
    fix t
    assume "sup_inv k c t" "action_sent t = action_sent (enter_stopping d (s\<lparr>restart_asked := a\<rparr>))"
    then show "turn_ok k c (or_leave (power_off what errno) t (\<lambda>_ s. Inr (s\<lparr>action_sent := True\<rparr>)))"
      using n by (intro ok_send) (auto simp: sup_inv_def enter_stopping_def)
  qed
  then show ?thesis
    using i by (auto simp: request_stage_def turn_ok_simps sup_inv_end Let_def split: sum.split option.split)
qed

lemma ok_close: "sup_inv k c s \<Longrightarrow> turn_ok k c (close_stage o' s)"
proof -
  assume i: "sup_inv k c s"
  have "turn_ok k c (save_current (enter_stopping d s) (\<lambda>s.
      or_leave (power_off what errno) s (\<lambda>_ s. Inr (s\<lparr>close_sent := True\<rparr>))))" if n: "\<not> close_sent s" for d what errno
  proof (rule turn_ok_save_current [OF sup_inv_stopping [OF i]])
    fix t
    assume "sup_inv k c t" "close_sent t = close_sent (enter_stopping d s)"
    then show "turn_ok k c (or_leave (power_off what errno) t (\<lambda>_ s. Inr (s\<lparr>close_sent := True\<rparr>)))"
      using n by (intro ok_send) (auto simp: sup_inv_def enter_stopping_def)
  qed
  then show ?thesis
    using i by (simp add: close_stage_def turn_ok_simps)
qed

lemma ok_diagnostics: "sup_inv k c s \<Longrightarrow> turn_ok k c (diagnostics_stage o' s)"
proof -
  assume i: "sup_inv k c s"
  have "turn_ok k c (save_preserving (s\<lparr>current := (current s)\<lparr>display_diag := x, integration_diag := y\<rparr>\<rparr>))" for x y
    by (rule turn_ok_preserving) (rule sup_inv_cong [OF i]; simp)
  moreover have "turn_ok k c (then_ok t (\<lambda>s. Inr (s\<lparr>window_seen := w, presentation_seen := p, last_refresh := n\<rparr>)))"
    if "turn_ok k c t" for t w p n
    by (rule turn_ok_then [OF that]) (auto simp: turn_ok_simps elim: sup_inv_cong)
  ultimately show ?thesis
    using i by (auto simp: diagnostics_stage_def turn_ok_simps sup_inv_end Let_def split: sum.split intro: sup_inv_cong)
qed

lemma ok_turn: "sup_inv k c s \<Longrightarrow> turn_ok k c (supervise_turn o' s)"
  unfolding supervise_turn_def
  by (intro turn_ok_then ok_container ok_display ok_grace ok_network ok_integration ok_request ok_diagnostics ok_close)

lemma supervise_ends:
  assumes "supervise obs n s = Some y" and "sup_inv k c s"
  shows "sup_end k c (snd y)"
proof -
  have "sup_inv k c s \<longrightarrow> sup_end k c (snd y)"
  proof (rule supervise.raw_induct [where P = "\<lambda>obs n s y. sup_inv k c s \<longrightarrow> sup_end k c (snd y)", OF _ assms(1)], intro impI)
    fix loop obs n s y
    assume IH: "\<And>obs n s y. loop obs n s = Some y \<Longrightarrow> sup_inv k c s \<longrightarrow> sup_end k c (snd y)"
      and step: "(case supervise_turn (obs n) s of Inl r \<Rightarrow> Some r | Inr s \<Rightarrow> loop obs (Suc n) s) = Some y"
      and i: "sup_inv k c s"
    show "sup_end k c (snd y)"
      using ok_turn [OF i, of "obs n"] step IH by (auto simp: turn_ok_def split: sum.splits prod.splits)
  qed
  then show ?thesis
    using assms(2) by blast
qed

section \<open>One session\<close>

text \<open>
  \<open>launch_container\<close> from the point where the container is spawned: the sandbox command and the files it
  needs are modelled in their own theories, here their success is an observation (with whether the
  container had been spawned when it failed). Leaving the function drops the network helper and the
  container, which terminates a process that was not waited for yet; the cgroup, which every path removes,
  is not recorded.
\<close>

datatype session_error = Deadline_Error nat string | Session_Error string

record launch_obs =
  container_started :: "(string \<times> bool) + nat"
  network_started :: "string + bool"
  barrier_released :: "string + unit"
  session_euid :: nat
  session_egid :: nat
  session_token :: string
  wait_start :: nat
  waiting :: "nat \<Rightarrow> wait_obs"
  first_display :: "string + string"
  integrations_created :: "string + unit"
  first_settings :: integration_settings
  first_reconcile :: "string + string"
  first_diagnostics :: string
  first_window :: "u8 list option"
  first_presentation :: "u8 list option"
  loop_start :: nat
  turns :: "nat \<Rightarrow> turn_obs"
  close_at_end :: bool

type_synonym session_result = "(session_error + exit_status \<times> bool) \<times> broker"

definition drop_network :: "bool \<Rightarrow> broker \<Rightarrow> broker" where
  "drop_network up b = (if up then do_effect Terminate_Network b else b)"

definition drop_container :: "broker \<Rightarrow> broker" where
  "drop_container b = (if reaped b then b else do_effect Terminate_Container b)"

definition drop_session :: "bool \<Rightarrow> broker \<Rightarrow> broker" where
  "drop_session up b = drop_container (drop_network up b)"

definition failed_session :: "bool \<Rightarrow> string \<Rightarrow> broker \<Rightarrow> session_result option" where
  "failed_session up e b = Some (Inl (Session_Error e), drop_session up b)"

text \<open>The \<open>?\<close> of a save or of an observed step, with the network helper up or not.\<close>

definition or_fail :: "bool \<Rightarrow> (string + 'a) \<times> broker \<Rightarrow> ('a \<Rightarrow> broker \<Rightarrow> session_result option) \<Rightarrow> session_result option" where
  "or_fail up r k = (case r of (Inl e, b) \<Rightarrow> failed_session up e b | (Inr x, b) \<Rightarrow> k x b)"

definition NOT_READY :: string where "NOT_READY = ''nested compositor did not become ready: ''"

definition wait_failure :: "wait_error \<Rightarrow> session_error" where
  "wait_failure e =
     (case e of
        Desktop_Deadline n \<Rightarrow> Deadline_Error n (NOT_READY @ ''desktop compositor did not become ready within '' @ show_dec n @ '' seconds'')
      | Frame_Deadline n \<Rightarrow> Deadline_Error n (NOT_READY @
          ''desktop compositor became ready but did not submit and paint a dmabuf frame within '' @ show_dec n @ '' seconds; verify that the host display provides working DRM render-node and 3D acceleration support'')
      | Wait_Error t \<Rightarrow> Session_Error (NOT_READY @ t))"

definition session_end :: "launch_obs \<Rightarrow> (string + exit_status) \<times> supervisor \<Rightarrow> session_result option" where
  "session_end l y =
     (case y of
        (Inl e, s) \<Rightarrow> failed_session (network_up s) e (core s)
      | (Inr st, s) \<Rightarrow>
          let s = (if close_at_end l then enter_stopping ''host window closed; guest shutdown completed'' s else s) in
          or_fail (network_up s) (if close_at_end l then save_state (current s) (core s) else (Inr (), core s)) (\<lambda>_ b.
            Some (Inr (st, restart_asked s), drop_session (network_up s) b)))"

definition supervisor_start :: "launch_obs \<Rightarrow> bool \<Rightarrow> run_state \<Rightarrow> broker \<Rightarrow> supervisor" where
  "supervisor_start l up r b =
     \<lparr>core = b, current = r, close_sent = False, action_sent = False, restart_asked = False, display_gone = False, grace = None,
      display_status = None, network_up = up, settings = first_settings l, last_attempt = loop_start l - 1000,
      last_refresh = loop_start l, window_seen = first_window l, presentation_seen = first_presentation l\<rparr>"

definition first_integration :: "launch_obs \<Rightarrow> run_state \<Rightarrow> run_state" where
  "first_integration l r =
     (case first_reconcile l of
        Inr d \<Rightarrow> r\<lparr>integration_diag := Some d\<rparr>
      | Inl e \<Rightarrow> r\<lparr>integration_diag := Some (first_diagnostics l),
                  detail := Some (''desktop ready; live integration will retry after: '' @ e)\<rparr>)"

definition integrate_and_supervise :: "launch_obs \<Rightarrow> bool \<Rightarrow> run_state \<Rightarrow> broker \<Rightarrow> session_result option" where
  "integrate_and_supervise l up r b =
     or_fail up (integrations_created l, b) (\<lambda>_ b.
     or_fail up (save_state (first_integration l r) b) (\<lambda>_ b.
     Option.bind (supervise (turns l) 0 (supervisor_start l up (first_integration l r) b)) (session_end l)))"

definition running_state :: "string \<Rightarrow> run_state \<Rightarrow> run_state" where
  "running_state diag r =
     r\<lparr>phase := Running, detail := Some ''systemd and nested compositor ready'', display_diag := Some diag\<rparr>"

definition desktop_running :: "launch_obs \<Rightarrow> bool \<Rightarrow> run_state \<Rightarrow> broker \<Rightarrow> session_result option" where
  "desktop_running l up r b =
     or_fail up (first_display l, b) (\<lambda>diag b.
     or_fail up (save_state (running_state diag r) b) (\<lambda>_ b.
     integrate_and_supervise l up (running_state diag r) b))"

definition after_wait :: "launch_obs \<Rightarrow> bool \<Rightarrow> run_state \<Rightarrow> wait_result \<Rightarrow> session_result option" where
  "after_wait l up r w =
     (case w of
        (Inr Ready, b) \<Rightarrow> desktop_running l up r b
      | (Inr (Exited st restart), b) \<Rightarrow> Some (Inr (st, restart), drop_session up b)
      | (Inl e, b) \<Rightarrow> Some (Inl (wait_failure e), drop_container (do_effect Kill_Cgroup (drop_network up b))))"

definition container_running :: "launch_obs \<Rightarrow> run_state \<Rightarrow> nat \<Rightarrow> broker \<Rightarrow> session_result option" where
  "container_running l r pid b =
     (let r = r\<lparr>container_pid := Some pid, detail := Some ''waiting for desktop readiness''\<rparr> in
      or_fail False (save_state r b) (\<lambda>_ b.
      or_fail False (network_started l, b) (\<lambda>up b.
      or_fail up (barrier_released l, b) (\<lambda>_ b.
      Option.bind (wait_for_desktop (session_euid l) (session_egid l) (session_token l) (wait_start l) 90000 (waiting l) b)
        (after_wait l up r)))))"

definition launch_container :: "launch_obs \<Rightarrow> run_state \<Rightarrow> broker \<Rightarrow> session_result option" where
  "launch_container l r b =
     (case container_started l of
        Inl (e, spawned) \<Rightarrow> failed_session False e (b\<lparr>reaped := \<not> spawned\<rparr>)
      | Inr pid \<Rightarrow> container_running l r pid (b\<lparr>reaped := False\<rparr>))"

section \<open>The broker's loop\<close>

definition failure_detail :: "session_error \<Rightarrow> string" where
  "failure_detail e =
     (case e of
        Deadline_Error n t \<Rightarrow> ''desktop-readiness-deadline:'' @ show_dec n @ '': '' @ t
      | Session_Error t \<Rightarrow> t)"

definition combine_session_and_clipboard_cleanup ::
    "session_error + 'a \<Rightarrow> string + unit \<Rightarrow> session_error + 'a" where
  "combine_session_and_clipboard_cleanup session cleanup =
     (case (session, cleanup) of
        (Inr s, Inr _) \<Rightarrow> Inr s
      | (Inl e, Inr _) \<Rightarrow> Inl e
      | (Inr _, Inl c) \<Rightarrow> Inl (Session_Error (''revoking the ended clipboard session: '' @ c))
      | (Inl (Deadline_Error n t), Inl c) \<Rightarrow> Inl (Deadline_Error n (''clipboard endpoint revocation also failed after the session error: '' @ c @ '': '' @ t))
      | (Inl (Session_Error t), Inl c) \<Rightarrow> Inl (Session_Error (''clipboard endpoint revocation also failed after the session error: '' @ c @ '': '' @ t)))"

record broker_obs =
  session_prepared :: "string + unit"
  session :: launch_obs
  clipboard_cleared :: "string + unit"
  display_child :: "string + exit_status option"
  window_closing :: bool
  next_request :: "string + string option"

definition stopped_state :: "broker \<Rightarrow> bool \<Rightarrow> string \<Rightarrow> run_state" where
  "stopped_state b restart d =
     (let r = run_state_new (own_pid b) Stopped in
      r\<lparr>launcher_pid := (if restart then launcher_pid r else None), detail := Some d\<rparr>)"

definition failed_state :: "broker \<Rightarrow> string \<Rightarrow> run_state" where
  "failed_state b d = (run_state_new (own_pid b) Failed)\<lparr>detail := Some d\<rparr>"

text \<open>The end of a session: what is recorded, and whether the broker is done or starts again.\<close>

type_synonym broker_turn = "((string + unit) \<times> broker) + (bool \<times> broker)"

definition or_quit :: "(string + 'a) \<times> broker \<Rightarrow> ('a \<Rightarrow> broker \<Rightarrow> broker_turn) \<Rightarrow> broker_turn" where
  "or_quit r k = (case r of (Inl e, b) \<Rightarrow> Inl (Inl e, b) | (Inr x, b) \<Rightarrow> k x b)"

definition record_end :: "(session_error + exit_status \<times> bool) \<Rightarrow> broker \<Rightarrow> broker_turn" where
  "record_end result b =
     or_quit (load_state b) (\<lambda>latest b.
     case result of
       Inr (st, restart) \<Rightarrow>
         if exit_success st \<or> is_stopping latest then
           let d = (case latest of Some l \<Rightarrow> if phase l = Stopping then (case detail l of Some d \<Rightarrow> d | None \<Rightarrow> ''clean shutdown'')
                      else ''clean shutdown'' | None \<Rightarrow> ''clean shutdown'')
           in or_quit (save_state (stopped_state b restart d) b) (\<lambda>_ b. if restart then Inr (True, b) else Inl (Inr (), b))
         else or_quit (save_state (failed_state b (''container exited with '' @ status_text st)) b) (\<lambda>_ b. Inr (restart, b))
     | Inl e \<Rightarrow> or_quit (save_state (failed_state b (failure_detail e)) b) (\<lambda>_ b. Inr (False, b)))"

definition session_turn :: "broker_obs \<Rightarrow> broker \<Rightarrow> broker_turn option" where
  "session_turn o' b =
     (case session_prepared o' of
        Inl e \<Rightarrow> Some (Inl (Inl e, b))
      | Inr _ \<Rightarrow>
          let r = (run_state_new (own_pid b) Starting)\<lparr>detail := Some ''creating namespaces''\<rparr> in
          case save_state r b of
            (Inl e, b) \<Rightarrow> Some (Inl (Inl e, b))
          | (Inr _, b) \<Rightarrow>
              map_option (\<lambda>(result, b). record_end (combine_session_and_clipboard_cleanup result (clipboard_cleared o')) b)
                (launch_container (session o') r b))"

text \<open>With no session to start: the display application, its closing window, a request.\<close>

definition idle_turn :: "broker_obs \<Rightarrow> broker \<Rightarrow> broker_turn" where
  "idle_turn o' b =
     (case display_child o' of
        Inl e \<Rightarrow> Inl (Inl e, b)
      | Inr (Some st) \<Rightarrow>
          or_quit (save_state (stopped_state b False ''host application closed'') b) (\<lambda>_ b.
            Inl (if exit_success st then Inr () else Inl (''persistent display gateway exited with '' @ status_text st), b))
      | Inr None \<Rightarrow>
          if window_closing o' then Inr (False, b)
          else case next_request o' of
            Inr None \<Rightarrow> Inr (False, b)
          | Inr (Some action) \<Rightarrow>
              if action = ''start'' \<or> action = ''restart'' then Inr (True, b)
              else if action = ''stop'' then Inr (False, b)
              else Inl (Inl ''unreachable: validated host request'', b)
          | Inl e \<Rightarrow> or_quit (save_state (failed_state b (''invalid host lifecycle request: '' @ e)) b) (\<lambda>_ b. Inr (False, b)))"

definition broker_step :: "broker_obs \<Rightarrow> bool \<times> broker \<Rightarrow> broker_turn option" where
  "broker_step o' c =
     (case (if fst c then session_turn o' (snd c) else Some (Inr (False, snd c))) of
        None \<Rightarrow> None
      | Some (Inl r) \<Rightarrow> Some (Inl r)
      | Some (Inr (start, b)) \<Rightarrow> Some (if start then Inr (start, b) else idle_turn o' b))"

section \<open>What a session writes\<close>

lemma drop_same:
  "saves (drop_session up b) = saves b" "poweroffs (drop_session up b) = poweroffs b" "reaped (drop_session up b)"
  "disk (drop_session up b) = disk b" "own_pid (drop_session up b) = own_pid b"
  by (simp_all add: drop_session_def drop_container_def drop_network_def do_effect_def poweroffs_def)

definition session_log :: "nat \<Rightarrow> nat \<Rightarrow> session_result \<Rightarrow> bool" where
  "session_log k c y \<longleftrightarrow> (\<exists>m. log_ok k (snd y) m) \<and> poweroffs (snd y) \<le> c + 2 \<and> reaped (snd y)"

lemma session_log_failed: "log_ok k b m \<Longrightarrow> poweroffs b \<le> c + 2 \<Longrightarrow> failed_session up e b = Some y \<Longrightarrow> session_log k c y"
  by (auto simp: failed_session_def session_log_def drop_same log_ok_cong [OF drop_same(1)])

lemma session_log_end:
  assumes "sup_end k c (snd w)" and "session_end l w = Some y"
  shows "session_log k c y"
proof (cases w)
  case (Pair r s)
  have i: "log_ok k (core s) (phase (current s))" "poweroffs (core s) \<le> c + 2"
    using assms(1) Pair by (simp_all add: sup_end_def)
  show ?thesis
  proof (cases r)
    case (Inl e)
    then show ?thesis
      using assms(2) Pair i by (auto simp: session_end_def intro: session_log_failed)
  next
    case (Inr st)
    define s' where "s' = (if close_at_end l then enter_stopping ''host window closed; guest shutdown completed'' s else s)"
    obtain x b where b: "(if close_at_end l then save_state (current s') (core s') else (Inr (), core s')) = (x, b)"
      by force
    have "\<exists>m. log_ok k b m" "poweroffs b \<le> c + 2"
    proof -
      have s': "core s' = core s" "phase (current s') = Stopping \<or> phase (current s') = phase (current s)"
        by (auto simp: s'_def enter_stopping_def)
      show "\<exists>m. log_ok k b m"
        using b i log_ok_save(1) [OF i(1) s'(2)] s'(1) by (cases "close_at_end l") auto
      show "poweroffs b \<le> c + 2"
        using b i log_ok_save(2) [OF i(1) s'(2)] s'(1) by (cases "close_at_end l") auto
    qed
    then obtain m where m: "log_ok k b m" "poweroffs b \<le> c + 2"
      by blast
    have "session_end l w = or_fail (network_up s') (x, b) (\<lambda>_ b. Some (Inr (st, restart_asked s'), drop_session (network_up s') b))"
      by (simp only: session_end_def Pair Inr prod.case sum.case Let_def s'_def [symmetric] b)
    then have y: "or_fail (network_up s') (x, b) (\<lambda>_ b. Some (Inr (st, restart_asked s'), drop_session (network_up s') b)) = Some y"
      using assms(2) by simp
    show ?thesis
    proof (cases x)
      case (Inl e)
      then show ?thesis
        using y session_log_failed [OF m, of "network_up s'" e y] by (simp add: or_fail_def)
    next
      case (Inr u)
      then show ?thesis
        using y m by (auto simp: or_fail_def session_log_def drop_same log_ok_cong [OF drop_same(1)])
    qed
  qed
qed

lemma or_fail_log:
  assumes "or_fail up (x, b) f = Some y" and "log_ok k b m" and "poweroffs b \<le> c + 2"
    and "\<And>v. x = Inr v \<Longrightarrow> f v b = Some y \<Longrightarrow> session_log k c y"
  shows "session_log k c y"
  using assms by (cases x) (auto simp: or_fail_def intro: session_log_failed)

lemma or_fail_save:
  assumes "or_fail up (save_state r b) f = Some y" and "log_ok k b m" and "phase r = Stopping \<or> phase r = m" and "poweroffs b = c"
    and "\<And>b'. log_ok k b' (phase r) \<Longrightarrow> poweroffs b' = c \<Longrightarrow> f () b' = Some y \<Longrightarrow> session_log k c y"
  shows "session_log k c y"
proof -
  obtain x b' where s: "save_state r b = (x, b')"
    by force
  note b' = log_ok_save [OF assms(2,3) s]
  show ?thesis
    by (rule or_fail_log [OF assms(1) [unfolded s] b'(1)]) (use b' assms(4,5) in auto)
qed

lemma phase_running: "phase (running_state diag r) = Running" "phase (first_integration l r) = phase r"
  by (auto simp: running_state_def first_integration_def split: sum.split)

lemma supervised_log:
  assumes "integrate_and_supervise l up r b = Some y" and "log_ok k b Running" and "poweroffs b = c" and "phase r = Running"
  shows "session_log k c y"
proof (rule or_fail_log [OF assms(1) [unfolded integrate_and_supervise_def] assms(2)])
  fix u
  assume "or_fail up (save_state (first_integration l r) b) (\<lambda>_ b.
     Option.bind (supervise (turns l) 0 (supervisor_start l up (first_integration l r) b)) (session_end l)) = Some y"
  then show "session_log k c y"
  proof (rule or_fail_save [OF _ assms(2)])
    fix b'
    assume b': "log_ok k b' (phase (first_integration l r))" "poweroffs b' = c"
      and "Option.bind (supervise (turns l) 0 (supervisor_start l up (first_integration l r) b')) (session_end l) = Some y"
    then obtain w where w: "supervise (turns l) 0 (supervisor_start l up (first_integration l r) b') = Some w" "session_end l w = Some y"
      by (auto simp: bind_eq_Some_conv)
    have "sup_inv k c (supervisor_start l up (first_integration l r) b')"
      using b' by (simp add: sup_inv_def supervisor_start_def)
    from session_log_end [OF supervise_ends [OF w(1) this] w(2)] show "session_log k c y" .
  qed (simp_all add: phase_running assms)
qed (simp add: assms)

lemma desktop_running_log:
  assumes "desktop_running l up r b = Some y"
  shows "session_log (length (saves b)) (poweroffs b) y"
proof (rule or_fail_log [OF assms [unfolded desktop_running_def]])
  show start: "log_ok (length (saves b)) b Running"
    by (simp add: log_ok_def phases_since_def)
  fix diag
  assume "or_fail up (save_state (running_state diag r) b) (\<lambda>_ b. integrate_and_supervise l up (running_state diag r) b) = Some y"
  then show "session_log (length (saves b)) (poweroffs b) y"
    by (rule or_fail_save [OF _ start]) (simp_all add: phase_running supervised_log)
qed simp



text \<open>A session whose first turn takes a stop request and whose second sees the container end.\<close>

definition quiet_turn :: turn_obs where
  "quiet_turn =
     \<lparr>container_exit = Inr None, poweroff_marker = False, display_exit = Inr None, close_at_exit = False, clock = 0,
      network_exit = Inr None, config_now = Inl ''unreadable'', reconciled = (\<lambda>_. Inr ''ok''), diagnostics_of = (\<lambda>_. ''ok''),
      host_action = Inr None, action_errno = None, window_bytes = None, presentation_bytes = None, fresh_display = Inr ''d'',
      signature = id, close_requested = False, close_errno = None\<rparr>"

definition stop_session :: launch_obs where
  "stop_session =
     \<lparr>container_started = Inr 7, network_started = Inr False, barrier_released = Inr (), session_euid = 1000, session_egid = 1000,
      session_token = '''', wait_start = 0, waiting = idle_obs, first_display = Inr ''d'', integrations_created = Inr (),
      first_settings = \<lparr>ports = [], media = default_media\<rparr>,
      first_reconcile = Inr ''ok'', first_diagnostics = ''ok'', first_window = None, first_presentation = None, loop_start = 0,
      turns = (\<lambda>n. if n = 0 then quiet_turn\<lparr>host_action := Inr (Some ''stop'')\<rparr>
                   else quiet_turn\<lparr>container_exit := Inr (Some (Exit 0))\<rparr>), close_at_end = False\<rparr>"

lemmas stage_defs = container_stage_def display_stage_def grace_stage_def network_stage_def integration_stage_def
  request_stage_def diagnostics_stage_def close_stage_def


section \<open>A stop recorded by another process\<close>

text \<open>A stop is on the disk and nobody else writes any more.\<close>

definition stop_kept :: "broker \<Rightarrow> bool" where
  "stop_kept b \<longleftrightarrow> is_stopping (disk b) \<and> list_all (\<lambda>e. e = Goes \<or> e = Fails) (entries b)"

lemma kept_take: "take_entry b = (ok, b') \<Longrightarrow> stop_kept b \<Longrightarrow> stop_kept b' \<and> disk b' = disk b"
  by (auto simp: take_entry_def stop_kept_def split: list.splits io_entry.splits)

lemma kept_load: "load_state b = (x, b') \<Longrightarrow> stop_kept b \<Longrightarrow> stop_kept b' \<and> (\<forall>latest. x = Inr latest \<longrightarrow> is_stopping latest)"
  by (auto simp: load_state_def stop_kept_def split: prod.splits if_splits dest!: kept_take [unfolded stop_kept_def])

lemma kept_save: "save_state r b = (x, b') \<Longrightarrow> stop_kept b \<Longrightarrow> phase r = Stopping \<Longrightarrow> stop_kept b'"
  using kept_take [of b "fst (take_entry b)" "snd (take_entry b)"]
  by (auto simp: save_state_def stop_kept_def is_stopping_def split: prod.splits if_splits)

lemma kept_effect: "stop_kept (do_effect e b) = stop_kept b"
  by (simp add: do_effect_def stop_kept_def)

lemma kept_preserving:
  assumes "save_diagnostics_preserving_stop r b = (x, b')" and "stop_kept b"
  shows "stop_kept b'"
proof -
  obtain l b1 where l: "load_state b = (l, b1)"
    by force
  show ?thesis
  proof (cases l)
    case (Inl e)
    then show ?thesis
      using assms l kept_load [OF l] by (simp add: save_diagnostics_preserving_stop_def)
  next
    case (Inr latest)
    then obtain d where d: "latest = Some d" "phase d = Stopping" and b1: "stop_kept b1"
      using kept_load [OF l assms(2)] by (auto simp: is_stopping_def split: option.splits)
    define r' where "r' = r\<lparr>phase := Stopping, detail := detail d\<rparr>"
    obtain y b2 where s: "save_state r' b1 = (y, b2)"
      by force
    have "stop_kept b2"
      by (rule kept_save [OF s b1]) (simp add: r'_def)
    moreover have "b' = b2"
      using assms(1) l Inr d s by (cases y) (simp_all add: save_diagnostics_preserving_stop_def r'_def)
    ultimately show ?thesis
      by simp
  qed
qed

definition keeps_stop :: "turn \<Rightarrow> bool" where
  "keeps_stop t \<longleftrightarrow> (case t of Inl (_, s) \<Rightarrow> stop_kept (core s) | Inr s \<Rightarrow> stop_kept (core s))"

lemma keeps_simps: "keeps_stop (Inr s) = stop_kept (core s)" "keeps_stop (Inl (r, s)) = stop_kept (core s)"
  by (simp_all add: keeps_stop_def)

lemma keeps_then: "keeps_stop t \<Longrightarrow> (\<And>s. stop_kept (core s) \<Longrightarrow> keeps_stop (f s)) \<Longrightarrow> keeps_stop (then_ok t f)"
  by (cases t) (auto simp: keeps_stop_def)

lemma keeps_leave:
  assumes "\<And>x b. g (core s) = (x, b) \<Longrightarrow> stop_kept b" and "\<And>x b. stop_kept b \<Longrightarrow> keeps_stop (f x (s\<lparr>core := b\<rparr>))"
  shows "keeps_stop (or_leave g s f)"
  using assms by (cases "g (core s)"; cases "fst (g (core s))") (auto simp: or_leave_def keeps_simps)

lemma keeps_load: "stop_kept (core s) \<Longrightarrow> (\<And>x b. stop_kept b \<Longrightarrow> keeps_stop (f x (s\<lparr>core := b\<rparr>))) \<Longrightarrow> keeps_stop (or_leave load_state s f)"
  by (rule keeps_leave) (auto dest: kept_load)

lemma keeps_stopping:
  assumes "stop_kept (core s)" and "\<And>s'. stop_kept (core s') \<Longrightarrow> keeps_stop (f s')"
  shows "keeps_stop (save_current (enter_stopping d s) f)"
  unfolding save_current_def
  by (rule keeps_leave) (auto simp: enter_stopping_def assms intro: kept_save)

lemma keeps_preserving: "stop_kept (core s) \<Longrightarrow> keeps_stop (save_preserving s)"
  unfolding save_preserving_def by (rule keeps_leave) (auto simp: keeps_simps intro: kept_preserving)

lemma keeps_power_off:
  "stop_kept (core s) \<Longrightarrow> (\<And>b. stop_kept b \<Longrightarrow> stop_kept (core (f (s\<lparr>core := b\<rparr>)))) \<Longrightarrow> keeps_stop (or_leave (power_off what errno) s (\<lambda>_ s. Inr (f s)))"
  by (rule keeps_leave) (auto simp: power_off_def kept_effect keeps_simps split: if_splits)

lemma keeps_container: "stop_kept (core s) \<Longrightarrow> keeps_stop (container_stage o' s)"
proof -
  assume "stop_kept (core s)"
  then have k: "stop_kept (core (s\<lparr>core := (core s)\<lparr>reaped := True\<rparr>\<rparr>))"
    by (simp add: stop_kept_def)
  have "keeps_stop (save_current (enter_stopping d (s\<lparr>core := (core s)\<lparr>reaped := True\<rparr>\<rparr>)) (\<lambda>s. Inl (r, s)))" for d r
    by (rule keeps_stopping [OF k]) (simp add: keeps_simps)
  then show ?thesis
    using k by (auto simp: container_stage_def keeps_simps Let_def stop_kept_def split: sum.split option.split)
qed

lemma keeps_terminate: "stop_kept (core (terminate_container s)) = stop_kept (core s)" "stop_kept (core (stop_network s)) = stop_kept (core s)"
  by (simp_all add: terminate_container_def stop_network_def kept_effect)

lemma keeps_stages:
  assumes "stop_kept (core s)"
  shows "keeps_stop (display_stage o' s)" "keeps_stop (grace_stage o' s)" "keeps_stop (network_stage o' s)"
    "keeps_stop (integration_stage o' s)" "keeps_stop (request_stage o' s)" "keeps_stop (diagnostics_stage o' s)" "keeps_stop (close_stage o' s)"
proof -
  show "keeps_stop (display_stage o' s)"
    using assms by (auto simp: display_stage_def keeps_simps split: sum.split option.split intro!: keeps_load)
  show "keeps_stop (grace_stage o' s)"
    using assms by (auto simp: grace_stage_def keeps_simps keeps_terminate Let_def split: option.split intro!: keeps_load)
  show "keeps_stop (network_stage o' s)"
    using assms by (auto simp: network_stage_def keeps_simps keeps_terminate split: sum.split option.split)
  show "keeps_stop (integration_stage o' s)"
    using assms by (auto simp: integration_stage_def keeps_simps Let_def split: sum.split intro!: keeps_preserving)
  show "keeps_stop (request_stage o' s)"
    using assms by (auto simp: request_stage_def keeps_simps Let_def split: sum.split option.split intro!: keeps_stopping keeps_power_off)
  have "keeps_stop (then_ok t (\<lambda>s. Inr (s\<lparr>window_seen := w, presentation_seen := p, last_refresh := n\<rparr>)))" if "keeps_stop t" for t w p n
    by (rule keeps_then [OF that]) (simp add: keeps_simps)
  then show "keeps_stop (diagnostics_stage o' s)"
    using assms keeps_preserving [of "s\<lparr>current := c\<rparr>" for c]
    by (auto simp: diagnostics_stage_def keeps_simps Let_def split: sum.split)
  show "keeps_stop (close_stage o' s)"
    using assms by (auto simp: close_stage_def keeps_simps intro!: keeps_stopping keeps_power_off)
qed

lemma keeps_turn: "stop_kept (core s) \<Longrightarrow> keeps_stop (supervise_turn o' s)"
  unfolding supervise_turn_def by (intro keeps_then keeps_container keeps_stages)

lemma supervise_keeps:
  assumes "supervise obs n s = Some y" and "stop_kept (core s)"
  shows "stop_kept (core (snd y))"
proof -
  have "stop_kept (core s) \<longrightarrow> stop_kept (core (snd y))"
  proof (rule supervise.raw_induct [where P = "\<lambda>obs n s y. stop_kept (core s) \<longrightarrow> stop_kept (core (snd y))", OF _ assms(1)], intro impI)
    fix loop obs n s y
    assume IH: "\<And>obs n s y. loop obs n s = Some y \<Longrightarrow> stop_kept (core s) \<longrightarrow> stop_kept (core (snd y))"
      and step: "(case supervise_turn (obs n) s of Inl r \<Rightarrow> Some r | Inr s \<Rightarrow> loop obs (Suc n) s) = Some y"
      and i: "stop_kept (core s)"
    show "stop_kept (core (snd y))"
      using keeps_turn [OF i, of "obs n"] step IH by (auto simp: keeps_stop_def split: sum.splits prod.splits)
  qed
  then show ?thesis
    using assms(2) by blast
qed

lemma session_end_keeps:
  assumes "session_end l y = Some (res, b)" and "stop_kept (core (snd y))"
  shows "stop_kept b"
proof -
  obtain r s where y: "y = (r, s)"
    by (rule prod.exhaust)
  have drop: "stop_kept (drop_session up c) = stop_kept c" for up c
    by (simp add: drop_session_def drop_container_def drop_network_def kept_effect)
  show ?thesis
  proof (cases r)
    case (Inl e)
    then show ?thesis
      using assms y by (auto simp: session_end_def failed_session_def drop)
  next
    case (Inr st)
    define s' where "s' = enter_stopping ''host window closed; guest shutdown completed'' s"
    obtain x c where c: "save_state (current s') (core s') = (x, c)"
      by force
    have "stop_kept c"
      by (rule kept_save [OF c]) (use assms(2) y in \<open>simp_all add: s'_def enter_stopping_def\<close>)
    then show ?thesis
      using assms y Inr c
      by (cases x) (auto simp: session_end_def or_fail_def failed_session_def drop s'_def [symmetric] split: if_splits)
  qed
qed



section \<open>Where the broker rests\<close>

inductive reaches :: "broker \<Rightarrow> bool \<Rightarrow> broker \<Rightarrow> bool" for b0 where
  reaches_start: "reaches b0 True b0"
| reaches_step: "reaches b0 start b \<Longrightarrow> broker_step o' (start, b) = Some (Inr (start', b')) \<Longrightarrow> reaches b0 start' b'"

inductive_cases reaches_idle: "reaches b0 False b"

definition resting :: "broker \<Rightarrow> bool" where
  "resting b \<longleftrightarrow> saves b \<noteq> [] \<and> phase (last (saves b)) \<in> {Stopped, Failed} \<and> container_pid (last (saves b)) = None \<and> reaped b"

definition cleanly_stopped :: "broker \<Rightarrow> bool" where
  "cleanly_stopped b \<longleftrightarrow> saves b \<noteq> [] \<and> phase (last (saves b)) = Stopped \<and> container_pid (last (saves b)) = None
     \<and> launcher_pid (last (saves b)) = None \<and> reaped b"

lemma or_fail_reaps:
  "or_fail up x f = Some y \<Longrightarrow> (\<And>v b. f v b = Some y \<Longrightarrow> reaped (snd y)) \<Longrightarrow> reaped (snd y)"
  by (cases x; cases "fst x") (auto simp: or_fail_def failed_session_def drop_same)

lemma after_wait_reaps: "after_wait l up r w = Some y \<Longrightarrow> reaped (snd y)"
  using desktop_running_log [of l up r "snd w" y]
  by (auto simp: after_wait_def session_log_def drop_same drop_container_def do_effect_def
      split: prod.splits sum.splits desktop_wait.splits if_splits)

lemma container_running_reaps:
  assumes "container_running l r pid b = Some y"
  shows "reaped (snd y)"
  using assms unfolding container_running_def Let_def
  by (elim or_fail_reaps) (auto simp: bind_eq_Some_conv after_wait_reaps)

lemma launch_reaps: "launch_container l r b = Some y \<Longrightarrow> reaped (snd y)"
  by (auto simp: launch_container_def failed_session_def drop_same container_running_reaps split: sum.splits prod.splits)

lemma save_rests:
  assumes "save_state r b = (Inr u, b')" and "reaped b" and "phase r \<in> {Stopped, Failed}" and "container_pid r = None"
  shows "resting b'" and "last (saves b') = r"
  using save_outcome_state [OF assms(1)] assms(2-) by (simp_all add: resting_def)

lemma end_states:
  "phase (stopped_state b restart d) = Stopped" "container_pid (stopped_state b restart d) = None"
  "launcher_pid (stopped_state b False d) = None" "phase (failed_state b d) = Failed" "container_pid (failed_state b d) = None"
  by (simp_all add: stopped_state_def failed_state_def run_state_new_def Let_def)

text \<open>What a turn of the broker may lead to.\<close>

definition rests :: "broker_turn \<Rightarrow> bool" where
  "rests t \<longleftrightarrow> (case t of Inl (Inr _, b) \<Rightarrow> cleanly_stopped b | Inl (Inl _, _) \<Rightarrow> True | Inr (_, b) \<Rightarrow> resting b)"

lemma rests_simps:
  "rests (Inl (Inl e, b))" "rests (Inl (Inr u, b)) = cleanly_stopped b" "rests (Inr (x, b)) = resting b"
  by (simp_all add: rests_def)

lemma or_quit_save_rests:
  assumes "reaped b" and "phase r \<in> {Stopped, Failed}" and "container_pid r = None"
    and "\<And>b'. resting b' \<Longrightarrow> last (saves b') = r \<Longrightarrow> rests (f () b')"
  shows "rests (or_quit (save_state r b) f)"
proof -
  obtain x b' where s: "save_state r b = (x, b')"
    by force
  show ?thesis
  proof (cases x)
    case (Inr u)
    then show ?thesis
      using assms(4) save_rests [OF s [unfolded Inr] assms(1-3)] s by (simp add: or_quit_def)
  qed (simp add: s or_quit_def rests_def)
qed

lemma record_end_rests: "reaped b \<Longrightarrow> rests (record_end result b)"
proof -
  assume r: "reaped b"
  obtain x b' where l: "load_state b = (x, b')"
    by force
  have b': "reaped b'"
    using load_same [OF l] r by simp
  have stop: "rests (or_quit (save_state (stopped_state b' restart d) b') (\<lambda>_ b. if restart then Inr (True, b) else Inl (Inr (), b)))" for restart d
    by (rule or_quit_save_rests [OF b']) (auto simp: end_states rests_def cleanly_stopped_def resting_def)
  have fail: "rests (or_quit (save_state (failed_state b' d) b') (\<lambda>_ b. Inr (x, b)))" for d x
    by (rule or_quit_save_rests [OF b']) (auto simp: end_states rests_def)
  show ?thesis
    using stop fail l
    by (cases x; cases result) (auto simp: record_end_def or_quit_def rests_def Let_def split: prod.split)
qed

lemma idle_turn_rests: "resting b \<Longrightarrow> rests (idle_turn o' b)"
proof -
  assume i: "resting b"
  then have r: "reaped b"
    by (simp add: resting_def)
  have "rests (or_quit (save_state (stopped_state b False d) b) (\<lambda>_ b. Inl (if ok then Inr () else Inl e, b)))" for d ok e
    by (rule or_quit_save_rests [OF r]) (auto simp: end_states rests_def cleanly_stopped_def resting_def)
  moreover have "rests (or_quit (save_state (failed_state b d) b) (\<lambda>_ b. Inr (False, b)))" for d
    by (rule or_quit_save_rests [OF r]) (auto simp: end_states rests_def)
  ultimately show ?thesis
    using i by (auto simp: idle_turn_def rests_simps split: sum.split option.split)
qed

lemma session_turn_rests:
  assumes "session_turn o' b = Some t"
  shows "rests t"
proof (cases "session_prepared o'")
  case (Inl e)
  then show ?thesis
    using assms by (auto simp: session_turn_def rests_def)
next
  case (Inr u)
  define r where "r = (run_state_new (own_pid b) Starting)\<lparr>detail := Some ''creating namespaces''\<rparr>"
  obtain x b1 where s: "save_state r b = (x, b1)"
    by force
  show ?thesis
  proof (cases x)
    case (Inl e)
    then show ?thesis
      using assms \<open>session_prepared o' = Inr u\<close> s by (auto simp: session_turn_def r_def rests_def)
  next
    case (Inr v)
    then obtain result b2 where l: "launch_container (session o') r b1 = Some (result, b2)"
      and t: "t = record_end (combine_session_and_clipboard_cleanup result (clipboard_cleared o')) b2"
      using assms \<open>session_prepared o' = Inr u\<close> s by (auto simp: session_turn_def r_def)
    show ?thesis
      unfolding t by (rule record_end_rests) (use launch_reaps [OF l] in simp)
  qed
qed

lemma broker_step_rests:
  assumes "broker_step o' (start, b) = Some t" and "\<not> start \<Longrightarrow> resting b"
  shows "rests t"
proof -
  define turn where "turn = (if start then session_turn o' b else Some (Inr (False, b)))"
  have step: "broker_step o' (start, b) =
      (case turn of None \<Rightarrow> None | Some (Inl r) \<Rightarrow> Some (Inl r)
       | Some (Inr (start, b)) \<Rightarrow> Some (if start then Inr (start, b) else idle_turn o' b))"
    by (simp only: broker_step_def turn_def fst_conv snd_conv)
  obtain v where v: "turn = Some v"
    using assms(1) step by (cases turn) simp_all
  have r: "rests v"
    using v assms(2) session_turn_rests [of o' b v] by (auto simp: turn_def rests_def split: if_splits)
  show ?thesis
  proof (cases v)
    case (Inl y)
    then show ?thesis
      using assms(1) step v r by simp
  next
    case (Inr y)
    obtain again b' where y: "y = (again, b')"
      by (rule prod.exhaust)
    have "t = (if again then Inr (again, b') else idle_turn o' b')"
      using assms(1) step v Inr y by simp
    then show ?thesis
      using r Inr y idle_turn_rests [of b' o'] by (simp add: rests_def)
  qed
qed

lemma reaches_rests: "reaches b0 start b \<Longrightarrow> \<not> start \<Longrightarrow> resting b"
proof (induction rule: reaches.induct)
  case (reaches_step start b o' start' b')
  have "rests (Inr (start', b'))"
    by (rule broker_step_rests [OF reaches_step.hyps(2)]) (rule reaches_step.IH)
  then show ?case
    by (simp add: rests_def)
qed simp

text \<open>
  C10. However sessions end, are restarted, fail or are interfered with, the broker always comes to rest in
  a truthful state: whenever it has no session to start, the last state it saved is \<open>Stopped\<close> or
  \<open>Failed\<close>, without a container, and no container process is left; and when it returns successfully,
  the last state it saved is \<open>Stopped\<close>, with neither a container nor a launcher.
\<close>

theorem broker_rests:
  assumes "reaches b0 start b"
  shows "(\<not> start \<longrightarrow> resting b) \<and> (\<forall>o' b'. broker_step o' (start, b) = Some (Inl (Inr (), b')) \<longrightarrow> cleanly_stopped b')"
proof (intro conjI impI allI)
  show "resting b" if "\<not> start"
    using reaches_rests [OF assms that] .
  fix o' b'
  assume "broker_step o' (start, b) = Some (Inl (Inr (), b'))"
  from broker_step_rests [OF this reaches_rests [OF assms]] show "cleanly_stopped b'"
    by (simp add: rests_def)
qed

text \<open>A session whose sandbox cannot be started, then a turn in which nothing happens.\<close>

definition failing_turn :: broker_obs where
  "failing_turn =
     \<lparr>session_prepared = Inr (), session = stop_session\<lparr>container_started := Inl (''no sandbox'', False)\<rparr>,
      clipboard_cleared = Inr (), display_child = Inr None, window_closing = False, next_request = Inr None\<rparr>"

theorem broker_rests_witness:
  "\<exists>b. reaches idle_broker False b \<and> phase (last (saves b)) = Failed \<and> resting b
    \<and> (\<forall>o' b'. broker_step o' (False, b) = Some (Inl (Inr (), b')) \<longrightarrow> cleanly_stopped b')"
proof -
  obtain b where b: "broker_step failing_turn (True, idle_broker) = Some (Inr (False, b))" "phase (last (saves b)) = Failed"
    by (simp add: broker_step_def session_turn_def failing_turn_def save_state_def load_state_def take_entry_def idle_broker_def
      launch_container_def failed_session_def record_end_def or_quit_def combine_session_and_clipboard_cleanup_def idle_turn_def
      failed_state_def run_state_new_def drop_session_def drop_container_def drop_network_def)
  have r: "reaches idle_broker False b"
    by (rule reaches_step [OF reaches_start b(1)])
  show ?thesis
    using broker_rests [OF r] r b(2) by auto
qed

section \<open>A desktop that becomes ready late\<close>

text \<open>
  The wait prefers readiness to a request it has already recorded: when the desktop becomes ready after a
  stop or a restart was asked for and saved, the wait says \<open>Ready\<close>, the choice of a restart is dropped, and
  the next state saved is \<open>Running\<close>, over the \<open>Stopping\<close> that was there.
\<close>

lemma late_ready_erases_stop:
  assumes "desktop_ready_for_session euid egid token (seen_marker o') = Inr True" "presentation_has_first_frame (seen_frame o')"
    and "entries b = []" "disk b = Some d" "phase d = Stopping" "first_display l = Inr diag"
  shows "wait_turn euid egid token deadline seconds o' (Some True) b = Inl (Inr Ready, b)"
    and "\<exists>b'. after_wait l up r (Inr Ready, b) = integrate_and_supervise l up (running_state diag r) b'
      \<and> disk b' = Some (running_state diag r) \<and> phase (running_state diag r) = Running"
  using assms
  by (auto simp: wait_turn_def after_wait_def desktop_running_def or_fail_def save_state_def take_entry_def phase_running
      intro!: exI [where x = "b\<lparr>disk := Some (running_state diag r), saves := saves b @ [running_state diag r]\<rparr>"])

end
