(* ===== verification/Host_Paths.thy ===== *)
theory Host_Paths
  imports Prelude "HOL-Library.List_Lexorder" "HOL-Library.Product_Lexorder" "HOL-Library.Char_ord"
begin

text \<open>
  Paths as the broker uses them beyond their equality: \<open>Path::starts_with\<close>, \<open>strip_prefix\<close>,
  \<open>file_name\<close>, the order of \<open>Path\<close> (that of \<open>BTreeSet<PathBuf>\<close> and \<open>BTreeMap<PathBuf, _>\<close>), and
  \<open>safe_absolute_path\<close> of \<open>host/crates/buzzardos-broker/src/main.rs\<close>. Sorted association lists stand
  for \<open>BTreeMap\<close>.
\<close>

section \<open>Components\<close>

definition path_starts_with :: "path \<Rightarrow> path \<Rightarrow> bool" where
  "path_starts_with p q \<longleftrightarrow> absolute p = absolute q \<and> starts_with (components p) (components q)"

definition strip_path :: "path \<Rightarrow> path \<Rightarrow> path option" where
  "strip_path p q =
     (if path_starts_with p q then Some (Path False (drop (length (components q)) (components p))) else None)"

definition file_name :: "path \<Rightarrow> string option" where
  "file_name p =
     (if components p = [] \<or> last (components p) \<in> {''.'', ''..''} then None else Some (last (components p)))"

definition safe_absolute_path :: "path \<Rightarrow> bool" where
  "safe_absolute_path p \<longleftrightarrow> absolute p \<and> list_all (\<lambda>c. c \<noteq> ''..'') (components p)"

section \<open>The order of paths\<close>

text \<open>Components compare by their kind (root, \<open>.\<close>, \<open>..\<close>, name) and names by their bytes.\<close>

definition component_key :: "string \<Rightarrow> nat \<times> string" where
  "component_key c = (if c = ''.'' then (1, []) else if c = ''..'' then (2, []) else (3, c))"

definition path_key :: "path \<Rightarrow> (nat \<times> string) list" where
  "path_key p = (if absolute p then [(0, [])] else []) @ map component_key (components p)"

lemma component_key_inj [simp]: "component_key c = component_key d \<longleftrightarrow> c = d"
  by (auto simp: component_key_def)

lemma component_key_not_root [simp]: "component_key c \<noteq> (0, x)" "(0, x) \<noteq> component_key c"
  by (auto simp: component_key_def)

lemma map_component_key [simp]: "map component_key xs = map component_key ys \<longleftrightarrow> xs = ys"
  by (rule inj_map_eq_map) (auto simp: inj_on_def)

lemma path_key_inj: "path_key p = path_key q \<Longrightarrow> p = q"
  by (cases p; cases q) (auto simp: path_key_def split: if_splits)

instantiation path :: linorder
begin

definition less_eq_path :: "path \<Rightarrow> path \<Rightarrow> bool" where
  "less_eq_path p q \<longleftrightarrow> path_key p \<le> path_key q"

definition less_path :: "path \<Rightarrow> path \<Rightarrow> bool" where
  "less_path p q \<longleftrightarrow> path_key p < path_key q"

instance
  by standard (auto simp: less_eq_path_def less_path_def intro: path_key_inj)

end

section \<open>Sorted maps and sets\<close>

text \<open>
  \<open>BTreeMap::insert\<close> and \<open>BTreeSet::insert\<close> of keys that compare by \<open>f\<close>: a key that is already present
  stays as it is, the value of the map is replaced.
\<close>

fun btree_insert :: "('k \<Rightarrow> 'o::linorder) \<Rightarrow> 'k \<Rightarrow> 'v \<Rightarrow> ('k \<times> 'v) list \<Rightarrow> ('k \<times> 'v) list" where
  "btree_insert f k v [] = [(k, v)]"
| "btree_insert f k v ((k', v') # m) =
     (if f k < f k' then (k, v) # (k', v') # m else if f k = f k' then (k', v) # m
      else (k', v') # btree_insert f k v m)"

fun btree_add :: "('k \<Rightarrow> 'o::linorder) \<Rightarrow> 'k \<Rightarrow> 'k list \<Rightarrow> 'k list" where
  "btree_add f k [] = [k]"
| "btree_add f k (k' # m) =
     (if f k < f k' then k # k' # m else if f k = f k' then k' # m else k' # btree_add f k m)"

fun btree_get :: "('k \<Rightarrow> 'o) \<Rightarrow> 'o \<Rightarrow> ('k \<times> 'v) list \<Rightarrow> 'v option" where
  "btree_get f x [] = None"
| "btree_get f x ((k, v) # m) = (if f k = x then Some v else btree_get f x m)"

definition btree_ok :: "('k \<Rightarrow> 'o::linorder) \<Rightarrow> ('k \<times> 'v) list \<Rightarrow> bool" where
  "btree_ok f m \<longleftrightarrow> sorted_wrt (<) (map (\<lambda>x. f (fst x)) m)"

lemma btree_insert_keys:
  "(\<lambda>x. f (fst x)) ` set (btree_insert f k v m) = insert (f k) ((\<lambda>x. f (fst x)) ` set m)"
  by (induction f k v m rule: btree_insert.induct) auto

lemma btree_ok_Cons: "btree_ok f ((k, v) # m) \<longleftrightarrow> (\<forall>x \<in> (\<lambda>x. f (fst x)) ` set m. f k < x) \<and> btree_ok f m"
  by (auto simp: btree_ok_def)

lemma btree_ok_Nil [simp]: "btree_ok f []"
  by (simp add: btree_ok_def)

lemma btree_insert_ok [intro]: "btree_ok f m \<Longrightarrow> btree_ok f (btree_insert f k v m)"
  by (induction f k v m rule: btree_insert.induct) (auto simp: btree_ok_Cons btree_insert_keys simp del: image_iff)

lemma btree_get_absent: "\<forall>y \<in> (\<lambda>x. f (fst x)) ` set m. x < y \<Longrightarrow> btree_get f (x :: 'o::linorder) m = None"
  by (induction f x m rule: btree_get.induct) auto

lemma btree_get_insert:
  "btree_ok f m \<Longrightarrow> btree_get f x (btree_insert f k v m) = (if x = f k then Some v else btree_get f x m)"
proof (induction f k v m rule: btree_insert.induct)
  case (2 f k v k' v' m)
  have "btree_get f x m = None" if "f k < f k'" "x = f k"
    using 2(2) that by (intro btree_get_absent) (auto simp: btree_ok_Cons)
  then show ?case
    using 2 by (auto simp: btree_ok_Cons)
qed simp

lemma btree_get_mem: "btree_ok f m \<Longrightarrow> (k, v) \<in> set m \<Longrightarrow> btree_get f (f k) m = Some v"
  by (induction m) (force simp: btree_ok_Cons)+

lemma in_btree_insert:
  "(k', v') \<in> set (btree_insert f k v m) \<Longrightarrow>
     (k', v') \<in> set m \<or> v' = v \<and> (k' = k \<or> (\<exists>w. (k', w) \<in> set m \<and> f k' = f k))"
  by (induction f k v m rule: btree_insert.induct) (auto split: if_splits)

lemma in_btree_add: "x \<in> set (btree_add f k m) \<Longrightarrow> x = k \<or> x \<in> set m"
  by (induction f k m rule: btree_add.induct) (auto split: if_splits)

text \<open>Components of a text that starts with a directory.\<close>

lemma path_of_absolute: "path_of (CHR ''/'' # t) = Path True (filter (\<lambda>c. c \<noteq> [] \<and> c \<noteq> ''.'') (split_on (CHR ''/'') t))"
  by (simp add: path_of_def)

end
