(* ===== verification/Host_Media.thy ===== *)
theory Host_Media
  imports Host_Paths Json_Values Machine_Config
begin

text \<open>
  The media devices of the host: their discovery in the graph that PipeWire dumps
  (\<open>host/crates/wb-core/src/media.rs\<close>), and what the broker builds on it
  (\<open>host/crates/buzzardos-broker/src/integrations.rs\<close>): the choice of the device of a bridge, the check that
  a microphone is captured by a stream that the host can see, and the arguments of the GStreamer bridge.

  \<open>number_text\<close> (the text of a JSON number) and \<open>parse_json\<close> stand for \<open>serde_json\<close>; \<open>char_major\<close> is the major
  number of a path that is a character device itself, not a link to one.
\<close>

section \<open>Values\<close>

fun as_array :: "json \<Rightarrow> json list option" where
  "as_array (J_Array xs) = Some xs"
| "as_array _ = None"

fun as_u64 :: "json \<Rightarrow> nat option" where
  "as_u64 (J_Int n) = (if 0 \<le> n \<and> n < 2 ^ 64 then Some (nat n) else None)"
| "as_u64 _ = None"

text \<open>\<open>Value::pointer\<close> along object keys, none of which is a number.\<close>

fun json_pointer :: "json \<Rightarrow> string list \<Rightarrow> json option" where
  "json_pointer v [] = Some v"
| "json_pointer v (k # ks) = (case json_get v k of None \<Rightarrow> None | Some x \<Rightarrow> json_pointer x ks)"

definition str_at :: "json \<Rightarrow> string list \<Rightarrow> string option" where
  "str_at v ks = Option.bind (json_pointer v ks) as_str"

definition value_u64 :: "json \<Rightarrow> nat option" where
  "value_u64 v = (case as_u64 v of Some n \<Rightarrow> Some n | None \<Rightarrow> Option.bind (as_str v) parse_u64)"

fun value_bool :: "json \<Rightarrow> bool option" where
  "value_bool (J_Bool b) = Some b"
| "value_bool (J_String s) =
     (if s = ''true'' \<or> s = ''1'' then Some True else if s = ''false'' \<or> s = ''0'' then Some False else None)"
| "value_bool _ = None"

definition u64_at :: "json \<Rightarrow> string list \<Rightarrow> nat option" where
  "u64_at v ks = Option.bind (json_pointer v ks) value_u64"

definition clean_string :: "json option \<Rightarrow> nat \<Rightarrow> string option" where
  "clean_string v maximum =
     (case Option.bind v as_str of
        None \<Rightarrow> None
      | Some s \<Rightarrow> if s = [] \<or> maximum < length s \<or> has_control s then None else Some s)"

fun scalar_string :: "(json \<Rightarrow> string) \<Rightarrow> json option \<Rightarrow> string option" where
  "scalar_string number_text (Some (J_String s)) = (if s \<noteq> [] \<and> list_all ascii_digit s then Some s else None)"
| "scalar_string number_text (Some (J_Int n)) = Some (number_text (J_Int n))"
| "scalar_string number_text (Some J_Float) = Some (number_text J_Float)"
| "scalar_string number_text _ = None"

section \<open>Devices\<close>

datatype host_media_kind = Audio_Sink | Microphone | Camera

datatype host_media_backend = Pipewire_Backend | Alsa string | V4l2 string

record host_media_device =
  node_name :: string
  description :: string
  serial :: string
  media_kind :: host_media_kind
  backend :: host_media_backend
  is_default :: bool

definition kind_from_media_class :: "string \<Rightarrow> host_media_kind option" where
  "kind_from_media_class class =
     (if class = ''Audio/Sink'' then Some Audio_Sink
      else if class = ''Audio/Source'' then Some Microphone
      else if class = ''Video/Source'' then Some Camera else None)"

definition valid_alsa_device :: "string \<Rightarrow> bool" where
  "valid_alsa_device d \<longleftrightarrow> starts_with d ''hw:'' \<and> list_all (\<lambda>c. ascii_alphanumeric c \<or> c \<in> set '':,._-'') d"

definition valid_video_device :: "(path \<Rightarrow> nat option) \<Rightarrow> string \<Rightarrow> bool" where
  "valid_video_device char_major d \<longleftrightarrow>
     (let p = path_of d in
      parent p = Some (path_of ''/dev'')
      \<and> (case file_name p of None \<Rightarrow> False
         | Some n \<Rightarrow> (case strip_prefix ''video'' n of None \<Rightarrow> False | Some r \<Rightarrow> r \<noteq> [] \<and> list_all ascii_digit r))
      \<and> char_major p = Some 81)"

record default_nodes =
  default_sink :: "string option"
  default_microphone :: "string option"
  default_camera :: "string option"

definition no_defaults :: default_nodes where
  "no_defaults = \<lparr>default_sink = None, default_microphone = None, default_camera = None\<rparr>"

definition entry_name :: "(string \<Rightarrow> json option) \<Rightarrow> json \<Rightarrow> string option" where
  "entry_name parse_json entry =
     (case json_get entry ''value'' of
        Some (J_Object m) \<Rightarrow> str_field (J_Object m) ''name''
      | Some (J_String s) \<Rightarrow> Option.bind (parse_json s) (\<lambda>v. str_field v ''name'')
      | _ \<Rightarrow> None)"

definition default_entry :: "(string \<Rightarrow> json option) \<Rightarrow> json \<Rightarrow> default_nodes \<Rightarrow> default_nodes" where
  "default_entry parse_json entry d =
     (case str_field entry ''key'' of
        None \<Rightarrow> d
      | Some key \<Rightarrow>
          let name = entry_name parse_json entry in
          if key = ''default.audio.sink'' then d\<lparr>default_sink := name\<rparr>
          else if key = ''default.audio.source'' then d\<lparr>default_microphone := name\<rparr>
          else if key = ''default.video.source'' then d\<lparr>default_camera := name\<rparr> else d)"

definition default_object :: "(string \<Rightarrow> json option) \<Rightarrow> json \<Rightarrow> default_nodes \<Rightarrow> default_nodes" where
  "default_object parse_json v d =
     (if str_field v ''type'' \<noteq> Some ''PipeWire:Interface:Metadata'' \<or> str_at v [''props'', ''metadata.name''] \<noteq> Some ''default'' then d
      else case Option.bind (json_get v ''metadata'') as_array of
        None \<Rightarrow> d | Some entries \<Rightarrow> fold (default_entry parse_json) entries d)"

definition from_graph :: "(string \<Rightarrow> json option) \<Rightarrow> json list \<Rightarrow> default_nodes" where
  "from_graph parse_json objects = fold (default_object parse_json) objects no_defaults"

definition for_kind :: "default_nodes \<Rightarrow> host_media_kind \<Rightarrow> string option" where
  "for_kind d k = (case k of Audio_Sink \<Rightarrow> default_sink d | Microphone \<Rightarrow> default_microphone d | Camera \<Rightarrow> default_camera d)"

definition device_backend :: "(path \<Rightarrow> nat option) \<Rightarrow> host_media_kind \<Rightarrow> json \<Rightarrow> host_media_backend" where
  "device_backend char_major k props =
     (case k of
        Audio_Sink \<Rightarrow> Pipewire_Backend
      | Microphone \<Rightarrow> (case clean_string (json_get props ''api.alsa.path'') 256 of
            None \<Rightarrow> Pipewire_Backend | Some d \<Rightarrow> if valid_alsa_device d then Alsa d else Pipewire_Backend)
      | Camera \<Rightarrow> (case clean_string (json_get props ''api.v4l2.path'') 4096 of
            None \<Rightarrow> Pipewire_Backend | Some d \<Rightarrow> if valid_video_device char_major d then V4l2 d else Pipewire_Backend))"

fun first_some :: "'a option list \<Rightarrow> 'a option" where
  "first_some [] = None"
| "first_some (Some x # xs) = Some x"
| "first_some (None # xs) = first_some xs"

definition device_of ::
    "(path \<Rightarrow> nat option) \<Rightarrow> (json \<Rightarrow> string) \<Rightarrow> default_nodes \<Rightarrow> json \<Rightarrow> host_media_device option" where
  "device_of char_major number_text defaults v =
     (if str_field v ''type'' \<noteq> Some ''PipeWire:Interface:Node'' then None
      else case json_pointer v [''info'', ''props''] of
        Some (J_Object m) \<Rightarrow>
          let props = J_Object m in
          (case Option.bind (str_field props ''media.class'') kind_from_media_class of None \<Rightarrow> None
           | Some k \<Rightarrow>
          (case clean_string (json_get props ''node.name'') 512 of None \<Rightarrow> None
           | Some name \<Rightarrow>
          (case scalar_string number_text (json_get props ''object.serial'') of None \<Rightarrow> None
           | Some s \<Rightarrow>
             let text = first_some [if k = Camera then clean_string (json_get props ''api.v4l2.cap.card'') 512 else None,
                   clean_string (json_get props ''node.description'') 512, clean_string (json_get props ''node.nick'') 512, Some name]
             in Some \<lparr>node_name = name, description = the text, serial = s, media_kind = k,
                  backend = device_backend char_major k props, is_default = (for_kind defaults k = Some name)\<rparr>)))
      | _ \<Rightarrow> None)"

definition kind_rank :: "host_media_kind \<Rightarrow> nat" where
  "kind_rank k = (case k of Audio_Sink \<Rightarrow> 0 | Microphone \<Rightarrow> 1 | Camera \<Rightarrow> 2)"

definition device_key :: "host_media_device \<Rightarrow> nat \<times> bool \<times> string \<times> string" where
  "device_key d = (kind_rank (media_kind d), \<not> is_default d, description d, node_name d)"

definition devices_from_pipewire_graph ::
    "(path \<Rightarrow> nat option) \<Rightarrow> (json \<Rightarrow> string) \<Rightarrow> (string \<Rightarrow> json option) \<Rightarrow> json \<Rightarrow> string + host_media_device list" where
  "devices_from_pipewire_graph char_major number_text parse_json graph =
     then_ok (ok_or ''host PipeWire graph is not a JSON array'' (as_array graph)) (\<lambda>objects.
     Inr (sort_key device_key (List.map_filter (device_of char_major number_text (from_graph parse_json objects)) objects)))"

definition MAX_PIPEWIRE_DUMP_BYTES :: nat where "MAX_PIPEWIRE_DUMP_BYTES = 32 * 1024 * 1024"

text \<open>What running \<open>pw-dump\<close> gave: whether it succeeded, how much it printed, and the value read from that.\<close>

record graph_dump =
  dump_run :: "string + bool"
  dump_length :: nat
  dump_value :: "json option"

definition read_dump :: "graph_dump \<Rightarrow> string + json" where
  "read_dump d =
     then_ok (dump_run d) (\<lambda>success.
     then_ok (bail_if (\<not> success) ''pw-dump exited'') (\<lambda>_.
     then_ok (bail_if (MAX_PIPEWIRE_DUMP_BYTES < dump_length d) ''host PipeWire graph exceeded 32 MiB'') (\<lambda>_.
     ok_or ''parsing host PipeWire graph'' (dump_value d))))"

definition discover_host_media ::
    "(path \<Rightarrow> nat option) \<Rightarrow> (json \<Rightarrow> string) \<Rightarrow> (string \<Rightarrow> json option) \<Rightarrow> graph_dump \<Rightarrow> string + host_media_device list" where
  "discover_host_media char_major number_text parse_json d =
     then_ok (read_dump d) (devices_from_pipewire_graph char_major number_text parse_json)"

section \<open>The device of a bridge\<close>

datatype bridge_kind = Guest_Audio | Host_Microphone | Host_Camera

definition bridge_name :: "bridge_kind \<Rightarrow> string" where
  "bridge_name k =
     (case k of Guest_Audio \<Rightarrow> ''guest-audio-output'' | Host_Microphone \<Rightarrow> ''host-microphone'' | Host_Camera \<Rightarrow> ''host-camera'')"

definition GUEST_AUDIO_PORT :: nat where "GUEST_AUDIO_PORT = 47130"
definition HOST_MICROPHONE_PORT :: nat where "HOST_MICROPHONE_PORT = 47131"
definition HOST_CAMERA_PORT :: nat where "HOST_CAMERA_PORT = 47132"

definition bridge_port :: "bridge_kind \<Rightarrow> nat" where
  "bridge_port k =
     (case k of Guest_Audio \<Rightarrow> GUEST_AUDIO_PORT | Host_Microphone \<Rightarrow> HOST_MICROPHONE_PORT | Host_Camera \<Rightarrow> HOST_CAMERA_PORT)"

definition control_name :: "bridge_kind \<Rightarrow> string" where
  "control_name k =
     (case k of Guest_Audio \<Rightarrow> ''guest_audio_output'' | Host_Microphone \<Rightarrow> ''host_microphone'' | Host_Camera \<Rightarrow> ''host_camera'')"

definition host_kind :: "bridge_kind \<Rightarrow> host_media_kind" where
  "host_kind k = (case k of Guest_Audio \<Rightarrow> Audio_Sink | Host_Microphone \<Rightarrow> Microphone | Host_Camera \<Rightarrow> Camera)"

definition resolve_media_device ::
    "bridge_kind \<Rightarrow> string option \<Rightarrow> string + host_media_device list \<Rightarrow> string + host_media_device option" where
  "resolve_media_device k requested discovered =
     (if k = Guest_Audio \<and> requested = None then Inr None
      else then_ok discovered (\<lambda>all.
        let devices = filter (\<lambda>d. media_kind d = host_kind k) all in
        case requested of
          Some r \<Rightarrow>
            (case find (\<lambda>d. node_name d = r) devices of
               Some d \<Rightarrow> Inr (Some d)
             | None \<Rightarrow> Inl (''selected '' @ bridge_name k @ '' device '' @ r @ '' is no longer available''))
        | None \<Rightarrow>
            (case first_some [find is_default devices, case devices of [] \<Rightarrow> None | d # _ \<Rightarrow> Some d] of
               Some d \<Rightarrow> Inr (Some d)
             | None \<Rightarrow> Inl (''the host advertises no usable '' @ bridge_name k @ '' device''))))"

section \<open>A microphone that the host can see\<close>

definition MICROPHONE_APPLICATION_ID :: string where
  "MICROPHONE_APPLICATION_ID = ''org.openresearchtools.BuzzardOS''"

definition source_node_id :: "string \<Rightarrow> json \<Rightarrow> nat option" where
  "source_node_id target v =
     (if str_field v ''type'' = Some ''PipeWire:Interface:Node'' \<and> str_at v [''info'', ''props'', ''node.name''] = Some target
         \<and> str_at v [''info'', ''props'', ''media.class''] = Some ''Audio/Source''
      then Option.bind (json_get v ''id'') value_u64 else None)"

definition tracked_stream :: "nat \<Rightarrow> string \<Rightarrow> json \<Rightarrow> bool" where
  "tracked_stream pid target v \<longleftrightarrow>
     str_field v ''type'' = Some ''PipeWire:Interface:Node''
     \<and> str_at v [''info'', ''state''] = Some ''running''
     \<and> Option.bind (json_pointer v [''info'', ''props'', ''pulse.corked'']) value_bool \<noteq> Some True
     \<and> str_at v [''info'', ''props'', ''media.class''] = Some ''Stream/Input/Audio''
     \<and> str_at v [''info'', ''props'', ''client.api''] = Some ''pipewire-pulse''
     \<and> str_at v [''info'', ''props'', ''application.id''] = Some MICROPHONE_APPLICATION_ID
     \<and> u64_at v [''info'', ''props'', ''application.process.id''] = Some pid
     \<and> str_at v [''info'', ''props'', ''target.object''] = Some target"

definition active_link :: "nat \<Rightarrow> nat \<Rightarrow> json \<Rightarrow> bool" where
  "active_link source stream v \<longleftrightarrow>
     str_field v ''type'' = Some ''PipeWire:Interface:Link'' \<and> str_at v [''info'', ''state''] = Some ''active''
     \<and> u64_at v [''info'', ''output-node-id''] = Some source \<and> u64_at v [''info'', ''input-node-id''] = Some stream"

definition pipewire_graph_has_tracked_microphone :: "json \<Rightarrow> nat \<Rightarrow> string \<Rightarrow> bool" where
  "pipewire_graph_has_tracked_microphone graph pid target =
     (case as_array graph of
        None \<Rightarrow> False
      | Some objects \<Rightarrow>
          (case List.map_filter (source_node_id target) objects of
             [] \<Rightarrow> False
           | source # _ \<Rightarrow>
               list_ex (\<lambda>v. tracked_stream pid target v \<and>
                 (case Option.bind (json_get v ''id'') value_u64 of
                    None \<Rightarrow> False | Some stream \<Rightarrow> list_ex (active_link source stream) objects)) objects))"

definition microphone_bridge_needs_restart :: "bool \<Rightarrow> json \<Rightarrow> nat \<Rightarrow> string option \<Rightarrow> bool" where
  "microphone_bridge_needs_restart exited graph pid target \<longleftrightarrow>
     exited \<or> \<not> (case target of None \<Rightarrow> False | Some t \<Rightarrow> pipewire_graph_has_tracked_microphone graph pid t)"

section \<open>The arguments of a bridge\<close>

definition microphone_source :: "host_media_device \<Rightarrow> string \<Rightarrow> string list" where
  "microphone_source d server =
     [''pulsesrc'', ''client-name=Buzzard OS Microphone'', ''server='' @ server, ''device='' @ node_name d, ''do-timestamp=true'',
      ''buffer-time=40000'', ''latency-time=10000'',
      ''stream-properties=props,application.id='' @ MICROPHONE_APPLICATION_ID
        @ '',application.name=BuzzardOS,media.role=communication'']"

definition microphone_forwarding :: "nat \<Rightarrow> string list" where
  "microphone_forwarding port =
     [''!'', ''tee'', ''name=wb_microphone'', ''wb_microphone.'', ''!'', ''queue'', ''max-size-buffers=8'', ''max-size-bytes=0'',
      ''max-size-time=0'', ''leaky=downstream'', ''!'', ''fakesink'', ''sync=false'', ''async=false'', ''wb_microphone.'', ''!'',
      ''queue'', ''max-size-buffers=32'', ''max-size-bytes=0'', ''max-size-time=0'', ''leaky=downstream'', ''!'', ''gdppay'', ''!'',
      ''tcpclientsink'', ''host=127.0.0.1'', ''port='' @ show_dec port, ''sync=false'', ''async=false'']"

definition camera_source :: "host_media_device \<Rightarrow> string \<Rightarrow> string + string list" where
  "camera_source d client =
     (case backend d of
        V4l2 device \<Rightarrow> Inr [''v4l2src'', ''device='' @ device, ''do-timestamp=true'']
      | Pipewire_Backend \<Rightarrow>
          Inr [''pipewiresrc'', ''client-name='' @ client, ''do-timestamp=true'', ''target-object='' @ serial d]
      | Alsa _ \<Rightarrow> Inl ''selected camera unexpectedly resolved to an audio backend'')"

definition camera_normalization :: "bool \<Rightarrow> string list" where
  "camera_normalization prefer_mjpeg =
     (if prefer_mjpeg then [''!'', ''image/jpeg'', ''!'', ''jpegdec''] else [])
     @ [''!'', ''videoconvert'', ''!'', ''videoscale'', ''!'', ''video/x-raw,format=BGRA,width=640,height=480'']"

text \<open>\<open>v4l2_supports_mjpeg\<close>: \<open>formats\<close> are the answers of the driver to the indices asked in turn.\<close>

datatype format_answer = Pixel_Format u32 | Format_Error nat

definition V4L2_PIX_FMT_MJPEG :: u32 where "V4L2_PIX_FMT_MJPEG = 0x47504A4D"

fun enumerate_formats :: "format_answer list \<Rightarrow> string + bool" where
  "enumerate_formats [] = Inl ''camera advertised more than 256 V4L2 formats''"
| "enumerate_formats (Pixel_Format f # fs) = (if f = V4L2_PIX_FMT_MJPEG then Inr True else enumerate_formats fs)"
| "enumerate_formats (Format_Error errno # fs) = (if errno = 22 then Inr False else Inl ''enumerating formats for camera'')"

definition v4l2_supports_mjpeg :: "string + (nat \<Rightarrow> format_answer) \<Rightarrow> string + bool" where
  "v4l2_supports_mjpeg camera = then_ok camera (\<lambda>answer. enumerate_formats (map answer [0..<256]))"

definition bridge_arguments ::
    "bridge_kind \<Rightarrow> host_media_device option \<Rightarrow> string option \<Rightarrow> nat \<Rightarrow> (string \<Rightarrow> string + (nat \<Rightarrow> format_answer)) \<Rightarrow> string + string list" where
  "bridge_arguments k d server port open_camera =
     (case k of
        Guest_Audio \<Rightarrow> Inr (
          [''-q'', ''tcpclientsrc'', ''host=127.0.0.1'', ''port='' @ show_dec port, ''!'', ''gdpdepay'', ''!'', ''queue'', ''max-size-buffers=8'',
           ''leaky=downstream'', ''!'', ''pipewiresink'', ''client-name=Buzzard OS Guest Audio'']
          @ (case d of None \<Rightarrow> [] | Some d \<Rightarrow> [''target-object='' @ serial d]) @ [''sync=true''])
      | Host_Microphone \<Rightarrow>
          then_ok (ok_or ''host microphone selection resolved to no device'' d) (\<lambda>d.
          then_ok (ok_or ''host microphone recording service was not resolved'' server) (\<lambda>server.
          Inr ([''-q''] @ microphone_source d server
            @ [''!'', ''audioconvert'', ''!'', ''audioresample'', ''!'', ''audio/x-raw,format=S16LE,rate=48000,channels=2'']
            @ microphone_forwarding port)))
      | Host_Camera \<Rightarrow>
          then_ok (ok_or ''host camera selection resolved to no device'' d) (\<lambda>d.
          then_ok (camera_source d ''Buzzard OS Host Camera'') (\<lambda>source.
          then_ok (case backend d of V4l2 device \<Rightarrow> v4l2_supports_mjpeg (open_camera device) | _ \<Rightarrow> Inr False) (\<lambda>mjpeg.
          Inr ([''-q''] @ source @ camera_normalization mjpeg
            @ [''!'', ''gdppay'', ''!'', ''tcpclientsink'', ''host=127.0.0.1'', ''port='' @ show_dec port, ''sync=false'', ''async=false''])))))"

section \<open>What a bridge reads from\<close>

text \<open>A discovered device is one node of the graph, of the class of its kind, with a bounded clean name.\<close>

definition device_sound :: "(path \<Rightarrow> nat option) \<Rightarrow> json list \<Rightarrow> host_media_device \<Rightarrow> bool" where
  "device_sound char_major objects d \<longleftrightarrow>
     (\<exists>v \<in> set objects. str_field v ''type'' = Some ''PipeWire:Interface:Node''
        \<and> str_at v [''info'', ''props'', ''node.name''] = Some (node_name d)
        \<and> Option.bind (str_at v [''info'', ''props'', ''media.class'']) kind_from_media_class = Some (media_kind d))
     \<and> node_name d \<noteq> [] \<and> length (node_name d) \<le> 512 \<and> \<not> has_control (node_name d)
     \<and> (case backend d of
          Pipewire_Backend \<Rightarrow> True
        | Alsa a \<Rightarrow> media_kind d = Microphone \<and> valid_alsa_device a
        | V4l2 a \<Rightarrow> media_kind d = Camera \<and> valid_video_device char_major a)"

lemma clean_string_Some:
  "clean_string v m = Some s \<longleftrightarrow> v = Some (J_String s) \<and> s \<noteq> [] \<and> length s \<le> m \<and> \<not> has_control s"
  by (cases v) (auto simp: clean_string_def not_less split: option.splits)

lemma device_backend_sound:
  "case device_backend char_major k props of
     Pipewire_Backend \<Rightarrow> True | Alsa a \<Rightarrow> k = Microphone \<and> valid_alsa_device a | V4l2 a \<Rightarrow> k = Camera \<and> valid_video_device char_major a"
  by (auto simp: device_backend_def split: host_media_kind.splits option.splits)

lemma device_of_sound:
  assumes "device_of char_major number_text defaults v = Some d" and "v \<in> set objects"
  shows "device_sound char_major objects d"
proof -
  obtain m k name where v: "str_field v ''type'' = Some ''PipeWire:Interface:Node''"
      "json_pointer v [''info'', ''props''] = Some (J_Object m)"
      "Option.bind (str_field (J_Object m) ''media.class'') kind_from_media_class = Some k"
      "clean_string (json_get (J_Object m) ''node.name'') 512 = Some name"
      and d: "node_name d = name" "media_kind d = k" "backend d = device_backend char_major k (J_Object m)"
    using assms(1) by (auto simp: device_of_def Let_def simp del: str_field_Some split: if_splits option.splits json.splits)
  have p: "json_pointer v [''info'', ''props'', x] = m x" for x
    using v(2) by (auto split: option.splits)
  have "str_at v [''info'', ''props'', ''node.name''] = Some name"
    using v(4) p by (simp add: clean_string_Some str_at_def del: json_pointer.simps)
  moreover have "str_at v [''info'', ''props'', ''media.class''] = str_field (J_Object m) ''media.class''"
    using p by (simp add: str_at_def str_field_def del: json_pointer.simps)
  ultimately show ?thesis
    using v assms(2) d device_backend_sound [where char_major = char_major and k = k and props = "J_Object m"]
    by (auto simp: device_sound_def clean_string_Some simp del: str_field_Some json_pointer.simps)
qed

lemma discovered_sound:
  assumes "devices_from_pipewire_graph char_major number_text parse_json graph = Inr ds" and "d \<in> set ds"
  shows "\<exists>objects. as_array graph = Some objects \<and> device_sound char_major objects d"
  using assms
  by (fastforce simp: devices_from_pipewire_graph_def then_ok_eq_Inr ok_or_eq_Inr map_filter_def intro: device_of_sound)

lemma find_in: "find p xs = Some x \<Longrightarrow> x \<in> set xs \<and> p x"
  by (induction xs) (auto split: if_splits)

lemma resolved_in:
  assumes "resolve_media_device k requested (Inr ds) = Inr (Some d)"
  shows "d \<in> set ds \<and> media_kind d = host_kind k \<and> (\<forall>r. requested = Some r \<longrightarrow> node_name d = r)"
proof -
  define mine where "mine = filter (\<lambda>d. media_kind d = host_kind k) ds"
  have "d \<in> set mine \<and> (\<forall>r. requested = Some r \<longrightarrow> node_name d = r)"
  proof (cases requested)
    case None
    then show ?thesis
      using assms unfolding mine_def [symmetric] resolve_media_device_def Let_def
      by (cases "find is_default mine"; cases mine) (auto simp: mine_def [symmetric] dest: find_in split: if_splits)
  next
    case (Some r)
    then show ?thesis
      using assms by (auto simp: resolve_media_device_def mine_def [symmetric] dest: find_in split: option.splits)
  qed
  then show ?thesis
    by (simp add: mine_def)
qed


definition demo_graph :: json where
  "demo_graph = J_Array [
     J_Object (map_of [(''type'', J_String ''PipeWire:Interface:Node''), (''info'', J_Object (map_of [(''props'',
       J_Object (map_of [(''media.class'', J_String ''Video/Source''), (''node.name'', J_String ''cam''),
         (''object.serial'', J_String ''43''), (''api.v4l2.path'', J_String ''/dev/video0'')]))]))])]"

definition demo_dump :: graph_dump where
  "demo_dump = \<lparr>dump_run = Inr True, dump_length = 0, dump_value = Some demo_graph\<rparr>"


end
