(* ===== verification/Integrations.thy ===== *)
theory Integrations
  imports Host_Media
begin

text \<open>
  The live integrations of a running machine, \<open>IntegrationRuntime\<close> of
  \<open>host/crates/buzzardos-broker/src/integrations.rs\<close>: port mappings through the network helper or private
  relays, and the three media bridges (guest audio, microphone, camera), brought to what the configuration
  asks for by \<open>reconcile\<close>, which the supervision of a machine calls once a second.

  \<open>answers\<close> is what the network helper replies to the coming requests, \<open>events\<close> what the broker does: the
  helper, the bridges, the relays and the guest are known by their answers only. A reconciliation gets what it
  observes of the world in one record; the two waiting loops of five seconds run over a stream of
  observations with the clock, and a run is \<open>None\<close> only if such a loop never ends.
\<close>

section \<open>Waiting\<close>

partial_function (option) poll :: "(nat \<Rightarrow> 'r option) \<Rightarrow> nat \<Rightarrow> 'r option" where
  "poll turn n = (case turn n of Some r \<Rightarrow> Some r | None \<Rightarrow> poll turn (Suc n))"

declare poll.simps [code]

lemma poll_from_turn: "poll turn n = Some r \<Longrightarrow> \<exists>m \<ge> n. turn m = Some r"
proof (rule poll.raw_induct [where P = "\<lambda>turn n r. \<exists>m \<ge> n. turn m = Some r"])
  fix loop :: "(nat \<Rightarrow> 'r option) \<Rightarrow> nat \<Rightarrow> 'r option" and turn n r
  assume IH: "\<And>turn n r. loop turn n = Some r \<Longrightarrow> \<exists>m \<ge> n. turn m = Some r"
    and step: "(case turn n of Some r \<Rightarrow> Some r | None \<Rightarrow> loop turn (Suc n)) = Some r"
  show "\<exists>m \<ge> n. turn m = Some r"
  proof (cases "turn n")
    case None
    then obtain m where "m \<ge> Suc n" "turn m = Some r"
      using IH [of turn "Suc n" r] step by auto
    then show ?thesis
      by (intro exI [of _ m]) simp
  qed (use step in auto)
qed

lemma poll_returns: "turn (n + d) \<noteq> None \<Longrightarrow> \<exists>r. poll turn n = Some r"
proof (induction d arbitrary: n)
  case 0
  then show ?case
    by (subst poll.simps) auto
next
  case (Suc d)
  then obtain r where "poll turn (Suc n) = Some r"
    by force
  then show ?case
    by (subst poll.simps) (auto split: option.split)
qed

section \<open>The state\<close>

datatype forward_backend = Slirp int | Udp_Relay

record active_forward =
  forward_mapping :: port_forward
  forward_backend :: forward_backend

record active_bridge =
  bridge_pid :: nat
  bridge_route :: int
  bridge_target :: "string option"
  resolved_device :: "string option"
  tracking_target :: "string option"

record guest_control =
  control_generation :: nat
  reverse_ports :: "port_forward list"
  forward_udp_ports :: "port_forward list"
  control_media :: media_sharing

text \<open>A route is added for a media bridge (\<open>Some\<close>) or for a mapping of the user (\<open>None\<close>).\<close>

datatype event =
  Route_Added "bridge_kind option" port_forward int
| Route_Removed int
| Network_Killed
| Bridge_Started bridge_kind nat
| Bridge_Exited nat
| Bridge_Terminated nat
| Control_Written guest_control
| Relay_Started uuid
| Relay_Dropped uuid

record integration =
  generation :: nat
  applied :: integration_settings
  host_forwards :: "(uuid \<times> active_forward) list"
  reverse_relays :: "(uuid \<times> port_forward) list"
  bridges :: "bridge_kind \<Rightarrow> active_bridge option"
  control_file :: "guest_control option"
  answers :: "(string + json) list"
  events :: "event list"

definition log_event :: "event \<Rightarrow> integration \<Rightarrow> integration" where
  "log_event e s = s\<lparr>events := events s @ [e]\<rparr>"

definition no_media :: media_sharing where "no_media = default_media"

definition integration_new :: "guest_control option \<Rightarrow> (string + json) list \<Rightarrow> integration" where
  "integration_new control replies =
     \<lparr>generation = 0, applied = \<lparr>ports = [], media = no_media\<rparr>, host_forwards = [], reverse_relays = [],
      bridges = (\<lambda>_. None), control_file = control, answers = replies, events = []\<rparr>"

section \<open>The network helper\<close>

definition slirp_request :: "integration \<Rightarrow> (string + json) \<times> integration" where
  "slirp_request s =
     (case answers s of
        [] \<Rightarrow> (Inl ''connecting to the network helper'', s)
      | Inl e # r \<Rightarrow> (Inl e, s\<lparr>answers := r\<rparr>)
      | Inr v # r \<Rightarrow>
          (case json_get v ''error'' of
             Some x \<Rightarrow> if x \<noteq> J_Null then Inl ''slirp4netns rejected live mapping''
                       else Inr (case json_get v ''return'' of Some y \<Rightarrow> y | None \<Rightarrow> J_Null)
           | None \<Rightarrow> Inr (case json_get v ''return'' of Some y \<Rightarrow> y | None \<Rightarrow> J_Null), s\<lparr>answers := r\<rparr>))"

fun as_i64 :: "json \<Rightarrow> int option" where
  "as_i64 (J_Int n) = (if - (2 ^ 63) \<le> n \<and> n < 2 ^ 63 then Some n else None)"
| "as_i64 _ = None"

definition add_host_forward :: "bridge_kind option \<Rightarrow> port_forward \<Rightarrow> integration \<Rightarrow> (string + int) \<times> integration" where
  "add_host_forward owner m s =
     io_then (slirp_request s) id (\<lambda>v s.
       case Option.bind (json_get v ''id'') as_i64 of
         None \<Rightarrow> (Inl ''network helper did not return a mapping id'', s)
       | Some i \<Rightarrow> (Inr i, log_event (Route_Added owner m i) s))"

definition remove_host_forward :: "int \<Rightarrow> integration \<Rightarrow> (string + unit) \<times> integration" where
  "remove_host_forward i s = io_then (slirp_request s) id (\<lambda>_ s. (Inr (), log_event (Route_Removed i) s))"

definition remove_media_forward_fail_closed :: "int \<Rightarrow> integration \<Rightarrow> (string + unit) \<times> integration" where
  "remove_media_forward_fail_closed i s =
     (case remove_host_forward i s of
        (Inl e, s) \<Rightarrow> (Inl (''revoking private media mapping failed; private networking was terminated fail-closed: '' @ e),
                        log_event Network_Killed s)
      | (Inr _, s) \<Rightarrow> (Inr (), s))"

definition need_slirp :: "string \<Rightarrow> bool \<Rightarrow> integration \<Rightarrow> (string + unit) \<times> integration" where
  "need_slirp what slirp s = (bail_if (\<not> slirp) (what @ '' require private user-mode networking''), s)"

section \<open>What is wanted\<close>

definition wanted_media :: "media_sharing \<Rightarrow> (bridge_kind \<times> bool \<times> string option) list" where
  "wanted_media m =
     [(Guest_Audio, guest_audio_output m, audio_target m), (Host_Microphone, host_microphone m, microphone_target m),
      (Host_Camera, host_camera m, camera_target m)]"

definition wanted_ports :: "port_direction \<Rightarrow> integration_settings \<Rightarrow> (uuid \<times> port_forward) list" where
  "wanted_ports d r =
     fold (\<lambda>m. btree_insert id (port_id m) m) (filter (\<lambda>m. port_enabled m \<and> direction m = d) (ports r)) []"

definition guest_control_of :: "nat \<Rightarrow> integration_settings \<Rightarrow> guest_control" where
  "guest_control_of g r =
     \<lparr>control_generation = g,
      reverse_ports = filter (\<lambda>m. port_enabled m \<and> direction m = Guest_To_Host) (ports r),
      forward_udp_ports = filter (\<lambda>m. port_enabled m \<and> direction m = Host_To_Guest \<and> protocol m = Udp) (ports r),
      control_media = media r\<rparr>"

section \<open>The state of the guest\<close>

record guest_status =
  status_schema :: nat
  status_generation :: nat
  status_reverse :: "string list"
  status_forward_udp :: "string list"
  status_media :: "(string \<times> nat \<times> bool) list"
  status_error :: "string option"

definition status_failed :: "guest_status \<Rightarrow> bool" where
  "status_failed st \<longleftrightarrow> (case status_error st of None \<Rightarrow> False | Some e \<Rightarrow> e \<noteq> [])"

definition guest_status_matches :: "nat \<Rightarrow> integration_settings \<Rightarrow> guest_status \<Rightarrow> bool" where
  "guest_status_matches g r st \<longleftrightarrow>
     status_schema st = 1 \<and> status_generation st = g \<and> \<not> status_failed st
     \<and> status_reverse st = sort (map port_id (reverse_ports (guest_control_of g r)))
     \<and> status_forward_udp st = sort (map port_id (forward_udp_ports (guest_control_of g r)))
     \<and> length (status_media st) = length (filter (\<lambda>(_, enabled, _). enabled) (wanted_media (media r)))
     \<and> list_all (\<lambda>(k, enabled, _).
          let p = map_of (status_media st) (control_name k) in
          if enabled then (case p of None \<Rightarrow> False | Some (pid, up) \<Rightarrow> up \<and> 0 < pid) else p = None) (wanted_media (media r))"

text \<open>Whether the control file could be read, and the status, if any, that could be read and parsed.\<close>

definition guest_state_matches :: "bool \<Rightarrow> guest_status option \<Rightarrow> integration_settings \<Rightarrow> integration \<Rightarrow> bool" where
  "guest_state_matches readable status r s \<longleftrightarrow>
     readable \<and> control_file s = Some (guest_control_of (generation s) r)
     \<and> (case status of None \<Rightarrow> False | Some st \<Rightarrow> guest_status_matches (generation s) r st)"

definition guest_turn :: "nat \<Rightarrow> integration_settings \<Rightarrow> nat \<Rightarrow> guest_status option \<times> nat \<Rightarrow> (string + unit) option" where
  "guest_turn g r deadline seen =
     (let late = (if deadline \<le> snd seen then Some (Inl ''guest did not converge to integration generation'') else None) in
      case fst seen of
        None \<Rightarrow> late
      | Some st \<Rightarrow>
          if status_schema st = 1 \<and> status_generation st = g then
            if status_failed st then Some (Inl ''guest integration agent rejected generation'')
            else if guest_status_matches g r st then Some (Inr ()) else late
          else late)"

definition wait_for_guest_state ::
    "nat \<Rightarrow> (nat \<Rightarrow> guest_status option \<times> nat) \<Rightarrow> integration_settings \<Rightarrow> integration \<Rightarrow> (string + unit) option" where
  "wait_for_guest_state now seen r s = poll (\<lambda>n. guest_turn (generation s) r (now + 5000) (seen n)) 0"

section \<open>Resources\<close>

text \<open>A relay is active until it is dropped: only dropping it sets its \<open>stop\<close> flag.\<close>

definition relay_is_active :: bool where "relay_is_active = True"

definition media_resources_match :: "(nat \<Rightarrow> bool) \<Rightarrow> media_sharing \<Rightarrow> integration \<Rightarrow> bool" where
  "media_resources_match running m s =
     list_all (\<lambda>(k, enabled, target).
       case bridges s k of
         Some a \<Rightarrow> enabled \<and> bridge_target a = target \<and> running (bridge_pid a)
       | None \<Rightarrow> \<not> enabled) (wanted_media m)"

definition host_resources_match :: "(nat \<Rightarrow> bool) \<Rightarrow> integration_settings \<Rightarrow> integration \<Rightarrow> bool" where
  "host_resources_match running r s \<longleftrightarrow>
     (let h = wanted_ports Host_To_Guest r; g = wanted_ports Guest_To_Host r in
      length (host_forwards s) = length h
      \<and> list_all (\<lambda>(i, a). btree_get id i h = Some (forward_mapping a)
          \<and> (case forward_backend a of Slirp _ \<Rightarrow> True | Udp_Relay \<Rightarrow> relay_is_active)) (host_forwards s)
      \<and> length (reverse_relays s) = length g
      \<and> list_all (\<lambda>(i, m). btree_get id i g = Some m \<and> relay_is_active) (reverse_relays s)
      \<and> media_resources_match running (media r) s)"

section \<open>Revoking media\<close>

record health_obs =
  bridge_exit :: "bridge_kind \<Rightarrow> string + bool"
  health_graph :: "string + json"

definition health_of :: "health_obs \<Rightarrow> bridge_kind \<Rightarrow> active_bridge \<Rightarrow> string option \<times> bool" where
  "health_of h k a =
     (case bridge_exit h k of
        Inl e \<Rightarrow> (Some (''checking '' @ bridge_name k @ '' bridge process health: '' @ e), True)
      | Inr True \<Rightarrow> (None, True)
      | Inr False \<Rightarrow>
          if k = Host_Microphone then
            case health_graph h of
              Inr g \<Rightarrow> (None, microphone_bridge_needs_restart False g (bridge_pid a) (tracking_target a))
            | Inl e \<Rightarrow> (Some e, True)
          else (None, False))"

definition end_bridge :: "bool \<Rightarrow> active_bridge \<Rightarrow> integration \<Rightarrow> integration" where
  "end_bridge exited a s = log_event (if exited then Bridge_Exited (bridge_pid a) else Bridge_Terminated (bridge_pid a)) s"

text \<open>Revoke the bridge of a kind: its process, then its route; the record goes last.\<close>

definition revoke_bridge :: "bool \<Rightarrow> bool \<Rightarrow> bridge_kind \<Rightarrow> active_bridge \<Rightarrow> integration \<Rightarrow> (string + unit) \<times> integration" where
  "revoke_bridge slirp exited k a s =
     io_then (need_slirp ''active media bridges'' slirp (end_bridge exited a s)) id (\<lambda>_ s.
     io_then (remove_media_forward_fail_closed (bridge_route a) s) id (\<lambda>_ s.
     (Inr (), s\<lparr>bridges := (bridges s)(k := None)\<rparr>)))"

fun remove_unhealthy :: "bool \<Rightarrow> health_obs \<Rightarrow> bridge_kind list \<Rightarrow> bool \<Rightarrow> integration \<Rightarrow> (string + bool) \<times> integration" where
  "remove_unhealthy slirp h [] removed s = (Inr removed, s)"
| "remove_unhealthy slirp h (k # ks) removed s =
     (case bridges s k of
        None \<Rightarrow> remove_unhealthy slirp h ks removed s
      | Some a \<Rightarrow>
          let (health_error, unhealthy) = health_of h k a in
          if \<not> unhealthy then remove_unhealthy slirp h ks removed s
          else io_then (revoke_bridge slirp (bridge_exit h k = Inr True) k a s) id (\<lambda>_ s.
            case health_error of
              Some e \<Rightarrow> (Inl (bridge_name k @ '' health could not be continuously verified; the bridge was revoked: '' @ e), s)
            | None \<Rightarrow> remove_unhealthy slirp h ks True s))"

definition remove_unhealthy_media :: "bool \<Rightarrow> health_obs \<Rightarrow> integration \<Rightarrow> (string + bool) \<times> integration" where
  "remove_unhealthy_media slirp h s = remove_unhealthy slirp h [Guest_Audio, Host_Microphone, Host_Camera] False s"

definition bridge_unwanted :: "bool \<Rightarrow> string option \<Rightarrow> active_bridge \<Rightarrow> bool" where
  "bridge_unwanted enabled target a \<longleftrightarrow> \<not> enabled \<or> bridge_target a \<noteq> target"

fun stop_unwanted :: "bool \<Rightarrow> (bridge_kind \<times> bool \<times> string option) list \<Rightarrow> integration \<Rightarrow> (string + unit) \<times> integration" where
  "stop_unwanted slirp [] s = (Inr (), s)"
| "stop_unwanted slirp ((k, enabled, target) # ws) s =
     (case bridges s k of
        None \<Rightarrow> stop_unwanted slirp ws s
      | Some a \<Rightarrow>
          if bridge_unwanted enabled target a then io_then (revoke_bridge slirp False k a s) id (\<lambda>_ s. stop_unwanted slirp ws s)
          else stop_unwanted slirp ws s)"

definition stop_removed_media :: "bool \<Rightarrow> media_sharing \<Rightarrow> integration \<Rightarrow> (string + unit) \<times> integration" where
  "stop_removed_media slirp m s = stop_unwanted slirp (wanted_media m) s"

section \<open>Port mappings\<close>

fun drop_stale :: "bool \<Rightarrow> uuid list \<Rightarrow> integration \<Rightarrow> (string + unit) \<times> integration" where
  "drop_stale slirp [] s = (Inr (), s)"
| "drop_stale slirp (i # is) s =
     (case btree_get id i (host_forwards s) of
        None \<Rightarrow> drop_stale slirp is s
      | Some a \<Rightarrow>
          let s = s\<lparr>host_forwards := filter (\<lambda>(j, _). j \<noteq> i) (host_forwards s)\<rparr> in
          case forward_backend a of
            Slirp r \<Rightarrow>
              io_then (need_slirp ''host-to-guest mappings'' slirp s) id (\<lambda>_ s.
              io_then (remove_host_forward r s) id (\<lambda>_ s. drop_stale slirp is s))
          | Udp_Relay \<Rightarrow> drop_stale slirp is (log_event (Relay_Dropped i) s))"

definition start_backend :: "bool \<Rightarrow> (uuid \<Rightarrow> string + unit) \<Rightarrow> port_forward \<Rightarrow> integration \<Rightarrow> (string + forward_backend) \<times> integration" where
  "start_backend slirp relay m s =
     (case protocol m of
        Tcp \<Rightarrow>
          io_then (need_slirp ''host-to-guest mappings'' slirp s) id (\<lambda>_ s.
          io_then (add_host_forward None m s) id (\<lambda>r s. (Inr (Slirp r), s)))
      | Udp \<Rightarrow> io_then (relay (port_id m), s) id (\<lambda>_ s. (Inr Udp_Relay, log_event (Relay_Started (port_id m)) s)))"

fun add_wanted :: "bool \<Rightarrow> (uuid \<Rightarrow> string + unit) \<Rightarrow> (uuid \<times> port_forward) list \<Rightarrow> integration \<Rightarrow> (string + unit) \<times> integration" where
  "add_wanted slirp relay [] s = (Inr (), s)"
| "add_wanted slirp relay ((i, m) # ws) s =
     (if btree_get id i (host_forwards s) \<noteq> None then add_wanted slirp relay ws s
      else io_then (start_backend slirp relay m s) id (\<lambda>b s.
        add_wanted slirp relay ws
          (s\<lparr>host_forwards := btree_insert id i \<lparr>forward_mapping = m, forward_backend = b\<rparr> (host_forwards s)\<rparr>)))"

definition stale_forwards :: "integration_settings \<Rightarrow> integration \<Rightarrow> uuid list" where
  "stale_forwards r s =
     map fst (filter (\<lambda>(i, a). btree_get id i (wanted_ports Host_To_Guest r) \<noteq> Some (forward_mapping a)) (host_forwards s))"

definition reconcile_forwards :: "bool \<Rightarrow> (uuid \<Rightarrow> string + unit) \<Rightarrow> integration_settings \<Rightarrow> integration \<Rightarrow> (string + unit) \<times> integration" where
  "reconcile_forwards slirp relay r s =
     io_then (drop_stale slirp (stale_forwards r s) s) id (\<lambda>_ s. add_wanted slirp relay (wanted_ports Host_To_Guest r) s)"

fun add_reverse :: "(uuid \<Rightarrow> string + unit) \<Rightarrow> (uuid \<times> port_forward) list \<Rightarrow> integration \<Rightarrow> (string + unit) \<times> integration" where
  "add_reverse relay [] s = (Inr (), s)"
| "add_reverse relay ((i, m) # ws) s =
     (if btree_get id i (reverse_relays s) \<noteq> None then add_reverse relay ws s
      else io_then (relay i, s) id (\<lambda>_ s.
        add_reverse relay ws (log_event (Relay_Started i) (s\<lparr>reverse_relays := btree_insert id i m (reverse_relays s)\<rparr>))))"

definition retain_reverse :: "integration_settings \<Rightarrow> integration \<Rightarrow> integration" where
  "retain_reverse r s =
     (let keep = (\<lambda>(i, m). btree_get id i (wanted_ports Guest_To_Host r) = Some m) in
      s\<lparr>reverse_relays := filter keep (reverse_relays s),
        events := events s @ map (\<lambda>(i, _). Relay_Dropped i) (filter (\<lambda>x. \<not> keep x) (reverse_relays s))\<rparr>)"

definition reconcile_reverse :: "(uuid \<Rightarrow> string + unit) \<Rightarrow> integration_settings \<Rightarrow> integration \<Rightarrow> (string + unit) \<times> integration" where
  "reconcile_reverse relay r s = add_reverse relay (wanted_ports Guest_To_Host r) (retain_reverse r s)"

section \<open>Starting media\<close>

record start_obs =
  pipewire_ready :: "string + unit"
  gst_helper :: "string + unit"
  discovered :: "string + host_media_device list"
  recording_service :: "string + string"
  free_port :: "string + nat"
  route_uuid :: uuid
  open_camera :: "string \<Rightarrow> string + (nat \<Rightarrow> format_answer)"
  spawned :: "string + nat"
  first_wait :: "string + bool"
  tracking_start :: nat
  tracking :: "nat \<Rightarrow> (string + json) \<times> nat"

definition SLIRP_GUEST_ADDRESS :: string where "SLIRP_GUEST_ADDRESS = ''10.0.2.100''"

definition media_mapping :: "uuid \<Rightarrow> bridge_kind \<Rightarrow> nat \<Rightarrow> port_forward" where
  "media_mapping i k port =
     \<lparr>port_id = i, port_enabled = True, direction = Host_To_Guest, protocol = Tcp, host_address = ''127.0.0.1'', host_port = port,
      guest_address = SLIRP_GUEST_ADDRESS, guest_port = bridge_port k\<rparr>"

definition tracking_turn :: "nat \<Rightarrow> string \<Rightarrow> nat \<Rightarrow> (string + json) \<times> nat \<Rightarrow> (string + unit) option" where
  "tracking_turn pid target deadline seen =
     (if (case fst seen of Inr g \<Rightarrow> pipewire_graph_has_tracked_microphone g pid target | Inl _ \<Rightarrow> False) then Some (Inr ())
      else if deadline \<le> snd seen
        then Some (Inl ''host microphone capture did not become a running, desktop-visible recording stream'')
      else None)"

definition wait_for_tracked_microphone :: "start_obs \<Rightarrow> nat \<Rightarrow> string \<Rightarrow> (string + unit) option" where
  "wait_for_tracked_microphone o' pid target =
     poll (\<lambda>n. tracking_turn pid target (tracking_start o' + 5000) (tracking o' n)) 0"

type_synonym 'a run = "((string + 'a) \<times> integration) option"

definition then_run :: "'a run \<Rightarrow> ('a \<Rightarrow> integration \<Rightarrow> 'b run) \<Rightarrow> 'b run" where
  "then_run r f = (case r of None \<Rightarrow> None | Some (Inl e, s) \<Rightarrow> Some (Inl e, s) | Some (Inr x, s) \<Rightarrow> f x s)"

text \<open>Any failure after the route was added revokes it (\<open>PendingSlirpForward\<close>), whatever the helper then says.\<close>

definition abandon :: "int \<Rightarrow> string \<Rightarrow> integration \<Rightarrow> 'a run" where
  "abandon i e s = Some (Inl e, snd (remove_media_forward_fail_closed i s))"

definition terminate_bridge :: "nat \<Rightarrow> integration \<Rightarrow> integration" where
  "terminate_bridge pid s = log_event (Bridge_Terminated pid) s"

definition bridge_record :: "bridge_kind \<Rightarrow> nat \<Rightarrow> int \<Rightarrow> string option \<Rightarrow> host_media_device option \<Rightarrow> active_bridge" where
  "bridge_record k pid i target d =
     \<lparr>bridge_pid = pid, bridge_route = i, bridge_target = target, resolved_device = map_option description d,
      tracking_target = (if k = Host_Microphone then map_option node_name d else None)\<rparr>"

definition prove_bridge ::
    "bridge_kind \<Rightarrow> start_obs \<Rightarrow> string option \<Rightarrow> host_media_device option \<Rightarrow> int \<Rightarrow> nat \<Rightarrow> integration \<Rightarrow> active_bridge run" where
  "prove_bridge k o' target d i pid s =
     (if k \<noteq> Host_Microphone then Some (Inr (bridge_record k pid i target d), s)
      else case d of
        None \<Rightarrow> abandon i ''host microphone selection resolved to no device'' s
      | Some dev \<Rightarrow>
          (case wait_for_tracked_microphone o' pid (node_name dev) of
             None \<Rightarrow> None
           | Some (Inl e) \<Rightarrow> abandon i e (terminate_bridge pid s)
           | Some (Inr _) \<Rightarrow> Some (Inr (bridge_record k pid i target d), s)))"

definition launch_bridge ::
    "bridge_kind \<Rightarrow> start_obs \<Rightarrow> string option \<Rightarrow> host_media_device option \<Rightarrow> string + string list \<Rightarrow> int \<Rightarrow> integration \<Rightarrow> active_bridge run" where
  "launch_bridge k o' target d args i s =
     (case then_ok args (\<lambda>_. spawned o') of
        Inl e \<Rightarrow> abandon i e s
      | Inr pid \<Rightarrow>
          let s = log_event (Bridge_Started k pid) s in
          case first_wait o' of
            Inl e \<Rightarrow> abandon i ''checking media bridge startup'' (terminate_bridge pid s)
          | Inr True \<Rightarrow> abandon i (bridge_name k @ '' bridge exited'') (log_event (Bridge_Exited pid) s)
          | Inr False \<Rightarrow> prove_bridge k o' target d i pid s)"

definition start_media :: "bool \<Rightarrow> bridge_kind \<Rightarrow> start_obs \<Rightarrow> string option \<Rightarrow> integration \<Rightarrow> active_bridge run" where
  "start_media slirp k o' target s =
     then_run (Some (pipewire_ready o', s)) (\<lambda>_ s.
     then_run (Some (need_slirp ''media sharing'' slirp s)) (\<lambda>_ s.
     then_run (Some (gst_helper o', s)) (\<lambda>_ s.
     then_run (Some (resolve_media_device k target (discovered o'), s)) (\<lambda>d s.
     then_run (Some (if k = Host_Microphone then map_sum id Some (recording_service o') else Inr None, s)) (\<lambda>server s.
     then_run (Some (free_port o', s)) (\<lambda>port s.
     then_run (Some (add_host_forward (Some k) (media_mapping (route_uuid o') k port) s)) (\<lambda>i s.
     launch_bridge k o' target d (bridge_arguments k d server port (open_camera o')) i s)))))))"

fun start_wanted :: "bool \<Rightarrow> (bridge_kind \<Rightarrow> start_obs) \<Rightarrow> (bridge_kind \<times> bool \<times> string option) list \<Rightarrow> integration \<Rightarrow> unit run" where
  "start_wanted slirp obs [] s = Some (Inr (), s)"
| "start_wanted slirp obs ((k, enabled, target) # ws) s =
     (if enabled \<and> bridges s k = None
      then then_run (start_media slirp k (obs k) target s) (\<lambda>a s.
             start_wanted slirp obs ws (s\<lparr>bridges := (bridges s)(k := Some a)\<rparr>))
      else start_wanted slirp obs ws s)"

definition start_added_media :: "bool \<Rightarrow> (bridge_kind \<Rightarrow> start_obs) \<Rightarrow> media_sharing \<Rightarrow> integration \<Rightarrow> unit run" where
  "start_added_media slirp obs m s = start_wanted slirp obs (wanted_media m) s"

section \<open>Reconciliation\<close>

text \<open>
  \<open>seen_*\<close>: the control file and the status before the reconciliation, and at its end. Writing the control
  file may fail before or after the new one is in place (its mode is set last).
\<close>

record reconcile_obs =
  health :: health_obs
  running_before :: "nat \<Rightarrow> bool"
  seen_control :: bool
  seen_status :: "guest_status option"
  udp_relay :: "uuid \<Rightarrow> string + unit"
  reverse_relay :: "uuid \<Rightarrow> string + unit"
  control_result :: "string + unit"
  control_replaced :: bool
  wait_begin :: nat
  guest_seen :: "nat \<Rightarrow> guest_status option \<times> nat"
  media_starts :: "bridge_kind \<Rightarrow> start_obs"
  running_after :: "nat \<Rightarrow> bool"
  last_control :: bool
  last_status :: "guest_status option"

definition write_guest_control :: "reconcile_obs \<Rightarrow> integration_settings \<Rightarrow> integration \<Rightarrow> (string + unit) \<times> integration" where
  "write_guest_control o' r s =
     (let c = guest_control_of (generation s) r in
      (control_result o',
       if control_result o' = Inr () \<or> control_replaced o' then log_event (Control_Written c) (s\<lparr>control_file := Some c\<rparr>) else s))"

definition next_generation :: "integration \<Rightarrow> integration" where
  "next_generation s = s\<lparr>generation := sat_add64 (generation s) 1\<rparr>"

definition finish_reconcile :: "reconcile_obs \<Rightarrow> integration_settings \<Rightarrow> integration \<Rightarrow> unit run" where
  "finish_reconcile o' r s =
     (if \<not> host_resources_match (running_after o') r s \<or> \<not> guest_state_matches (last_control o') (last_status o') r s
      then Some (Inl ''integration generation did not converge after reconciliation'', s)
      else Some (Inr (), s\<lparr>applied := r\<rparr>))"

definition apply_settings :: "bool \<Rightarrow> reconcile_obs \<Rightarrow> integration_settings \<Rightarrow> integration \<Rightarrow> unit run" where
  "apply_settings slirp o' r s =
     then_run (Some (reconcile_forwards slirp (udp_relay o') r s)) (\<lambda>_ s.
     then_run (Some (reconcile_reverse (reverse_relay o') r s)) (\<lambda>_ s.
     then_run (Some (write_guest_control o' r (next_generation s))) (\<lambda>_ s.
     then_run (map_option (\<lambda>x. (x, s)) (wait_for_guest_state (wait_begin o') (guest_seen o') r s)) (\<lambda>_ s.
     then_run (start_added_media slirp (media_starts o') (media r) s) (\<lambda>_ s.
     finish_reconcile o' r s)))))"

definition unchanged :: "reconcile_obs \<Rightarrow> integration_settings \<Rightarrow> bool \<Rightarrow> integration \<Rightarrow> bool" where
  "unchanged o' r removed s \<longleftrightarrow>
     applied s = r \<and> \<not> removed \<and> host_resources_match (running_before o') r s
     \<and> guest_state_matches (seen_control o') (seen_status o') r s"

definition reconcile :: "bool \<Rightarrow> reconcile_obs \<Rightarrow> integration_settings \<Rightarrow> integration \<Rightarrow> unit run" where
  "reconcile slirp o' r s =
     then_run (Some (stop_removed_media slirp (media r) s)) (\<lambda>_ s.
     then_run (Some (remove_unhealthy_media slirp (health o') s)) (\<lambda>removed s.
     if unchanged o' r removed s then Some (Inr (), s) else apply_settings slirp o' r s))"

section \<open>Preserving an invariant along a run\<close>

definition keeps_inv :: "(integration \<Rightarrow> bool) \<Rightarrow> 'a run \<Rightarrow> bool" where
  "keeps_inv I r \<longleftrightarrow> (\<forall>x s. r = Some (x, s) \<longrightarrow> I s)"

lemma keeps_inv_Some [simp]: "keeps_inv I (Some (x, s)) = I s"
  by (auto simp: keeps_inv_def)

lemma keeps_inv_None [simp]: "keeps_inv I None"
  by (simp add: keeps_inv_def)

lemma keeps_then_run:
  "keeps_inv I r \<Longrightarrow> (\<And>x s. I s \<Longrightarrow> keeps_inv J (f x s)) \<Longrightarrow> (\<And>s. I s \<Longrightarrow> J s) \<Longrightarrow> keeps_inv J (then_run r f)"
  by (cases r; cases "fst (the r)") (auto simp: keeps_inv_def then_run_def)

lemma keeps_io_then:
  "keeps_inv I (Some r) \<Longrightarrow> (\<And>x s. I s \<Longrightarrow> keeps_inv J (Some (f x s))) \<Longrightarrow> (\<And>s. I s \<Longrightarrow> J s) \<Longrightarrow> keeps_inv J (Some (io_then r g f))"
  by (cases r; cases "fst r") (auto simp: keeps_inv_def)

text \<open>
  An invariant of the events that do not concern it, and of every part of the state but the bridges: the
  helper's answers, the mappings, the relays and the control file.
\<close>

definition frame_inv :: "(integration \<Rightarrow> bool) \<Rightarrow> (event \<Rightarrow> bool) \<Rightarrow> bool" where
  "frame_inv I ok \<longleftrightarrow>
     (\<forall>s s'. I s \<longrightarrow> bridges s' = bridges s \<longrightarrow> events s' = events s \<longrightarrow> I s')
     \<and> (\<forall>s e. I s \<longrightarrow> ok e \<longrightarrow> I (log_event e s))"

lemma frame_same: "frame_inv I ok \<Longrightarrow> I s \<Longrightarrow> bridges s' = bridges s \<Longrightarrow> events s' = events s \<Longrightarrow> I s'"
  by (auto simp: frame_inv_def)

lemma frame_log: "frame_inv I ok \<Longrightarrow> I s \<Longrightarrow> ok e \<Longrightarrow> I (log_event e s)"
  by (auto simp: frame_inv_def)

definition port_event :: "event \<Rightarrow> bool" where
  "port_event e \<longleftrightarrow> (case e of
     Route_Added owner _ _ \<Rightarrow> owner = None | Route_Removed _ \<Rightarrow> True | Relay_Started _ \<Rightarrow> True | Relay_Dropped _ \<Rightarrow> True
   | _ \<Rightarrow> False)"

lemma frame_request: "frame_inv I ok \<Longrightarrow> I s \<Longrightarrow> keeps_inv I (Some (slirp_request s))"
  by (auto simp: keeps_inv_def slirp_request_def split: list.splits sum.splits elim: frame_same)

lemma frame_remove:
  assumes "frame_inv I ok" and "I s" and "ok (Route_Removed i)"
  shows "keeps_inv I (Some (remove_host_forward i s))"
  unfolding remove_host_forward_def
  by (rule keeps_io_then [OF frame_request [OF assms(1,2)]]) (simp_all add: frame_log [OF assms(1) _ assms(3)])

lemma frame_add:
  assumes "frame_inv I ok" and "I s" and "\<And>i. ok (Route_Added owner m i)"
  shows "keeps_inv I (Some (add_host_forward owner m s))"
  unfolding add_host_forward_def
  by (rule keeps_io_then [OF frame_request [OF assms(1,2)]]) (auto split: option.split intro: frame_log [OF assms(1) _ assms(3)])

lemma frame_drop_stale:
  assumes "frame_inv I ok" and "\<And>e. port_event e \<Longrightarrow> ok e"
  shows "I s \<Longrightarrow> keeps_inv I (Some (drop_stale slirp is s))"
proof (induction slirp "is" s rule: drop_stale.induct)
  case (2 slirp i "is" s)
  define t where "t = s\<lparr>host_forwards := filter (\<lambda>(j, _). j \<noteq> i) (host_forwards s)\<rparr>"
  show ?case
  proof (cases "btree_get id i (host_forwards s)")
    case None
    then show ?thesis
      using 2 by simp
  next
    case (Some a)
    note IH = 2(2,3) [OF Some t_def]
    have t: "I t"
      by (rule frame_same [OF assms(1) 2(4)]) (simp_all add: t_def)
    show ?thesis
    proof (cases "forward_backend a")
      case (Slirp r)
      have ok: "keeps_inv I (Some (need_slirp w slirp t))" for w
        using t by (simp add: need_slirp_def)
      have "keeps_inv I (Some (io_then (need_slirp ''host-to-guest mappings'' slirp t) id (\<lambda>_ s.
          io_then (remove_host_forward r s) id (\<lambda>_ s. drop_stale slirp is s))))"
      proof (rule keeps_io_then [OF ok])
        fix x u
        assume "I u"
        show "keeps_inv I (Some (io_then (remove_host_forward r u) id (\<lambda>_ s. drop_stale slirp is s)))"
          by (rule keeps_io_then [OF frame_remove [OF assms(1) \<open>I u\<close> assms(2)]]) (simp_all add: port_event_def IH(1) [OF Slirp])
      qed
      then show ?thesis
        using Some Slirp by (simp add: t_def [symmetric] Let_def)
    next
      case Udp_Relay
      have "keeps_inv I (Some (drop_stale slirp is (log_event (Relay_Dropped i) t)))"
        by (rule IH(2) [OF Udp_Relay frame_log [OF assms(1) t assms(2)]]) (simp add: port_event_def)
      then show ?thesis
        using Some Udp_Relay by (simp add: t_def [symmetric] Let_def)
    qed
  qed
qed simp

lemma frame_backend:
  assumes "frame_inv I ok" and "\<And>e. port_event e \<Longrightarrow> ok e" and "I s"
  shows "keeps_inv I (Some (start_backend slirp relay m s))"
proof (cases "protocol m")
  case Tcp
  have add: "keeps_inv I (Some (add_host_forward None m s))" if "I s" for s
    by (rule frame_add [OF assms(1) that]) (simp add: assms(2) port_event_def)
  have "keeps_inv I (Some (io_then (need_slirp w slirp s) id (\<lambda>_ s. io_then (add_host_forward None m s) id (\<lambda>r s. (Inr (Slirp r), s)))))" for w
    by (rule keeps_io_then [where I = I]) (use assms(3) in \<open>auto simp: need_slirp_def intro!: keeps_io_then [OF add]\<close>)
  then show ?thesis
    using Tcp by (simp add: start_backend_def)
next
  case Udp
  have "keeps_inv I (Some (io_then (relay (port_id m), s) id (\<lambda>_ s. (Inr Udp_Relay, log_event (Relay_Started (port_id m)) s))))"
    by (rule keeps_io_then [where I = I]) (use assms(3) in \<open>auto intro!: frame_log [OF assms(1)] assms(2) simp: port_event_def\<close>)
  then show ?thesis
    using Udp by (simp add: start_backend_def)
qed

lemma frame_add_wanted:
  assumes "frame_inv I ok" and "\<And>e. port_event e \<Longrightarrow> ok e"
  shows "I s \<Longrightarrow> keeps_inv I (Some (add_wanted slirp relay ws s))"
proof (induction slirp relay ws s rule: add_wanted.induct)
  case (2 slirp relay i m ws s)
  show ?case
  proof (cases "btree_get id i (host_forwards s)")
    case None
    have "keeps_inv I (Some (io_then (start_backend slirp relay m s) id (\<lambda>b s. add_wanted slirp relay ws
          (s\<lparr>host_forwards := btree_insert id i \<lparr>forward_mapping = m, forward_backend = b\<rparr> (host_forwards s)\<rparr>))))"
      by (rule keeps_io_then [OF frame_backend [OF assms 2(3)]])
        (use None in \<open>auto intro!: 2(2) elim!: frame_same [OF assms(1)]\<close>)
    then show ?thesis
      using None by simp
  qed (use 2 in simp)
qed simp

lemma frame_forwards:
  assumes "frame_inv I ok" and "\<And>e. port_event e \<Longrightarrow> ok e" and "I s"
  shows "keeps_inv I (Some (reconcile_forwards slirp relay r s))"
  unfolding reconcile_forwards_def
  by (rule keeps_io_then [OF frame_drop_stale [OF assms]]) (simp_all add: frame_add_wanted [OF assms(1,2)])

lemma frame_add_reverse:
  assumes "frame_inv I ok" and "\<And>e. port_event e \<Longrightarrow> ok e"
  shows "I s \<Longrightarrow> keeps_inv I (Some (add_reverse relay ws s))"
proof (induction relay ws s rule: add_reverse.induct)
  case (2 relay i m ws s)
  show ?case
  proof (cases "btree_get id i (reverse_relays s)")
    case None
    have ok: "ok (Relay_Started i)"
      by (rule assms(2)) (simp add: port_event_def)
    have step: "I (log_event (Relay_Started i) (t\<lparr>reverse_relays := x\<rparr>))" if "I t" for t x
      by (rule frame_log [OF assms(1) _ ok]) (rule frame_same [OF assms(1) that], simp_all)
    have "keeps_inv I (Some (io_then (relay i, s) id (\<lambda>_ s. add_reverse relay ws
        (log_event (Relay_Started i) (s\<lparr>reverse_relays := btree_insert id i m (reverse_relays s)\<rparr>)))))"
      by (rule keeps_io_then [where I = I]) (use None 2(3) in \<open>auto intro!: 2(2) step\<close>)
    then show ?thesis
      using None by simp
  qed (use 2 in simp)
qed simp

lemma frame_events:
  assumes "frame_inv I ok" and "list_all ok es" and "I s" and "bridges s' = bridges s" and "events s' = events s @ es"
  shows "I s'"
  using assms(2,4,5)
proof (induction es arbitrary: s' rule: rev_induct)
  case Nil
  then show ?case
    by (intro frame_same [OF assms(1,3)]) simp_all
next
  case (snoc e es)
  have "I (s'\<lparr>events := events s @ es\<rparr>)"
    by (rule snoc.IH) (use snoc.prems in simp_all)
  then have "I (log_event e (s'\<lparr>events := events s @ es\<rparr>))"
    by (rule frame_log [OF assms(1)]) (use snoc.prems in simp)
  then show ?case
    by (rule frame_same [OF assms(1)]) (use snoc.prems in \<open>simp_all add: log_event_def\<close>)
qed

lemma frame_reverse:
  assumes "frame_inv I ok" and "\<And>e. port_event e \<Longrightarrow> ok e" and "I s"
  shows "keeps_inv I (Some (reconcile_reverse relay r s))"
  unfolding reconcile_reverse_def
  by (rule frame_add_reverse [OF assms(1,2)], assumption, rule frame_events [OF assms(1) _ assms(3)])
    (auto simp: retain_reverse_def Let_def list_all_iff port_event_def intro!: assms(2))

lemma frame_control:
  assumes "frame_inv I ok" and ok: "\<And>c. ok (Control_Written c)" and "I s"
  shows "keeps_inv I (Some (write_guest_control o' r (next_generation s)))"
proof -
  have "I (next_generation s)"
    by (rule frame_same [OF assms(1,3)]) (simp_all add: next_generation_def)
  moreover have "I (log_event (Control_Written c) (next_generation s\<lparr>control_file := x\<rparr>))" for c x
    by (rule frame_log [OF assms(1) _ ok], rule frame_same [OF assms(1,3)]) (simp_all add: next_generation_def)
  ultimately show ?thesis
    by (simp add: write_guest_control_def Let_def)
qed

section \<open>No route and no process without a record\<close>

fun route_step :: "event \<Rightarrow> int set \<Rightarrow> int set" where
  "route_step (Route_Added (Some k) m i) R = insert i R"
| "route_step (Route_Removed i) R = R - {i}"
| "route_step _ R = R"

definition media_routes :: "event list \<Rightarrow> int set" where
  "media_routes es = fold route_step es {}"

fun live_step :: "event \<Rightarrow> nat set \<Rightarrow> nat set" where
  "live_step (Bridge_Started k p) L = insert p L"
| "live_step (Bridge_Exited p) L = L - {p}"
| "live_step (Bridge_Terminated p) L = L - {p}"
| "live_step _ L = L"

definition live_bridges :: "event list \<Rightarrow> nat set" where
  "live_bridges es = fold live_step es {}"

lemma append_steps [simp]:
  "media_routes (es @ fs) = fold route_step fs (media_routes es)" "live_bridges (es @ fs) = fold live_step fs (live_bridges es)"
  by (simp_all add: media_routes_def live_bridges_def)

definition routes_of :: "integration \<Rightarrow> int set" where
  "routes_of s = {bridge_route a | k a. bridges s k = Some a}"

definition pids_of :: "integration \<Rightarrow> nat set" where
  "pids_of s = {bridge_pid a | k a. bridges s k = Some a}"

text \<open>With the route and the process that a bridge being started holds already.\<close>

definition owned :: "int set \<Rightarrow> nat set \<Rightarrow> integration \<Rightarrow> bool" where
  "owned X Y s \<longleftrightarrow>
     (Network_Killed \<in> set (events s) \<or> media_routes (events s) \<subseteq> routes_of s \<union> X) \<and> live_bridges (events s) \<subseteq> pids_of s \<union> Y"

lemma owned_frame: "frame_inv (owned X Y) (\<lambda>e. port_event e \<or> (\<exists>c. e = Control_Written c))"
proof -
  have "live_step e L \<subseteq> L" "route_step e R \<subseteq> R" if "port_event e \<or> (\<exists>c. e = Control_Written c)" for e L R
    using that by (cases e; auto simp: port_event_def)+
  then show ?thesis
    unfolding frame_inv_def owned_def log_event_def routes_of_def pids_of_def
    by (auto simp del: Un_iff) (blast+)
qed

lemma owned_mono: "owned X Y s \<Longrightarrow> X \<subseteq> X' \<Longrightarrow> Y \<subseteq> Y' \<Longrightarrow> owned X' Y' s"
  unfolding owned_def by blast

lemma owned_logs:
  "owned X (insert p Y) s \<Longrightarrow> owned X Y (log_event (Bridge_Exited p) s)"
  "owned X (insert p Y) s \<Longrightarrow> owned X Y (log_event (Bridge_Terminated p) s)"
  "owned X Y s \<Longrightarrow> owned X (insert p Y) (log_event (Bridge_Started k p) s)"
  by (auto simp: owned_def log_event_def routes_of_def pids_of_def)

lemma owned_end: "owned X Y s \<Longrightarrow> owned X Y (end_bridge exited a s)"
  unfolding end_bridge_def using owned_mono [of X Y s X "insert (bridge_pid a) Y"] by (auto intro: owned_logs)

lemma owned_fail_closed:
  assumes "owned (insert i X) Y s"
  shows "keeps_inv (owned X Y) (Some (remove_media_forward_fail_closed i s))"
proof -
  obtain x t where q: "slirp_request s = (x, t)"
    by force
  then have t: "events t = events s" "bridges t = bridges s"
    by (auto simp: slirp_request_def split: list.splits sum.splits)
  show ?thesis
    using assms t by (cases x) (auto simp: q remove_media_forward_fail_closed_def remove_host_forward_def
        owned_def log_event_def routes_of_def pids_of_def)
qed

lemma owned_revoke:
  assumes "owned {} {} s" and "bridges s k = Some a"
  shows "keeps_inv (owned {} {}) (Some (revoke_bridge slirp exited k a s))"
proof -
  define u where "u = end_bridge exited a s"
  obtain x t where q: "slirp_request u = (x, t)"
    by force
  then have t: "events t = events s @ [if exited then Bridge_Exited (bridge_pid a) else Bridge_Terminated (bridge_pid a)]" "bridges t = bridges s"
    by (auto simp: slirp_request_def u_def end_bridge_def log_event_def split: list.splits sum.splits)
  have u: "owned {} {} u"
    unfolding u_def by (rule owned_end [OF assms(1)])
  define v where "v = log_event (Route_Removed (bridge_route a)) t\<lparr>bridges := (bridges s)(k := None)\<rparr>"
  have routes: "routes_of s \<subseteq> insert (bridge_route a) (routes_of v)" "pids_of s \<subseteq> insert (bridge_pid a) (pids_of v)"
    using assms(2) by (auto simp: routes_of_def pids_of_def v_def) (metis option.inject)+
  have evs: "media_routes (events v) = media_routes (events s) - {bridge_route a}"
    "live_bridges (events v) = live_bridges (events s) - {bridge_pid a}" "set (events s) \<subseteq> set (events v)"
    by (auto simp: v_def log_event_def t)
  have "owned {} {} (log_event e t)" if "e \<in> {Network_Killed, Route_Removed (bridge_route a)}" for e
    using that assms(1) t by (auto simp: owned_def log_event_def routes_of_def pids_of_def)
  moreover have "owned {} {} v"
    using assms(1) routes evs(3) unfolding owned_def evs(1,2) by blast
  ultimately show ?thesis
    using u q t(2) by (cases slirp; cases x)
      (auto simp: revoke_bridge_def need_slirp_def remove_media_forward_fail_closed_def remove_host_forward_def u_def [symmetric] v_def log_event_def)
qed

lemma owned_stop: "owned {} {} s \<Longrightarrow> keeps_inv (owned {} {}) (Some (stop_unwanted slirp ws s))"
proof (induction slirp ws s rule: stop_unwanted.induct)
  case (2 slirp k enabled target ws s)
  show ?case
  proof (cases "bridges s k")
    case (Some a)
    then show ?thesis
      using 2 by (auto intro!: keeps_io_then [OF owned_revoke])
  qed (use 2 in simp)
qed simp

lemma owned_unhealthy: "owned {} {} s \<Longrightarrow> keeps_inv (owned {} {}) (Some (remove_unhealthy slirp h ks removed s))"
proof (induction slirp h ks removed s rule: remove_unhealthy.induct)
  case (2 slirp h k ks removed s)
  show ?case
  proof (cases "bridges s k")
    case (Some a)
    obtain e bad where h: "health_of h k a = (e, bad)"
      by force
    have "keeps_inv (owned {} {}) (Some (io_then (revoke_bridge slirp (bridge_exit h k = Inr True) k a s) id (\<lambda>_ s.
        case e of Some e \<Rightarrow> (Inl (bridge_name k @ '' health could not be continuously verified; the bridge was revoked: '' @ e), s)
        | None \<Rightarrow> remove_unhealthy slirp h ks True s)))" if "bad"
      by (rule keeps_io_then [OF owned_revoke [OF 2(4) Some]])
        (use 2(3) [OF Some h [symmetric]] that h in \<open>auto split: option.split\<close>)
    then show ?thesis
      using 2 Some h by (auto simp: Let_def)
  qed (use 2 in simp)
qed simp

text \<open>What starting a bridge leaves: its route and process when it succeeds, nothing otherwise.\<close>

definition started :: "(bridge_kind \<Rightarrow> active_bridge option) \<Rightarrow> active_bridge run \<Rightarrow> bool" where
  "started B r \<longleftrightarrow>
     (\<forall>x s. r = Some (x, s) \<longrightarrow> bridges s = B \<and>
       (case x of Inl e \<Rightarrow> owned {} {} s | Inr a \<Rightarrow> owned {bridge_route a} {bridge_pid a} s))"

lemma bridges_request: "bridges (snd (slirp_request s)) = bridges s"
  by (auto simp: slirp_request_def split: list.split sum.split)

lemma bridges_fail_closed: "bridges (snd (remove_media_forward_fail_closed i s)) = bridges s"
  using bridges_request [of s] by (cases "slirp_request s"; cases "fst (slirp_request s)")
    (auto simp: remove_media_forward_fail_closed_def remove_host_forward_def log_event_def)

lemma started_abandon:
  assumes "owned {i} {} s"
  shows "started (bridges s) (abandon i e s)"
  using owned_fail_closed [of i "{}" "{}" s] assms bridges_fail_closed [of i s]
  by (cases "remove_media_forward_fail_closed i s") (simp add: started_def abandon_def)

lemma started_prove:
  assumes "owned {i} {pid} s" and "k = Host_Microphone \<Longrightarrow> d \<noteq> None"
  shows "started (bridges s) (prove_bridge k o' target d i pid s)"
proof -
  have t: "owned {i} {} (terminate_bridge pid s)"
    unfolding terminate_bridge_def by (rule owned_logs) (use assms in simp)
  have b: "bridges (terminate_bridge pid s) = bridges s"
    by (simp add: terminate_bridge_def log_event_def)
  have r: "started (bridges s) (Some (Inr (bridge_record k pid i target d), s))"
    using assms by (simp add: started_def bridge_record_def)
  show ?thesis
  proof (cases "k = Host_Microphone")
    case True
    then obtain dev where "d = Some dev"
      using assms(2) by auto
    then show ?thesis
      using True r started_abandon [OF t, unfolded b] by (auto simp: prove_bridge_def started_def split: option.split sum.split)
  qed (use r in \<open>simp add: prove_bridge_def\<close>)
qed

lemma started_launch:
  assumes "owned {i} {} s"
  shows "started (bridges s) (launch_bridge k o' target d (bridge_arguments k d server port cam) i s)"
proof (cases "then_ok (bridge_arguments k d server port cam) (\<lambda>_. spawned o')")
  case (Inl e)
  then show ?thesis
    using started_abandon [OF assms] by (simp add: launch_bridge_def)
next
  case (Inr pid)
  then have d: "k = Host_Microphone \<Longrightarrow> d \<noteq> None"
    by (auto simp: bridge_arguments_def then_ok_eq_Inr ok_or_eq_Inr)
  define u where "u = log_event (Bridge_Started k pid) s"
  have u: "owned {i} {pid} u" and b: "bridges u = bridges s"
    using owned_logs(3) [OF assms] by (simp_all add: u_def log_event_def)
  have ends: "started (bridges s) (abandon i e (terminate_bridge pid u))" "started (bridges s) (abandon i e (log_event (Bridge_Exited pid) u))" for e
    using started_abandon [OF owned_logs(1) [OF u]] started_abandon [OF owned_logs(2) [OF u]] b
    by (simp_all add: terminate_bridge_def log_event_def)
  show ?thesis
    using Inr ends started_prove [OF u d, unfolded b]
    by (auto simp: launch_bridge_def u_def [symmetric] Let_def split: sum.split bool.split)
qed

lemma started_media:
  assumes "owned {} {} s"
  shows "started (bridges s) (start_media slirp k o' target s)"
proof -
  have fail: "started (bridges s) (Some (Inl e, s))" for e
    using assms by (simp add: started_def)
  have add: "started (bridges s) (then_run (Some (add_host_forward (Some k) m s)) (\<lambda>i s.
      launch_bridge k o' target d (bridge_arguments k d server port cam) i s))" for m d server port cam
  proof -
    obtain x t where q: "slirp_request s = (x, t)"
      by force
    then have t: "bridges t = bridges s" "events t = events s"
      by (auto simp: slirp_request_def split: list.splits sum.splits)
    have o: "owned {} {} t"
      by (rule frame_same [OF owned_frame assms t])
    have a: "owned {i} {} (log_event (Route_Added (Some k) m i) t)" for i
      using o by (auto simp: owned_def log_event_def routes_of_def pids_of_def)
    have b: "bridges (log_event e t) = bridges s" for e
      using t by (simp add: log_event_def)
    have "started (bridges s) (launch_bridge k o' target d (bridge_arguments k d server port cam) i (log_event (Route_Added (Some k) m i) t))" for i
      using started_launch [OF a] unfolding b .
    then show ?thesis
      using o t by (cases x) (auto simp: q add_host_forward_def then_run_def started_def split: option.splits)
  qed
  have step: "started (bridges s) (then_run (Some (r, s)) f)" if "\<And>x. r = Inr x \<Longrightarrow> started (bridges s) (f x s)" for r :: "string + 'x" and f
    using that fail by (cases r) (simp_all add: then_run_def)
  show ?thesis
    unfolding start_media_def need_slirp_def by (intro step add)
qed

lemma owned_record:
  assumes "owned {bridge_route a} {bridge_pid a} s" and "bridges s k = None"
  shows "owned {} {} (s\<lparr>bridges := (bridges s)(k := Some a)\<rparr>)"
proof -
  define v where "v = s\<lparr>bridges := (bridges s)(k := Some a)\<rparr>"
  have e: "events v = events s"
    by (simp add: v_def)
  have "insert (bridge_route a) (routes_of s) \<subseteq> routes_of v" "insert (bridge_pid a) (pids_of s) \<subseteq> pids_of v"
    using assms(2) by (auto simp: routes_of_def pids_of_def v_def) (metis option.distinct(1))+
  then have "owned {} {} v"
    using assms(1) unfolding owned_def e by blast
  then show ?thesis
    by (simp only: v_def)
qed

lemma owned_start: "owned {} {} s \<Longrightarrow> keeps_inv (owned {} {}) (start_wanted slirp obs ws s)"
proof (induction slirp obs ws s rule: start_wanted.induct)
  case (2 slirp obs k enabled target ws s)
  show ?case
  proof (cases "enabled \<and> bridges s k = None")
    case True
    note st = started_media [OF 2(3), of slirp k "obs k" target]
    show ?thesis
    proof (cases "start_media slirp k (obs k) target s")
      case None
      then show ?thesis
        using True by (simp add: then_run_def)
    next
      case (Some y)
      obtain x t where y: "y = (x, t)"
        by force
      show ?thesis
      proof (cases x)
        case (Inl e)
        then show ?thesis
          using st True Some y by (simp add: started_def then_run_def)
      next
        case (Inr a)
        have "owned {} {} (t\<lparr>bridges := (bridges t)(k := Some a)\<rparr>)"
          by (rule owned_record) (use st True Some y Inr in \<open>simp_all add: started_def\<close>)
        then show ?thesis
          using True Some y Inr 2(1) by (simp add: then_run_def)
      qed
    qed
  qed (use 2 in auto)
qed simp

lemma owned_finish: "owned {} {} s \<Longrightarrow> keeps_inv (owned {} {}) (finish_reconcile o' r s)"
  by (auto simp: finish_reconcile_def intro: frame_same [OF owned_frame])

lemma owned_apply: "owned {} {} s \<Longrightarrow> keeps_inv (owned {} {}) (apply_settings slirp o' r s)"
  unfolding apply_settings_def start_added_media_def
  by (intro keeps_then_run [where I = "owned {} {}"] frame_forwards [OF owned_frame] frame_reverse [OF owned_frame]
      frame_control [OF owned_frame] owned_start owned_finish; (assumption)?)
    (auto simp: keeps_inv_def port_event_def)

lemma owned_reconcile: "owned {} {} s \<Longrightarrow> keeps_inv (owned {} {}) (reconcile slirp o' r s)"
  unfolding reconcile_def stop_removed_media_def remove_unhealthy_media_def
  by (intro keeps_then_run [where I = "owned {} {}"] owned_stop owned_unhealthy) (auto intro: owned_apply)

text \<open>The runtime of a session: any number of reconciliations, whatever is observed and whatever they end in.\<close>

inductive session_runtime :: "integration \<Rightarrow> bool" where
  session_new: "session_runtime (integration_new control replies)"
| session_reconcile: "session_runtime s \<Longrightarrow> reconcile slirp o' r s = Some (x, s') \<Longrightarrow> session_runtime s'"


section \<open>Properties of the events\<close>

lemma keeps_then_run_strong:
  "keeps_inv I r \<Longrightarrow> (\<And>x s. r = Some (Inr x, s) \<Longrightarrow> I s \<Longrightarrow> keeps_inv J (f x s)) \<Longrightarrow> (\<And>s. I s \<Longrightarrow> J s) \<Longrightarrow> keeps_inv J (then_run r f)"
  by (cases r; cases "fst (the r)") (auto simp: keeps_inv_def then_run_def)

definition closed_under :: "(event list \<Rightarrow> bool) \<Rightarrow> (event \<Rightarrow> bool) \<Rightarrow> bool" where
  "closed_under P ok \<longleftrightarrow> (\<forall>es e. P es \<longrightarrow> ok e \<longrightarrow> P (es @ [e]))"

lemma closed_log: "closed_under P ok \<Longrightarrow> P (events s) \<Longrightarrow> ok e \<Longrightarrow> P (events (log_event e s))"
  by (simp add: closed_under_def log_event_def)

lemma closed_frame: "closed_under P ok \<Longrightarrow> frame_inv (\<lambda>s. P (events s)) ok"
  by (auto simp: frame_inv_def closed_under_def log_event_def)

text \<open>Everything but a bridge that starts and the control file that is written.\<close>

fun quiet :: "event \<Rightarrow> bool" where
  "quiet (Bridge_Started k p) = False"
| "quiet (Control_Written c) = False"
| "quiet _ = True"

definition passes :: "bool \<Rightarrow> event \<Rightarrow> bool" where
  "passes control e \<longleftrightarrow> quiet e \<or> control \<and> (\<exists>c. e = Control_Written c)"

lemma closed_fail_closed:
  assumes "closed_under P ok" and "\<And>e. quiet e \<Longrightarrow> ok e" and "P (events s)"
  shows "keeps_inv (\<lambda>s. P (events s)) (Some (remove_media_forward_fail_closed i s))"
  using frame_remove [OF closed_frame [OF assms(1)], of s i] assms(2,3) closed_log [OF assms(1), of _ Network_Killed]
  by (cases "remove_host_forward i s"; cases "fst (remove_host_forward i s)") (auto simp: remove_media_forward_fail_closed_def)

lemma closed_revoke:
  assumes "closed_under P ok" and "\<And>e. quiet e \<Longrightarrow> ok e" and "P (events s)"
  shows "keeps_inv (\<lambda>s. P (events s)) (Some (revoke_bridge slirp exited k a s))"
proof -
  have "P (events (end_bridge exited a s))"
    using assms(2) by (auto simp: end_bridge_def intro!: closed_log [OF assms(1,3)])
  then have need: "keeps_inv (\<lambda>s. P (events s)) (Some (need_slirp w slirp (end_bridge exited a s)))" for w
    by (simp add: need_slirp_def)
  show ?thesis
    unfolding revoke_bridge_def
    by (rule keeps_io_then [OF need]) (auto intro!: keeps_io_then [OF closed_fail_closed [OF assms(1,2)]])
qed

lemma closed_stop:
  assumes "closed_under P ok" and "\<And>e. quiet e \<Longrightarrow> ok e"
  shows "P (events s) \<Longrightarrow> keeps_inv (\<lambda>s. P (events s)) (Some (stop_unwanted slirp ws s))"
proof (induction slirp ws s rule: stop_unwanted.induct)
  case (2 slirp k enabled target ws s)
  then show ?case
    by (cases "bridges s k") (auto intro!: keeps_io_then [OF closed_revoke [OF assms]])
qed simp

lemma closed_unhealthy:
  assumes "closed_under P ok" and "\<And>e. quiet e \<Longrightarrow> ok e"
  shows "P (events s) \<Longrightarrow> keeps_inv (\<lambda>s. P (events s)) (Some (remove_unhealthy slirp h ks removed s))"
proof (induction slirp h ks removed s rule: remove_unhealthy.induct)
  case (2 slirp h k ks removed s)
  show ?case
  proof (cases "bridges s k")
    case (Some a)
    obtain e bad where h: "health_of h k a = (e, bad)"
      by force
    have "keeps_inv (\<lambda>s. P (events s)) (Some (io_then (revoke_bridge slirp (bridge_exit h k = Inr True) k a s) id (\<lambda>_ s.
        case e of Some e \<Rightarrow> (Inl (bridge_name k @ '' health could not be continuously verified; the bridge was revoked: '' @ e), s)
        | None \<Rightarrow> remove_unhealthy slirp h ks True s)))" if "bad"
      by (rule keeps_io_then [OF closed_revoke [OF assms 2(4)]])
        (use 2(3) [OF Some h [symmetric]] that h in \<open>auto split: option.split\<close>)
    then show ?thesis
      using 2 Some h by (auto simp: Let_def)
  qed (use 2 in simp)
qed simp

lemma closed_abandon:
  assumes "closed_under P ok" and "\<And>e. quiet e \<Longrightarrow> ok e" and "P (events s)"
  shows "keeps_inv (\<lambda>s. P (events s)) (abandon i e s)"
  using closed_fail_closed [OF assms, of i] by (cases "remove_media_forward_fail_closed i s") (simp add: abandon_def)

lemma closed_launch:
  assumes "closed_under P ok" and "\<And>e. quiet e \<Longrightarrow> ok e" and "\<And>p. ok (Bridge_Started k p)" and "P (events s)"
  shows "keeps_inv (\<lambda>s. P (events s)) (launch_bridge k o' target d args i s)"
proof (cases "then_ok args (\<lambda>_. spawned o')")
  case (Inl e)
  then show ?thesis
    using closed_abandon [OF assms(1,2,4)] by (simp add: launch_bridge_def)
next
  case (Inr pid)
  define u where "u = log_event (Bridge_Started k pid) s"
  have u: "P (events u)"
    unfolding u_def by (rule closed_log [OF assms(1,4,3)])
  have ends: "keeps_inv (\<lambda>s. P (events s)) (abandon i e t)" if "t \<in> {u, terminate_bridge pid u, log_event (Bridge_Exited pid) u}" for e t
  proof (rule closed_abandon [OF assms(1,2)])
    show "P (events t)"
      using that u by (auto simp: terminate_bridge_def intro!: closed_log [OF assms(1)] assms(2))
  qed
  have "keeps_inv (\<lambda>s. P (events s)) (prove_bridge k o' target d i pid u)"
    using u ends by (auto simp: prove_bridge_def split: option.split sum.split)
  then show ?thesis
    using Inr ends by (auto simp: launch_bridge_def u_def [symmetric] Let_def split: sum.split bool.split)
qed

lemma closed_start_media:
  assumes "closed_under P ok" and "\<And>e. quiet e \<Longrightarrow> ok e" and "\<And>p. ok (Bridge_Started k p)" and "P (events s)"
  shows "keeps_inv (\<lambda>s. P (events s)) (start_media slirp k o' target s)"
proof -
  have step: "keeps_inv (\<lambda>s. P (events s)) (then_run (Some (r, s)) f)"
    if "\<And>x. r = Inr x \<Longrightarrow> keeps_inv (\<lambda>s. P (events s)) (f x s)" for r :: "string + 'x" and f
    using that assms(4) by (cases r) (simp_all add: then_run_def)
  have "keeps_inv (\<lambda>s. P (events s)) (Some (add_host_forward (Some k) m s))" for m
    by (rule frame_add [OF closed_frame [OF assms(1)] assms(4)]) (simp add: assms(2))
  from keeps_then_run [OF this closed_launch [OF assms(1-3)]] show ?thesis
    unfolding start_media_def need_slirp_def by (intro step) simp
qed

lemma closed_start:
  assumes "closed_under P ok" and "\<And>e. quiet e \<Longrightarrow> ok e" and "\<And>k t p. (k, True, t) \<in> set ws \<Longrightarrow> ok (Bridge_Started k p)"
    and "P (events s)"
  shows "keeps_inv (\<lambda>s. P (events s)) (start_wanted slirp obs ws s)"
  using assms(3,4)
proof (induction ws arbitrary: s)
  case (Cons w ws)
  obtain k enabled target where w: "w = (k, enabled, target)"
    by (metis prod_cases3)
  note IH = Cons.IH [OF Cons.prems(1) [OF list.set_intros(2)]]
  show ?case
  proof (cases "enabled \<and> bridges s k = None")
    case True
    have "keeps_inv (\<lambda>s. P (events s)) (start_media slirp k (obs k) target s)"
      by (rule closed_start_media [OF assms(1,2)]) (use Cons.prems True w in auto)
    then show ?thesis
      using True w by (auto intro!: keeps_then_run [OF _ IH])
  qed (use IH Cons.prems(2) w in auto)
qed simp

section \<open>Revoked first, started last\<close>

definition media_enabled :: "media_sharing \<Rightarrow> bridge_kind \<Rightarrow> bool" where
  "media_enabled m k =
     (case k of Guest_Audio \<Rightarrow> guest_audio_output m | Host_Microphone \<Rightarrow> host_microphone m | Host_Camera \<Rightarrow> host_camera m)"

definition media_target :: "media_sharing \<Rightarrow> bridge_kind \<Rightarrow> string option" where
  "media_target m k =
     (case k of Guest_Audio \<Rightarrow> audio_target m | Host_Microphone \<Rightarrow> microphone_target m | Host_Camera \<Rightarrow> camera_target m)"

lemma wanted_iff: "(k, e, t) \<in> set (wanted_media m) \<longleftrightarrow> e = media_enabled m k \<and> t = media_target m k"
  by (cases k) (auto simp: wanted_media_def media_enabled_def media_target_def)

lemma distinct_wanted: "distinct (map fst (wanted_media m))"
  by (simp add: wanted_media_def)

lemma closed_since: "closed_under (\<lambda>es. \<exists>xs. es = l @ xs \<and> (\<forall>e \<in> set xs. ok e)) ok"
  unfolding closed_under_def
proof (intro allI impI)
  fix es e
  assume "\<exists>xs. es = l @ xs \<and> (\<forall>e \<in> set xs. ok e)" and "ok e"
  then obtain xs where "es = l @ xs" "\<forall>e \<in> set xs. ok e"
    by blast
  with \<open>ok e\<close> show "\<exists>xs. es @ [e] = l @ xs \<and> (\<forall>e \<in> set xs. ok e)"
    by (intro exI [of _ "xs @ [e]"]) simp
qed

lemma closed_grows: "closed_under (\<lambda>es. \<exists>xs. es = l @ xs \<and> x \<in> set xs) (\<lambda>_. True)"
  by (force simp: closed_under_def)

lemma revoke_terminates:
  assumes "revoke_bridge slirp False k a s = (x, s')"
  shows "\<exists>xs. events s' = events s @ Bridge_Terminated (bridge_pid a) # xs
    \<and> (if x = Inr () then bridges s' = (bridges s)(k := None) else \<not> slirp \<or> Network_Killed \<in> set xs)"
proof -
  define u where "u = end_bridge False a s"
  obtain y t where q: "slirp_request u = (y, t)"
    by force
  then have t: "events t = events s @ [Bridge_Terminated (bridge_pid a)]" "bridges t = bridges s"
    by (auto simp: slirp_request_def u_def end_bridge_def log_event_def split: list.splits sum.splits)
  have u: "events u = events s @ [Bridge_Terminated (bridge_pid a)]"
    by (simp add: u_def end_bridge_def log_event_def)
  show ?thesis
    using assms q t u by (cases slirp; cases y)
      (auto simp: revoke_bridge_def need_slirp_def remove_media_forward_fail_closed_def remove_host_forward_def u_def [symmetric]
        log_event_def)
qed

lemma stop_terminates:
  assumes "stop_unwanted slirp ws s = (x, s')" and "distinct (map fst ws)" and "(k, e, t) \<in> set ws"
    and "bridges s k = Some a" and "bridge_unwanted e t a"
  shows "\<exists>xs. events s' = events s @ xs \<and> (Bridge_Terminated (bridge_pid a) \<in> set xs \<or> Network_Killed \<in> set xs \<or> \<not> slirp)"
  using assms
proof (induction ws arbitrary: s)
  case (Cons w ws)
  obtain j e' t' where w: "w = (j, e', t')"
    by (metis prod_cases3)
  have grows: "\<exists>xs. events s' = events u @ xs" if "stop_unwanted slirp ws u = (x, s')" for u
    using closed_stop [OF closed_since [of "events u" "\<lambda>_. True"], of u slirp ws] that by (auto simp: keeps_inv_def)
  show ?case
  proof (cases "\<exists>b. bridges s j = Some b \<and> bridge_unwanted e' t' b")
    case False
    then have "stop_unwanted slirp ws s = (x, s')" "(k, e, t) \<in> set ws"
      using Cons.prems w by (auto split: option.splits)
    then show ?thesis
      using Cons.IH [of s] Cons.prems w by simp
  next
    case True
    then obtain b where b: "bridges s j = Some b" "bridge_unwanted e' t' b"
      by blast
    obtain y u where u: "revoke_bridge slirp False j b s = (y, u)"
      by force
    from revoke_terminates [OF this] obtain xs where xs: "events u = events s @ Bridge_Terminated (bridge_pid b) # xs"
      "if y = Inr () then bridges u = (bridges s)(j := None) else \<not> slirp \<or> Network_Killed \<in> set xs"
      by blast
    show ?thesis
    proof (cases y)
      case (Inl e)
      then have "s' = u"
        using Cons.prems(1) w b u by simp
      then show ?thesis
        using xs Inl by auto
    next
      case (Inr v)
      then have rest: "stop_unwanted slirp ws u = (x, s')"
        using Cons.prems(1) w b u by simp
      show ?thesis
      proof (cases "k = j")
        case True
        then have "a = b"
          using b Cons.prems(4) by simp
        then show ?thesis
          using grows [OF rest] xs(1) by auto
      next
        case False
        then have "\<exists>ys. events s' = events u @ ys \<and> (Bridge_Terminated (bridge_pid a) \<in> set ys \<or> Network_Killed \<in> set ys \<or> \<not> slirp)"
          using Cons.prems w xs(2) Inr by (intro Cons.IH [OF rest]) auto
        then show ?thesis
          using xs(1) by auto
      qed
    qed
  qed
qed simp

text \<open>The events up to the control file, the file, and what follows it.\<close>

definition after_control :: "event list \<Rightarrow> guest_control \<Rightarrow> (event \<Rightarrow> bool) \<Rightarrow> event list \<Rightarrow> bool" where
  "after_control l c ok es \<longleftrightarrow>
     (\<exists>xs ys. es = l @ xs @ Control_Written c # ys \<and> (\<forall>e \<in> set xs. quiet e) \<and> (\<forall>e \<in> set ys. ok e))"

definition before_control :: "event list \<Rightarrow> event list \<Rightarrow> bool" where
  "before_control l es \<longleftrightarrow> (\<exists>xs. es = l @ xs \<and> (\<forall>e \<in> set xs. quiet e))"

lemma closed_after: "closed_under (after_control l c ok) ok"
  unfolding closed_under_def after_control_def
proof (intro allI impI)
  fix es e
  assume "\<exists>xs ys. es = l @ xs @ Control_Written c # ys \<and> (\<forall>e \<in> set xs. quiet e) \<and> (\<forall>e \<in> set ys. ok e)" and "ok e"
  then obtain xs ys where "es = l @ xs @ Control_Written c # ys" "\<forall>e \<in> set xs. quiet e" "\<forall>e \<in> set ys. ok e"
    by blast
  with \<open>ok e\<close> show "\<exists>xs ys. es @ [e] = l @ xs @ Control_Written c # ys \<and> (\<forall>e \<in> set xs. quiet e) \<and> (\<forall>e \<in> set ys. ok e)"
    by (intro exI [of _ xs] exI [of _ "ys @ [e]"]) simp
qed

definition start_allowed :: "integration_settings \<Rightarrow> event \<Rightarrow> bool" where
  "start_allowed r e \<longleftrightarrow> quiet e \<or> (\<exists>k p. e = Bridge_Started k p \<and> media_enabled (media r) k)"

text \<open>
  What a reconciliation has done at its end: nothing is started before the guest has the settings, and
  nothing at all unless the guest said that it follows them.
\<close>

definition orderly :: "reconcile_obs \<Rightarrow> integration_settings \<Rightarrow> event list \<Rightarrow> event list \<Rightarrow> bool" where
  "orderly o' r l es \<longleftrightarrow>
     before_control l es
     \<or> (\<exists>g. after_control l (guest_control_of g r) quiet es
         \<or> after_control l (guest_control_of g r) (start_allowed r) es
           \<and> (\<exists>n st. fst (guest_seen o' n) = Some st \<and> guest_status_matches g r st))"

lemma control_orderly:
  assumes "before_control l (events s)"
  shows "keeps_inv (\<lambda>t. orderly o' r l (events t)
      \<and> (write_guest_control o' r (next_generation s) = (Inr (), t) \<longrightarrow> after_control l (guest_control_of (generation t) r) quiet (events t)))
    (Some (write_guest_control o' r (next_generation s)))"
proof -
  define c where "c = guest_control_of (generation (next_generation s)) r"
  have e: "events (next_generation s) = events s"
    by (simp add: next_generation_def)
  obtain xs where xs: "events s = l @ xs" "\<forall>e \<in> set xs. quiet e"
    using assms by (auto simp: before_control_def)
  have w: "after_control l c quiet (events s @ [Control_Written c])"
    unfolding after_control_def by (rule exI [of _ xs], rule exI [of _ "[]"]) (simp add: xs)
  show ?thesis
    using assms w e by (auto simp: write_guest_control_def Let_def c_def [symmetric] log_event_def orderly_def)
      (auto simp: c_def)
qed

lemma guest_converged:
  "wait_for_guest_state now seen r s = Some (Inr u) \<Longrightarrow> \<exists>n st. fst (seen n) = Some st \<and> guest_status_matches (generation s) r st"
  by (fastforce simp: wait_for_guest_state_def guest_turn_def Let_def dest!: poll_from_turn split: option.splits if_splits)

lemma quiet_port: "port_event e \<Longrightarrow> quiet e"
  by (cases e) (auto simp: port_event_def)

lemma closed_before: "closed_under (before_control l) quiet"
  using closed_since [of l quiet] unfolding before_control_def .

lemma apply_orderly:
  assumes "before_control l (events s)"
  shows "keeps_inv (\<lambda>s. orderly o' r l (events s)) (apply_settings slirp o' r s)"
proof -
  note frame = closed_frame [OF closed_before [of l]]
  have o: "orderly o' r l es" if "before_control l es" for es
    using that by (simp add: orderly_def)
  have start: "keeps_inv (\<lambda>s. orderly o' r l (events s)) (then_run (start_added_media slirp (media_starts o') (media r) s) (\<lambda>_ s. finish_reconcile o' r s))"
    if "after_control l (guest_control_of g r) quiet (events s)" "fst (guest_seen o' n) = Some st" "guest_status_matches g r st" for g s n st
  proof -
    have "after_control l (guest_control_of g r) (start_allowed r) (events s)"
      using that(1) unfolding after_control_def start_allowed_def by blast
    then have "keeps_inv (\<lambda>s. after_control l (guest_control_of g r) (start_allowed r) (events s))
        (start_added_media slirp (media_starts o') (media r) s)"
      unfolding start_added_media_def
      by (intro closed_start [OF closed_after]) (auto simp: start_allowed_def wanted_iff)
    then show ?thesis
      by (rule keeps_then_run) (use that(2,3) in \<open>auto simp: orderly_def finish_reconcile_def\<close>)
  qed
  have wait: "keeps_inv (\<lambda>s. orderly o' r l (events s))
      (then_run (map_option (\<lambda>x. (x, t)) (wait_for_guest_state (wait_begin o') (guest_seen o') r t)) (\<lambda>_ s.
       then_run (start_added_media slirp (media_starts o') (media r) s) (\<lambda>_ s. finish_reconcile o' r s)))"
    if t: "after_control l (guest_control_of (generation t) r) quiet (events t)" for t
  proof -
    have "orderly o' r l (events t)"
      using t by (auto simp: orderly_def)
    then show ?thesis
      using start [OF t] by (auto simp: then_run_def [of "map_option _ _"] split: option.split sum.split dest!: guest_converged)
  qed
  have control: "keeps_inv (\<lambda>s. orderly o' r l (events s))
      (then_run (Some (write_guest_control o' r (next_generation s))) (\<lambda>_ s.
       then_run (map_option (\<lambda>x. (x, s)) (wait_for_guest_state (wait_begin o') (guest_seen o') r s)) (\<lambda>_ s.
       then_run (start_added_media slirp (media_starts o') (media r) s) (\<lambda>_ s. finish_reconcile o' r s))))"
    if "before_control l (events s)" for s
    by (rule keeps_then_run_strong [OF control_orderly [OF that]]) (auto intro: wait)
  have reverse: "keeps_inv (\<lambda>s. before_control l (events s)) (Some (reconcile_reverse relay r s))"
    if "before_control l (events s)" for relay s
    by (rule frame_reverse [OF frame quiet_port that])
  show ?thesis
    unfolding apply_settings_def
    by (intro keeps_then_run [OF frame_forwards [OF frame quiet_port assms]] keeps_then_run [OF reverse] control o)
qed

lemma closed_apply:
  assumes "closed_under P (\<lambda>_. True)" and "P (events s)"
  shows "keeps_inv (\<lambda>s. P (events s)) (apply_settings slirp o' r s)"
proof -
  note frame = closed_frame [OF assms(1)]
  have forwards: "keeps_inv (\<lambda>s. P (events s)) (Some (reconcile_forwards slirp relay r s))" if "P (events s)" for relay s
    by (rule frame_forwards [OF frame _ that]) simp
  have reverse: "keeps_inv (\<lambda>s. P (events s)) (Some (reconcile_reverse relay r s))" if "P (events s)" for relay s
    by (rule frame_reverse [OF frame _ that]) simp
  have control: "keeps_inv (\<lambda>s. P (events s)) (Some (write_guest_control o' r (next_generation s)))" if "P (events s)" for s
    by (rule frame_control [OF frame _ that]) simp
  have start: "keeps_inv (\<lambda>s. P (events s)) (start_added_media slirp (media_starts o') (media r) s)" if "P (events s)" for s
    unfolding start_added_media_def by (rule closed_start [OF assms(1) _ _ that]) simp_all
  show ?thesis
    unfolding apply_settings_def
    by (intro keeps_then_run [where I = "\<lambda>s. P (events s)"] forwards reverse control start)
      (use assms(2) in \<open>auto simp: keeps_inv_def finish_reconcile_def\<close>)
qed

lemma closed_rest:
  assumes "closed_under P ok" and "\<And>e. quiet e \<Longrightarrow> ok e" and "P (events t)" and "\<And>es. P es \<Longrightarrow> Q es"
    and "\<And>u. P (events u) \<Longrightarrow> keeps_inv (\<lambda>s. Q (events s)) (apply_settings slirp o' r u)"
    and "reconcile slirp o' r s = Some (x, s')" and "stop_removed_media slirp (media r) s = (y, t)"
  shows "Q (events s')"
proof -
  have "keeps_inv (\<lambda>s. Q (events s)) (then_run (Some (y, t)) (\<lambda>_ s. then_run (Some (remove_unhealthy_media slirp (health o') s)) (\<lambda>removed s.
      if unchanged o' r removed s then Some (Inr (), s) else apply_settings slirp o' r s)))"
    unfolding remove_unhealthy_media_def
    by (intro keeps_then_run [where I = "\<lambda>s. P (events s)"] closed_unhealthy [OF assms(1,2)])
      (use assms(3-5) in auto)
  then show ?thesis
    using assms(6,7) by (simp add: reconcile_def keeps_inv_def)
qed

text \<open>
  C7. Media access is withdrawn first and given last. In every reconciliation, whatever it ends in, the
  process of every bridge that is no longer wanted (disabled, or for another device) is terminated, unless the
  network helper had to be killed instead; and a bridge is started only for a kind that the settings
  enable, after the guest's control file was written with exactly these settings, and only if the guest
  reported that it follows that generation.
\<close>

theorem media_revoked_first:
  assumes "reconcile slirp o' r s = Some (x, s')"
  shows "orderly o' r (events s) (events s')
    \<and> (\<forall>k a. bridges s k = Some a \<longrightarrow> bridge_unwanted (media_enabled (media r) k) (media_target (media r) k) a \<longrightarrow>
         (\<exists>xs. events s' = events s @ xs \<and> (Bridge_Terminated (bridge_pid a) \<in> set xs \<or> Network_Killed \<in> set xs \<or> \<not> slirp)))"
proof -
  define l where "l = events s"
  obtain y t where stop: "stop_removed_media slirp (media r) s = (y, t)"
    by force
  have "before_control l (events t)"
    using closed_stop [OF closed_before, of l s slirp "wanted_media (media r)"] stop
    by (auto simp: keeps_inv_def stop_removed_media_def before_control_def l_def)
  then have ord: "orderly o' r l (events s')"
    by (intro closed_rest [where P = "before_control l" and Q = "orderly o' r l", OF closed_before _ _ _ apply_orderly assms stop])
      (simp_all add: orderly_def)
  have "\<exists>xs. events s' = l @ xs \<and> (Bridge_Terminated (bridge_pid a) \<in> set xs \<or> Network_Killed \<in> set xs \<or> \<not> slirp)"
    if "bridges s k = Some a" "bridge_unwanted (media_enabled (media r) k) (media_target (media r) k) a" for k a
  proof -
    define P where "P = (\<lambda>es. \<exists>xs. es = l @ xs \<and> (Bridge_Terminated (bridge_pid a) \<in> set xs \<or> Network_Killed \<in> set xs \<or> \<not> slirp))"
    have c: "closed_under P (\<lambda>_. True)"
      by (auto simp: P_def closed_under_def)
    have "P (events t)"
      unfolding P_def l_def
      by (rule stop_terminates [OF stop [unfolded stop_removed_media_def], where k = k])
        (use that in \<open>simp_all add: wanted_iff distinct_wanted\<close>)
    from closed_rest [where P = P and Q = P, OF c _ this _ closed_apply [OF c] assms stop] have "P (events s')"
      by simp
    then show ?thesis
      by (simp add: P_def)
  qed
  then show ?thesis
    using ord by (simp add: l_def)
qed

section \<open>A session\<close>

text \<open>Guest audio is switched on in a new session, then off again.\<close>

definition audio_on :: integration_settings where
  "audio_on = \<lparr>ports = [], media = default_media\<lparr>guest_audio_output := True\<rparr>\<rparr>"

definition audio_off :: integration_settings where
  "audio_off = \<lparr>ports = [], media = default_media\<rparr>"

definition demo_status :: "nat \<Rightarrow> (string \<times> nat \<times> bool) list \<Rightarrow> guest_status" where
  "demo_status g m =
     \<lparr>status_schema = 1, status_generation = g, status_reverse = [], status_forward_udp = [], status_media = m, status_error = None\<rparr>"

definition demo_start :: start_obs where
  "demo_start =
     \<lparr>pipewire_ready = Inr (), gst_helper = Inr (), discovered = Inl [], recording_service = Inl [], free_port = Inr 4000,
      route_uuid = ''u'', open_camera = (\<lambda>_. Inl []), spawned = Inr 9, first_wait = Inr False, tracking_start = 0,
      tracking = (\<lambda>_. (Inl [], 0))\<rparr>"

definition demo_obs :: "guest_status \<Rightarrow> reconcile_obs" where
  "demo_obs st =
     \<lparr>health = \<lparr>bridge_exit = (\<lambda>_. Inr False), health_graph = Inl []\<rparr>, running_before = (\<lambda>_. True), seen_control = True,
      seen_status = Some st, udp_relay = (\<lambda>_. Inr ()), reverse_relay = (\<lambda>_. Inr ()), control_result = Inr (), control_replaced = True,
      wait_begin = 0, guest_seen = (\<lambda>n. (Some st, 0)), media_starts = (\<lambda>_. demo_start), running_after = (\<lambda>_. True),
      last_control = True, last_status = Some st\<rparr>"

definition demo_new :: integration where
  "demo_new = integration_new None [Inr (J_Object [''return'' \<mapsto> J_Object [''id'' \<mapsto> J_Int 3]])]"

definition demo_on :: integration where
  "demo_on = demo_new\<lparr>generation := 1, applied := audio_on, control_file := Some (guest_control_of 1 audio_on), answers := [],
     bridges := [Guest_Audio \<mapsto> bridge_record Guest_Audio 9 3 None None],
     events := [Control_Written (guest_control_of 1 audio_on), Route_Added (Some Guest_Audio) (media_mapping ''u'' Guest_Audio 4000) 3,
       Bridge_Started Guest_Audio 9]\<rparr>"

lemma poll_now: "turn n = Some r \<Longrightarrow> poll turn n = Some r"
  by (subst poll.simps) simp

lemmas demo_defs = demo_new_def integration_new_def audio_on_def audio_off_def demo_obs_def demo_start_def demo_status_def
  default_media_def no_media_def wanted_media_def wanted_ports_def

lemma demo_switched_on:
  "reconcile True (demo_obs (demo_status 1 [(''guest_audio_output'', 5, True)])) audio_on demo_new = Some (Inr (), demo_on)"
proof -
  define st where "st = demo_status 1 [(''guest_audio_output'', 5, True)]"
  have st: "guest_status_matches 1 audio_on st"
    by (simp add: st_def guest_status_matches_def status_failed_def guest_control_of_def control_name_def demo_defs)
  have wait: "wait_for_guest_state 0 (\<lambda>n. (Some st, 0)) audio_on s = Some (Inr ())" if "generation s = 1" for s
    unfolding wait_for_guest_state_def
    by (rule poll_now) (use st that in \<open>simp add: guest_turn_def guest_status_matches_def\<close>)
  show ?thesis
    unfolding st_def [symmetric] using st wait
    by (simp add: reconcile_def stop_removed_media_def remove_unhealthy_media_def unchanged_def demo_on_def then_run_def
      apply_settings_def reconcile_forwards_def reconcile_reverse_def stale_forwards_def retain_reverse_def write_guest_control_def
      next_generation_def sat_add64_def log_event_def start_added_media_def start_media_def need_slirp_def add_host_forward_def
      slirp_request_def launch_bridge_def bridge_arguments_def prove_bridge_def finish_reconcile_def host_resources_match_def
      media_resources_match_def guest_state_matches_def resolve_media_device_def bridge_record_def demo_defs Let_def)
qed

section \<open>What success means\<close>

lemma then_run_Inr: "then_run q f = Some (Inr u, s') \<longleftrightarrow> (\<exists>y t. q = Some (Inr y, t) \<and> f y t = Some (Inr u, s'))"
  by (cases q; cases "fst (the q)") (auto simp: then_run_def)

lemma host_match_applied: "host_resources_match running r (t\<lparr>applied := x\<rparr>) = host_resources_match running r t"
proof -
  have "host_forwards (t\<lparr>applied := x\<rparr>) = host_forwards t" "reverse_relays (t\<lparr>applied := x\<rparr>) = reverse_relays t"
    "bridges (t\<lparr>applied := x\<rparr>) = bridges t"
    by simp_all
  then show ?thesis
    by (simp only: host_resources_match_def media_resources_match_def)
qed


section \<open>A mapping that is forgotten\<close>

text \<open>
  A mapping of the user is dropped from the records before the helper is asked to remove its route: when that
  request fails, the reconciliation fails and the route stays open without any record, so that no later
  reconciliation will ask for its removal again.
\<close>

lemma failed_removal_leaks:
  assumes "host_forwards s = [(i, a)]" and "forward_backend a = Slirp route" and "answers s = Inl e # rest"
    and "wanted_ports Host_To_Guest r = []"
  shows "\<exists>s'. reconcile_forwards True relay r s = (Inl e, s') \<and> host_forwards s' = [] \<and> events s' = events s"
  using assms
  by (auto simp: reconcile_forwards_def stale_forwards_def need_slirp_def remove_host_forward_def slirp_request_def Let_def)



text \<open>The helper does not answer any more when guest audio is switched off.\<close>

theorem media_revoked_first_witness:
  "\<exists>e s'. reconcile True (demo_obs (demo_status 2 [])) audio_off demo_on = Some (Inl e, s')
     \<and> orderly (demo_obs (demo_status 2 [])) audio_off (events demo_on) (events s')
     \<and> (\<exists>xs. events s' = events demo_on @ xs \<and> (Bridge_Terminated 9 \<in> set xs \<or> Network_Killed \<in> set xs))"
proof -
  obtain e s' where run: "reconcile True (demo_obs (demo_status 2 [])) audio_off demo_on = Some (Inl e, s')"
    by (simp add: reconcile_def stop_removed_media_def demo_on_def then_run_def bridge_unwanted_def revoke_bridge_def
        need_slirp_def end_bridge_def remove_media_forward_fail_closed_def remove_host_forward_def slirp_request_def log_event_def
        demo_defs)
  have b: "bridges demo_on Guest_Audio = Some (bridge_record Guest_Audio 9 3 None None)"
    by (simp add: demo_on_def)
  have u: "bridge_unwanted (media_enabled (media audio_off) Guest_Audio) (media_target (media audio_off) Guest_Audio)
      (bridge_record Guest_Audio 9 3 None None)"
    by (simp add: bridge_unwanted_def media_enabled_def audio_off_def default_media_def)
  have p: "bridge_pid (bridge_record Guest_Audio 9 3 None None) = 9"
    by (simp add: bridge_record_def)
  note m = media_revoked_first [OF run]
  from m [THEN conjunct2, rule_format, OF b u] m run show ?thesis
    unfolding p by auto
qed

section \<open>Diagnostics\<close>

text \<open>What is reported of the mappings and of a media bridge; the texts for people are left out.\<close>

definition port_active :: "port_forward \<Rightarrow> integration \<Rightarrow> bool" where
  "port_active m s \<longleftrightarrow> port_enabled m \<and>
     (case direction m of
        Host_To_Guest \<Rightarrow> (case btree_get id (port_id m) (host_forwards s) of None \<Rightarrow> False
          | Some a \<Rightarrow> (case forward_backend a of Slirp _ \<Rightarrow> True | Udp_Relay \<Rightarrow> relay_is_active))
      | Guest_To_Host \<Rightarrow> btree_get id (port_id m) (reverse_relays s) \<noteq> None \<and> relay_is_active)"

record media_diag =
  diag_enabled :: bool
  diag_active :: bool
  diag_host_pid :: "nat option"
  diag_guest_pid :: "nat option"

definition media_diagnostic :: "(nat \<Rightarrow> bool) \<Rightarrow> guest_status option \<Rightarrow> integration_settings \<Rightarrow> bridge_kind \<Rightarrow> integration \<Rightarrow> media_diag" where
  "media_diagnostic running status r k s =
     (let guest = (case status of Some st \<Rightarrow> if status_schema st = 1 then Some st else None | None \<Rightarrow> None);
          current = (case guest of None \<Rightarrow> False | Some st \<Rightarrow> status_generation st = generation s);
          process = Option.bind guest (\<lambda>st. map_of (status_media st) (control_name k));
          host = map_option bridge_pid (bridges s k)
      in \<lparr>diag_enabled = media_enabled (media r) k,
          diag_active = (media_enabled (media r) k \<and> current \<and> (case host of None \<Rightarrow> False | Some p \<Rightarrow> running p)
            \<and> (case process of None \<Rightarrow> False | Some (p, up) \<Rightarrow> up)),
          diag_host_pid = host, diag_guest_pid = map_option fst process\<rparr>)"

text \<open>After a reconciliation that converged, the diagnostics call exactly the enabled media active.\<close>

lemma converged_media_active:
  assumes "host_resources_match running r s" and "guest_status_matches (generation s) r st"
  shows "diag_active (media_diagnostic running (Some st) r k s) = media_enabled (media r) k"
proof -
  have w: "(k, media_enabled (media r) k, media_target (media r) k) \<in> set (wanted_media (media r))"
    by (simp add: wanted_iff)
  have h: "case bridges s k of Some a \<Rightarrow> media_enabled (media r) k \<and> running (bridge_pid a) | None \<Rightarrow> \<not> media_enabled (media r) k"
    using assms(1) w by (auto simp: host_resources_match_def media_resources_match_def Let_def list_all_iff split: option.split)
  have g: "media_enabled (media r) k \<Longrightarrow> case map_of (status_media st) (control_name k) of None \<Rightarrow> False | Some (pid, up) \<Rightarrow> up"
    using assms(2) w by (auto simp: guest_status_matches_def list_all_iff Let_def split: option.splits)
  show ?thesis
    using h g assms(2) by (auto simp: media_diagnostic_def Let_def guest_status_matches_def split: option.splits)
qed

end
