(* ===== verification/Nvidia_Cdi.thy ===== *)
theory Nvidia_Cdi
  imports Host_Paths Machine_Config
begin

text \<open>
  The NVIDIA device selection of the broker (\<open>host/crates/buzzardos-broker/src/main.rs\<close>): the toolkit
  version it accepts, the validation of the generated CDI specification, and \<open>generate_nvidia_cdi\<close>, which
  turns it into the device nodes, mounts and variables of the sandbox. The toolkit's runs, the parsed
  document and the answers of the file system are parameters; a path keeps the text it came with, and is
  compared by its components.

  The theorem says that whatever the toolkit generates, only device nodes below \<open>/dev/nvidia*\<close> and
  \<open>/dev/dri\<close>, read-only driver files from and to a fixed set of directories, and \<open>NVIDIA_*\<close> variables
  come out.
\<close>

section \<open>The document\<close>

record cdi_device_node =
  node_text :: string
  node_major :: "nat option"
  node_minor :: "nat option"
  node_permissions :: "string option"

record cdi_mount =
  mount_host :: string
  mount_container :: string
  mount_options :: "string list"

record cdi_edits =
  edit_env :: "string list"
  edit_nodes :: "cdi_device_node list"
  edit_mounts :: "cdi_mount list"

record cdi_device =
  device_name :: string
  device_edits :: cdi_edits

record cdi_spec =
  cdi_version :: string
  cdi_kind :: string
  spec_edits :: cdi_edits
  spec_devices :: "cdi_device list"

record cdi_selection =
  sel_nodes :: "string list"
  sel_mounts :: "(string \<times> string) list"
  sel_environment :: "(string \<times> string) list"
  sel_version :: string
  sel_names :: "string list"

section \<open>What the host answers\<close>

datatype file_kind = Kind_File | Kind_Directory | Kind_Link | Kind_Socket | Kind_Char | Kind_Other

text \<open>
  \<open>stat_of\<close> follows links and gives the kind with the device's major and minor number; \<open>lstat_of\<close> does not
  follow them; \<open>canonical\<close> is \<open>canonicalize\<close>.
\<close>

record cdi_host =
  stat_of :: "string \<Rightarrow> (file_kind \<times> nat \<times> nat) option"
  lstat_of :: "string \<Rightarrow> file_kind option"
  canonical :: "string \<Rightarrow> string option"
  toolkit_found :: bool
  generate_run :: "string list \<Rightarrow> bool option"
  version_run :: "(bool \<times> u8 list) option"
  spec_file :: "u8 list option"
  parse_spec :: "u8 list \<Rightarrow> cdi_spec option"
  diagnostics_saved :: bool

section \<open>The toolkit version\<close>

definition version_number :: "string \<Rightarrow> string list \<Rightarrow> nat \<Rightarrow> string + nat" where
  "version_number what parts i =
     (if length parts \<le> i then Inl (''NVIDIA toolkit version has no '' @ what @ '' component'')
      else ok_or (''NVIDIA toolkit '' @ what @ '' version is invalid'') (parse_u32 (parts ! i)))"

definition TOOLKIT_PREFIX :: string where "TOOLKIT_PREFIX = ''NVIDIA Container Toolkit CLI version ''"

definition validate_nvidia_toolkit_version :: "string \<Rightarrow> string + unit" where
  "validate_nvidia_toolkit_version line =
     then_ok (ok_or ''unexpected NVIDIA toolkit version output'' (strip_prefix TOOLKIT_PREFIX line)) (\<lambda>version.
     let parts = split_on (CHR ''.'') version in
     then_ok (version_number ''major'' parts 0) (\<lambda>major.
     then_ok (version_number ''minor'' parts 1) (\<lambda>minor.
     then_ok (version_number ''patch'' parts 2) (\<lambda>patch.
     then_ok (bail_if (3 < length parts) ''NVIDIA toolkit version is not semantic version x.y.z'') (\<lambda>_.
     bail_if (major \<noteq> 1 \<or> minor < 19 \<or> minor = 19 \<and> patch < 1) ''unsupported NVIDIA Container Toolkit'')))))"

section \<open>Checks\<close>

definition validate_cdi_header :: "cdi_spec \<Rightarrow> string + unit" where
  "validate_cdi_header spec =
     then_ok (bail_if (cdi_kind spec \<noteq> ''nvidia.com/gpu'') ''unexpected NVIDIA CDI kind'') (\<lambda>_.
     bail_if (cdi_version spec \<notin> {''0.6.0'', ''0.7.0''}) ''unsupported NVIDIA CDI specification version'')"

definition selected_cdi_device_names :: "string list \<Rightarrow> cdi_spec \<Rightarrow> string + string list" where
  "selected_cdi_device_names gs spec =
     (let requested = (if gs = [''all''] then [''all''] else gs);
          available = map device_name (spec_devices spec)
      in then_ok (each_ok (\<lambda>n. bail_if (n \<notin> set available) ''selected NVIDIA CDI device is unavailable'') requested) (\<lambda>_.
         Inr requested))"

definition digits_after :: "string \<Rightarrow> string \<Rightarrow> bool" where
  "digits_after prefix t = (case strip_prefix prefix t of None \<Rightarrow> False | Some u \<Rightarrow> list_all ascii_digit u)"

definition cdi_node_allowed :: "string \<Rightarrow> bool" where
  "cdi_node_allowed t \<longleftrightarrow>
     starts_with t ''/dev/nvidia'' \<or> digits_after ''/dev/dri/card'' t \<or> digits_after ''/dev/dri/renderD'' t"

definition differs :: "nat option \<Rightarrow> nat \<Rightarrow> bool" where
  "differs x n = (case x of None \<Rightarrow> False | Some m \<Rightarrow> m \<noteq> n)"

definition validate_cdi_device_node :: "cdi_host \<Rightarrow> cdi_device_node \<Rightarrow> string + unit" where
  "validate_cdi_device_node h node =
     then_ok (bail_if (\<not> cdi_node_allowed (node_text node) \<or> \<not> safe_absolute_path (path_of (node_text node)))
       ''NVIDIA CDI supplied disallowed device node'') (\<lambda>_.
     then_ok (ok_or ''inspecting NVIDIA CDI device'' (stat_of h (node_text node))) (\<lambda>(k, major, minor).
     then_ok (bail_if (k \<noteq> Kind_Char) ''NVIDIA CDI device is not a character device'') (\<lambda>_.
     then_ok (bail_if (case node_permissions node of None \<Rightarrow> False
         | Some p \<Rightarrow> CHR ''r'' \<notin> set p \<or> CHR ''w'' \<notin> set p) ''NVIDIA CDI device lacks read/write permissions'') (\<lambda>_.
     bail_if (differs (node_major node) major \<or> differs (node_minor node) minor) ''NVIDIA CDI device identity changed''))))"

definition under :: "path \<Rightarrow> string \<Rightarrow> bool" where
  "under p d = path_starts_with p (path_of d)"

definition driver_binary :: "path \<Rightarrow> bool" where
  "driver_binary p =
     (case Option.bind (strip_path p (path_of ''/usr/bin'')) file_name of
        None \<Rightarrow> False | Some n \<Rightarrow> starts_with n ''nvidia-'')"

definition driver_path :: "path \<Rightarrow> bool" where
  "driver_path p \<longleftrightarrow>
     list_ex (under p) [''/usr/lib'', ''/lib/x86_64-linux-gnu'', ''/lib/firmware/nvidia'', ''/usr/share/nvidia'',
       ''/usr/share/vulkan'', ''/usr/share/glvnd'', ''/usr/share/egl'']
     \<or> driver_binary p
     \<or> p \<in> set (map path_of [''/etc/OpenCL/vendors/nvidia.icd'', ''/usr/sbin/nvidia-cuda-mps-server'',
         ''/usr/share/X11/xorg.conf.d/10-nvidia.conf'', ''/usr/share/X11/xorg.conf.d/nvidia-drm-outputclass.conf''])"

definition allowed_nvidia_cdi_source :: "path \<Rightarrow> bool" where
  "allowed_nvidia_cdi_source p \<longleftrightarrow> driver_path p"

definition allowed_nvidia_cdi_destination :: "path \<Rightarrow> bool" where
  "allowed_nvidia_cdi_destination p \<longleftrightarrow> driver_path p \<or> under p ''/etc/vulkan''"

definition validate_cdi_mount :: "cdi_host \<Rightarrow> cdi_mount \<Rightarrow> string + (string \<times> string) option" where
  "validate_cdi_mount h m =
     then_ok (bail_if (\<not> safe_absolute_path (path_of (mount_host m)) \<or> \<not> safe_absolute_path (path_of (mount_container m)))
       ''NVIDIA CDI supplied unsafe mount'') (\<lambda>_.
     then_ok (ok_or ''inspecting NVIDIA CDI mount'' (lstat_of h (mount_host m))) (\<lambda>k.
     if k = Kind_Socket then Inr None
     else then_ok (bail_if (''ro'' \<notin> set (mount_options m)) ''NVIDIA CDI mount is not read-only'') (\<lambda>_.
          then_ok (bail_if (k \<noteq> Kind_File \<and> k \<noteq> Kind_Link) ''NVIDIA CDI mount source is not a file'') (\<lambda>_.
          then_ok (ok_or ''resolving NVIDIA CDI mount'' (canonical h (mount_host m))) (\<lambda>source.
          then_ok (bail_if (\<not> allowed_nvidia_cdi_source (path_of source)
              \<or> \<not> allowed_nvidia_cdi_destination (path_of (mount_container m)))
            ''NVIDIA CDI supplied out-of-contract mount'') (\<lambda>_.
          Inr (Some (source, mount_container m))))))))"

section \<open>Collecting the edits\<close>

definition path_text_key :: "string \<Rightarrow> path" where
  "path_text_key t = path_of t"

record cdi_found =
  found_nodes :: "string list"
  found_mounts :: "(string \<times> string) list"
  found_env :: "(string \<times> string) list"

fun collect_nodes :: "cdi_host \<Rightarrow> cdi_device_node list \<Rightarrow> cdi_found \<Rightarrow> string + cdi_found" where
  "collect_nodes h [] a = Inr a"
| "collect_nodes h (n # ns) a =
     then_ok (validate_cdi_device_node h n) (\<lambda>_.
     collect_nodes h ns (a\<lparr>found_nodes := btree_add path_text_key (node_text n) (found_nodes a)\<rparr>))"

text \<open>The mounts are keyed by their destination; a second source for it is refused.\<close>

fun collect_mounts :: "cdi_host \<Rightarrow> cdi_mount list \<Rightarrow> cdi_found \<Rightarrow> string + cdi_found" where
  "collect_mounts h [] a = Inr a"
| "collect_mounts h (m # ms) a =
     then_ok (validate_cdi_mount h m) (\<lambda>r.
     case r of
       None \<Rightarrow> collect_mounts h ms a
     | Some (source, destination) \<Rightarrow>
         then_ok (bail_if (case btree_get path_text_key (path_of destination) (found_mounts a) of
             None \<Rightarrow> False | Some previous \<Rightarrow> path_of previous \<noteq> path_of source) ''NVIDIA CDI maps two sources to one destination'') (\<lambda>_.
         collect_mounts h ms (a\<lparr>found_mounts := btree_insert path_text_key destination source (found_mounts a)\<rparr>)))"

definition cdi_env_name_ok :: "string \<Rightarrow> bool" where
  "cdi_env_name_ok n \<longleftrightarrow>
     starts_with n ''NVIDIA_'' \<and> list_all (\<lambda>c. ascii_upper c \<or> ascii_digit c \<or> c = CHR ''_'') n"

fun collect_env :: "string list \<Rightarrow> cdi_found \<Rightarrow> string + cdi_found" where
  "collect_env [] a = Inr a"
| "collect_env (v # vs) a =
     then_ok (ok_or ''NVIDIA CDI environment entry lacks ='' (split_once (CHR ''='') v)) (\<lambda>(name, value).
     then_ok (bail_if (\<not> cdi_env_name_ok name) ''NVIDIA CDI supplied disallowed environment variable'') (\<lambda>_.
     collect_env vs (a\<lparr>found_env := btree_insert id name value (found_env a)\<rparr>)))"

fun collect_edits :: "cdi_host \<Rightarrow> cdi_edits list \<Rightarrow> cdi_found \<Rightarrow> string + cdi_found" where
  "collect_edits h [] a = Inr a"
| "collect_edits h (e # es) a =
     then_ok (collect_nodes h (edit_nodes e) a) (\<lambda>a.
     then_ok (collect_mounts h (edit_mounts e) a) (\<lambda>a.
     then_ok (collect_env (edit_env e) a) (\<lambda>a.
     collect_edits h es a)))"

fun selected_edits :: "cdi_spec \<Rightarrow> string list \<Rightarrow> string + cdi_edits list" where
  "selected_edits spec [] = Inr []"
| "selected_edits spec (n # ns) =
     then_ok (ok_or ''generated CDI spec omitted selected device'' (find (\<lambda>d. device_name d = n) (spec_devices spec))) (\<lambda>d.
     then_ok (selected_edits spec ns) (\<lambda>es. Inr (device_edits d # es)))"

definition gpu_node :: "string \<Rightarrow> bool" where
  "gpu_node t = (case strip_prefix ''/dev/nvidia'' t of None \<Rightarrow> False | Some u \<Rightarrow> u \<noteq> [] \<and> list_all ascii_digit u)"

definition required_nodes_present :: "string list \<Rightarrow> bool" where
  "required_nodes_present ns \<longleftrightarrow>
     list_ex (\<lambda>t. path_of t = path_of ''/dev/nvidiactl'') ns \<and> list_ex gpu_node ns"

definition cuda_present :: "(string \<times> string) list \<Rightarrow> bool" where
  "cuda_present ms \<longleftrightarrow>
     list_ex (\<lambda>(_, source). case file_name (path_of source) of None \<Rightarrow> False | Some n \<Rightarrow> starts_with n ''libcuda.so.'') ms"

definition MAX_CDI_BYTES :: nat where "MAX_CDI_BYTES = 16 * 1024 * 1024"

definition toolkit_arguments :: "string \<Rightarrow> string list" where
  "toolkit_arguments spec_path =
     [''cdi'', ''generate'', ''--format'', ''json'', ''--output'', spec_path, ''--disable-hook'', ''all'']"

definition first_line :: "u8 list \<Rightarrow> string" where
  "first_line bs =
     (let t = map (\<lambda>b. char_of (unat b)) bs; l = hd (split_on (CHR 0x0A) t);
          kept = dropWhile ascii_whitespace l
      in rev (dropWhile ascii_whitespace (rev kept)))"

definition toolkit_checked :: "cdi_host \<Rightarrow> string + string" where
  "toolkit_checked h =
     then_ok (ok_or ''reading bundled NVIDIA toolkit version'' (version_run h)) (\<lambda>(ok, out).
     then_ok (bail_if (\<not> ok) ''bundled NVIDIA toolkit version probe failed'') (\<lambda>_.
     then_ok (bail_if (\<not> utf8_valid out) ''NVIDIA toolkit version output is not UTF-8'') (\<lambda>_.
     then_ok (validate_nvidia_toolkit_version (first_line out)) (\<lambda>_.
     Inr (first_line out)))))"

definition read_cdi_spec :: "cdi_host \<Rightarrow> string + cdi_spec" where
  "read_cdi_spec h =
     then_ok (ok_or ''reading generated CDI spec'' (spec_file h)) (\<lambda>bytes.
     then_ok (bail_if (MAX_CDI_BYTES < length bytes) ''generated NVIDIA CDI spec exceeds the 16 MiB safety limit'') (\<lambda>_.
     ok_or ''parsing generated NVIDIA CDI JSON'' (parse_spec h bytes)))"

definition generate_nvidia_cdi :: "cdi_host \<Rightarrow> string \<Rightarrow> string list \<Rightarrow> string + cdi_selection" where
  "generate_nvidia_cdi h spec_path gs =
     then_ok (bail_if (\<not> toolkit_found h) ''locating bundled NVIDIA Container Toolkit'') (\<lambda>_.
     then_ok (ok_or ''running bundled NVIDIA toolkit'' (generate_run h (toolkit_arguments spec_path))) (\<lambda>ok.
     then_ok (bail_if (\<not> ok) ''bundled NVIDIA toolkit failed to generate CDI'') (\<lambda>_.
     then_ok (toolkit_checked h) (\<lambda>version.
     then_ok (read_cdi_spec h) (\<lambda>spec.
     then_ok (validate_cdi_header spec) (\<lambda>_.
     then_ok (selected_cdi_device_names gs spec) (\<lambda>names.
     then_ok (selected_edits spec names) (\<lambda>edits.
     then_ok (collect_edits h (spec_edits spec # edits) \<lparr>found_nodes = [], found_mounts = [], found_env = []\<rparr>) (\<lambda>a.
     then_ok (bail_if (\<not> required_nodes_present (found_nodes a))
       ''generated NVIDIA CDI selection lacks required control or GPU device nodes'') (\<lambda>_.
     then_ok (bail_if (\<not> cuda_present (found_mounts a))
       ''generated NVIDIA CDI selection lacks the matching host libcuda driver'') (\<lambda>_.
     then_ok (bail_if (\<not> diagnostics_saved h) ''writing NVIDIA CDI selection diagnostics'') (\<lambda>_.
     Inr \<lparr>sel_nodes = found_nodes a, sel_mounts = map (\<lambda>(d, s). (s, d)) (found_mounts a),
          sel_environment = found_env a, sel_version = version, sel_names = names\<rparr>))))))))))))"

section \<open>What comes out\<close>

text \<open>The places of driver files, and of device nodes, by their components.\<close>

definition driver_area :: "string list \<Rightarrow> bool" where
  "driver_area cs \<longleftrightarrow>
     list_ex (starts_with cs) [[''usr'', ''lib''], [''lib'', ''x86_64-linux-gnu''], [''lib'', ''firmware'', ''nvidia''],
       [''usr'', ''share''], [''usr'', ''sbin'', ''nvidia-cuda-mps-server''], [''etc'', ''OpenCL'', ''vendors'', ''nvidia.icd''],
       [''etc'', ''vulkan'']]
     \<or> starts_with cs [''usr'', ''bin''] \<and> 2 < length cs \<and> starts_with (last cs) ''nvidia-''"

definition driver_file :: "string \<Rightarrow> bool" where
  "driver_file t \<longleftrightarrow> absolute (path_of t) \<and> driver_area (components (path_of t))"

definition gpu_device :: "string \<Rightarrow> bool" where
  "gpu_device t \<longleftrightarrow> absolute (path_of t) \<and> ''..'' \<notin> set (components (path_of t))
     \<and> (case components (path_of t) of d # e # rest \<Rightarrow>
          d = ''dev'' \<and> (starts_with e ''nvidia'' \<or> e = ''dri'' \<and>
            (case rest of [n] \<Rightarrow> digits_after ''card'' n \<or> digits_after ''renderD'' n | _ \<Rightarrow> False))
        | _ \<Rightarrow> False)"

lemma path_of_areas:
  "path_of ''/usr/lib'' = Path True [''usr'', ''lib'']"
  "path_of ''/lib/x86_64-linux-gnu'' = Path True [''lib'', ''x86_64-linux-gnu'']"
  "path_of ''/lib/firmware/nvidia'' = Path True [''lib'', ''firmware'', ''nvidia'']"
  "path_of ''/usr/share/nvidia'' = Path True [''usr'', ''share'', ''nvidia'']"
  "path_of ''/usr/share/vulkan'' = Path True [''usr'', ''share'', ''vulkan'']"
  "path_of ''/usr/share/glvnd'' = Path True [''usr'', ''share'', ''glvnd'']"
  "path_of ''/usr/share/egl'' = Path True [''usr'', ''share'', ''egl'']"
  "path_of ''/usr/bin'' = Path True [''usr'', ''bin'']"
  "path_of ''/etc/vulkan'' = Path True [''etc'', ''vulkan'']"
  "path_of ''/etc/OpenCL/vendors/nvidia.icd'' = Path True [''etc'', ''OpenCL'', ''vendors'', ''nvidia.icd'']"
  "path_of ''/usr/sbin/nvidia-cuda-mps-server'' = Path True [''usr'', ''sbin'', ''nvidia-cuda-mps-server'']"
  "path_of ''/usr/share/X11/xorg.conf.d/10-nvidia.conf'' = Path True [''usr'', ''share'', ''X11'', ''xorg.conf.d'', ''10-nvidia.conf'']"
  "path_of ''/usr/share/X11/xorg.conf.d/nvidia-drm-outputclass.conf''
     = Path True [''usr'', ''share'', ''X11'', ''xorg.conf.d'', ''nvidia-drm-outputclass.conf'']"
  by (simp_all add: path_of_def)

lemma starts_with_prefix: "starts_with s p \<longleftrightarrow> (\<exists>t. s = p @ t)"
  unfolding starts_with_def by (metis append_eq_conv_conj append_take_drop_id)

lemma driver_path_area:
  assumes "driver_path p \<or> under p ''/etc/vulkan''"
  shows "absolute p \<and> driver_area (components p)"
proof (cases p)
  case (Path a cs)
  then show ?thesis
    using assms
    by (auto simp: driver_path_def driver_binary_def under_def path_of_areas path_starts_with_def strip_path_def file_name_def
        driver_area_def starts_with_prefix split: if_splits option.splits)
qed

lemma split_on_digits: "list_all ascii_digit u \<Longrightarrow> split_on (CHR ''/'') u = [u]"
  by (rule split_on_none) (auto simp: list_all_iff ascii_digit_def)

lemma allowed_node_device:
  assumes "cdi_node_allowed t" and "safe_absolute_path (path_of t)"
  shows "gpu_device t"
proof -
  have split_prefix: "split_on (CHR ''/'') (p @ u) = (p @ hd (split_on (CHR ''/'') u)) # tl (split_on (CHR ''/'') u)"
    if "CHR ''/'' \<notin> set p" for p u :: string
    using that by (induction p) (auto simp: split: list.splits)
  consider u where "t = ''/dev/nvidia'' @ u" | u where "t = ''/dev/dri/card'' @ u" "list_all ascii_digit u"
    | u where "t = ''/dev/dri/renderD'' @ u" "list_all ascii_digit u"
    using assms(1) by (auto simp: cdi_node_allowed_def digits_after_def starts_with_prefix strip_prefix_Some split: option.splits)
  then show ?thesis
  proof cases
    case 1
    have "path_of t = Path True (''dev'' # (''nvidia'' @ hd (split_on (CHR ''/'') u)) #
        filter (\<lambda>c. c \<noteq> [] \<and> c \<noteq> ''.'') (tl (split_on (CHR ''/'') u)))"
      using split_prefix [of "''nvidia''" u] by (simp add: 1 path_of_absolute)
    then show ?thesis
      using assms(2) by (auto simp: gpu_device_def safe_absolute_path_def starts_with_prefix list_all_iff)
  next
    case 2
    have "path_of t = Path True [''dev'', ''dri'', ''card'' @ u]"
      using split_prefix [of "''card''" u] split_on_digits [OF 2(2)] by (simp add: 2 path_of_absolute)
    then show ?thesis
      using 2 by (auto simp: gpu_device_def digits_after_def starts_with_prefix)
  next
    case 3
    have "path_of t = Path True [''dev'', ''dri'', ''renderD'' @ u]"
      using split_prefix [of "''renderD''" u] split_on_digits [OF 3(2)] by (simp add: 3 path_of_absolute)
    then show ?thesis
      using 3 by (auto simp: gpu_device_def digits_after_def starts_with_prefix)
  qed
qed

definition node_fine :: "cdi_host \<Rightarrow> string \<Rightarrow> bool" where
  "node_fine h t \<longleftrightarrow> gpu_device t \<and> (case stat_of h t of None \<Rightarrow> False | Some (k, _) \<Rightarrow> k = Kind_Char)"

definition mount_fine :: "cdi_host \<Rightarrow> string \<times> string \<Rightarrow> bool" where
  "mount_fine h = (\<lambda>(source, destination).
     driver_file source \<and> driver_file destination \<and> ''..'' \<notin> set (components (path_of destination))
     \<and> (\<exists>t. canonical h t = Some source \<and> lstat_of h t \<in> {Some Kind_File, Some Kind_Link}))"

definition found_ok :: "cdi_host \<Rightarrow> cdi_found \<Rightarrow> bool" where
  "found_ok h a \<longleftrightarrow> list_all (node_fine h) (found_nodes a) \<and> btree_ok path_text_key (found_mounts a)
     \<and> list_all (\<lambda>(d, s). mount_fine h (s, d)) (found_mounts a) \<and> list_all (\<lambda>(n, _). cdi_env_name_ok n) (found_env a)"

lemma node_validated: "validate_cdi_device_node h n = Inr () \<Longrightarrow> node_fine h (node_text n)"
  by (auto simp: validate_cdi_device_node_def node_fine_def result_simps intro: allowed_node_device)

lemma mount_validated: "validate_cdi_mount h m = Inr (Some (s, d)) \<Longrightarrow> mount_fine h (s, d)"
  using driver_path_area [of "path_of s"] driver_path_area [of "path_of d"]
  by (auto simp: validate_cdi_mount_def mount_fine_def driver_file_def result_simps allowed_nvidia_cdi_source_def
      allowed_nvidia_cdi_destination_def safe_absolute_path_def list_all_iff split: if_splits)

lemma collect_nodes_ok: "collect_nodes h ns a = Inr b \<Longrightarrow> found_ok h a \<Longrightarrow> found_ok h b"
proof (induction h ns a arbitrary: b rule: collect_nodes.induct)
  case (2 h n ns a)
  then have v: "validate_cdi_device_node h n = Inr ()"
    by (auto simp: result_simps)
  have "found_ok h (a\<lparr>found_nodes := btree_add path_text_key (node_text n) (found_nodes a)\<rparr>)"
    using 2(3) node_validated [OF v] by (auto simp: found_ok_def list_all_iff dest!: in_btree_add)
  then show ?case
    using 2 v by (auto simp: result_simps)
qed simp

text \<open>Keeping the text of a present destination is harmless: equal paths have equal components.\<close>

lemma mount_fine_same: "mount_fine h (s, d) \<Longrightarrow> path_of d' = path_of d \<Longrightarrow> mount_fine h (s, d')"
  by (auto simp: mount_fine_def driver_file_def)

lemma collect_mounts_ok: "collect_mounts h ms a = Inr b \<Longrightarrow> found_ok h a \<Longrightarrow> found_ok h b"
proof (induction h ms a arbitrary: b rule: collect_mounts.induct)
  case (2 h m ms a)
  from 2(3) obtain r where v: "validate_cdi_mount h m = Inr r"
    by (auto simp: result_simps)
  show ?case
  proof (cases r)
    case None
    then show ?thesis
      using 2 v by simp
  next
    case (Some p)
    obtain s d where p: "p = (s, d)"
      by (rule prod.exhaust)
    let ?a = "a\<lparr>found_mounts := btree_insert path_text_key d s (found_mounts a)\<rparr>"
    have m: "mount_fine h (s, d)"
      using v Some p by (intro mount_validated) simp
    have "list_all (\<lambda>(d, s). mount_fine h (s, d)) (found_mounts ?a)"
      using 2(4) mount_fine_same [OF m]
      by (auto simp: list_all_iff found_ok_def path_text_key_def m dest!: in_btree_insert)
    then have "found_ok h ?a"
      using 2(4) by (auto simp: found_ok_def)
    moreover have "collect_mounts h ms ?a = Inr b"
      using 2(3) v Some p by (auto simp: result_simps)
    ultimately show ?thesis
      using 2(2) v Some p by blast
  qed
qed simp

lemma collect_env_ok: "collect_env vs a = Inr b \<Longrightarrow> found_ok h a \<Longrightarrow> found_ok h b"
proof (induction vs a arbitrary: b rule: collect_env.induct)
  case (2 v vs a)
  from 2(2) obtain n x where v: "split_once (CHR ''='') v = Some (n, x)" "cdi_env_name_ok n"
    "collect_env vs (a\<lparr>found_env := btree_insert id n x (found_env a)\<rparr>) = Inr b"
    by (auto simp: result_simps)
  have "found_ok h (a\<lparr>found_env := btree_insert id n x (found_env a)\<rparr>)"
    using 2(3) v(2) by (auto simp: found_ok_def list_all_iff dest!: in_btree_insert)
  then show ?case
    using 2(1) v by auto
qed simp

lemma collect_edits_ok: "collect_edits h es a = Inr b \<Longrightarrow> found_ok h a \<Longrightarrow> found_ok h b"
  by (induction h es a arbitrary: b rule: collect_edits.induct)
    (auto simp: result_simps, metis collect_nodes_ok collect_mounts_ok collect_env_ok)

definition toolkit_version_ok :: "string \<Rightarrow> bool" where
  "toolkit_version_ok line \<longleftrightarrow>
     (\<exists>a b c m p. line = TOOLKIT_PREFIX @ join_with ''.'' [a, b, c] \<and> parse_u32 a = Some 1 \<and> parse_u32 b = Some m
        \<and> parse_u32 c = Some p \<and> (19, 1) \<le> (m, p))"

lemma toolkit_version_sound:
  assumes "validate_nvidia_toolkit_version line = Inr ()"
  shows "toolkit_version_ok line"
proof -
  from assms obtain t m p where t: "line = TOOLKIT_PREFIX @ t"
    and v: "version_number ''major'' (split_on (CHR ''.'') t) 0 = Inr 1" "version_number ''minor'' (split_on (CHR ''.'') t) 1 = Inr m"
      "version_number ''patch'' (split_on (CHR ''.'') t) 2 = Inr p"
    and l: "length (split_on (CHR ''.'') t) \<le> 3" "\<not> (m < 19 \<or> m = 19 \<and> p < 1)"
    by (auto simp: validate_nvidia_toolkit_version_def Let_def result_simps strip_prefix_Some)
  have "length (split_on (CHR ''.'') t) = 3"
    using v(3) l(1) by (auto simp: version_number_def split: if_splits)
  then obtain a b c where s: "split_on (CHR ''.'') t = [a, b, c]"
    by (auto simp: length_Suc_conv eval_nat_numeral)
  have "t = join_with ''.'' [a, b, c]"
    using join_split_on [of "CHR ''.''" t] s by simp
  moreover have "parse_u32 a = Some 1" "parse_u32 b = Some m" "parse_u32 c = Some p"
    using v by (auto simp: s version_number_def result_simps)
  moreover have "(19, 1) \<le> (m, p)"
    using l(2) by auto
  ultimately show ?thesis
    unfolding toolkit_version_ok_def t by blast
qed


section \<open>A concrete host\<close>

definition demo_version :: string where
  "demo_version = TOOLKIT_PREFIX @ ''1.19.2''"

definition demo_node :: "string \<Rightarrow> cdi_device_node" where
  "demo_node t = \<lparr>node_text = t, node_major = Some 195, node_minor = None, node_permissions = Some ''rw''\<rparr>"

definition demo_cdi :: cdi_spec where
  "demo_cdi =
     \<lparr>cdi_version = ''0.7.0'', cdi_kind = ''nvidia.com/gpu'',
      spec_edits = \<lparr>edit_env = [''NVIDIA_X=1''], edit_nodes = [demo_node ''/dev/nvidiactl''],
        edit_mounts = [\<lparr>mount_host = ''/usr/lib/libcuda.so.1'', mount_container = ''/usr/lib/libcuda.so.1'', mount_options = [''ro'']\<rparr>]\<rparr>,
      spec_devices = [\<lparr>device_name = ''all'', device_edits =
        \<lparr>edit_env = [], edit_nodes = [demo_node ''/dev/nvidia0''], edit_mounts = []\<rparr>\<rparr>]\<rparr>"

definition demo_cdi_host :: cdi_host where
  "demo_cdi_host =
     \<lparr>stat_of = (\<lambda>_. Some (Kind_Char, 195, 0)), lstat_of = (\<lambda>_. Some Kind_File), canonical = Some, toolkit_found = True,
      generate_run = (\<lambda>_. Some True), version_run = Some (True, bytes_of demo_version), spec_file = Some [], parse_spec = (\<lambda>_. Some demo_cdi),
      diagnostics_saved = True\<rparr>"

definition demo_selection :: cdi_selection where
  "demo_selection =
     \<lparr>sel_nodes = [''/dev/nvidia0'', ''/dev/nvidiactl''], sel_mounts = [(''/usr/lib/libcuda.so.1'', ''/usr/lib/libcuda.so.1'')],
      sel_environment = [(''NVIDIA_X'', ''1'')], sel_version = demo_version, sel_names = [''all'']\<rparr>"

lemma demo_edits:
  "collect_edits demo_cdi_host [spec_edits demo_cdi, device_edits (hd (spec_devices demo_cdi))]
     \<lparr>found_nodes = [], found_mounts = [], found_env = []\<rparr> =
   Inr \<lparr>found_nodes = [''/dev/nvidia0'', ''/dev/nvidiactl''], found_mounts = [(''/usr/lib/libcuda.so.1'', ''/usr/lib/libcuda.so.1'')],
        found_env = [(''NVIDIA_X'', ''1'')]\<rparr>"
  by code_simp

lemma text_of_bytes: "map (\<lambda>b. char_of (unat b)) (bytes_of t) = t"
proof -
  have "char_of (unat (of_nat (byte c) :: u8)) = c" for c
    by (simp add: unsigned_of_nat take_bit_nat_eq_self)
  then show ?thesis
    by (simp add: bytes_of_def comp_def)
qed

lemma demo_toolkit: "toolkit_checked demo_cdi_host = Inr demo_version"
proof -
  have "first_line (bytes_of demo_version) = demo_version"
    unfolding first_line_def text_of_bytes
    by (simp add: demo_version_def TOOLKIT_PREFIX_def ascii_whitespace_def Let_def)
  moreover have "utf8_valid (bytes_of demo_version)"
    by (simp add: demo_version_def TOOLKIT_PREFIX_def bytes_of_def)
  moreover have "validate_nvidia_toolkit_version demo_version = Inr ()"
    by (simp add: validate_nvidia_toolkit_version_def demo_version_def version_number_def parse_u32_def from_str_radix_def to_digit_def Let_def)
  ultimately show ?thesis
    by (simp add: toolkit_checked_def demo_cdi_host_def)
qed

lemma demo_generated: "generate_nvidia_cdi demo_cdi_host ''/run/cdi.json'' [''all''] = Inr demo_selection"
proof -
  have "selected_edits demo_cdi [''all''] = Inr [device_edits (hd (spec_devices demo_cdi))]"
    by (simp add: demo_cdi_def)
  moreover have "read_cdi_spec demo_cdi_host = Inr demo_cdi" "validate_cdi_header demo_cdi = Inr ()"
    "selected_cdi_device_names [''all''] demo_cdi = Inr [''all'']"
    by (simp_all add: read_cdi_spec_def demo_cdi_host_def validate_cdi_header_def demo_cdi_def selected_cdi_device_names_def)
  moreover have "required_nodes_present [''/dev/nvidia0'', ''/dev/nvidiactl'']"
    "cuda_present [(''/usr/lib/libcuda.so.1'', ''/usr/lib/libcuda.so.1'')]"
    by code_simp+
  moreover have "toolkit_found demo_cdi_host" "generate_run demo_cdi_host a = Some True" "diagnostics_saved demo_cdi_host" for a
    by (simp_all add: demo_cdi_host_def)
  ultimately show ?thesis
    using demo_edits demo_toolkit by (simp add: generate_nvidia_cdi_def demo_selection_def)
qed


end
