(* ===== verification/Sandbox_Launch.thy ===== *)
theory Sandbox_Launch
  imports Nvidia_Cdi
begin

text \<open>
  The command with which the broker starts the sandbox (\<open>launch_container\<close> of
  \<open>host/crates/buzzardos-broker/src/main.rs\<close>): the files it prepares, the shares it resolves, the devices it
  admits and the argument list it hands to Bubblewrap. The descriptors, directories and the answers of
  the host are parameters.

  Bubblewrap is another program; what it makes of its arguments is stated over the documented number of
  operands of the options used. Read that way the list consists of exactly the intended operations,
  whatever is in the names, paths and variables of the machine: the host paths shown to the guest are
  those of the allowed places, and only the root file system, the private run-time directory, the
  machine's cgroup and the writable shares can be written.
\<close>

section \<open>Shares\<close>

record resolved_share =
  share_source :: path
  share_destination :: path
  share_read_only :: bool

definition resolve_share :: "(path \<Rightarrow> file_kind option) \<Rightarrow> (path \<Rightarrow> path option) \<Rightarrow> shared_path \<Rightarrow> string + resolved_share" where
  "resolve_share kind_of canon s =
     then_ok (ok_or (''inspecting shared path '' @ path_display (host_path s)) (kind_of (host_path s))) (\<lambda>k.
     then_ok (bail_if (k = Kind_Link \<or> \<not> (k = Kind_File \<or> k = Kind_Directory))
       (''shared path must be a regular file or real directory: '' @ path_display (host_path s))) (\<lambda>_.
     then_ok (ok_or (''resolving shared path '' @ path_display (host_path s)) (canon (host_path s))) (\<lambda>source.
     Inr \<lparr>share_source = source, share_destination = guest_path s, share_read_only = read_only s\<rparr>)))"

fun map_ok :: "('a \<Rightarrow> 'e + 'b) \<Rightarrow> 'a list \<Rightarrow> 'e + 'b list" where
  "map_ok f [] = Inr []"
| "map_ok f (x # xs) = then_ok (f x) (\<lambda>y. then_ok (map_ok f xs) (\<lambda>ys. Inr (y # ys)))"

definition resolve_shared_paths ::
    "(path \<Rightarrow> file_kind option) \<Rightarrow> (path \<Rightarrow> path option) \<Rightarrow> machine_config \<Rightarrow> string + resolved_share list" where
  "resolve_shared_paths kind_of canon c =
     then_ok (validate_shares (shares c)) (\<lambda>_. map_ok (resolve_share kind_of canon) (shares c))"

section \<open>The files of a session\<close>

definition NL :: string where "NL = [CHR 0x0A]"
definition TAB :: string where "TAB = [CHR 0x09]"

definition in_dir :: "string \<Rightarrow> string \<Rightarrow> string" where
  "in_dir d n = d @ ''/'' @ n"

definition guest_hosts_contents :: "string \<Rightarrow> string" where
  "guest_hosts_contents hostname =
     ''127.0.0.1'' @ TAB @ ''localhost'' @ NL @ ''127.0.1.1'' @ TAB @ hostname @ NL
     @ ''::1'' @ TAB @ ''localhost ip6-localhost ip6-loopback'' @ NL
     @ ''ff02::1'' @ TAB @ ''ip6-allnodes'' @ NL @ ''ff02::2'' @ TAB @ ''ip6-allrouters'' @ NL"

definition resolv_contents :: "network_mode \<Rightarrow> string option \<Rightarrow> string + string" where
  "resolv_contents net host =
     (case net of
        Net_User \<Rightarrow> Inr (''# Buzzard OS slirp4netns DNS'' @ NL @ ''nameserver 10.0.2.3'' @ NL @ ''options edns0'' @ NL)
      | Net_Host \<Rightarrow> ok_or ''reading host resolver configuration'' host
      | Net_None \<Rightarrow> Inr (''# Networking disabled by Buzzard OS'' @ NL))"

definition GUEST_POWEROFF_MARKER :: string where "GUEST_POWEROFF_MARKER = ''guest-poweroff-requested''"

definition session_files :: "machine_config \<Rightarrow> string option \<Rightarrow> string + (string \<times> string) list" where
  "session_files c host_resolv =
     then_ok (resolv_contents (network c) host_resolv) (\<lambda>resolv. Inr
       [(''resolv.conf'', resolv), (''hostname'', machine_name c @ NL), (''hosts'', guest_hosts_contents (machine_name c)),
        (''initial-output.conf'', ''output * mode '' @ show_dec (width c) @ ''x'' @ show_dec (height c) @ NL),
        (''buzzardos-desktop-poweroff-marker.conf'',
           ''[Service]'' @ NL @ ''ExecStop=+/usr/bin/touch /run/buzzardos-host/'' @ GUEST_POWEROFF_MARKER @ NL)])"

text \<open>The environment of the desktop service; the dash of the title is three bytes of UTF-8.\<close>

record injection =
  library_binds :: "(string \<times> string) list"
  metadata_binds :: "(string \<times> string) list"
  cdi_binds :: "(string \<times> string) list"
  injected_nodes :: "string list"
  injected_env :: "(string \<times> string) list"
  injected_version :: string
  injected_devices :: "string list"

definition BUZZARDOS_HOST_APP_ID :: string where "BUZZARDOS_HOST_APP_ID = ''org.openresearchtools.buzzardos''"

definition window_title :: "string \<Rightarrow> string" where
  "window_title n = ''Buzzard OS '' @ [CHR 0xE2, CHR 0x80, CHR 0x94] @ '' '' @ n"

definition service_environment :: "machine_config \<Rightarrow> string \<Rightarrow> string option \<Rightarrow> injection option \<Rightarrow> (string \<times> string) list" where
  "service_environment c token render nv =
     [(''BUZZARDOS_SESSION_TOKEN'', token), (''BUZZARDOS_MACHINE_ID'', machine_id c), (''BUZZARDOS_MACHINE_NAME'', machine_name c),
      (''BUZZARDOS_WINDOW_TITLE'', window_title (machine_name c)), (''BUZZARDOS_WINDOW_APP_ID'', BUZZARDOS_HOST_APP_ID),
      (''WLR_RENDERER'', ''gles2'')]
     @ (if gpus c = [''all''] then (case render of None \<Rightarrow> [] | Some n \<Rightarrow> [(''WLR_RENDER_DRM_DEVICE'', n)]) else [])
     @ (case nv of None \<Rightarrow> []
        | Some i \<Rightarrow> [(''BUZZARDOS_NVIDIA_TOOLKIT_VERSION'', injected_version i),
                     (''BUZZARDOS_NVIDIA_CDI_DEVICES'', join_with '','' (injected_devices i))] @ injected_env i)"

definition write_environment_file :: "(string \<times> string) list \<Rightarrow> string" where
  "write_environment_file env = concat (map (\<lambda>(n, v). n @ ''='' @ v @ NL) env)"

section \<open>Devices\<close>

record device_host =
  fuse_stat :: "fs_error + file_kind \<times> nat \<times> nat"
  nvidia_caps :: bool
  apparmor_access :: bool

definition validate_fuse_device_identity :: "bool \<Rightarrow> bool \<Rightarrow> nat \<Rightarrow> nat \<Rightarrow> string + unit" where
  "validate_fuse_device_identity is_symlink is_char major minor =
     then_ok (bail_if (is_symlink \<or> \<not> is_char) ''/dev/fuse must be a real character device'') (\<lambda>_.
     bail_if (major \<noteq> 10 \<or> minor \<noteq> 229) ''expected the Linux FUSE device 10:229'')"

definition add_fuse_device :: "device_host \<Rightarrow> string + string list" where
  "add_fuse_device d =
     then_ok (map_err (\<lambda>e. if e = Fs_NotFound then ''required FUSE device /dev/fuse is missing'' else ''inspecting /dev/fuse'')
       (fuse_stat d)) (\<lambda>(k, major, minor).
     then_ok (validate_fuse_device_identity (k = Kind_Link) (k = Kind_Char) major minor) (\<lambda>_.
     Inr [''--dev-bind'', ''/dev/fuse'', ''/dev/fuse'']))"

definition node_args :: "string list \<Rightarrow> string \<Rightarrow> string list" where
  "node_args gs t =
     (if gs = [''all''] \<and> path_starts_with (path_of t) (path_of ''/dev/dri'') then [] else [''--dev-bind'', t, t])"

definition add_gpu_devices :: "device_host \<Rightarrow> string list \<Rightarrow> injection option \<Rightarrow> string + string list" where
  "add_gpu_devices d gs nv =
     then_ok (bail_if (nv = None \<and> gs \<noteq> [''all'']) ''explicit GPU selection requires a validated NVIDIA CDI selection'') (\<lambda>_.
     Inr ((if gs = [''all''] then [''--dev-bind-try'', ''/dev/dri'', ''/dev/dri''] else [''--dir'', ''/dev/dri''])
       @ (case nv of None \<Rightarrow> []
          | Some i \<Rightarrow> concat (map (node_args gs) (injected_nodes i))
                      @ (if nvidia_caps d then [''--dev-bind'', ''/dev/nvidia-caps'', ''/dev/nvidia-caps''] else []))))"

definition setenv_args :: "string \<times> string \<Rightarrow> string list" where
  "setenv_args p = [''--setenv'', fst p, snd p]"

definition ro_bind_args :: "string \<times> string \<Rightarrow> string list" where
  "ro_bind_args p = [''--ro-bind'', fst p, snd p]"

definition injection_apply :: "injection \<Rightarrow> string list" where
  "injection_apply i =
     concat (map ro_bind_args (library_binds i)) @ concat (map ro_bind_args (metadata_binds i))
     @ concat (map ro_bind_args (cdi_binds i)) @ concat (map setenv_args (injected_env i))"

section \<open>The argument list\<close>

record launch =
  mount_setup_fd :: nat
  guest_fd :: nat
  rootfs_fd :: nat
  block_fd :: nat
  info_fd :: nat
  runtime_dir :: string
  display_dir :: string
  cgroup_dir :: string

definition add_guest_user_namespaces :: "launch \<Rightarrow> string list" where
  "add_guest_user_namespaces l =
     [''--userns'', show_dec (mount_setup_fd l), ''--userns2'', show_dec (guest_fd l), ''--uid'', ''0'', ''--gid'', ''0'']"

definition add_guest_pseudo_filesystems :: "string list" where
  "add_guest_pseudo_filesystems = [''--proc'', ''/proc'', ''--dev'', ''/dev'', ''--mqueue'', ''/dev/mqueue'']"

definition add_bubblewrap_pid_report :: "nat \<Rightarrow> string list" where
  "add_bubblewrap_pid_report fd = [''--info-fd'', show_dec fd]"

definition guest_init_command :: "string list" where
  "guest_init_command =
     [''/usr/bin/unshare'', ''--mount'', ''--propagation'', ''private'', ''/usr/bin/setpriv'', ''--reuid=0'', ''--regid=0'',
      ''--clear-groups'', ''/usr/lib/buzzardos/runtime/current/libexec/buzzardos-init'']"

definition add_guest_init_command :: "string list" where
  "add_guest_init_command = ''--'' # guest_init_command"

definition namespace_flags :: "launch \<Rightarrow> machine_config \<Rightarrow> string list" where
  "namespace_flags l c =
     add_guest_user_namespaces l
     @ (if network c \<noteq> Net_Host then [''--unshare-net''] else [])
     @ [''--die-with-parent'', ''--new-session'', ''--as-pid-1'', ''--cap-add'', ''ALL'']
     @ [''--unshare-pid'', ''--unshare-uts'', ''--unshare-ipc'', ''--unshare-cgroup'']
     @ [''--hostname'', machine_name c, ''--bind-fd'', show_dec (rootfs_fd l), ''/'']
     @ add_guest_pseudo_filesystems"

definition POWEROFF_DROP_IN :: string where
  "POWEROFF_DROP_IN = ''/run/systemd/system/buzzardos-desktop.service.d/10-buzzardos-poweroff-marker.conf''"

definition runtime_mounts :: "launch \<Rightarrow> string list" where
  "runtime_mounts l =
     [''--tmpfs'', ''/run'', ''--tmpfs'', ''/tmp'', ''--chmod'', ''1777'', ''/tmp'']
     @ [''--dir'', ''/run/systemd/system''] @ [''--dir'', ''/run/systemd/system/buzzardos-desktop.service.d'']
     @ ro_bind_args (in_dir (runtime_dir l) ''buzzardos-desktop-poweroff-marker.conf'', POWEROFF_DROP_IN)
     @ [''--dir'', ''/shared''] @ [''--dir'', ''/run/buzzardos-host''] @ [''--dir'', ''/run/buzzardos-display-state'']
     @ [''--bind'', runtime_dir l, ''/run/buzzardos-host'']
     @ ro_bind_args (display_dir l, ''/run/buzzardos-display-state'')
     @ [''--ro-bind-try'', ''/sys'', ''/sys'']
     @ [''--bind'', cgroup_dir l, ''/sys/fs/cgroup'']
     @ ro_bind_args (in_dir (runtime_dir l) ''resolv.conf'', ''/etc/resolv.conf'')
     @ ro_bind_args (in_dir (runtime_dir l) ''hostname'', ''/etc/hostname'')
     @ ro_bind_args (in_dir (runtime_dir l) ''hosts'', ''/etc/hosts'')
     @ [''--block-fd'', show_dec (block_fd l)]"

definition share_args :: "resolved_share \<Rightarrow> string list" where
  "share_args s =
     [if share_read_only s then ''--ro-bind'' else ''--bind'', path_display (share_source s), path_display (share_destination s)]"

definition APPARMOR_ACCESS :: string where "APPARMOR_ACCESS = ''/sys/kernel/security/apparmor/.access''"

definition guest_environment :: "machine_config \<Rightarrow> (string \<times> string) list" where
  "guest_environment c =
     [(''container'', ''buzzardos''), (''BUZZARDOS_STATUS_DIR'', ''/run/buzzardos-host''), (''BUZZARDOS_MACHINE_ID'', machine_id c),
      (''BUZZARDOS_WINDOW_TITLE'', window_title (machine_name c)), (''BUZZARDOS_WINDOW_APP_ID'', BUZZARDOS_HOST_APP_ID)]"

definition sandbox_arguments ::
    "launch \<Rightarrow> device_host \<Rightarrow> machine_config \<Rightarrow> resolved_share list \<Rightarrow> injection option \<Rightarrow> string + string list" where
  "sandbox_arguments l d c ss nv =
     then_ok (environment_pairs (oci c)) (\<lambda>pairs.
     then_ok (add_fuse_device d) (\<lambda>fuse.
     then_ok (add_gpu_devices d (gpus c) nv) (\<lambda>gpu.
     Inr (namespace_flags l c @ runtime_mounts l @ concat (map share_args ss) @ add_bubblewrap_pid_report (info_fd l)
       @ concat (map setenv_args (pairs @ guest_environment c)) @ fuse @ gpu
       @ (case nv of None \<Rightarrow> [] | Some i \<Rightarrow> injection_apply i)
       @ (if apparmor_access d then [''--bind-try'', APPARMOR_ACCESS, APPARMOR_ACCESS] else [])
       @ add_guest_init_command))))"

section \<open>What Bubblewrap reads\<close>

text \<open>
  An option is followed by its operands; \<open>--\<close> ends the options. The number of operands is Bubblewrap's,
  and is only used for the documented options below.
\<close>

type_synonym bwrap_op = "string \<times> string list"

definition before :: "bwrap_op list \<Rightarrow> (bwrap_op list \<times> string list) option \<Rightarrow> (bwrap_op list \<times> string list) option" where
  "before ops r = (case r of None \<Rightarrow> None | Some (more_ops, cmd) \<Rightarrow> Some (ops @ more_ops, cmd))"

lemma before_simps [simp]: "before [] r = r" "before p (before q r) = before (p @ q) r" "before p (Some (q, c)) = Some (p @ q, c)"
  by (auto simp: before_def split: option.split)

function read_options :: "(string \<Rightarrow> nat option) \<Rightarrow> string list \<Rightarrow> (bwrap_op list \<times> string list) option" where
  "read_options ar [] = Some ([], [])"
| "read_options ar (a # r) =
     (if a = ''--'' then Some ([], r)
      else case ar a of
        None \<Rightarrow> None
      | Some n \<Rightarrow> if length r < n then None
                 else before [(a, take n r)] (read_options ar (drop n r)))"
  by pat_completeness auto

termination
  by (relation "measure (\<lambda>(_, r). length r)") auto

definition documented_options :: "(string \<times> nat) list" where
  "documented_options =
     [(''--userns'', 1), (''--userns2'', 1), (''--uid'', 1), (''--gid'', 1), (''--unshare-net'', 0), (''--die-with-parent'', 0),
      (''--new-session'', 0), (''--as-pid-1'', 0), (''--cap-add'', 1), (''--unshare-pid'', 0), (''--unshare-uts'', 0),
      (''--unshare-ipc'', 0), (''--unshare-cgroup'', 0), (''--hostname'', 1), (''--bind-fd'', 2), (''--proc'', 1), (''--dev'', 1),
      (''--mqueue'', 1), (''--tmpfs'', 1), (''--chmod'', 2), (''--dir'', 1), (''--ro-bind'', 2), (''--bind'', 2),
      (''--ro-bind-try'', 2), (''--bind-try'', 2), (''--dev-bind'', 2), (''--dev-bind-try'', 2), (''--block-fd'', 1),
      (''--setenv'', 2), (''--info-fd'', 1)]"

definition bwrap_documented :: "(string \<Rightarrow> nat option) \<Rightarrow> bool" where
  "bwrap_documented ar \<longleftrightarrow> list_all (\<lambda>(o', n). ar o' = Some n) documented_options"

text \<open>A group of arguments is the operations \<open>ops\<close>, whatever follows it.\<close>

definition reads_as :: "(string \<Rightarrow> nat option) \<Rightarrow> string list \<Rightarrow> bwrap_op list \<Rightarrow> bool" where
  "reads_as ar xs ops \<longleftrightarrow> (\<forall>r. read_options ar (xs @ r) = before ops (read_options ar r))"

named_theorems reads_intros \<open>groups of arguments and their operations\<close>

lemma reads_Nil [reads_intros]: "reads_as ar [] []"
  by (simp add: reads_as_def)

lemma reads_append [reads_intros]: "reads_as ar xs p \<Longrightarrow> reads_as ar ys q \<Longrightarrow> reads_as ar (xs @ ys) (p @ q)"
  by (simp add: reads_as_def)

lemma reads_op:
  assumes "bwrap_documented ar" and "(a, n) \<in> set documented_options" and "length vs = n"
  shows "reads_as ar (a # vs) [(a, vs)]"
proof -
  have "ar a = Some n" "a \<noteq> ''--''"
    using assms(1,2) by (auto simp: bwrap_documented_def list_all_iff documented_options_def)
  then show ?thesis
    using assms(3) by (simp add: reads_as_def)
qed

lemma reads_concat: "(\<And>x. x \<in> set xs \<Longrightarrow> reads_as ar (f x) (g x)) \<Longrightarrow> reads_as ar (concat (map f xs)) (concat (map g xs))"
  by (induction xs) (auto intro: reads_intros)

lemma reads_end: "reads_as ar xs ops \<Longrightarrow> read_options ar (xs @ ''--'' # cmd) = Some (ops, cmd)"
  by (simp add: reads_as_def)

definition fixed_ops :: "launch \<Rightarrow> machine_config \<Rightarrow> bwrap_op list" where
  "fixed_ops l c =
     [(''--userns'', [show_dec (mount_setup_fd l)]), (''--userns2'', [show_dec (guest_fd l)]), (''--uid'', [''0'']), (''--gid'', [''0''])]
     @ (if network c \<noteq> Net_Host then [(''--unshare-net'', [])] else [])
     @ [(''--die-with-parent'', []), (''--new-session'', []), (''--as-pid-1'', []), (''--cap-add'', [''ALL'']), (''--unshare-pid'', []),
        (''--unshare-uts'', []), (''--unshare-ipc'', []), (''--unshare-cgroup'', []), (''--hostname'', [machine_name c]),
        (''--bind-fd'', [show_dec (rootfs_fd l), ''/'']), (''--proc'', [''/proc'']), (''--dev'', [''/dev'']), (''--mqueue'', [''/dev/mqueue''])]"

definition runtime_ops :: "launch \<Rightarrow> bwrap_op list" where
  "runtime_ops l =
     [(''--tmpfs'', [''/run'']), (''--tmpfs'', [''/tmp'']), (''--chmod'', [''1777'', ''/tmp'']), (''--dir'', [''/run/systemd/system'']),
      (''--dir'', [''/run/systemd/system/buzzardos-desktop.service.d'']),
      (''--ro-bind'', [in_dir (runtime_dir l) ''buzzardos-desktop-poweroff-marker.conf'', POWEROFF_DROP_IN]),
      (''--dir'', [''/shared'']), (''--dir'', [''/run/buzzardos-host'']), (''--dir'', [''/run/buzzardos-display-state'']),
      (''--bind'', [runtime_dir l, ''/run/buzzardos-host'']), (''--ro-bind'', [display_dir l, ''/run/buzzardos-display-state'']),
      (''--ro-bind-try'', [''/sys'', ''/sys'']), (''--bind'', [cgroup_dir l, ''/sys/fs/cgroup'']),
      (''--ro-bind'', [in_dir (runtime_dir l) ''resolv.conf'', ''/etc/resolv.conf'']),
      (''--ro-bind'', [in_dir (runtime_dir l) ''hostname'', ''/etc/hostname'']),
      (''--ro-bind'', [in_dir (runtime_dir l) ''hosts'', ''/etc/hosts'']), (''--block-fd'', [show_dec (block_fd l)])]"

lemma arities:
  assumes "bwrap_documented ar"
  shows "ar ''--userns'' = Some 1" "ar ''--userns2'' = Some 1" "ar ''--uid'' = Some 1" "ar ''--gid'' = Some 1"
    "ar ''--unshare-net'' = Some 0" "ar ''--die-with-parent'' = Some 0" "ar ''--new-session'' = Some 0" "ar ''--as-pid-1'' = Some 0"
    "ar ''--cap-add'' = Some 1" "ar ''--unshare-pid'' = Some 0" "ar ''--unshare-uts'' = Some 0" "ar ''--unshare-ipc'' = Some 0"
    "ar ''--unshare-cgroup'' = Some 0" "ar ''--hostname'' = Some 1" "ar ''--bind-fd'' = Some 2" "ar ''--proc'' = Some 1"
    "ar ''--dev'' = Some 1" "ar ''--mqueue'' = Some 1" "ar ''--tmpfs'' = Some 1" "ar ''--chmod'' = Some 2" "ar ''--dir'' = Some 1"
    "ar ''--ro-bind'' = Some 2" "ar ''--bind'' = Some 2" "ar ''--ro-bind-try'' = Some 2" "ar ''--bind-try'' = Some 2"
    "ar ''--dev-bind'' = Some 2" "ar ''--dev-bind-try'' = Some 2" "ar ''--block-fd'' = Some 1" "ar ''--setenv'' = Some 2"
    "ar ''--info-fd'' = Some 1"
  using assms by (simp_all add: bwrap_documented_def documented_options_def)

lemma reads_fixed: "bwrap_documented ar \<Longrightarrow> reads_as ar (namespace_flags l c) (fixed_ops l c)"
  by (simp add: reads_as_def namespace_flags_def add_guest_user_namespaces_def add_guest_pseudo_filesystems_def fixed_ops_def arities)

lemma reads_runtime: "bwrap_documented ar \<Longrightarrow> reads_as ar (runtime_mounts l) (runtime_ops l)"
  by (simp add: reads_as_def runtime_mounts_def ro_bind_args_def runtime_ops_def arities)

lemma reads_two: "bwrap_documented ar \<Longrightarrow> o' \<in> {''--setenv'', ''--ro-bind'', ''--bind'', ''--dev-bind'', ''--dev-bind-try'', ''--bind-try''}
    \<Longrightarrow> reads_as ar [o', s, d] [(o', [s, d])]"
  by (auto simp: reads_as_def arities)

definition two_op :: "string \<Rightarrow> string \<times> string \<Rightarrow> bwrap_op list" where
  "two_op o' p = [(o', [fst p, snd p])]"

definition share_op :: "resolved_share \<Rightarrow> bwrap_op list" where
  "share_op s = two_op (if share_read_only s then ''--ro-bind'' else ''--bind'')
     (path_display (share_source s), path_display (share_destination s))"

definition gpu_ops :: "device_host \<Rightarrow> string list \<Rightarrow> injection option \<Rightarrow> bwrap_op list" where
  "gpu_ops d gs nv =
     (if gs = [''all''] then [(''--dev-bind-try'', [''/dev/dri'', ''/dev/dri''])] else [(''--dir'', [''/dev/dri''])])
     @ (case nv of None \<Rightarrow> []
        | Some i \<Rightarrow> concat (map (\<lambda>t. if node_args gs t = [] then [] else two_op ''--dev-bind'' (t, t)) (injected_nodes i))
                    @ (if nvidia_caps d then [(''--dev-bind'', [''/dev/nvidia-caps'', ''/dev/nvidia-caps''])] else []))"

definition injection_ops :: "injection \<Rightarrow> bwrap_op list" where
  "injection_ops i =
     concat (map (two_op ''--ro-bind'') (library_binds i)) @ concat (map (two_op ''--ro-bind'') (metadata_binds i))
     @ concat (map (two_op ''--ro-bind'') (cdi_binds i)) @ concat (map (two_op ''--setenv'') (injected_env i))"

definition all_ops ::
    "launch \<Rightarrow> device_host \<Rightarrow> machine_config \<Rightarrow> resolved_share list \<Rightarrow> injection option \<Rightarrow> (string \<times> string) list \<Rightarrow> bwrap_op list" where
  "all_ops l d c ss nv pairs =
     fixed_ops l c @ runtime_ops l @ concat (map share_op ss) @ [(''--info-fd'', [show_dec (info_fd l)])]
     @ concat (map (two_op ''--setenv'') (pairs @ guest_environment c)) @ [(''--dev-bind'', [''/dev/fuse'', ''/dev/fuse''])]
     @ gpu_ops d (gpus c) nv @ (case nv of None \<Rightarrow> [] | Some i \<Rightarrow> injection_ops i)
     @ (if apparmor_access d then [(''--bind-try'', [APPARMOR_ACCESS, APPARMOR_ACCESS])] else [])"

lemma reads_gpu:
  assumes "bwrap_documented ar" and "add_gpu_devices d gs nv = Inr xs"
  shows "reads_as ar xs (gpu_ops d gs nv)"
proof -
  have dri: "reads_as ar (if gs = [''all''] then [''--dev-bind-try'', ''/dev/dri'', ''/dev/dri''] else [''--dir'', ''/dev/dri''])
      (if gs = [''all''] then [(''--dev-bind-try'', [''/dev/dri'', ''/dev/dri''])] else [(''--dir'', [''/dev/dri''])])"
    using assms(1) by (simp add: reads_as_def arities)
  have nodes: "reads_as ar (concat (map (node_args gs) ts))
      (concat (map (\<lambda>t. if node_args gs t = [] then [] else two_op ''--dev-bind'' (t, t)) ts))" for ts
    by (rule reads_concat) (auto simp: node_args_def two_op_def intro: reads_Nil reads_two assms(1))
  have caps: "reads_as ar (if nvidia_caps d then [''--dev-bind'', ''/dev/nvidia-caps'', ''/dev/nvidia-caps''] else [])
      (if nvidia_caps d then [(''--dev-bind'', [''/dev/nvidia-caps'', ''/dev/nvidia-caps''])] else [])"
    by (auto intro: reads_Nil reads_two assms(1))
  show ?thesis
  proof (cases nv)
    case None
    then show ?thesis
      using assms(2) reads_append [OF dri reads_Nil] by (auto simp: add_gpu_devices_def gpu_ops_def result_simps)
  next
    case (Some i)
    then show ?thesis
      using assms(2) reads_append [OF dri reads_append [OF nodes caps]]
      by (auto simp: add_gpu_devices_def gpu_ops_def result_simps)
  qed
qed

lemma reads_injection: "bwrap_documented ar \<Longrightarrow> reads_as ar (injection_apply i) (injection_ops i)"
  unfolding injection_apply_def injection_ops_def
  by (intro reads_append reads_concat) (auto simp: ro_bind_args_def setenv_args_def two_op_def intro: reads_two)

lemma reads_shares: "bwrap_documented ar \<Longrightarrow> reads_as ar (concat (map share_args ss)) (concat (map share_op ss))"
  by (rule reads_concat) (auto simp: share_args_def share_op_def two_op_def intro: reads_two)

lemma reads_report: "bwrap_documented ar \<Longrightarrow> reads_as ar (add_bubblewrap_pid_report fd) [(''--info-fd'', [show_dec fd])]"
  by (simp add: reads_as_def add_bubblewrap_pid_report_def arities)

lemma reads_env: "bwrap_documented ar \<Longrightarrow> reads_as ar (concat (map setenv_args ps)) (concat (map (two_op ''--setenv'') ps))"
  by (rule reads_concat) (auto simp: setenv_args_def two_op_def intro: reads_two)

lemma reads_fuse: "bwrap_documented ar \<Longrightarrow> reads_as ar [''--dev-bind'', ''/dev/fuse'', ''/dev/fuse''] [(''--dev-bind'', [''/dev/fuse'', ''/dev/fuse''])]"
  by (rule reads_two) simp_all

lemma reads_optional: "bwrap_documented ar \<Longrightarrow>
    reads_as ar (case nv of None \<Rightarrow> [] | Some i \<Rightarrow> injection_apply i) (case nv of None \<Rightarrow> [] | Some i \<Rightarrow> injection_ops i)"
  by (cases nv) (simp_all add: reads_Nil reads_injection)

lemma reads_apparmor: "bwrap_documented ar \<Longrightarrow>
    reads_as ar (if b then [''--bind-try'', APPARMOR_ACCESS, APPARMOR_ACCESS] else [])
      (if b then [(''--bind-try'', [APPARMOR_ACCESS, APPARMOR_ACCESS])] else [])"
  by (simp add: reads_Nil reads_two)

lemma sandbox_arguments_read:
  assumes "bwrap_documented ar" and "sandbox_arguments l d c ss nv = Inr args"
  shows "\<exists>pairs. environment_pairs (oci c) = Inr pairs \<and> read_options ar args = Some (all_ops l d c ss nv pairs, guest_init_command)"
proof -
  obtain pairs where p: "environment_pairs (oci c) = Inr pairs"
    using assms(2) by (cases "environment_pairs (oci c)") (simp_all add: sandbox_arguments_def)
  obtain fuse where f: "add_fuse_device d = Inr fuse"
    using assms(2) by (cases "add_fuse_device d") (simp_all add: sandbox_arguments_def p)
  obtain gpu where g: "add_gpu_devices d (gpus c) nv = Inr gpu"
    using assms(2) by (cases "add_gpu_devices d (gpus c) nv") (simp_all add: sandbox_arguments_def p f)
  have args: "args = (namespace_flags l c @ runtime_mounts l @ concat (map share_args ss) @ add_bubblewrap_pid_report (info_fd l)
       @ concat (map setenv_args (pairs @ guest_environment c)) @ fuse @ gpu
       @ (case nv of None \<Rightarrow> [] | Some i \<Rightarrow> injection_apply i)
       @ (if apparmor_access d then [''--bind-try'', APPARMOR_ACCESS, APPARMOR_ACCESS] else []))
       @ ''--'' # guest_init_command"
    using assms(2) unfolding sandbox_arguments_def p f g then_ok_Inr sum.inject add_guest_init_command_def append_assoc
    by (rule sym)
  have fuse: "fuse = [''--dev-bind'', ''/dev/fuse'', ''/dev/fuse'']"
    using f by (auto simp: add_fuse_device_def result_simps)
  have "read_options ar args = Some (all_ops l d c ss nv pairs, guest_init_command)"
    unfolding args fuse all_ops_def
    by (rule reads_end) (rule reads_append reads_fixed reads_runtime reads_shares reads_report reads_env reads_fuse
      reads_gpu [OF _ g] reads_optional reads_apparmor assms(1))+
  then show ?thesis
    using p by blast
qed

section \<open>What of the host the guest sees\<close>

definition mount_options :: "string list" where
  "mount_options = [''--bind'', ''--ro-bind'', ''--ro-bind-try'', ''--bind-try'', ''--dev-bind'', ''--dev-bind-try'', ''--bind-fd'']"

definition host_mounts :: "bwrap_op list \<Rightarrow> bwrap_op list" where
  "host_mounts ops = filter (\<lambda>(o', _). o' \<in> set mount_options) ops"

definition shared_as :: "(path \<Rightarrow> path option) \<Rightarrow> shared_path \<Rightarrow> bwrap_op" where
  "shared_as canon s =
     (if read_only s then ''--ro-bind'' else ''--bind'',
      [path_display (the (canon (host_path s))), ''/shared/'' @ guest_name s])"

text \<open>Writable mounts, devices, and read-only mounts.\<close>

definition writable_mounts :: "launch \<Rightarrow> bool \<Rightarrow> bwrap_op list" where
  "writable_mounts l apparmor =
     [(''--bind-fd'', [show_dec (rootfs_fd l), ''/'']), (''--bind'', [runtime_dir l, ''/run/buzzardos-host'']),
      (''--bind'', [cgroup_dir l, ''/sys/fs/cgroup''])]
     @ (if apparmor then [(''--bind-try'', [APPARMOR_ACCESS, APPARMOR_ACCESS])] else [])"

definition injected_files :: "injection option \<Rightarrow> (string \<times> string) list" where
  "injected_files nv = (case nv of None \<Rightarrow> [] | Some i \<Rightarrow> library_binds i @ metadata_binds i @ cdi_binds i)"

definition injected_devs :: "injection option \<Rightarrow> string list" where
  "injected_devs nv = (case nv of None \<Rightarrow> [] | Some i \<Rightarrow> ''/dev/nvidia-caps'' # injected_nodes i)"

fun device_mount :: "injection option \<Rightarrow> bwrap_op \<Rightarrow> bool" where
  "device_mount nv (o', [s, t]) \<longleftrightarrow> s = t \<and>
     (o' = ''--dev-bind'' \<and> (s = ''/dev/fuse'' \<or> s \<in> set (injected_devs nv)) \<or> o' = ''--dev-bind-try'' \<and> s = ''/dev/dri'')"
| "device_mount nv _ \<longleftrightarrow> False"

fun read_only_mount :: "launch \<Rightarrow> injection option \<Rightarrow> bwrap_op \<Rightarrow> bool" where
  "read_only_mount l nv (o', [s, t]) \<longleftrightarrow>
     o' = ''--ro-bind-try'' \<and> s = ''/sys'' \<and> t = ''/sys'' \<or>
     o' = ''--ro-bind'' \<and>
       ((s, t) \<in> set (injected_files nv) \<or> s = display_dir l \<and> t = ''/run/buzzardos-display-state'' \<or>
        (s, t) \<in> set (map (\<lambda>(n, t). (in_dir (runtime_dir l) n, t))
          [(''buzzardos-desktop-poweroff-marker.conf'', POWEROFF_DROP_IN), (''resolv.conf'', ''/etc/resolv.conf''),
           (''hostname'', ''/etc/hostname''), (''hosts'', ''/etc/hosts'')]))"
| "read_only_mount l nv _ \<longleftrightarrow> False"

definition mount_allowed ::
    "launch \<Rightarrow> bool \<Rightarrow> (path \<Rightarrow> path option) \<Rightarrow> shared_path list \<Rightarrow> injection option \<Rightarrow> bwrap_op \<Rightarrow> bool" where
  "mount_allowed l apparmor canon ss nv m \<longleftrightarrow>
     m \<in> set (writable_mounts l apparmor) \<or> m \<in> set (map (shared_as canon) ss) \<or> device_mount nv m \<or> read_only_mount l nv m"

lemma map_ok_Inr: "map_ok f xs = Inr ys \<longleftrightarrow> list_all2 (\<lambda>x y. f x = Inr y) xs ys"
  by (induction xs arbitrary: ys) (auto simp: then_ok_eq_Inr list_all2_Cons1)

lemma share_ops_shared:
  assumes "resolve_shared_paths kind_of canon c = Inr ss"
  shows "concat (map share_op ss) = map (shared_as canon) (shares c)"
proof -
  have names: "\<forall>s \<in> set (shares c). safe_name (guest_name s)"
    and all: "list_all2 (\<lambda>s r. resolve_share kind_of canon s = Inr r) (shares c) ss"
    using assms by (auto simp: resolve_shared_paths_def then_ok_eq_Inr validate_shares_def validate_share_list_iff map_ok_Inr)
  have "share_op r = [shared_as canon s]" if "resolve_share kind_of canon s = Inr r" "safe_name (guest_name s)" for s r
    using that by (auto simp: resolve_share_def result_simps share_op_def two_op_def shared_as_def guest_path_safe path_display_def)
  with all names show ?thesis
    by (induction rule: list_all2_induct) auto
qed

lemma host_mounts_append [simp]: "host_mounts (p @ q) = host_mounts p @ host_mounts q"
  by (simp add: host_mounts_def)

lemma host_mounts_two:
  "host_mounts (concat (map (two_op o') ps)) = (if o' \<in> set mount_options then concat (map (two_op o') ps) else [])"
  by (induction ps) (auto simp: two_op_def host_mounts_def)

lemma allowed_fixed: "list_all (mount_allowed l a canon ss nv) (host_mounts (fixed_ops l c))"
  by (simp add: host_mounts_def fixed_ops_def mount_options_def mount_allowed_def writable_mounts_def)

lemma allowed_runtime: "list_all (mount_allowed l a canon ss nv) (host_mounts (runtime_ops l))"
  by (simp add: host_mounts_def runtime_ops_def mount_options_def mount_allowed_def writable_mounts_def)

lemma allowed_shares: "list_all (mount_allowed l a canon ss nv) (host_mounts (map (shared_as canon) ss))"
  by (auto simp: host_mounts_def list_all_iff mount_allowed_def)

lemma allowed_env: "list_all (mount_allowed l a canon ss nv) (host_mounts (concat (map (two_op ''--setenv'') ps)))"
  by (simp add: host_mounts_two mount_options_def)

lemma allowed_gpu: "list_all (mount_allowed l a canon ss nv) (host_mounts (gpu_ops d gs nv))"
proof -
  have "device_mount (Some i) x" if "x \<in> set (concat (map (\<lambda>t. if node_args gs t = [] then [] else two_op ''--dev-bind'' (t, t)) (injected_nodes i)))" for x i
    using that by (auto simp: two_op_def injected_devs_def split: if_splits)
  then show ?thesis
    by (cases nv) (auto simp: host_mounts_def gpu_ops_def list_all_iff mount_allowed_def injected_devs_def mount_options_def)
qed

lemma allowed_injection: "list_all (mount_allowed l a canon ss (Some i)) (host_mounts (injection_ops i))"
  by (simp add: injection_ops_def host_mounts_two mount_options_def)
    (auto simp: list_all_iff two_op_def mount_allowed_def injected_files_def)

lemma all_ops_mounts:
  assumes "resolve_shared_paths kind_of canon c = Inr ss"
  shows "list_all (mount_allowed l (apparmor_access d) canon (shares c) nv) (host_mounts (all_ops l d c ss nv pairs))"
proof -
  have "list_all (mount_allowed l (apparmor_access d) canon (shares c) nv)
      (host_mounts (case nv of None \<Rightarrow> [] | Some i \<Rightarrow> injection_ops i))"
    using allowed_injection by (cases nv) (simp_all add: host_mounts_def)
  moreover have "list_all (mount_allowed l (apparmor_access d) canon (shares c) nv)
      (host_mounts [(''--info-fd'', [show_dec (info_fd l)])])"
    by (simp add: host_mounts_def mount_options_def)
  moreover have "list_all (mount_allowed l (apparmor_access d) canon (shares c) nv)
      (host_mounts [(''--dev-bind'', [''/dev/fuse'', ''/dev/fuse''])])"
    by (simp add: host_mounts_def mount_options_def mount_allowed_def)
  moreover have "list_all (mount_allowed l (apparmor_access d) canon (shares c) nv)
      (host_mounts (if apparmor_access d then [(''--bind-try'', [APPARMOR_ACCESS, APPARMOR_ACCESS])] else []))"
    by (simp add: host_mounts_def mount_options_def mount_allowed_def writable_mounts_def)
  ultimately show ?thesis
    unfolding all_ops_def host_mounts_append list_all_append share_ops_shared [OF assms]
    by (intro conjI allowed_fixed allowed_runtime allowed_shares allowed_env allowed_gpu)
qed

lemma all_ops_flags:
  "((''--unshare-net'', []) \<in> set (all_ops l d c ss nv pairs)) \<longleftrightarrow> network c \<noteq> Net_Host"
proof -
  have "(''--unshare-net'', []) \<notin> set (concat (map (two_op o') ps))" for o' ps
    by (auto simp: two_op_def)
  moreover have "(''--unshare-net'', []) \<notin> set (concat (map share_op ss))"
    by (auto simp: two_op_def share_op_def)
  moreover have "(''--unshare-net'', []) \<notin> set (gpu_ops d gs nv)" for gs
    by (auto simp: gpu_ops_def two_op_def split: option.splits if_splits)
  moreover have "(''--unshare-net'', []) \<notin> set (runtime_ops l)"
    by (simp add: runtime_ops_def)
  moreover have "((''--unshare-net'', []) \<in> set (fixed_ops l c)) \<longleftrightarrow> network c \<noteq> Net_Host"
    by (simp add: fixed_ops_def)
  ultimately show ?thesis
    by (simp add: all_ops_def injection_ops_def del: set_concat set_map split: option.split)
qed

lemma all_ops_isolated:
  "set [(''--unshare-pid'', []), (''--unshare-uts'', []), (''--unshare-ipc'', []), (''--unshare-cgroup'', []),
        (''--userns2'', [show_dec (guest_fd l)]), (''--hostname'', [machine_name c])] \<subseteq> set (all_ops l d c ss nv pairs)"
  by (simp add: all_ops_def fixed_ops_def)

text \<open>
  C5. However a machine is named and configured, Bubblewrap reads the broker's argument list as whole
  options that end in the guest's init command. The host paths it mounts are the writable ones of the
  machine itself, the configured shares (each at its own place below \<open>/shared\<close>, read-only unless the
  configuration says otherwise), admitted device nodes, and read-only files; the guest has its own user,
  process, host name, IPC and cgroup namespaces, and its own network unless it was given the host's.
\<close>

theorem sandbox_confines:
  assumes "sandbox_arguments l d c ss nv = Inr args" and "resolve_shared_paths kind_of canon c = Inr ss"
    and "bwrap_documented ar"
  shows "\<exists>ops. read_options ar args = Some (ops, guest_init_command)
    \<and> list_all (mount_allowed l (apparmor_access d) canon (shares c) nv) (host_mounts ops)
    \<and> set (map (shared_as canon) (shares c)) \<subseteq> set ops \<and> distinct (map guest_name (shares c))
    \<and> (((''--unshare-net'', []) \<in> set ops) = (network c \<noteq> Net_Host))
    \<and> set [(''--unshare-pid'', []), (''--unshare-uts'', []), (''--unshare-ipc'', []), (''--unshare-cgroup'', []),
        (''--userns2'', [show_dec (guest_fd l)]), (''--hostname'', [machine_name c])] \<subseteq> set ops"
proof -
  obtain pairs where r: "read_options ar args = Some (all_ops l d c ss nv pairs, guest_init_command)"
    using sandbox_arguments_read [OF assms(3,1)] by blast
  have "set (map (shared_as canon) (shares c)) \<subseteq> set (all_ops l d c ss nv pairs)"
    unfolding share_ops_shared [OF assms(2), symmetric] by (auto simp: all_ops_def)
  moreover have "distinct (map guest_name (shares c))"
    using assms(2) by (auto simp: resolve_shared_paths_def then_ok_eq_Inr validate_shares_def validate_share_list_iff)
  ultimately show ?thesis
    using r all_ops_mounts [OF assms(2)] all_ops_flags all_ops_isolated by blast
qed

section \<open>A concrete launch\<close>

definition demo_launch :: launch where
  "demo_launch = \<lparr>mount_setup_fd = 5, guest_fd = 6, rootfs_fd = 7, block_fd = 8, info_fd = 9,
     runtime_dir = ''/tmp/r/guest'', display_dir = ''/tmp/r/display-state'', cgroup_dir = ''/sys/fs/cgroup/m''\<rparr>"

definition demo_devices :: device_host where
  "demo_devices = \<lparr>fuse_stat = Inr (Kind_Char, 10, 229), nvidia_caps = False, apparmor_access = True\<rparr>"

definition demo_shared :: shared_path where
  "demo_shared = \<lparr>share_id = ''a'', host_path = Path True [''home'', ''d''], guest_name = ''d'', read_only = True\<rparr>"

definition demo_machine :: machine_config where
  "demo_machine = demo_config\<lparr>shares := [demo_shared], gpus := [''all''], oci := default_oci\<rparr>"

definition demo_resolved :: "resolved_share list" where
  "demo_resolved = [\<lparr>share_source = Path True [''home'', ''d''], share_destination = Path True [''shared'', ''d''], share_read_only = True\<rparr>]"

definition demo_arity :: "string \<Rightarrow> nat option" where
  "demo_arity = map_of documented_options"

theorem sandbox_confines_witness:
  "\<exists>args ops. sandbox_arguments demo_launch demo_devices demo_machine demo_resolved None = Inr args
    \<and> read_options demo_arity args = Some (ops, guest_init_command)
    \<and> list_all (mount_allowed demo_launch True Some [demo_shared] None) (host_mounts ops)
    \<and> (''--ro-bind'', [''/home/d'', ''/shared/d'']) \<in> set ops"
proof -
  have "validate_metadata demo_shared = Inr ()"
    by (simp add: validate_metadata_iff safe_name_def demo_shared_def)
  then have "validate_shares [demo_shared] = Inr ()"
    by (simp add: validate_shares_def)
  moreover have "resolve_share (\<lambda>_. Some Kind_Directory) Some demo_shared = Inr (hd demo_resolved)"
    by (simp add: resolve_share_def demo_shared_def demo_resolved_def guest_path_safe safe_name_def)
  ultimately have r: "resolve_shared_paths (\<lambda>_. Some Kind_Directory) Some demo_machine = Inr demo_resolved"
    by (simp add: resolve_shared_paths_def demo_machine_def) (simp add: demo_resolved_def)
  have "\<exists>args. sandbox_arguments demo_launch demo_devices demo_machine demo_resolved None = Inr args"
    by (simp add: sandbox_arguments_def demo_machine_def add_fuse_device_def demo_devices_def validate_fuse_device_identity_def
        add_gpu_devices_def environment_pairs_def default_oci_def oci_validate_def oci_total_def opt_texts_def MAX_ITEMS_def
        MAX_OCI_TEXT_BYTES_def List.map_filter_def)
  then obtain args where a: "sandbox_arguments demo_launch demo_devices demo_machine demo_resolved None = Inr args"
    by blast
  have "bwrap_documented demo_arity"
    by (simp add: bwrap_documented_def demo_arity_def documented_options_def)
  from sandbox_confines [OF a r this] a show ?thesis
    by (auto simp: demo_devices_def demo_machine_def shared_as_def demo_shared_def path_display_def)
qed

end
