(* ===== verification/Virtual_Keyboard.thy ===== *)
theory Virtual_Keyboard
  imports Prelude "HOL-Library.Sublist"
begin

unbundle bit_operations_syntax

text \<open>
  The virtual keyboard through which the computer-use agent types, \<open>cua/src/platform/wayland/virtual_keyboard.rs\<close>:
  chords, held modifiers and text of any script on one Wayland keyboard, and the worker that owns it and
  must leave no key down whatever fails.

  A session remembers every request it made (\<open>sent\<close>) and how many of them the compositor is known to have
  processed (\<open>acked\<close>, moved by a completed \<open>wl_display.sync\<close>); the compositor may have processed any number
  in between, and its state is what that prefix makes of a neutral keyboard. The outcomes of the syncs, of the
  checks for a shutdown and of new connections are a script. \<open>libxkbcommon\<close> is a parameter; text is a
  list of Unicode scalar values.
\<close>

section \<open>Keys\<close>

record key_transition =
  keycode :: nat
  pressed_down :: bool
  modifier_mask :: u32

definition key_names :: "(string list \<times> nat) list" where
  "key_names =
     [([''enter'', ''return''], 28), ([''tab''], 15), ([''esc'', ''escape''], 1), ([''space''], 57), ([''backspace''], 14),
      ([''delete'', ''del''], 111), ([''up''], 103), ([''down''], 108), ([''left''], 105), ([''right''], 106), ([''home''], 102),
      ([''end''], 107), ([''pageup'', ''page_up''], 104), ([''pagedown'', ''page_down''], 109), ([''a''], 30), ([''b''], 48),
      ([''c''], 46), ([''d''], 32), ([''e''], 18), ([''f''], 33), ([''g''], 34), ([''h''], 35), ([''i''], 23), ([''j''], 36),
      ([''k''], 37), ([''l''], 38), ([''m''], 50), ([''n''], 49), ([''o''], 24), ([''p''], 25), ([''q''], 16), ([''r''], 19),
      ([''s''], 31), ([''t''], 20), ([''u''], 22), ([''v''], 47), ([''w''], 17), ([''x''], 45), ([''y''], 21), ([''z''], 44),
      ([''1''], 2), ([''2''], 3), ([''3''], 4), ([''4''], 5), ([''5''], 6), ([''6''], 7), ([''7''], 8), ([''8''], 9), ([''9''], 10),
      ([''0''], 11), ([''f1''], 59), ([''f2''], 60), ([''f3''], 61), ([''f4''], 62), ([''f5''], 63), ([''f6''], 64), ([''f7''], 65),
      ([''f8''], 66), ([''f9''], 67), ([''f10''], 68), ([''f11''], 87), ([''f12''], 88)]"

definition key_to_evdev :: "string \<Rightarrow> nat option" where
  "key_to_evdev key = map_option snd (find (\<lambda>(ns, _). map to_ascii_lowercase key \<in> set ns) key_names)"

definition modifier_key :: "string \<Rightarrow> (nat \<times> u32) option" where
  "modifier_key m =
     (if m = ''ctrl'' then Some (29, 4) else if m = ''shift'' then Some (42, 1)
      else if m = ''alt'' then Some (56, 8) else if m = ''logo'' then Some (125, 64) else None)"

fun modifier_keys_from :: "(nat \<times> u32) list \<Rightarrow> string list \<Rightarrow> string + (nat \<times> u32) list" where
  "modifier_keys_from keys [] = Inr keys"
| "modifier_keys_from keys (m # ms) =
     (case modifier_key m of
        None \<Rightarrow> Inl (''unsupported Wayland modifier '' @ m)
      | Some k \<Rightarrow> modifier_keys_from (if k \<in> set keys then keys else keys @ [k]) ms)"

definition modifier_keys :: "string list \<Rightarrow> string + (nat \<times> u32) list" where
  "modifier_keys ms = modifier_keys_from [] ms"

fun press_modifiers :: "u32 \<Rightarrow> (nat \<times> u32) list \<Rightarrow> key_transition list \<times> u32" where
  "press_modifiers acc [] = ([], acc)"
| "press_modifiers acc ((k, m) # ms) =
     (let (ts, final) = press_modifiers (acc OR m) ms
      in (\<lparr>keycode = k, pressed_down = True, modifier_mask = acc OR m\<rparr> # ts, final))"

fun release_modifiers :: "u32 \<Rightarrow> (nat \<times> u32) list \<Rightarrow> key_transition list" where
  "release_modifiers acc [] = []"
| "release_modifiers acc ((k, m) # ms) =
     \<lparr>keycode = k, pressed_down = False, modifier_mask = acc AND NOT m\<rparr> # release_modifiers (acc AND NOT m) ms"

definition hotkey_transitions :: "string list \<Rightarrow> string \<Rightarrow> string + key_transition list" where
  "hotkey_transitions modifiers key =
     then_ok (modifier_keys modifiers) (\<lambda>ms.
     then_ok (ok_or (''no evdev keycode mapping for key '' @ key) (key_to_evdev key)) (\<lambda>code.
     let (presses, acc) = press_modifiers 0 ms in
     Inr (presses @ [\<lparr>keycode = code, pressed_down = True, modifier_mask = acc\<rparr>, \<lparr>keycode = code, pressed_down = False, modifier_mask = acc\<rparr>]
       @ release_modifiers acc (rev ms))))"

text \<open>\<open>press_key\<close>: a single upper-case letter is typed with shift.\<close>

definition press_key_transitions :: "string \<Rightarrow> string + key_transition list" where
  "press_key_transitions key =
     (if length key = 1 \<and> list_all ascii_upper key then hotkey_transitions [''shift''] (map to_ascii_lowercase key)
      else hotkey_transitions [] key)"

section \<open>The compositor\<close>

datatype key_request = Key nat bool | Modifiers u32 | Keymap string

record key_view =
  down :: "nat set"
  mods :: u32
  map_text :: string

definition XKB_KEYMAP :: string where
  "XKB_KEYMAP = ''xkb_keymap {'' @ [CHR 0x0A]
     @ '' xkb_keycodes { include \"evdev+aliases(qwerty)\" };'' @ [CHR 0x0A]
     @ '' xkb_types { include \"complete\" };'' @ [CHR 0x0A]
     @ '' xkb_compatibility { include \"complete\" };'' @ [CHR 0x0A]
     @ '' xkb_symbols { include \"pc+us+inet(evdev)\" };'' @ [CHR 0x0A]
     @ '' xkb_geometry { include \"pc(pc105)\" };'' @ [CHR 0x0A] @ ''};'' @ [CHR 0x0A]"

fun view_step :: "key_request \<Rightarrow> key_view \<Rightarrow> key_view" where
  "view_step (Key k True) v = v\<lparr>down := insert k (down v)\<rparr>"
| "view_step (Key k False) v = v\<lparr>down := down v - {k}\<rparr>"
| "view_step (Modifiers m) v = v\<lparr>mods := m\<rparr>"
| "view_step (Keymap t) v = v\<lparr>map_text := t\<rparr>"

definition view_of :: "key_request list \<Rightarrow> key_view" where
  "view_of rs = fold view_step rs \<lparr>down = {}, mods = 0, map_text = []\<rparr>"

lemma view_snoc [simp]: "view_of (rs @ xs) = fold view_step xs (view_of rs)"
  by (simp add: view_of_def)

section \<open>A session\<close>

record key_session =
  sent :: "key_request list"
  acked :: nat
  pressed :: "nat list"
  held_mask :: u32
  active_keymap :: string
  next_sync :: u64

datatype keyboard_error = Unsupported string | Cancelled | Ambiguous string | Invalid string

text \<open>
  The next answers: a sync completes, is overtaken by a shutdown (and would complete or not), or fails; a check
  for a shutdown; a new connection; whether a file for a keymap could be made.
\<close>

datatype sync_outcome = Synced | Overtaken bool | Lost string

record keyboard_world =
  syncs :: "sync_outcome list"
  checks :: "bool list"
  connections :: "(keyboard_error + unit) list"
  files :: "bool list"
  shut :: bool

type_synonym 'a kb = "(keyboard_error + 'a) \<times> key_session \<times> keyboard_world"

definition ensure_admitted :: "key_session \<Rightarrow> keyboard_world \<Rightarrow> unit kb" where
  "ensure_admitted s w =
     (if shut w then (Inl Cancelled, s, w)
      else case checks w of
        [] \<Rightarrow> (Inr (), s, w)
      | True # r \<Rightarrow> (Inr (), s, w\<lparr>checks := r\<rparr>)
      | False # r \<Rightarrow> (Inl Cancelled, s, w\<lparr>checks := r, shut := True\<rparr>))"

definition kb_then :: "'a kb \<Rightarrow> ('a \<Rightarrow> key_session \<Rightarrow> keyboard_world \<Rightarrow> 'b kb) \<Rightarrow> 'b kb" where
  "kb_then r f = (case r of (Inl e, s, w) \<Rightarrow> (Inl e, s, w) | (Inr x, s, w) \<Rightarrow> f x s w)"

definition acknowledge :: "key_session \<Rightarrow> key_session" where
  "acknowledge s = s\<lparr>acked := length (sent s)\<rparr>"

definition bump_sync :: "key_session \<Rightarrow> key_session" where
  "bump_sync s = s\<lparr>next_sync := (if next_sync s + 1 = 0 then 1 else next_sync s + 1)\<rparr>"

text \<open>
  \<open>bounded_roundtrip\<close>: with an admission, a shutdown ends the wait. Generations are distinct (fewer than
  \<open>2^64\<close> syncs on one connection), so a completed sync is the awaited one.
\<close>

definition roundtrip :: "bool \<Rightarrow> key_session \<Rightarrow> keyboard_world \<Rightarrow> unit kb" where
  "roundtrip admitted s w =
     (let s = bump_sync s in
      if admitted \<and> shut w then (Inl Cancelled, s, w) else
      case syncs w of
        [] \<Rightarrow> (Inl (Ambiguous ''wl_display.sync deadline expired''), s, w)
      | Synced # r \<Rightarrow> (Inr (), acknowledge s, w\<lparr>syncs := r\<rparr>)
      | Overtaken ok # r \<Rightarrow>
          (if admitted then (Inl Cancelled, s, w\<lparr>syncs := r, shut := True\<rparr>)
           else if ok then (Inr (), acknowledge s, w\<lparr>syncs := r, shut := True\<rparr>)
           else (Inl (Ambiguous ''wl_display.sync deadline expired''), s, w\<lparr>syncs := r, shut := True\<rparr>))
      | Lost e # r \<Rightarrow> (Inl (Ambiguous e), s, w\<lparr>syncs := r\<rparr>))"

definition send :: "key_request list \<Rightarrow> key_session \<Rightarrow> key_session" where
  "send rs s = s\<lparr>sent := sent s @ rs\<rparr>"

text \<open>\<open>PressedState::record\<close>, which removes the last occurrence; a key occurs once.\<close>

definition remove_last :: "nat \<Rightarrow> nat list \<Rightarrow> nat list" where
  "remove_last k ks = rev (remove1 k (rev ks))"

definition record_key :: "key_transition \<Rightarrow> key_session \<Rightarrow> key_session" where
  "record_key t s =
     s\<lparr>pressed := (if pressed_down t then (if keycode t \<in> set (pressed s) then pressed s else pressed s @ [keycode t])
                  else remove_last (keycode t) (pressed s)),
       held_mask := modifier_mask t\<rparr>"

definition cleanup_transitions :: "key_session \<Rightarrow> key_transition list" where
  "cleanup_transitions s = map (\<lambda>k. \<lparr>keycode = k, pressed_down = False, modifier_mask = 0\<rparr>) (rev (pressed s))"

definition emit_key :: "bool \<Rightarrow> key_transition \<Rightarrow> key_session \<Rightarrow> keyboard_world \<Rightarrow> unit kb" where
  "emit_key admitted t s w =
     (let s = (if pressed_down t then record_key t s else s);
          s = send [Key (keycode t) (pressed_down t), Modifiers (modifier_mask t)] s
      in kb_then (roundtrip admitted s w) (\<lambda>_ s w. (Inr (), if pressed_down t then s else record_key t s, w)))"

text \<open>\<open>reset\<close> goes on after a failure and reports the first one.\<close>

fun emit_each :: "bool \<Rightarrow> key_transition list \<Rightarrow> keyboard_error option \<Rightarrow> key_session \<Rightarrow> keyboard_world \<Rightarrow> keyboard_error option \<times> key_session \<times> keyboard_world" where
  "emit_each admitted [] err s w = (err, s, w)"
| "emit_each admitted (t # ts) err s w =
     (case emit_key admitted t s w of
        (Inr _, s, w) \<Rightarrow> emit_each admitted ts err s w
      | (Inl e, s, w) \<Rightarrow> emit_each admitted ts (if err = None then Some e else err) s w)"

definition reset_keys :: "bool \<Rightarrow> key_session \<Rightarrow> keyboard_world \<Rightarrow> unit kb" where
  "reset_keys admitted s w =
     (case emit_each admitted (cleanup_transitions s) None s w of
        (err, s, w) \<Rightarrow>
          (case roundtrip admitted (send [Modifiers 0] (s\<lparr>held_mask := 0\<rparr>)) w of
             (r, s, w) \<Rightarrow> (case err of Some e \<Rightarrow> (Inl e, s, w) | None \<Rightarrow> (r, s, w))))"

definition keymap_file :: "keyboard_world \<Rightarrow> bool \<times> keyboard_world" where
  "keymap_file w = (case files w of [] \<Rightarrow> (True, w) | ok # r \<Rightarrow> (ok, w\<lparr>files := r\<rparr>))"

definition install_keymap :: "bool \<Rightarrow> string \<Rightarrow> key_session \<Rightarrow> keyboard_world \<Rightarrow> unit kb" where
  "install_keymap admitted t s w =
     (let (ok, w) = keymap_file w in
      if \<not> ok then (Inl (Invalid ''creating the keymap file''), s, w)
      else if 2 ^ 32 \<le> length t + 1 then (Inl (Invalid ''CUA keymap is too large for the Wayland protocol''), s, w)
      else kb_then (roundtrip admitted (send [Keymap t] s) w) (\<lambda>_ s w. (Inr (), s\<lparr>active_keymap := t\<rparr>, w)))"

definition restore_fixed_neutral :: "key_session \<Rightarrow> keyboard_world \<Rightarrow> unit kb" where
  "restore_fixed_neutral s w =
     kb_then (reset_keys False s w) (\<lambda>_ s w. kb_then (install_keymap False XKB_KEYMAP s w) (\<lambda>_. reset_keys False))"

fun emit_admitted :: "key_transition list \<Rightarrow> key_session \<Rightarrow> keyboard_world \<Rightarrow> unit kb" where
  "emit_admitted [] s w = (Inr (), s, w)"
| "emit_admitted (t # ts) s w = kb_then (ensure_admitted s w) (\<lambda>_ s w. kb_then (emit_key True t s w) (\<lambda>_. emit_admitted ts))"

definition key_sequence :: "key_transition list \<Rightarrow> key_session \<Rightarrow> keyboard_world \<Rightarrow> unit kb" where
  "key_sequence ts s w =
     kb_then (ensure_admitted s w) (\<lambda>_ s w. kb_then (reset_keys True s w) (\<lambda>_ s w.
     kb_then (emit_admitted ts s w) (\<lambda>_. reset_keys True)))"

definition hold_modifiers :: "(nat \<times> u32) list \<Rightarrow> key_session \<Rightarrow> keyboard_world \<Rightarrow> unit kb" where
  "hold_modifiers ms s w =
     kb_then (ensure_admitted s w) (\<lambda>_ s w. kb_then (reset_keys True s w) (\<lambda>_. emit_admitted (fst (press_modifiers 0 ms))))"


section \<open>Text\<close>

text \<open>\<open>libxkbcommon\<close>: \<open>utf32_to_keysym\<close>, \<open>keysym_from_name\<close> and \<open>keysym_get_name\<close>.\<close>

record xkb_library =
  utf32_to_keysym :: "nat \<Rightarrow> nat"
  keysym_from_name :: "string \<Rightarrow> nat"
  keysym_get_name :: "nat \<Rightarrow> string"

definition MAX_TYPE_TEXT_CHARS :: nat where "MAX_TYPE_TEXT_CHARS = 65536"
definition MAX_TEXT_KEYMAP_ENTRIES :: nat where "MAX_TEXT_KEYMAP_ENTRIES = 246"
definition TEXT_KEYCODE_OFFSET :: nat where "TEXT_KEYCODE_OFFSET = 1"

definition validate_text_length :: "nat list \<Rightarrow> keyboard_error + nat" where
  "validate_text_length text =
     (if MAX_TYPE_TEXT_CHARS < length text
      then Inl (Invalid (''type_text contains '' @ show_dec (length text) @ '' characters; limit is '' @ show_dec MAX_TYPE_TEXT_CHARS))
      else Inr (length text))"

definition protocol_keycode :: "nat \<Rightarrow> keyboard_error + nat" where
  "protocol_keycode i =
     (if i + TEXT_KEYCODE_OFFSET < 2 ^ 32 then Inr (i + TEXT_KEYCODE_OFFSET)
      else Inl (Invalid ''CUA text keymap has too many distinct keysyms''))"

definition keysym_for_character :: "xkb_library \<Rightarrow> nat \<Rightarrow> nat" where
  "keysym_for_character x c =
     (if c = 10 then keysym_from_name x ''Return'' else if c = 9 then keysym_from_name x ''Tab''
      else if c = 27 then keysym_from_name x ''Escape'' else utf32_to_keysym x c)"

record text_entry =
  for_character :: "nat option"
  entry_keysym :: nat

record text_keymap =
  keymap_text :: string
  text_keycodes :: "nat list"
  trailing_keycode :: "nat option"

fun entry_position :: "(text_entry \<Rightarrow> bool) \<Rightarrow> text_entry list \<Rightarrow> nat option" where
  "entry_position f [] = None"
| "entry_position f (e # es) = (if f e then Some 0 else map_option Suc (entry_position f es))"

definition entry_slot :: "(text_entry \<Rightarrow> bool) \<Rightarrow> text_entry \<Rightarrow> text_entry list \<Rightarrow> text_entry list \<times> nat" where
  "entry_slot f new es = (case entry_position f es of Some i \<Rightarrow> (es, i) | None \<Rightarrow> (es @ [new], length es))"

fun text_entries :: "xkb_library \<Rightarrow> nat list \<Rightarrow> text_entry list \<Rightarrow> nat list \<Rightarrow> keyboard_error + (text_entry list \<times> nat list)" where
  "text_entries x [] es codes = Inr (es, codes)"
| "text_entries x (c # cs) es codes =
     (case entry_slot (\<lambda>e. for_character e = Some c) \<lparr>for_character = Some c, entry_keysym = keysym_for_character x c\<rparr> es of
        (es', i) \<Rightarrow> then_ok (protocol_keycode i) (\<lambda>k. text_entries x cs es' (codes @ [k])))"

definition trailing_entry :: "xkb_library \<Rightarrow> string option \<Rightarrow> text_entry list \<Rightarrow> keyboard_error + (text_entry list \<times> nat option)" where
  "trailing_entry x trailing es =
     (case trailing of
        None \<Rightarrow> Inr (es, None)
      | Some name \<Rightarrow>
          (let sym = keysym_from_name x name in
           if sym = 0 then Inl (Invalid (''invalid trailing XKB keysym '' @ name))
           else case entry_slot (\<lambda>e. entry_keysym e = sym) \<lparr>for_character = None, entry_keysym = sym\<rparr> es of
             (es', i) \<Rightarrow> then_ok (protocol_keycode i) (\<lambda>k. Inr (es', Some k))))"

definition keycode_line :: "nat \<Rightarrow> string" where
  "keycode_line i = ''<K'' @ show_dec (i + 1) @ ''> = '' @ show_dec (i + 9) @ '';''"

definition symbol_line :: "nat \<Rightarrow> string \<Rightarrow> string" where
  "symbol_line i name = ''key <K'' @ show_dec (i + 1) @ ''> {['' @ name @ '']};''"

definition safe_keysym_name :: "string \<Rightarrow> bool" where
  "safe_keysym_name name \<longleftrightarrow> name \<noteq> [] \<and> list_all (\<lambda>b. ascii_alphanumeric b \<or> b \<in> set ''_+-'') name"

fun symbol_lines :: "xkb_library \<Rightarrow> nat \<Rightarrow> text_entry list \<Rightarrow> keyboard_error + string list" where
  "symbol_lines x i [] = Inr []"
| "symbol_lines x i (e # es) =
     (let name = keysym_get_name x (entry_keysym e) in
      if \<not> safe_keysym_name name then Inl (Invalid ''libxkbcommon returned an unsafe keysym name'')
      else then_ok (symbol_lines x (i + 1) es) (\<lambda>ls. Inr (symbol_line i name # ls)))"

definition render_text_keymap :: "xkb_library \<Rightarrow> text_entry list \<Rightarrow> keyboard_error + string" where
  "render_text_keymap x es =
     (if 2 ^ 64 \<le> length es + 9 then Inl (Invalid ''CUA text keymap size overflow'')
      else then_ok (symbol_lines x 0 es) (\<lambda>syms. Inr (concat (map (\<lambda>l. l @ [CHR 0x0A])
        ([''xkb_keymap {'', ''xkb_keycodes \"(unnamed)\" {'', ''minimum = 8;'', ''maximum = '' @ show_dec (length es + 9) @ '';'']
         @ map keycode_line [0..<length es]
         @ [''};'', ''xkb_types \"(unnamed)\" { include \"complete\" };'', ''xkb_compatibility \"(unnamed)\" { include \"complete\" };'',
            ''xkb_symbols \"(unnamed)\" {'']
         @ syms @ [''};'', ''};''])))))"

text \<open>\<open>TextKeymap::build\<close> and \<open>build_chunks\<close>, the loop with its chunks, its current chunk and the distinct characters.\<close>

definition build :: "xkb_library \<Rightarrow> nat list \<Rightarrow> string option \<Rightarrow> keyboard_error + text_keymap" where
  "build x text trailing =
     then_ok (text_entries x text [] []) (\<lambda>(es, codes).
     then_ok (trailing_entry x trailing es) (\<lambda>(es, last_code).
     then_ok (bail_if (es = []) (Invalid ''persistent text transaction contains no keys'')) (\<lambda>_.
     then_ok (bail_if (MAX_TEXT_KEYMAP_ENTRIES < length es) (Invalid ''CUA text keymap has too many entries'')) (\<lambda>_.
     then_ok (render_text_keymap x es) (\<lambda>t.
     Inr \<lparr>keymap_text = t, text_keycodes = codes, trailing_keycode = last_code\<rparr>)))))"

fun chunk_loop :: "xkb_library \<Rightarrow> nat \<Rightarrow> nat list \<Rightarrow> text_keymap list \<Rightarrow> nat list \<Rightarrow> nat list \<Rightarrow> keyboard_error + (text_keymap list \<times> nat list)" where
  "chunk_loop x limit [] chunks chunk seen = Inr (chunks, chunk)"
| "chunk_loop x limit (c # cs) chunks chunk seen =
     (if c \<notin> set seen \<and> length seen = limit
      then then_ok (build x chunk None) (\<lambda>p. chunk_loop x limit cs (chunks @ [p]) [c] [c])
      else chunk_loop x limit cs chunks (chunk @ [c]) (if c \<in> set seen then seen else seen @ [c]))"

definition build_chunks :: "xkb_library \<Rightarrow> nat list \<Rightarrow> string option \<Rightarrow> keyboard_error + text_keymap list" where
  "build_chunks x text trailing =
     then_ok (validate_text_length text) (\<lambda>_.
     let limit = MAX_TEXT_KEYMAP_ENTRIES - (if trailing = None then 0 else 1) in
     then_ok (chunk_loop x limit text [] [] []) (\<lambda>(chunks, chunk).
     then_ok (if chunk \<noteq> [] \<or> trailing \<noteq> None then then_ok (build x chunk trailing) (\<lambda>p. Inr (chunks @ [p])) else Inr chunks) (\<lambda>chunks.
     then_ok (bail_if (chunks = []) (Invalid ''persistent text transaction contains no keys'')) (\<lambda>_. Inr chunks))))"

section \<open>Typing\<close>

text \<open>Delays in milliseconds, waited in slices of ten.\<close>

fun cancellable_delay :: "nat \<Rightarrow> key_session \<Rightarrow> keyboard_world \<Rightarrow> unit kb" where
  "cancellable_delay ms s w =
     (if ms = 0 then ensure_admitted s w else kb_then (ensure_admitted s w) (\<lambda>_ s w. cancellable_delay (ms - 10) s w))"

declare cancellable_delay.simps [simp del]

definition stroke :: "nat \<Rightarrow> key_session \<Rightarrow> keyboard_world \<Rightarrow> unit kb" where
  "stroke k s w =
     kb_then (emit_key True \<lparr>keycode = k, pressed_down = True, modifier_mask = 0\<rparr> s w)
       (\<lambda>_. emit_key True \<lparr>keycode = k, pressed_down = False, modifier_mask = 0\<rparr>)"

fun type_codes :: "nat \<Rightarrow> nat list \<Rightarrow> key_session \<Rightarrow> keyboard_world \<Rightarrow> unit kb" where
  "type_codes delay [] s w = (Inr (), s, w)"
| "type_codes delay (k # ks) s w =
     kb_then (ensure_admitted s w) (\<lambda>_ s w.
     kb_then (stroke k s w) (\<lambda>_ s w.
     kb_then (if 0 < delay then cancellable_delay delay s w else (Inr (), s, w)) (\<lambda>_. type_codes delay ks)))"

definition type_plan :: "nat \<Rightarrow> text_keymap \<Rightarrow> key_session \<Rightarrow> keyboard_world \<Rightarrow> unit kb" where
  "type_plan delay p s w =
     kb_then (ensure_admitted s w) (\<lambda>_ s w.
     kb_then (install_keymap True (keymap_text p) s w) (\<lambda>_ s w.
     kb_then (type_codes delay (text_keycodes p) s w) (\<lambda>_ s w.
     case trailing_keycode p of
       None \<Rightarrow> (Inr (), s, w)
     | Some k \<Rightarrow> kb_then (cancellable_delay 50 s w) (\<lambda>_. stroke k))))"

fun type_plans :: "nat \<Rightarrow> text_keymap list \<Rightarrow> key_session \<Rightarrow> keyboard_world \<Rightarrow> unit kb" where
  "type_plans delay [] s w = (Inr (), s, w)"
| "type_plans delay (p # ps) s w = kb_then (type_plan delay p s w) (\<lambda>_. type_plans delay ps)"

definition first_error :: "'e + unit \<Rightarrow> 'e + unit \<Rightarrow> 'e + unit" where
  "first_error a b = (case a of Inl e \<Rightarrow> Inl e | Inr _ \<Rightarrow> b)"

definition type_text :: "xkb_library \<Rightarrow> nat list \<Rightarrow> nat \<Rightarrow> string option \<Rightarrow> key_session \<Rightarrow> keyboard_world \<Rightarrow> unit kb" where
  "type_text x text delay trailing s w =
     kb_then (ensure_admitted s w) (\<lambda>_ s w.
     case build_chunks x text trailing of
       Inl e \<Rightarrow> (Inl e, s, w)
     | Inr plans \<Rightarrow>
         kb_then (reset_keys True s w) (\<lambda>_ s w.
         case type_plans delay plans s w of (operation, s, w) \<Rightarrow>
         (case reset_keys True s w of
            (Inl e, s, w) \<Rightarrow> (first_error operation (Inl e), s, w)
          | (Inr _, s, w) \<Rightarrow>
              (case install_keymap True XKB_KEYMAP s w of
                 (Inl e, s, w) \<Rightarrow> (first_error operation (Inl e), s, w)
               | (Inr _, s, w) \<Rightarrow> (case reset_keys True s w of (r, s, w) \<Rightarrow> (first_error operation r, s, w))))))"

section \<open>The worker\<close>

text \<open>\<open>dropped\<close> and \<open>world\<close> are the model's: the requests of every session that was given up, and the script.\<close>

record keyboard_worker =
  session :: "key_session option"
  recovery_required :: bool
  cancelled_teardown_unproven :: bool
  dropped :: "key_request list list"
  world :: keyboard_world

definition dropped_requests :: "key_session \<Rightarrow> key_request list" where
  "dropped_requests s = sent s @ map (\<lambda>t. Key (keycode t) False) (cleanup_transitions s) @ [Modifiers 0]"

definition take_session :: "keyboard_worker \<Rightarrow> keyboard_worker" where
  "take_session w =
     (case session w of None \<Rightarrow> w | Some s \<Rightarrow> w\<lparr>session := None, dropped := dropped w @ [dropped_requests s]\<rparr>)"

definition connect :: "keyboard_world \<Rightarrow> (keyboard_error + key_session) \<times> keyboard_world" where
  "connect w =
     (case connections w of
        [] \<Rightarrow> (Inl (Unsupported ''no compositor''), w)
      | Inl e # r \<Rightarrow> (Inl e, w\<lparr>connections := r\<rparr>)
      | Inr _ # r \<Rightarrow>
          (let (ok, w) = keymap_file (w\<lparr>connections := r\<rparr>) in
           if \<not> ok then (Inl (Invalid ''creating the keymap file''), w)
           else case roundtrip False \<lparr>sent = [Keymap XKB_KEYMAP], acked = 0, pressed = [], held_mask = 0, active_keymap = XKB_KEYMAP, next_sync = 3\<rparr> w of
             (Inl e, _, w) \<Rightarrow> (Inl e, w)
           | (Inr _, s, w) \<Rightarrow> (Inr s, w)))"

type_synonym worked = "(keyboard_error + unit) \<times> keyboard_worker"

definition recover_neutral :: "keyboard_worker \<Rightarrow> worked" where
  "recover_neutral k =
     (let k = take_session (k\<lparr>recovery_required := True\<rparr>) in
      case connect (world k) of
        (Inl e, w) \<Rightarrow> (Inl e, k\<lparr>world := w\<rparr>)
      | (Inr s, w) \<Rightarrow>
          (case restore_fixed_neutral s w of
             (Inl e, s, w) \<Rightarrow> (Inl e, k\<lparr>world := w, dropped := dropped k @ [dropped_requests s]\<rparr>)
           | (Inr _, s, w) \<Rightarrow> (Inr (), k\<lparr>world := w, session := Some s, recovery_required := False, cancelled_teardown_unproven := False\<rparr>)))"

definition ensure_session :: "keyboard_worker \<Rightarrow> worked" where
  "ensure_session k =
     (if recovery_required k then recover_neutral k
      else if session k = None then
        (case connect (world k) of
           (Inl e, w) \<Rightarrow> (Inl e, k\<lparr>world := w\<rparr>)
         | (Inr s, w) \<Rightarrow> (Inr (), k\<lparr>world := w, session := Some s\<rparr>))
      else (Inr (), k))"

text \<open>The session of a worker through an operation.\<close>

definition on_session :: "(key_session \<Rightarrow> keyboard_world \<Rightarrow> unit kb) \<Rightarrow> keyboard_worker \<Rightarrow> worked" where
  "on_session f k =
     (case session k of
        None \<Rightarrow> (Inl (Invalid ''no keyboard session''), k)
      | Some s \<Rightarrow> (case f s (world k) of (r, s, w) \<Rightarrow> (r, k\<lparr>session := Some s, world := w\<rparr>)))"

definition run_operation :: "(key_session \<Rightarrow> keyboard_world \<Rightarrow> unit kb) \<Rightarrow> keyboard_worker \<Rightarrow> worked" where
  "run_operation f k =
     (case ensure_session k of
        (Inl e, k) \<Rightarrow> (Inl e, k)
      | (Inr _, k) \<Rightarrow>
          (case on_session f k of
             (Inr _, k) \<Rightarrow> (Inr (), k)
           | (Inl e, k) \<Rightarrow>
               if e = Cancelled then
                 (case on_session restore_fixed_neutral k of
                    (Inr _, k) \<Rightarrow> (Inl e, k\<lparr>recovery_required := False\<rparr>)
                  | (Inl _, k) \<Rightarrow> (Inl e, (take_session k)\<lparr>recovery_required := True, cancelled_teardown_unproven := True\<rparr>))
               else
                 (case on_session restore_fixed_neutral (k\<lparr>recovery_required := True\<rparr>) of
                    (Inr _, k) \<Rightarrow> (Inl e, k\<lparr>recovery_required := False\<rparr>)
                  | (Inl _, k) \<Rightarrow> (Inl e, snd (recover_neutral (take_session k))))))"

definition reset_worker :: "keyboard_worker \<Rightarrow> worked" where
  "reset_worker k =
     (if cancelled_teardown_unproven k then (Inl (Invalid ''cancelled CUA keyboard could not prove same-client neutral delivery''), k)
      else if session k = None \<and> \<not> recovery_required k then (Inr (), k)
      else if recovery_required k then recover_neutral k
      else case on_session restore_fixed_neutral k of
        (Inr _, k) \<Rightarrow> (Inr (), k)
      | (Inl _, k) \<Rightarrow>
          (case recover_neutral (take_session (k\<lparr>recovery_required := True\<rparr>)) of
             (Inr _, k) \<Rightarrow> (Inl (Invalid ''resetting the CUA keyboard failed; a replacement keyboard is neutral''), k)
           | (Inl _, k) \<Rightarrow> (Inl (Invalid ''resetting the CUA keyboard failed; neutral reconnect also failed''), k)))"

definition shutdown_worker :: "keyboard_worker \<Rightarrow> worked" where
  "shutdown_worker k =
     (case (if session k = None then (Inr (), k) else on_session restore_fixed_neutral k) of
        (Inr _, k) \<Rightarrow> (Inr (), take_session k)
      | (Inl e, k) \<Rightarrow> (Inl e, (take_session k)\<lparr>recovery_required := True\<rparr>))"

text \<open>
  A command with its admission: the flag tells whether a shutdown came after the admission was given and before
  the worker took the command.
\<close>

datatype keyboard_command =
  Prepare | Sequence "key_transition list" | Hold_Modifiers "(nat \<times> u32) list" | Type_Text "nat list" nat "string option" | Reset

definition new_worker :: "keyboard_world \<Rightarrow> keyboard_worker" where
  "new_worker w = \<lparr>session = None, recovery_required = False, cancelled_teardown_unproven = False, dropped = [], world = w\<rparr>"

definition keyboard_step :: "xkb_library \<Rightarrow> keyboard_worker \<Rightarrow> keyboard_command \<times> bool \<Rightarrow> keyboard_worker \<times> (keyboard_error + unit)" where
  "keyboard_step x k c =
     (let k = k\<lparr>world := (world k)\<lparr>shut := snd c\<rparr>\<rparr>;
          (r, k) = (case fst c of
             Prepare \<Rightarrow> ensure_session k
           | Sequence ts \<Rightarrow> run_operation (key_sequence ts) k
           | Hold_Modifiers ms \<Rightarrow> run_operation (hold_modifiers ms) k
           | Type_Text text delay trailing \<Rightarrow> run_operation (type_text x text delay trailing) k
           | Reset \<Rightarrow> reset_worker k)
      in (k, r))"


section \<open>What the compositor may hold down\<close>

definition settled :: "key_session \<Rightarrow> bool" where
  "settled s \<longleftrightarrow> acked s = length (sent s)"

definition covers :: "key_session \<Rightarrow> bool" where
  "covers s \<longleftrightarrow>
     acked s \<le> length (sent s) \<and> distinct (pressed s) \<and>
     (\<forall>n \<in> {acked s..length (sent s)}. down (view_of (take n (sent s))) \<subseteq> set (pressed s))"

definition neutral :: "key_session \<Rightarrow> bool" where
  "neutral s \<longleftrightarrow>
     settled s \<and> pressed s = [] \<and> held_mask s = 0 \<and> active_keymap s = XKB_KEYMAP \<and>
     down (view_of (sent s)) = {} \<and> mods (view_of (sent s)) = 0 \<and> map_text (view_of (sent s)) = XKB_KEYMAP"

text \<open>What a session operation ends in, and the rule for a sequence of two.\<close>

definition ends :: "'a kb \<Rightarrow> (keyboard_error + 'a \<Rightarrow> key_session \<Rightarrow> bool) \<Rightarrow> bool" where
  "ends c Q = Q (fst c) (fst (snd c))"

lemma ends_triple [simp]: "ends (r, s, w) Q = Q r s"
  by (simp add: ends_def)

lemma ends_then:
  assumes "ends c P" and "\<And>e s. P (Inl e) s \<Longrightarrow> Q (Inl e) s" and "\<And>x s w. P (Inr x) s \<Longrightarrow> ends (f x s w) Q"
  shows "ends (kb_then c f) Q"
  using assms by (cases c) (auto simp: kb_then_def ends_def split: sum.split)

lemma ends_mono: "ends c P \<Longrightarrow> (\<And>r s. P r s \<Longrightarrow> Q r s) \<Longrightarrow> ends c Q"
  by (simp add: ends_def)

lemma ends_D: "ends c P \<Longrightarrow> c = (r, s, w) \<Longrightarrow> P r s"
  by simp

lemma ensure_admitted_ends [intro]: "(\<And>r. Q r s) \<Longrightarrow> ends (ensure_admitted s w) Q"
  by (auto simp: ensure_admitted_def split: list.split bool.split)

lemma down_step: "down (fold view_step rs v) \<subseteq> down v \<union> {k. Key k True \<in> set rs}"
proof (induction rs arbitrary: v)
  case (Cons r rs)
  have "down (view_step r v) \<subseteq> down v \<union> {k. Key k True = r}"
    by (cases "(r, v)" rule: view_step.cases) auto
  with Cons.IH [of "view_step r v"] show ?case
    by auto
qed simp

lemma covers_now: "covers s \<Longrightarrow> down (view_of (sent s)) \<subseteq> set (pressed s)"
proof -
  assume "covers s"
  then have "down (view_of (take (length (sent s)) (sent s))) \<subseteq> set (pressed s)"
    unfolding covers_def by (auto simp del: take_all)
  then show ?thesis
    by simp
qed

lemma covers_settled: "settled s \<Longrightarrow> covers s \<longleftrightarrow> distinct (pressed s) \<and> down (view_of (sent s)) \<subseteq> set (pressed s)"
  using covers_now [of s] by (auto simp: covers_def settled_def)

lemma covers_send:
  assumes "covers s" and "\<And>k. Key k True \<in> set rs \<Longrightarrow> k \<in> set (pressed s)"
  shows "covers (send rs s)"
proof -
  have "down (view_of (take n (sent s @ rs))) \<subseteq> set (pressed s)" if "acked s \<le> n" "n \<le> length (sent s @ rs)" for n
  proof (cases "n \<le> length (sent s)")
    case True
    with that assms(1) show ?thesis
      by (auto simp: covers_def)
  next
    case False
    then have "take n (sent s @ rs) = sent s @ take (n - length (sent s)) rs"
      by simp
    moreover have "down (view_of (sent s)) \<subseteq> set (pressed s)"
      using assms(1) by (rule covers_now)
    moreover have "{k. Key k True \<in> set (take (n - length (sent s)) rs)} \<subseteq> set (pressed s)"
      using assms(2) by (auto dest: in_set_takeD)
    ultimately show ?thesis
      using down_step [of "take (n - length (sent s)) rs" "view_of (sent s)"] by auto
  qed
  with assms(1) show ?thesis
    by (auto simp: covers_def send_def)
qed

lemma covers_acknowledge [intro]: "covers s \<Longrightarrow> covers (acknowledge s)"
  using covers_now [of s] by (auto simp: covers_def acknowledge_def)

lemma covers_keymap [simp]: "covers (s\<lparr>active_keymap := t\<rparr>) = covers s" "covers (s\<lparr>held_mask := m\<rparr>) = covers s"
  "covers (bump_sync s) = covers s"
  by (simp_all add: covers_def bump_sync_def)

lemma covers_press: "covers s \<Longrightarrow> pressed_down t \<Longrightarrow> covers (record_key t s)"
  by (auto simp: covers_def record_key_def)

lemma remove_last_distinct: "distinct ks \<Longrightarrow> remove_last k ks = filter (\<lambda>j. j \<noteq> k) ks"
  by (simp add: remove_last_def distinct_remove1_removeAll removeAll_filter_not_eq rev_filter eq_commute)

lemma covers_release:
  assumes "covers s" and "settled s" and "keycode t \<notin> down (view_of (sent s))" and "\<not> pressed_down t"
  shows "covers (record_key t s)"
  using assms covers_now [OF assms(1)]
  by (subst covers_settled) (auto simp: settled_def record_key_def covers_def remove_last_distinct)

section \<open>Operations keep track of the keys\<close>

lemma roundtrip_ends:
  assumes "covers s"
  shows "ends (roundtrip adm s w) (\<lambda>r u. covers u \<and> sent u = sent s \<and> pressed u = pressed s \<and> held_mask u = held_mask s \<and>
    active_keymap u = active_keymap s \<and> (r = Inr () \<longrightarrow> settled u))"
proof -
  have b: "covers (bump_sync s)" "covers (acknowledge (bump_sync s))"
    using assms by auto
  have a: "sent (bump_sync s) = sent s" "pressed (bump_sync s) = pressed s" "held_mask (bump_sync s) = held_mask s"
    "active_keymap (bump_sync s) = active_keymap s" "sent (acknowledge s') = sent s'" "pressed (acknowledge s') = pressed s'"
    "held_mask (acknowledge s') = held_mask s'" "active_keymap (acknowledge s') = active_keymap s'" "settled (acknowledge s')" for s'
    by (simp_all add: bump_sync_def acknowledge_def settled_def)
  show ?thesis
    by (simp only: roundtrip_def Let_def) (simp add: a b assms split: list.split sync_outcome.split)
qed

definition requests_of :: "key_transition \<Rightarrow> key_request list" where
  "requests_of t = [Key (keycode t) (pressed_down t), Modifiers (modifier_mask t)]"

lemma emit_eq:
  "emit_key adm t s w =
     kb_then (roundtrip adm (send (requests_of t) (if pressed_down t then record_key t s else s)) w)
       (\<lambda>_ s w. (Inr (), if pressed_down t then s else record_key t s, w))"
  by (simp add: emit_key_def requests_of_def Let_def)

lemma emit_ends:
  assumes "covers s"
  shows "ends (emit_key adm t s w) (\<lambda>r u. covers u \<and> sent u = sent s @ requests_of t \<and> active_keymap u = active_keymap s \<and>
    (r = Inr () \<longrightarrow> settled u \<and> pressed u = pressed (record_key t s) \<and> held_mask u = modifier_mask t) \<and>
    (r \<noteq> Inr () \<and> \<not> pressed_down t \<longrightarrow> pressed u = pressed s))"
proof (cases "pressed_down t")
  case True
  have "covers (send (requests_of t) (record_key t s))"
    using assms True by (intro covers_send covers_press) (auto simp: requests_of_def record_key_def)
  have "ends (kb_then (roundtrip adm (send (requests_of t) (record_key t s)) w) (\<lambda>_ s w. (Inr (), s, w)))
     (\<lambda>r u. covers u \<and> sent u = sent s @ requests_of t \<and> active_keymap u = active_keymap s \<and>
    (r = Inr () \<longrightarrow> settled u \<and> pressed u = pressed (record_key t s) \<and> held_mask u = modifier_mask t))"
    by (rule ends_then [OF roundtrip_ends [OF \<open>covers (send _ _)\<close>]]) (auto simp: send_def record_key_def)
  then show ?thesis
    using True by (simp add: emit_eq)
next
  case False
  have "covers (send (requests_of t) s)"
    using assms False by (intro covers_send) (auto simp: requests_of_def)
  have "ends (kb_then (roundtrip adm (send (requests_of t) s) w) (\<lambda>_ s w. (Inr (), record_key t s, w)))
     (\<lambda>r u. covers u \<and> sent u = sent s @ requests_of t \<and> active_keymap u = active_keymap s \<and>
    (r = Inr () \<longrightarrow> settled u \<and> pressed u = pressed (record_key t s) \<and> held_mask u = modifier_mask t) \<and>
    (r \<noteq> Inr () \<longrightarrow> pressed u = pressed s))"
  proof (rule ends_then [OF roundtrip_ends [OF \<open>covers (send _ _)\<close>]], goal_cases)
    case (2 x u w)
    then have u: "covers u" "settled u" "sent u = sent s @ requests_of t" "pressed u = pressed s" "active_keymap u = active_keymap s"
      by (auto simp: send_def)
    then have "covers (record_key t u)"
      using False by (intro covers_release) (auto simp: requests_of_def)
    with u False show ?case
      by (auto simp: settled_def record_key_def)
  qed (auto simp: send_def)
  then show ?thesis
    using False by (simp add: emit_eq)
qed

lemma record_release: "distinct (pressed s) \<Longrightarrow> \<not> pressed_down t \<Longrightarrow> pressed (record_key t s) = filter (\<lambda>j. j \<noteq> keycode t) (pressed s)"
  by (simp add: record_key_def remove_last_distinct)

lemma covers_distinct: "covers s \<Longrightarrow> distinct (pressed s)"
  by (simp add: covers_def)

lemma emit_each_ends:
  assumes "covers s" and "\<forall>t \<in> set ts. \<not> pressed_down t"
  shows "case emit_each adm ts err s w of (err', u, w') \<Rightarrow>
    covers u \<and> sent u = sent s @ concat (map requests_of ts) \<and> active_keymap u = active_keymap s \<and>
    (err \<noteq> None \<longrightarrow> err' \<noteq> None) \<and>
    (err' = None \<longrightarrow> pressed u = filter (\<lambda>j. j \<notin> keycode ` set ts) (pressed s))"
  using assms
proof (induction ts arbitrary: err s w)
  case (Cons t ts)
  obtain r s1 w1 where e: "emit_key adm t s w = (r, s1, w1)"
    by (cases "emit_key adm t s w") auto
  from ends_D [OF emit_ends [OF Cons.prems(1)] e]
  have c: "covers s1" "sent s1 = sent s @ requests_of t" "active_keymap s1 = active_keymap s"
    and p: "r = Inr () \<Longrightarrow> pressed s1 = filter (\<lambda>j. j \<noteq> keycode t) (pressed s)"
    using Cons.prems by (auto simp: record_release covers_distinct)
  show ?case
  proof (cases r)
    case (Inl d)
    show ?thesis
      using Cons.IH [OF c(1), of "if err = None then Some d else err" w1] Cons.prems c Inl
      by (auto simp: e split: prod.splits if_splits)
  next
    case (Inr x)
    then have "pressed s1 = filter (\<lambda>j. j \<noteq> keycode t) (pressed s)"
      using p by simp
    with Cons.IH [OF c(1), of err w1] Cons.prems c Inr show ?thesis
      by (auto simp: e conj_commute split: prod.splits cong: filter_cong)
  qed
qed simp

definition cleanup_requests :: "nat list \<Rightarrow> key_request list" where
  "cleanup_requests ks = concat (map (\<lambda>k. [Key k False, Modifiers 0]) (rev ks)) @ [Modifiers 0]"

lemma reset_ends:
  assumes "covers s"
  shows "ends (reset_keys adm s w) (\<lambda>r u. covers u \<and> sent u = sent s @ cleanup_requests (pressed s) \<and> active_keymap u = active_keymap s \<and>
    (r = Inr () \<longrightarrow> settled u \<and> pressed u = [] \<and> held_mask u = 0))"
proof -
  obtain err s1 w1 where e: "emit_each adm (cleanup_transitions s) None s w = (err, s1, w1)"
    by (cases "emit_each adm (cleanup_transitions s) None s w") auto
  have reqs: "concat (map requests_of (cleanup_transitions s)) @ [Modifiers 0] = cleanup_requests (pressed s)"
    by (simp add: cleanup_requests_def cleanup_transitions_def requests_of_def comp_def)
  have keys: "keycode ` set (cleanup_transitions s) = set (pressed s)"
    by (force simp: cleanup_transitions_def image_iff)
  have "\<forall>t \<in> set (cleanup_transitions s). \<not> pressed_down t"
    by (auto simp: cleanup_transitions_def)
  from emit_each_ends [OF assms this, of None adm w] e keys
  have c: "covers s1" "sent s1 = sent s @ concat (map requests_of (cleanup_transitions s))" "active_keymap s1 = active_keymap s"
    and p: "err = None \<Longrightarrow> pressed s1 = []"
    by auto
  have "covers (send [Modifiers 0] (s1\<lparr>held_mask := 0\<rparr>))"
    using c(1) by (intro covers_send) auto
  moreover obtain r u w2 where rt: "roundtrip adm (send [Modifiers 0] (s1\<lparr>held_mask := 0\<rparr>)) w1 = (r, u, w2)"
    by (cases "roundtrip adm (send [Modifiers 0] (s1\<lparr>held_mask := 0\<rparr>)) w1") auto
  ultimately have "covers u \<and> sent u = sent s1 @ [Modifiers 0] \<and> pressed u = pressed s1 \<and> held_mask u = 0 \<and>
      active_keymap u = active_keymap s1 \<and> (r = Inr () \<longrightarrow> settled u)"
    using ends_D [OF roundtrip_ends rt] by (simp add: send_def)
  then show ?thesis
    using c p by (auto simp: reset_keys_def e rt reqs [symmetric] split: option.split)
qed

text \<open>A keymap, and the way back to a neutral keyboard.\<close>

lemma neutral_covers [simp]: "neutral s \<Longrightarrow> covers s"
  by (simp add: neutral_def covers_settled)

lemma install_ends:
  assumes "covers s"
  shows "ends (install_keymap adm t s w) (\<lambda>r u. covers u \<and> pressed u = pressed s \<and> held_mask u = held_mask s \<and>
    (sent u = sent s @ [Keymap t] \<or> r \<noteq> Inr () \<and> sent u = sent s) \<and>
    (r = Inr () \<longrightarrow> settled u \<and> active_keymap u = t))"
proof -
  have "covers (send [Keymap t] s)"
    using assms by (intro covers_send) auto
  from roundtrip_ends [OF this]
  have "ends (kb_then (roundtrip adm (send [Keymap t] s) w') (\<lambda>_ s w. (Inr (), s\<lparr>active_keymap := t\<rparr>, w)))
      (\<lambda>r u. covers u \<and> pressed u = pressed s \<and> held_mask u = held_mask s \<and>
    (sent u = sent s @ [Keymap t] \<or> r \<noteq> Inr () \<and> sent u = sent s) \<and>
    (r = Inr () \<longrightarrow> settled u \<and> active_keymap u = t))" for w'
    by (rule ends_then) (auto simp: send_def settled_def)
  with assms show ?thesis
    by (simp add: install_keymap_def split: prod.split)
qed

lemma view_cleanup:
  "fold view_step (cleanup_requests ks) v = v\<lparr>down := down v - set ks, mods := 0\<rparr>"
proof -
  have "fold view_step (concat (map (\<lambda>k. [Key k False, Modifiers 0]) js)) v =
      (if js = [] then v else v\<lparr>down := down v - set js, mods := 0\<rparr>)" for js v
    by (induction js arbitrary: v) (auto simp: Diff_insert2 [symmetric])
  then show ?thesis
    by (simp add: cleanup_requests_def)
qed

lemma restore_ends:
  assumes "covers s"
  shows "ends (restore_fixed_neutral s w) (\<lambda>r u. covers u \<and> (r = Inr () \<longrightarrow> neutral u))"
  unfolding restore_fixed_neutral_def
proof (rule ends_then [OF reset_ends [OF assms]], goal_cases)
  case (2 x s1 w1)
  then have c: "covers s1"
    by simp
  show ?case
  proof (rule ends_then [OF install_ends [OF c]], goal_cases)
    case (2 x s2 w2)
    then have c: "covers s2" and k: "active_keymap s2 = XKB_KEYMAP" "map_text (view_of (sent s2)) = XKB_KEYMAP"
      by auto
    from covers_now [OF c] k show ?case
      by (intro ends_mono [OF reset_ends [OF c]]) (auto simp: neutral_def view_cleanup)
  qed auto
qed auto

definition track :: "key_transition \<Rightarrow> nat list \<Rightarrow> nat list" where
  "track t ks = (if pressed_down t then (if keycode t \<in> set ks then ks else ks @ [keycode t]) else remove_last (keycode t) ks)"

lemma pressed_record_key: "pressed (record_key t s) = track t (pressed s)"
  by (simp add: record_key_def track_def)

lemma emit_admitted_ends:
  assumes "covers s"
  shows "ends (emit_admitted ts s w) (\<lambda>r u. covers u \<and> (r = Inr () \<longrightarrow> sent u = sent s @ concat (map requests_of ts) \<and>
    active_keymap u = active_keymap s \<and> (settled s \<longrightarrow> settled u) \<and> pressed u = fold track ts (pressed s)))"
  using assms
proof (induction ts arbitrary: s w)
  case (Cons t ts)
  show ?case
    unfolding emit_admitted.simps
  proof (rule ends_then [where P = "\<lambda>r u. u = s"], goal_cases)
    case (3 x s1 w1)
    then have "covers s1" "s1 = s"
      using Cons.prems by auto
    show ?case
    proof (rule ends_then [OF emit_ends [OF \<open>covers s1\<close>]], goal_cases)
      case (2 x s2 w2)
      then show ?case
        using \<open>s1 = s\<close> by (intro ends_mono [OF Cons.IH]) (auto simp: pressed_record_key)
    qed auto
  qed (use Cons.prems in auto)
qed simp

lemma ensure_ends: "covers s \<Longrightarrow> ends (ensure_admitted s w) (\<lambda>r u. u = s \<and> covers u)"
  by auto

lemma key_sequence_ends:
  assumes "covers s"
  shows "ends (key_sequence ts s w) (\<lambda>r u. covers u \<and> (r = Inr () \<longrightarrow> settled u \<and> pressed u = [] \<and> held_mask u = 0 \<and>
    active_keymap u = active_keymap s \<and>
    sent u = sent s @ cleanup_requests (pressed s) @ concat (map requests_of ts) @ cleanup_requests (fold track ts [])))"
  unfolding key_sequence_def
proof (rule ends_then [OF ensure_ends [OF assms]], goal_cases)
  case (2 x s0 w0)
  then have s0: "s0 = s" by simp
  show ?case
    unfolding s0
  proof (rule ends_then [OF reset_ends [OF assms]], goal_cases)
    case (2 x s1 w1)
    then have c: "covers s1" by simp
    note s1 = 2
    show ?case
    proof (rule ends_then [OF emit_admitted_ends [OF c]], goal_cases)
      case (2 x s2 w2)
      then have c: "covers s2" by simp
      show ?case
        by (rule ends_mono [OF reset_ends [OF c]]) (use 2 s1 in auto)
    qed auto
  qed auto
qed auto

lemma hold_modifiers_ends:
  assumes "covers s"
  shows "ends (hold_modifiers ms s w) (\<lambda>r u. covers u \<and> (r = Inr () \<longrightarrow> settled u \<and> active_keymap u = active_keymap s \<and>
    sent u = sent s @ cleanup_requests (pressed s) @ concat (map requests_of (fst (press_modifiers 0 ms)))))"
  unfolding hold_modifiers_def
proof (rule ends_then [OF ensure_ends [OF assms]], goal_cases)
  case (2 x s0 w0)
  then have c0: "covers s0" and s0: "s0 = s" by auto
  show ?case
  proof (rule ends_then [OF reset_ends [OF c0]], goal_cases)
    case (2 y s1 w1)
    then have c: "covers s1" by simp
    show ?case
      by (rule ends_mono [OF emit_admitted_ends [OF c]]) (use 2 s0 in auto)
  qed auto
qed auto

lemma delay_ends: "ends (cancellable_delay ms s w) (\<lambda>r u. u = s)"
proof (induction ms s w rule: cancellable_delay.induct)
  case (1 ms s w)
  show ?case
  proof (cases "ms = 0")
    case False
    then have "ends (kb_then (ensure_admitted s w) (\<lambda>_. cancellable_delay (ms - 10))) (\<lambda>r u. u = s)"
      by (intro ends_then [where P = "\<lambda>r u. u = s"]) (auto intro: 1)
    with False show ?thesis
      by (subst cancellable_delay.simps) simp
  qed (subst cancellable_delay.simps, auto)
qed

definition stroke_requests :: "nat \<Rightarrow> key_request list" where
  "stroke_requests k = [Key k True, Modifiers 0, Key k False, Modifiers 0]"

definition plan_requests :: "text_keymap \<Rightarrow> key_request list" where
  "plan_requests p =
     Keymap (keymap_text p) # concat (map stroke_requests (text_keycodes p @ (case trailing_keycode p of None \<Rightarrow> [] | Some k \<Rightarrow> [k])))"

text \<open>A successful part of typing sends \<open>rs\<close>, starts and ends with no key down.\<close>

definition types :: "key_request list \<Rightarrow> key_session \<Rightarrow> keyboard_error + unit \<Rightarrow> key_session \<Rightarrow> bool" where
  "types rs s r u \<longleftrightarrow> covers u \<and> (r = Inr () \<and> pressed s = [] \<longrightarrow> pressed u = [] \<and> sent u = sent s @ rs)"

lemma types_refl: "covers s \<Longrightarrow> types [] s r s"
  by (simp add: types_def)

lemma types_then:
  assumes "ends c (types xs s)" and "\<And>u w. covers u \<Longrightarrow> ends (f () u w) (types ys u)"
  shows "ends (kb_then c f) (types (xs @ ys) s)"
proof (rule ends_then [OF assms(1)], goal_cases)
  case (2 x u w)
  then have "covers u" by (simp add: types_def)
  from ends_mono [OF assms(2) [OF this]] 2 show ?case
    by (simp add: types_def)
qed (simp add: types_def)

lemma types_ensure: "covers s \<Longrightarrow> ends (ensure_admitted s w) (types [] s)"
  by (rule ends_mono [OF ensure_ends]) (auto simp: types_def)

lemma types_delay: "covers s \<Longrightarrow> ends (cancellable_delay ms s w) (types [] s)"
  by (rule ends_mono [OF delay_ends]) (simp add: types_refl)

lemma types_install: "covers s \<Longrightarrow> ends (install_keymap adm t s w) (types [Keymap t] s)"
  by (rule ends_mono [OF install_ends]) (auto simp: types_def)

lemma types_stroke:
  assumes "covers s"
  shows "ends (stroke k s w) (types (stroke_requests k) s)"
  unfolding stroke_def
proof (rule ends_then [OF emit_ends [OF assms]], goal_cases)
  case (2 x s1 w1)
  then have c: "covers s1" by simp
  show ?case
    by (rule ends_mono [OF emit_ends [OF c]])
      (use 2 in \<open>auto simp: types_def stroke_requests_def requests_of_def pressed_record_key track_def remove_last_def\<close>)
qed (simp add: types_def)

lemma types_codes: "covers s \<Longrightarrow> ends (type_codes delay ks s w) (types (concat (map stroke_requests ks)) s)"
proof (induction ks arbitrary: s w)
  case (Cons k ks)
  have "ends (type_codes delay (k # ks) s w) (types ([] @ stroke_requests k @ [] @ concat (map stroke_requests ks)) s)"
    unfolding type_codes.simps
    by (intro types_then types_ensure types_stroke Cons) (auto intro: types_delay types_refl)
  then show ?case by simp
qed (simp add: types_refl)

lemma types_plan:
  assumes "covers s"
  shows "ends (type_plan delay p s w) (types (plan_requests p) s)"
proof -
  have "ends (type_plan delay p s w)
      (types ([] @ [Keymap (keymap_text p)] @ concat (map stroke_requests (text_keycodes p)) @
        (case trailing_keycode p of None \<Rightarrow> [] | Some k \<Rightarrow> [] @ stroke_requests k)) s)"
    unfolding type_plan_def using assms
    by (intro types_then types_ensure types_install types_codes)
      (auto split: option.split intro: types_refl types_then [where xs = "[]", simplified] types_delay types_stroke)
  then show ?thesis
    by (simp add: plan_requests_def split: option.splits)
qed

lemma types_plans: "covers s \<Longrightarrow> ends (type_plans delay ps s w) (types (concat (map plan_requests ps)) s)"
  by (induction ps arbitrary: s w) (auto intro: types_refl types_then types_plan)

lemma type_text_ends:
  assumes "covers s"
  shows "ends (type_text x text delay trailing s w) (\<lambda>r u. covers u \<and>
    (r = Inr () \<longrightarrow> settled u \<and> pressed u = [] \<and> held_mask u = 0 \<and> active_keymap u = XKB_KEYMAP \<and>
      (\<exists>plans. build_chunks x text trailing = Inr plans \<and>
        sent u = sent s @ cleanup_requests (pressed s) @ concat (map plan_requests plans) @ [Modifiers 0, Keymap XKB_KEYMAP, Modifiers 0])))"
  unfolding type_text_def
proof (rule ends_then [OF ensure_ends [OF assms]], goal_cases)
  case (2 y s0 w0)
  then have s0: "s0 = s" by simp
  show ?case
  proof (cases "build_chunks x text trailing")
    case (Inr plans)
    have "ends (kb_then (reset_keys True s w0) f) Q" if f: "\<And>u w. covers u \<Longrightarrow> pressed u = [] \<Longrightarrow>
        sent u = sent s @ cleanup_requests (pressed s) \<Longrightarrow> ends (f () u w) Q" and e: "\<And>e u. covers u \<Longrightarrow> Q (Inl e) u" for f Q
      by (rule ends_then [OF reset_ends [OF assms]]) (auto intro: f e)
    note start = this
    show ?thesis
      unfolding s0 Inr sum.case
    proof (rule start, goal_cases)
      case (1 u w1)
      obtain r1 s1 w1' where p: "type_plans delay plans u w1 = (r1, s1, w1')"
        by (cases "type_plans delay plans u w1") auto
      from ends_D [OF types_plans [OF 1(1)] p] have c1: "covers s1"
        and t1: "r1 = Inr () \<Longrightarrow> sent s1 = sent u @ concat (map plan_requests plans) \<and> pressed s1 = []"
        using 1 by (auto simp: types_def)
      obtain r2 s2 w2 where p2: "reset_keys True s1 w1' = (r2, s2, w2)"
        by (cases "reset_keys True s1 w1'") auto
      note t2 = ends_D [OF reset_ends [OF c1] p2]
      then have c2: "covers s2" by simp
      obtain r3 s3 w3 where p3: "install_keymap True XKB_KEYMAP s2 w2 = (r3, s3, w3)"
        by (cases "install_keymap True XKB_KEYMAP s2 w2") auto
      note t3 = ends_D [OF install_ends [OF c2] p3]
      then have c3: "covers s3" by simp
      obtain r4 s4 w4 where p4: "reset_keys True s3 w3 = (r4, s4, w4)"
        by (cases "reset_keys True s3 w3") auto
      note t4 = ends_D [OF reset_ends [OF c3] p4]
      show ?case
        using t1 t2 t3 t4 1
        by (auto simp: p p2 p3 p4 first_error_def cleanup_requests_def Inr split: sum.split)
    qed auto
  qed (use assms s0 in auto)
qed auto

section \<open>The worker's invariant\<close>

definition kept_session :: "key_session \<Rightarrow> bool" where
  "kept_session s \<longleftrightarrow> covers s \<and> settled s \<and> active_keymap s = XKB_KEYMAP \<and> map_text (view_of (sent s)) = XKB_KEYMAP"

definition quiet_requests :: "key_request list \<Rightarrow> bool" where
  "quiet_requests d \<longleftrightarrow> down (view_of d) = {} \<and> mods (view_of d) = 0"

definition covered :: "keyboard_worker \<Rightarrow> bool" where
  "covered k \<longleftrightarrow> list_all quiet_requests (dropped k) \<and> (case session k of None \<Rightarrow> True | Some s \<Rightarrow> covers s)"

definition worker_ok :: "keyboard_worker \<Rightarrow> bool" where
  "worker_ok k \<longleftrightarrow>
     covered k \<and> (case session k of None \<Rightarrow> True | Some s \<Rightarrow> kept_session s) \<and>
     (recovery_required k \<longrightarrow> session k = None) \<and> (cancelled_teardown_unproven k \<longrightarrow> recovery_required k)"

lemma neutral_kept: "neutral s \<Longrightarrow> kept_session s"
  by (simp add: kept_session_def) (simp add: neutral_def)

lemma kept_covers: "kept_session s \<Longrightarrow> covers s"
  by (simp add: kept_session_def)

lemma drop_quiet: "covers s \<Longrightarrow> quiet_requests (dropped_requests s)"
proof -
  assume "covers s"
  have "fold view_step (map (\<lambda>k. Key k False) js) v = v\<lparr>down := down v - set js\<rparr>" for js v
    by (induction js arbitrary: v) (auto simp: Diff_insert2 [symmetric])
  moreover have "map (\<lambda>t. Key (keycode t) False) (cleanup_transitions s) = map (\<lambda>k. Key k False) (rev (pressed s))"
    by (simp add: cleanup_transitions_def)
  ultimately show ?thesis
    using covers_now [OF \<open>covers s\<close>] by (simp add: quiet_requests_def dropped_requests_def)
qed

lemma take_covered: "covered k \<Longrightarrow> covered (take_session k) \<and> session (take_session k) = None \<and>
    recovery_required (take_session k) = recovery_required k \<and> cancelled_teardown_unproven (take_session k) = cancelled_teardown_unproven k"
  by (auto simp: take_session_def covered_def drop_quiet split: option.split)

lemma connect_neutral:
  assumes "connect w = (Inr s, w')"
  shows "neutral s"
proof -
  define e where "e = \<lparr>sent = [], acked = 0, pressed = [], held_mask = 0, active_keymap = XKB_KEYMAP, next_sync = 3\<rparr>"
  have "covers e"
    by (simp add: e_def covers_def view_of_def)
  then have "covers (send [Keymap XKB_KEYMAP] e)"
    by (rule covers_send) simp
  moreover obtain u where "roundtrip False (send [Keymap XKB_KEYMAP] e) u = (Inr (), s, w')"
    using assms by (auto simp: connect_def e_def send_def split: list.splits sum.splits prod.splits if_splits)
  ultimately have "sent s = [Keymap XKB_KEYMAP] \<and> pressed s = [] \<and> held_mask s = 0 \<and> active_keymap s = XKB_KEYMAP \<and> settled s"
    using ends_D [OF roundtrip_ends] by (fastforce simp: e_def send_def)
  then show ?thesis
    by (simp add: neutral_def view_of_def)
qed

lemma recover_keeps:
  assumes "covered k" and "recover_neutral k = (r, k')"
  shows "worker_ok k' \<and> (r = Inr () \<longrightarrow> session k' \<noteq> None \<and> \<not> recovery_required k') \<and> (\<forall>s. session k' = Some s \<longrightarrow> neutral s)"
proof -
  define j where "j = take_session (k\<lparr>recovery_required := True\<rparr>)"
  have "covered (k\<lparr>recovery_required := True\<rparr>)"
    using assms(1) by (simp add: covered_def)
  from take_covered [OF this] have j: "covered j" "session j = None" "recovery_required j"
    by (simp_all add: j_def)
  obtain c w where c: "connect (world j) = (c, w)"
    by (cases "connect (world j)") auto
  show ?thesis
  proof (cases c)
    case (Inl e)
    with assms(2) c j show ?thesis
      by (auto simp: recover_neutral_def Let_def j_def [symmetric] worker_ok_def covered_def)
  next
    case (Inr s)
    obtain q u w' where q: "restore_fixed_neutral s w = (q, u, w')"
      by (cases "restore_fixed_neutral s w") auto
    have "neutral s"
      using c Inr by (simp add: connect_neutral)
    then have "covers u \<and> (q = Inr () \<longrightarrow> neutral u)"
      by (intro ends_D [OF restore_ends q]) simp
    with assms(2) c Inr q j show ?thesis
      by (auto simp: recover_neutral_def Let_def j_def [symmetric] worker_ok_def covered_def drop_quiet neutral_kept
          split: sum.splits)
  qed
qed

lemma ensure_keeps:
  assumes "worker_ok k" and "ensure_session k = (r, k')"
  shows "worker_ok k' \<and> (r = Inr () \<longrightarrow> session k' \<noteq> None \<and> \<not> recovery_required k') \<and>
    (\<forall>s. session k' = Some s \<longrightarrow> neutral s \<or> r = Inr () \<and> session k = Some s)"
proof (cases "recovery_required k")
  case True
  then show ?thesis
    using assms recover_keeps [of k r k'] by (auto simp: ensure_session_def worker_ok_def)
next
  case False
  show ?thesis
    using assms False
    by (auto simp: ensure_session_def worker_ok_def covered_def kept_covers neutral_kept dest: connect_neutral
        split: if_splits prod.splits sum.splits option.splits)
qed

lemma restore_worker:
  assumes "covered k" and "session k \<noteq> None" and "on_session restore_fixed_neutral k = (r, k')"
  shows "covered k' \<and> dropped k' = dropped k \<and> recovery_required k' = recovery_required k \<and>
    cancelled_teardown_unproven k' = cancelled_teardown_unproven k \<and> (\<exists>s. session k' = Some s \<and> (r = Inr () \<longrightarrow> neutral s))"
proof -
  obtain s where s: "session k = Some s"
    using assms(2) by auto
  obtain q u w' where q: "restore_fixed_neutral s (world k) = (q, u, w')"
    by (cases "restore_fixed_neutral s (world k)") auto
  have "covers u \<and> (q = Inr () \<longrightarrow> neutral u)"
    using assms(1) s by (intro ends_D [OF restore_ends q]) (simp add: covered_def)
  with assms s q show ?thesis
    by (auto simp: on_session_def covered_def)
qed

section \<open>What an operation owes the worker\<close>

locale keyboard_operation =
  fixes f :: "key_session \<Rightarrow> keyboard_world \<Rightarrow> unit kb"
    and leaves :: "key_session \<Rightarrow> bool"
  assumes operation_ends: "kept_session s \<Longrightarrow> ends (f s w) (\<lambda>r u. covers u \<and> (r = Inr () \<longrightarrow> leaves u))"
    and leaves_kept: "leaves s \<Longrightarrow> kept_session s"
begin

lemma operate:
  assumes "worker_ok k" and "session k \<noteq> None" and "on_session f k = (r, k')"
  shows "covered k' \<and> dropped k' = dropped k \<and> recovery_required k' = recovery_required k \<and>
    cancelled_teardown_unproven k' = cancelled_teardown_unproven k \<and> (\<exists>s. session k' = Some s \<and> (r = Inr () \<longrightarrow> leaves s))"
proof -
  obtain s where s: "session k = Some s"
    using assms(2) by auto
  obtain q u w' where q: "f s (world k) = (q, u, w')"
    by (cases "f s (world k)") auto
  have "covers u \<and> (q = Inr () \<longrightarrow> leaves u)"
    using assms(1) s by (intro ends_D [OF operation_ends q]) (simp add: worker_ok_def)
  with assms s q show ?thesis
    by (auto simp: on_session_def worker_ok_def covered_def)
qed

lemma run_keeps:
  assumes "worker_ok k" and "run_operation f k = (r, k')"
  shows "worker_ok k' \<and> (\<forall>s. session k' = Some s \<longrightarrow> neutral s \<or> r = Inr () \<and> leaves s)"
proof -
  obtain q k1 where e: "ensure_session k = (q, k1)"
    by (cases "ensure_session k") auto
  note k1 = ensure_keeps [OF assms(1) e]
  show ?thesis
  proof (cases q)
    case (Inl d)
    with assms(2) e k1 show ?thesis
      by (auto simp: run_operation_def)
  next
    case (Inr u)
    then have ok1: "worker_ok k1" "session k1 \<noteq> None" "\<not> recovery_required k1" "\<not> cancelled_teardown_unproven k1"
      using k1 by (auto simp: worker_ok_def)
    obtain p k2 where o: "on_session f k1 = (p, k2)"
      by (cases "on_session f k1") auto
    note k2 = operate [OF ok1(1,2) o]
    show ?thesis
    proof (cases p)
      case (Inr v)
      with assms(2) e o k2 ok1 \<open>q = Inr u\<close> show ?thesis
        by (auto simp: run_operation_def worker_ok_def leaves_kept)
    next
      case (Inl d)
      note d = this
      show ?thesis
      proof (cases "d = Cancelled")
        case True
        obtain p' k3 where t: "on_session restore_fixed_neutral k2 = (p', k3)"
          by (cases "on_session restore_fixed_neutral k2") auto
        have k3: "covered k3 \<and> recovery_required k3 = recovery_required k2 \<and> cancelled_teardown_unproven k3 = cancelled_teardown_unproven k2 \<and>
            (\<exists>s. session k3 = Some s \<and> (p' = Inr () \<longrightarrow> neutral s))"
          using restore_worker [OF _ _ t] k2 by auto
        then have "covered (take_session k3)" "session (take_session k3) = None"
          using take_covered by blast+
        with assms(2) e o d t True k2 k3 ok1 \<open>q = Inr u\<close> show ?thesis
          by (auto simp: run_operation_def worker_ok_def covered_def neutral_kept split: sum.splits)
      next
        case False
        obtain p' k3 where t: "on_session restore_fixed_neutral (k2\<lparr>recovery_required := True\<rparr>) = (p', k3)"
          by (cases "on_session restore_fixed_neutral (k2\<lparr>recovery_required := True\<rparr>)") auto
        have k3: "covered k3 \<and> cancelled_teardown_unproven k3 = cancelled_teardown_unproven k2 \<and>
            (\<exists>s. session k3 = Some s \<and> (p' = Inr () \<longrightarrow> neutral s))"
          using restore_worker [OF _ _ t] k2 by (auto simp: covered_def)
        obtain p'' k4 where v: "recover_neutral (take_session k3) = (p'', k4)"
          by (cases "recover_neutral (take_session k3)") auto
        have "covered (take_session k3)"
          using k3 take_covered by blast
        from recover_keeps [OF this v] assms(2) e o d t v False k2 k3 ok1 \<open>q = Inr u\<close> show ?thesis
          by (auto simp: run_operation_def worker_ok_def covered_def neutral_kept split: sum.splits)
      qed
    qed
  qed
qed

end

lemma map_requests: "map_text (fold view_step (concat (map requests_of ts)) v) = map_text v"
  by (induction ts arbitrary: v) (auto simp: requests_of_def, metis (full_types) view_step.simps(1,2) key_view.simps(3,8) key_view.select_convs(3) key_view.surjective key_view.update_convs(1))

lemma key_sequence_neutral:
  "kept_session s \<Longrightarrow> ends (key_sequence ts s w) (\<lambda>r u. covers u \<and> (r = Inr () \<longrightarrow> neutral u))"
  by (rule ends_mono [OF key_sequence_ends [OF kept_covers]])
    (auto simp: neutral_def kept_session_def view_cleanup map_requests dest!: covers_now)

lemma hold_modifiers_kept:
  "kept_session s \<Longrightarrow> ends (hold_modifiers ms s w) (\<lambda>r u. covers u \<and> (r = Inr () \<longrightarrow> kept_session u))"
  by (rule ends_mono [OF hold_modifiers_ends [OF kept_covers]]) (auto simp: kept_session_def view_cleanup map_requests)

lemma type_text_neutral:
  "kept_session s \<Longrightarrow> ends (type_text x text delay trailing s w) (\<lambda>r u. covers u \<and> (r = Inr () \<longrightarrow> neutral u))"
  by (rule ends_mono [OF type_text_ends [OF kept_covers]]) (auto simp: neutral_def dest!: covers_now)

interpretation chord: keyboard_operation "key_sequence ts" neutral for ts
  by unfold_locales (auto intro: key_sequence_neutral neutral_kept)

interpretation hold: keyboard_operation "hold_modifiers ms" kept_session for ms
  by unfold_locales (auto intro: hold_modifiers_kept)

interpretation typing: keyboard_operation "type_text x t delay trailing" neutral for x t delay trailing
  by unfold_locales (auto intro: type_text_neutral neutral_kept)

lemma reset_worker_keeps:
  assumes "worker_ok k" and "reset_worker k = (r, k')"
  shows "worker_ok k' \<and> (\<forall>s. session k' = Some s \<longrightarrow> neutral s)"
proof (cases "cancelled_teardown_unproven k \<or> session k = None \<or> recovery_required k")
  case True
  then show ?thesis
    using assms recover_keeps [of k r k'] by (auto simp: reset_worker_def worker_ok_def split: if_splits)
next
  case False
  obtain q k1 where o: "on_session restore_fixed_neutral k = (q, k1)"
    by (cases "on_session restore_fixed_neutral k") auto
  have k1: "covered k1 \<and> recovery_required k1 = recovery_required k \<and> cancelled_teardown_unproven k1 = cancelled_teardown_unproven k \<and>
      (\<exists>s. session k1 = Some s \<and> (q = Inr () \<longrightarrow> neutral s))"
    using restore_worker [OF _ _ o] False assms(1) by (auto simp: worker_ok_def)
  show ?thesis
  proof (cases q)
    case (Inr u)
    with assms(2) False o k1 show ?thesis
      by (auto simp: reset_worker_def worker_ok_def neutral_kept)
  next
    case (Inl e)
    obtain p k2 where v: "recover_neutral (take_session (k1\<lparr>recovery_required := True\<rparr>)) = (p, k2)"
      by (cases "recover_neutral (take_session (k1\<lparr>recovery_required := True\<rparr>))") auto
    have "covered (k1\<lparr>recovery_required := True\<rparr>)"
      using k1 by (simp add: covered_def)
    then have "covered (take_session (k1\<lparr>recovery_required := True\<rparr>))"
      using take_covered by blast
    from recover_keeps [OF this v] assms(2) False o Inl v show ?thesis
      by (auto simp: reset_worker_def split: sum.splits)
  qed
qed

definition may_hold :: "keyboard_command \<Rightarrow> keyboard_error + unit \<Rightarrow> bool" where
  "may_hold c r = ((case c of Hold_Modifiers _ \<Rightarrow> True | _ \<Rightarrow> False) \<and> is_ok r)"

lemma step_keeps:
  assumes "worker_ok k" and "keyboard_step x k c = (k', r)"
  shows "worker_ok k' \<and>
    (\<forall>s. session k' = Some s \<longrightarrow> neutral s \<or> may_hold (fst c) r \<or> fst c = Prepare \<and> session k = Some s)"
proof -
  define j where "j = k\<lparr>world := (world k)\<lparr>shut := snd c\<rparr>\<rparr>"
  have j: "worker_ok j" "session j = session k"
    using assms(1) by (simp_all add: j_def worker_ok_def covered_def)
  show ?thesis
  proof (cases "fst c")
    case Prepare
    then have "ensure_session j = (r, k')"
      using assms(2) by (simp add: keyboard_step_def Let_def j_def [symmetric] split: prod.splits)
    from ensure_keeps [OF j(1) this] j Prepare show ?thesis by auto
  next
    case (Sequence ts)
    then have "run_operation (key_sequence ts) j = (r, k')"
      using assms(2) by (simp add: keyboard_step_def Let_def j_def [symmetric] split: prod.splits)
    from chord.run_keeps [OF j(1) this] show ?thesis by auto
  next
    case (Hold_Modifiers ms)
    then have "run_operation (hold_modifiers ms) j = (r, k')"
      using assms(2) by (simp add: keyboard_step_def Let_def j_def [symmetric] split: prod.splits)
    from hold.run_keeps [OF j(1) this] Hold_Modifiers show ?thesis by (auto simp: may_hold_def)
  next
    case (Type_Text t delay trailing)
    then have "run_operation (type_text x t delay trailing) j = (r, k')"
      using assms(2) by (simp add: keyboard_step_def Let_def j_def [symmetric] split: prod.splits)
    from typing.run_keeps [OF j(1) this] show ?thesis by auto
  next
    case Reset
    then have "reset_worker j = (r, k')"
      using assms(2) by (simp add: keyboard_step_def Let_def j_def [symmetric] split: prod.splits)
    from reset_worker_keeps [OF j(1) this] show ?thesis by auto
  qed
qed

text \<open>
  \<open>with_modifiers_held\<close>: the pointer action runs between a hold and a reset; \<open>admitted\<close> is what the check after
  the action finds. The reset is sent before any error is reported.
\<close>

definition with_modifiers_held ::
    "xkb_library \<Rightarrow> keyboard_worker \<Rightarrow> (nat \<times> u32) list \<Rightarrow> bool \<Rightarrow> keyboard_error + 'a \<Rightarrow> bool \<Rightarrow> keyboard_worker \<times> (keyboard_error + 'a)" where
  "with_modifiers_held x k ms stale action admitted =
     (if ms = [] then (k, action)
      else case keyboard_step x k (Hold_Modifiers ms, stale) of
        (k, Inl e) \<Rightarrow> (k, Inl e)
      | (k, Inr _) \<Rightarrow>
          (case keyboard_step x k (Reset, stale) of
             (k, release) \<Rightarrow>
               (k, then_ok action (\<lambda>v. then_ok (bail_if (\<not> admitted) Cancelled) (\<lambda>_. then_ok release (\<lambda>_. Inr v))))))"

lemma modifiers_released:
  assumes "worker_ok k" and "ms \<noteq> []" and "with_modifiers_held x k ms stale action admitted = (k', r)"
  shows "worker_ok k' \<and> (\<forall>s. session k' = Some s \<longrightarrow> neutral s)"
proof -
  obtain k1 r1 where h: "keyboard_step x k (Hold_Modifiers ms, stale) = (k1, r1)"
    by (cases "keyboard_step x k (Hold_Modifiers ms, stale)") auto
  obtain k2 r2 where t: "keyboard_step x k1 (Reset, stale) = (k2, r2)"
    by (cases "keyboard_step x k1 (Reset, stale)") auto
  note k1 = step_keeps [OF assms(1) h]
  have "worker_ok k1" using k1 by simp
  from step_keeps [OF this t] k1 show ?thesis
    using assms(2,3) h t by (auto simp: with_modifiers_held_def may_hold_def split: sum.splits)
qed

interpretation keyboard: machine "keyboard_step x" worker_ok for x
proof unfold_locales
  fix k c
  assume "worker_ok k"
  with step_keeps [of k x c "fst (keyboard_step x k c)" "snd (keyboard_step x k c)"]
  show "worker_ok (fst (keyboard_step x k c))" by simp
qed

text \<open>Whether the last command that was not a \<open>Prepare\<close> left modifiers held.\<close>

fun holding :: "bool \<Rightarrow> keyboard_command list \<Rightarrow> (keyboard_error + unit) list \<Rightarrow> bool" where
  "holding h (c # cs) (r # rs) = holding (if c = Prepare then h else may_hold c r) cs rs"
| "holding h cs rs = h"

lemma run_neutral:
  assumes "worker_ok k" and "\<forall>s. session k = Some s \<longrightarrow> neutral s \<or> h"
    and "run_machine (keyboard_step x) k cs = (k', rs)"
  shows "\<forall>s. session k' = Some s \<longrightarrow> neutral s \<or> holding h (map fst cs) rs"
  using assms
proof (induction cs arbitrary: k h rs)
  case (Cons c cs)
  obtain k1 r where e: "keyboard_step x k c = (k1, r)"
    by (cases "keyboard_step x k c") auto
  obtain rs1 where rs: "run_machine (keyboard_step x) k1 cs = (k', rs1)" "rs = r # rs1"
    using Cons.prems(3) e by (auto split: prod.splits)
  from step_keeps [OF Cons.prems(1) e]
  have "worker_ok k1" "\<forall>s. session k1 = Some s \<longrightarrow> neutral s \<or> (if fst c = Prepare then h else may_hold (fst c) r)"
    using Cons.prems(2) by (auto simp: may_hold_def)
  from Cons.IH [OF this rs(1)] rs(2) show ?case by simp
qed simp

text \<open>
  C11. Whatever the compositor answers, whatever connections fail and whenever a shutdown comes, after any
  history of commands the keyboard is neutral (no key down, no modifier, the fixed keymap, all of it
  acknowledged) unless the last command was a successful hold of modifiers; a keyboard that was given up
  had every key it may have pressed released in the requests before its destruction.
\<close>

theorem keyboard_left_neutral:
  assumes "run_machine (keyboard_step x) (new_worker w) cs = (k, rs)"
  shows "(case session k of None \<Rightarrow> True | Some s \<Rightarrow> neutral s \<or> holding False (map fst cs) rs) \<and> list_all quiet_requests (dropped k)"
proof -
  have ok: "worker_ok (new_worker w)"
    by (simp add: new_worker_def worker_ok_def covered_def)
  have "worker_ok k"
    using keyboard.run_inv [OF ok, of x cs] assms by simp
  then have "list_all quiet_requests (dropped k)"
    by (simp add: worker_ok_def covered_def)
  moreover have "\<forall>s. session k = Some s \<longrightarrow> neutral s \<or> holding False (map fst cs) rs"
    by (rule run_neutral [OF ok _ assms]) (simp add: new_worker_def)
  ultimately show ?thesis
    by (auto split: option.split)
qed

text \<open>A hold whose press is lost with the connection's answer, recovered on the same keyboard, then a Ctrl+C.\<close>

definition lossy_world :: keyboard_world where
  "lossy_world = \<lparr>syncs = [Synced, Synced, Lost ''closed'', Synced, Synced, Synced, Synced, Synced, Synced, Synced, Synced, Synced], checks = [], connections = [Inr ()], files = [], shut = False\<rparr>"

definition lossy_commands :: "(keyboard_command \<times> bool) list" where
  "lossy_commands = [(Hold_Modifiers [(29, 4)], False), (Sequence [\<lparr>keycode = 46, pressed_down = True, modifier_mask = 0\<rparr>, \<lparr>keycode = 46, pressed_down = False, modifier_mask = 0\<rparr>], False)]"

definition no_xkb :: xkb_library where
  "no_xkb = \<lparr>utf32_to_keysym = (\<lambda>c. c), keysym_from_name = (\<lambda>_. 65293), keysym_get_name = (\<lambda>_. ''a'')\<rparr>"

lemma short_keymap: "\<not> 4294967295 \<le> length XKB_KEYMAP"
  by (simp add: XKB_KEYMAP_def)

lemmas keyboard_eval =
  lossy_world_def lossy_commands_def new_worker_def keyboard_step_def run_operation_def on_session_def ensure_session_def
  connect_def keymap_file_def roundtrip_def bump_sync_def acknowledge_def send_def record_key_def remove_last_def
  cleanup_transitions_def emit_key_def reset_keys_def install_keymap_def restore_fixed_neutral_def key_sequence_def
  hold_modifiers_def kb_then_def ensure_admitted_def short_keymap Let_def

theorem keyboard_left_neutral_witness:
  "case run_machine (keyboard_step no_xkb) (new_worker lossy_world) lossy_commands of (k, rs) \<Rightarrow>
     rs = [Inl (Ambiguous ''closed''), Inr ()] \<and> (case session k of None \<Rightarrow> False | Some s \<Rightarrow> neutral s)"
proof -
  obtain k rs where run: "run_machine (keyboard_step no_xkb) (new_worker lossy_world) lossy_commands = (k, rs)"
    by (cases "run_machine (keyboard_step no_xkb) (new_worker lossy_world) lossy_commands") auto
  have "snd (run_machine (keyboard_step no_xkb) (new_worker lossy_world) lossy_commands) = [Inl (Ambiguous ''closed''), Inr ()]
    \<and> session (fst (run_machine (keyboard_step no_xkb) (new_worker lossy_world) lossy_commands)) \<noteq> None"
    by (simp add: keyboard_eval)
  with run keyboard_left_neutral [OF run] show ?thesis
    by (auto simp: lossy_commands_def may_hold_def split: option.splits)
qed

end
