(* ===== verification/Virtual_Typing.thy ===== *)
theory Virtual_Typing
  imports Virtual_Keyboard
begin

unbundle bit_operations_syntax

text \<open>
  What the virtual keyboard of \<open>cua/src/platform/wayland/virtual_keyboard.rs\<close> delivers when it succeeds: a chord
  arrives as one, and text arrives as itself. The generated keymap is read back the way the compositor reads
  it: the XKB keycode of a key is its protocol code plus eight.
\<close>

section \<open>Chords\<close>

lemma press_view:
  "fold view_step (concat (map requests_of (fst (press_modifiers (mods v) ms)))) v =
     v\<lparr>down := down v \<union> fst ` set ms, mods := snd (press_modifiers (mods v) ms)\<rparr>"
proof (induction ms arbitrary: v)
  case (Cons km ms)
  obtain k m where "km = (k, m)" by (cases km)
  with Cons [of "v\<lparr>down := insert k (down v), mods := mods v OR m\<rparr>"] show ?case
    by (simp add: Let_def case_prod_beta requests_of_def)
qed simp

lemma press_mask: "bit (snd (press_modifiers a ms)) n \<longleftrightarrow> bit a n \<or> (\<exists>(k, m) \<in> set ms. bit m n)"
  by (induction a ms rule: press_modifiers.induct) (auto simp: Let_def case_prod_beta bit_or_iff)

fun cleared :: "u32 \<Rightarrow> (nat \<times> u32) list \<Rightarrow> u32" where
  "cleared a [] = a"
| "cleared a ((k, m) # ms) = cleared (a AND NOT m) ms"

lemma cleared_bit: "bit (cleared a ms) n \<longleftrightarrow> bit a n \<and> \<not> (\<exists>(k, m) \<in> set ms. bit m n)"
proof (induction a ms rule: cleared.induct)
  case (2 a k m ms)
  have "bit (a AND NOT m) n \<longleftrightarrow> bit a n \<and> \<not> bit m n"
    by (auto simp: bit_and_iff bit_not_iff dest: bit_imp_le_length)
  with 2 show ?case by auto
qed simp

lemma chord_cleared: "cleared (snd (press_modifiers 0 ms)) (rev ms) = 0"
  by (rule bit_eqI) (auto simp: cleared_bit press_mask)

lemma release_view:
  "mods v = a \<Longrightarrow> fold view_step (concat (map requests_of (release_modifiers a ms))) v =
     v\<lparr>down := down v - fst ` set ms, mods := cleared a ms\<rparr>"
  by (induction a ms arbitrary: v rule: release_modifiers.induct)
    (auto simp: requests_of_def Diff_insert2 [symmetric])

lemma track_view:
  "distinct ks \<and> set ks = down v \<Longrightarrow>
   distinct (fold track ts ks) \<and> set (fold track ts ks) = down (fold view_step (concat (map requests_of ts)) v)"
proof (induction ts arbitrary: ks v)
  case (Cons t ts)
  have "distinct (track t ks) \<and> set (track t ks) = down (fold view_step (requests_of t) v)"
    using Cons.prems by (cases "pressed_down t") (auto simp: track_def requests_of_def remove_last_distinct)
  from Cons.IH [OF this] show ?case by simp
qed simp


section \<open>Reading a keymap back\<close>

definition keycode_of_line :: "string \<Rightarrow> (string \<times> nat) option" where
  "keycode_of_line l =
     Option.bind (strip_prefix ''<'' l) (\<lambda>l.
     Option.bind (split_once (CHR ''>'') l) (\<lambda>(name, l).
     Option.bind (strip_prefix '' = '' l) (\<lambda>l.
     Option.bind (split_once (CHR '';'') l) (\<lambda>(num, l).
     if l = [] then map_option (Pair name) (parse_u32 num) else None))))"

definition symbol_of_line :: "string \<Rightarrow> (string \<times> string) option" where
  "symbol_of_line l =
     Option.bind (strip_prefix ''key <'' l) (\<lambda>l.
     Option.bind (split_once (CHR ''>'') l) (\<lambda>(name, l).
     Option.bind (strip_prefix '' {['' l) (\<lambda>l.
     Option.bind (split_once (CHR '']'') l) (\<lambda>(sym, l). if l = ''};'' then Some (name, sym) else None))))"

definition keymap_symbol :: "string \<Rightarrow> nat \<Rightarrow> string option" where
  "keymap_symbol t k =
     (let ls = split_on (CHR 0x0A) t in
      Option.bind (find (\<lambda>(n, c). c = k + 8) (List.map_filter keycode_of_line ls)) (\<lambda>(n, _).
      map_option snd (find (\<lambda>(m, _). m = n) (List.map_filter symbol_of_line ls))))"

lemma dec_char: "c \<in> set (show_dec n) \<Longrightarrow> c \<noteq> CHR ''>'' \<and> c \<noteq> CHR '';'' \<and> c \<noteq> CHR '']'' \<and> c \<noteq> CHR 0x0A"
  using show_dec_digits [of c n] by (auto simp: ascii_digit_def)

lemma safe_char: "safe_keysym_name name \<Longrightarrow> c \<in> set name \<Longrightarrow> c \<noteq> CHR '']'' \<and> c \<noteq> CHR 0x0A"
proof -
  assume "safe_keysym_name name" and "c \<in> set name"
  then have "ascii_alphanumeric c \<or> c \<in> set ''_+-''"
    by (simp add: safe_keysym_name_def list_all_iff)
  then show ?thesis
    by (auto simp: ascii_alphanumeric_def ascii_digit_def ascii_lower_def ascii_upper_def)
qed

lemma keycode_line_back [simp]: "i + 9 < 2 ^ 32 \<Longrightarrow> keycode_of_line (keycode_line i) = Some (''K'' @ show_dec (i + 1), i + 9)"
proof -
  assume i: "i + 9 < 2 ^ 32"
  have a: "CHR ''>'' \<notin> set (''K'' @ show_dec (i + 1))" and b: "CHR '';'' \<notin> set (show_dec (i + 9))"
    using dec_char by auto
  from split_once_append [OF a, of "'' = '' @ show_dec (i + 9) @ '';''"] split_once_append [OF b, of "[]"]
    i parse_u32_show [OF i] show ?thesis
    by (simp add: keycode_of_line_def keycode_line_def)
qed

lemma symbol_line_back [simp]: "safe_keysym_name name \<Longrightarrow> symbol_of_line (symbol_line i name) = Some (''K'' @ show_dec (i + 1), name)"
proof -
  assume s: "safe_keysym_name name"
  have a: "CHR ''>'' \<notin> set (''K'' @ show_dec (i + 1))" and b: "CHR '']'' \<notin> set name"
    using dec_char safe_char [OF s] by auto
  from split_once_append [OF a, of "'' {['' @ name @ '']};''"] split_once_append [OF b, of "''};''"] show ?thesis
    by (simp add: symbol_of_line_def symbol_line_def)
qed

lemma keycode_of_symbol [simp]: "keycode_of_line (symbol_line i name) = None"
  by (simp add: keycode_of_line_def symbol_line_def)

lemma symbol_of_keycode [simp]: "symbol_of_line (keycode_line i) = None"
  by (simp add: symbol_of_line_def keycode_line_def)

lemma split_lines:
  "\<forall>l \<in> set ls. CHR 0x0A \<notin> set l \<Longrightarrow> split_on (CHR 0x0A) (concat (map (\<lambda>l. l @ [CHR 0x0A]) ls)) = ls @ [[]]"
  by (induction ls) (simp_all add: split_on_append)

lemma map_filter_append: "List.map_filter f (xs @ ys) = List.map_filter f xs @ List.map_filter f ys"
  by (simp add: List.map_filter_def)

lemma find_upt:
  assumes "i < n" and "\<And>j. j < n \<Longrightarrow> P (f j) \<longleftrightarrow> j = i"
  shows "find P (map f [0..<n]) = Some (f i)"
proof -
  have "find P (map f js) = map_option f (find (\<lambda>j. P (f j)) js)" for js
    by (induction js) simp_all
  moreover have "find (\<lambda>j. P (f j)) [0..<n] = Some i"
    using assms by (auto simp: find_Some_iff)
  ultimately show ?thesis by simp
qed


abbreviation symbol_of_entry :: "xkb_library \<Rightarrow> text_entry \<Rightarrow> string" where
  "symbol_of_entry x e \<equiv> keysym_get_name x (entry_keysym e)"

lemma symbol_lines_are:
  "symbol_lines x i es = Inr ls \<Longrightarrow>
   ls = map (\<lambda>j. symbol_line (i + j) (symbol_of_entry x (es ! j))) [0..<length es] \<and> (\<forall>e \<in> set es. safe_keysym_name (symbol_of_entry x e))"
proof (induction es arbitrary: i ls)
  case (Cons e es)
  then show ?case
    by (auto simp: Let_def then_ok_eq_Inr map_upt_Suc simp del: upt_Suc split: if_splits dest!: Cons.IH)
qed simp

definition heads :: "nat \<Rightarrow> string list" where
  "heads n = [''xkb_keymap {'', ''xkb_keycodes \"(unnamed)\" {'', ''minimum = 8;'', ''maximum = '' @ show_dec (n + 9) @ '';'']"

definition middle :: "string list" where
  "middle = [''};'', ''xkb_types \"(unnamed)\" { include \"complete\" };'', ''xkb_compatibility \"(unnamed)\" { include \"complete\" };'',
     ''xkb_symbols \"(unnamed)\" {'']"

lemma plain_lines:
  "\<forall>l \<in> set (heads n @ middle @ [''};'', ''};'', []]). keycode_of_line l = None \<and> symbol_of_line l = None \<and> CHR 0x0A \<notin> set l"
proof -
  have "CHR 0x0A \<notin> set (show_dec (n + 9))"
    using dec_char by blast
  then show ?thesis
    by (auto simp: heads_def middle_def keycode_of_line_def symbol_of_line_def)
qed

lemma no_lines: "(\<And>l. l \<in> set ls \<Longrightarrow> f l = None) \<Longrightarrow> List.map_filter f ls = []"
  by (induction ls) (simp_all add: List.map_filter_def)

lemma some_lines: "(\<And>j. j \<in> set js \<Longrightarrow> f (g j) = Some (h j)) \<Longrightarrow> List.map_filter f (map g js) = map h js"
  by (induction js) (simp_all add: List.map_filter_def)

lemma keymap_symbol_render:
  assumes "render_text_keymap x es = Inr t" and "length es + 9 < 2 ^ 32" and "1 \<le> k" and "k \<le> length es"
  shows "keymap_symbol t k = Some (symbol_of_entry x (es ! (k - 1)))"
proof -
  let ?n = "length es"
  obtain syms where "symbol_lines x 0 es = Inr syms"
    and t: "t = concat (map (\<lambda>l. l @ [CHR 0x0A]) (heads ?n @ map keycode_line [0..<?n] @ middle @ syms @ [''};'', ''};'']))"
    using assms(1) by (auto simp: render_text_keymap_def heads_def middle_def then_ok_eq_Inr split: if_splits)
  from symbol_lines_are [OF this(1)]
  have syms: "syms = map (\<lambda>j. symbol_line j (symbol_of_entry x (es ! j))) [0..<?n]"
    and safe: "\<And>j. j < ?n \<Longrightarrow> safe_keysym_name (symbol_of_entry x (es ! j))"
    by auto
  have nl: "CHR 0x0A \<notin> set (keycode_line j)" "j < ?n \<Longrightarrow> CHR 0x0A \<notin> set (symbol_line j (symbol_of_entry x (es ! j)))" for j
    using dec_char safe_char [OF safe] by (auto simp: keycode_line_def symbol_line_def)
  have ls: "split_on (CHR 0x0A) t = heads ?n @ map keycode_line [0..<?n] @ middle @ syms @ [''};'', ''};'', []]"
    unfolding t by (subst split_lines) (use nl plain_lines [of ?n] in \<open>auto simp: syms\<close>)
  have plain: "List.map_filter f (heads ?n) = [] \<and> List.map_filter f middle = [] \<and> List.map_filter f [''};'', ''};'', []] = []"
    if "\<And>l. l \<in> set (heads ?n @ middle @ [''};'', ''};'', []]) \<Longrightarrow> f l = None" for f :: "string \<Rightarrow> 'c option"
    by (intro conjI no_lines that) auto
  have codes: "List.map_filter keycode_of_line (split_on (CHR 0x0A) t) = map (\<lambda>i. (''K'' @ show_dec (i + 1), i + 9)) [0..<?n]"
  proof -
    have "List.map_filter keycode_of_line (map keycode_line [0..<?n]) = map (\<lambda>i. (''K'' @ show_dec (i + 1), i + 9)) [0..<?n]"
      using assms(2) by (intro some_lines keycode_line_back) simp
    moreover have "List.map_filter keycode_of_line syms = []"
      unfolding syms by (intro no_lines) auto
    ultimately show ?thesis
      unfolding ls map_filter_append using plain [of keycode_of_line] plain_lines [of ?n] by simp
  qed
  have names: "List.map_filter symbol_of_line (split_on (CHR 0x0A) t) = map (\<lambda>i. (''K'' @ show_dec (i + 1), symbol_of_entry x (es ! i))) [0..<?n]"
  proof -
    have "List.map_filter symbol_of_line syms = map (\<lambda>i. (''K'' @ show_dec (i + 1), symbol_of_entry x (es ! i))) [0..<?n]"
      unfolding syms by (intro some_lines symbol_line_back safe) simp
    moreover have "List.map_filter symbol_of_line (map keycode_line [0..<?n]) = []"
      by (intro no_lines) auto
    ultimately show ?thesis
      unfolding ls map_filter_append using plain [of symbol_of_line] plain_lines [of ?n] by simp
  qed
  have same: "show_dec (i + 1) = show_dec (j + 1) \<longleftrightarrow> i = j" if "i < ?n" "j < ?n" for i j
  proof
    assume "show_dec (i + 1) = show_dec (j + 1)"
    then have "parse_u32 (show_dec (i + 1)) = parse_u32 (show_dec (j + 1))" by simp
    with that assms(2) show "i = j" by (simp add: parse_u32_show)
  qed simp
  have "find (\<lambda>(n, c). c = k + 8) (map (\<lambda>i. (''K'' @ show_dec (i + 1), i + 9)) [0..<?n]) = Some (''K'' @ show_dec (k - 1 + 1), k - 1 + 9)"
    using assms(3,4) by (intro find_upt) auto
  moreover have "find (\<lambda>(m, _). m = ''K'' @ show_dec (k - 1 + 1)) (map (\<lambda>i. (''K'' @ show_dec (i + 1), symbol_of_entry x (es ! i))) [0..<?n])
      = Some (''K'' @ show_dec (k - 1 + 1), symbol_of_entry x (es ! (k - 1)))"
  proof (intro find_upt)
    fix j assume "j < ?n"
    moreover have "k - 1 < ?n"
      using assms(3,4) by simp
    ultimately show "(case (''K'' @ show_dec (j + 1), symbol_of_entry x (es ! j)) of (m, _) \<Rightarrow> m = ''K'' @ show_dec (k - 1 + 1)) \<longleftrightarrow> j = k - 1"
      using same [of j "k - 1"] by simp
  qed (use assms(3,4) in simp)
  ultimately show ?thesis
    by (simp add: keymap_symbol_def Let_def codes names)
qed


section \<open>Text arrives as itself\<close>

definition entries_sound :: "xkb_library \<Rightarrow> text_entry list \<Rightarrow> bool" where
  "entries_sound x es \<longleftrightarrow> (\<forall>e \<in> set es. case for_character e of None \<Rightarrow> True | Some c \<Rightarrow> entry_keysym e = keysym_for_character x c)"

definition code_of_sym :: "text_entry list \<Rightarrow> nat \<Rightarrow> nat \<Rightarrow> bool" where
  "code_of_sym es k sy \<longleftrightarrow> 1 \<le> k \<and> k \<le> length es \<and> entry_keysym (es ! (k - 1)) = sy"

lemma code_of_sym_mono: "code_of_sym es k sy \<Longrightarrow> code_of_sym (es @ xs) k sy"
  by (auto simp: code_of_sym_def nth_append)

lemma entry_position_Some: "entry_position f es = Some i \<Longrightarrow> i < length es \<and> f (es ! i)"
  by (induction es arbitrary: i) (auto split: if_splits)

lemma entry_for_code:
  assumes "entry_slot f new es = (es', i)" and "protocol_keycode i = Inr k" and "\<And>e. e \<in> set es \<Longrightarrow> f e \<Longrightarrow> entry_keysym e = sy" and "entry_keysym new = sy"
  shows "code_of_sym es' k sy \<and> (\<exists>xs. es' = es @ xs \<and> set xs \<subseteq> {new})"
  using assms
  by (auto simp: entry_slot_def protocol_keycode_def TEXT_KEYCODE_OFFSET_def code_of_sym_def split: option.splits if_splits
      dest!: entry_position_Some)

lemma text_entries_sound:
  assumes "text_entries x cs es codes = Inr (es', codes')" and "entries_sound x es"
  shows "entries_sound x es' \<and> (\<exists>ks. codes' = codes @ ks \<and> list_all2 (code_of_sym es') ks (map (keysym_for_character x) cs)) \<and> (\<exists>xs. es' = es @ xs)"
  using assms
proof (induction cs arbitrary: es codes)
  case (Cons c cs)
  let ?new = "\<lparr>for_character = Some c, entry_keysym = keysym_for_character x c\<rparr>"
  obtain es1 i k where e: "entry_slot (\<lambda>e. for_character e = Some c) ?new es = (es1, i)" "protocol_keycode i = Inr k"
    "text_entries x cs es1 (codes @ [k]) = Inr (es', codes')"
    using Cons.prems(1) by (auto simp: then_ok_eq_Inr split: prod.splits)
  have "code_of_sym es1 k (keysym_for_character x c) \<and> (\<exists>xs. es1 = es @ xs \<and> set xs \<subseteq> {?new})"
    using Cons.prems(2) by (intro entry_for_code [OF e(1,2)]) (auto simp: entries_sound_def dest!: bspec)
  then have k: "code_of_sym es1 k (keysym_for_character x c)" and s: "\<exists>xs. es1 = es @ xs \<and> set xs \<subseteq> {?new}"
    by auto
  have "entries_sound x es1"
    using s Cons.prems(2) by (fastforce simp: entries_sound_def subset_eq)
  from Cons.IH [OF e(3) this] obtain ks xs where ks: "entries_sound x es'" "codes' = (codes @ [k]) @ ks"
    "list_all2 (code_of_sym es') ks (map (keysym_for_character x) cs)" "es' = es1 @ xs"
    by blast
  then have "codes' = codes @ (k # ks)" "list_all2 (code_of_sym es') (k # ks) (map (keysym_for_character x) (c # cs))"
    using k by (auto simp: code_of_sym_mono)
  moreover obtain ys where "es' = es @ ys"
    using ks(4) s by auto
  ultimately show ?case
    using ks(1) by blast
qed simp

lemma trailing_entry_sound:
  assumes "trailing_entry x trailing es = Inr (es', last_code)"
  shows "(\<exists>xs. es' = es @ xs) \<and>
    (case trailing of None \<Rightarrow> last_code = None | Some name \<Rightarrow> \<exists>k. last_code = Some k \<and> code_of_sym es' k (keysym_from_name x name))"
proof (cases trailing)
  case (Some name)
  let ?sy = "keysym_from_name x name" and ?new = "\<lparr>for_character = None, entry_keysym = keysym_from_name x name\<rparr>"
  obtain i k where "entry_slot (\<lambda>e. entry_keysym e = ?sy) ?new es = (es', i)" "protocol_keycode i = Inr k" "last_code = Some k"
    using assms Some by (auto simp: trailing_entry_def Let_def then_ok_eq_Inr split: prod.splits if_splits)
  with entry_for_code [OF this(1,2), of ?sy] Some show ?thesis by auto
qed (use assms in \<open>auto simp: trailing_entry_def\<close>)

text \<open>What a plan types, by its own keymap.\<close>

definition plan_codes :: "text_keymap \<Rightarrow> nat list" where
  "plan_codes p = text_keycodes p @ (case trailing_keycode p of None \<Rightarrow> [] | Some k \<Rightarrow> [k])"

definition plan_types :: "text_keymap \<Rightarrow> string option list" where
  "plan_types p = map (keymap_symbol (keymap_text p)) (plan_codes p)"

definition text_symbols :: "xkb_library \<Rightarrow> nat list \<Rightarrow> string option \<Rightarrow> string option list" where
  "text_symbols x t trailing =
     map (\<lambda>c. Some (keysym_get_name x (keysym_for_character x c))) t @
     (case trailing of None \<Rightarrow> [] | Some name \<Rightarrow> [Some (keysym_get_name x (keysym_from_name x name))])"

lemma build_types:
  assumes "build x t trailing = Inr p"
  shows "plan_types p = text_symbols x t trailing \<and> (\<forall>k \<in> set (plan_codes p). 1 \<le> k \<and> k \<le> MAX_TEXT_KEYMAP_ENTRIES)"
proof -
  obtain es codes es' last_code m where
    b: "text_entries x t [] [] = Inr (es, codes)" "trailing_entry x trailing es = Inr (es', last_code)"
    "length es' \<le> MAX_TEXT_KEYMAP_ENTRIES" "render_text_keymap x es' = Inr m"
    "p = \<lparr>keymap_text = m, text_keycodes = codes, trailing_keycode = last_code\<rparr>"
    using assms by (auto simp: build_def then_ok_eq_Inr not_less split: prod.splits)
  have "list_all2 (code_of_sym es) codes (map (keysym_for_character x) t)"
    using text_entries_sound [OF b(1)] by (auto simp: entries_sound_def)
  moreover note tr = trailing_entry_sound [OF b(2)]
  ultimately have codes: "list_all2 (code_of_sym es') codes (map (keysym_for_character x) t)"
    by (auto elim!: list_all2_mono simp: code_of_sym_mono)
  have all: "list_all2 (code_of_sym es') (plan_codes p)
      (map (keysym_for_character x) t @ (case trailing of None \<Rightarrow> [] | Some name \<Rightarrow> [keysym_from_name x name]))"
    using codes tr by (auto simp: b(5) plan_codes_def intro!: list_all2_appendI split: option.splits)
  have small: "length es' + 9 < 2 ^ 32"
    using b(3) by (simp add: MAX_TEXT_KEYMAP_ENTRIES_def)
  have sy: "keymap_symbol m k = Some (keysym_get_name x sy)" if "code_of_sym es' k sy" for k sy
    using keymap_symbol_render [OF b(4) small, of k] that by (auto simp: code_of_sym_def)
  have "map (keymap_symbol m) ks = map (\<lambda>s. Some (keysym_get_name x s)) syms" if "list_all2 (code_of_sym es') ks syms" for ks syms
    using that by (induction rule: list_all2_induct) (simp_all add: sy)
  from this [OF all] have "plan_types p = text_symbols x t trailing"
    by (simp add: plan_types_def text_symbols_def b(5) split: option.split)
  moreover have "1 \<le> k \<and> k \<le> length es'" if "k \<in> set (plan_codes p)" for k
    using all that by (auto simp: list_all2_conv_all_nth in_set_conv_nth code_of_sym_def)
  ultimately show ?thesis
    using b(3) by (auto dest: order_trans)
qed

lemma chunk_loop_types:
  assumes "chunk_loop x limit cs chunks chunk seen = Inr (chunks', chunk')"
  shows "concat (map plan_types chunks') @ text_symbols x chunk' None =
    concat (map plan_types chunks) @ text_symbols x chunk None @ text_symbols x cs None"
  using assms
proof (induction cs arbitrary: chunks chunk seen)
  case (Cons c cs)
  show ?case
  proof (cases "c \<notin> set seen \<and> length seen = limit")
    case True
    then obtain p where p: "build x chunk None = Inr p" "chunk_loop x limit cs (chunks @ [p]) [c] [c] = Inr (chunks', chunk')"
      using Cons.prems by (auto simp: then_ok_eq_Inr)
    from build_types [OF p(1)] Cons.IH [OF p(2)] show ?thesis
      by (simp add: text_symbols_def)
  next
    case False
    then have "chunk_loop x limit cs chunks (chunk @ [c]) (if c \<in> set seen then seen else seen @ [c]) = Inr (chunks', chunk')"
      using Cons.prems by (auto split: if_splits)
    from Cons.IH [OF this] show ?thesis
      by (simp add: text_symbols_def)
  qed
qed (simp add: text_symbols_def)

lemma build_chunks_types:
  assumes "build_chunks x t trailing = Inr plans"
  shows "concat (map plan_types plans) = text_symbols x t trailing"
proof -
  obtain limit chunks chunk where l: "chunk_loop x limit t [] [] [] = Inr (chunks, chunk)"
    "(if chunk \<noteq> [] \<or> trailing \<noteq> None then then_ok (build x chunk trailing) (\<lambda>p. Inr (chunks @ [p])) else Inr chunks) = Inr plans"
    using assms by (auto simp: build_chunks_def Let_def then_ok_eq_Inr split: prod.splits)
  note c = chunk_loop_types [OF l(1)]
  show ?thesis
  proof (cases "chunk \<noteq> [] \<or> trailing \<noteq> None")
    case True
    then obtain p where "build x chunk trailing = Inr p" "plans = chunks @ [p]"
      using l(2) by (auto simp: then_ok_eq_Inr)
    with build_types [OF this(1)] c show ?thesis
      by (simp add: text_symbols_def)
  qed (use l(2) c in \<open>auto simp: text_symbols_def\<close>)
qed

text \<open>What an application reads: each key press by the keymap in force.\<close>

fun typed :: "string \<Rightarrow> key_request list \<Rightarrow> string option list" where
  "typed t [] = []"
| "typed t (Keymap u # rs) = typed u rs"
| "typed t (Key k d # rs) = (if d then [keymap_symbol t k] else []) @ typed t rs"
| "typed t (Modifiers m # rs) = typed t rs"

lemma typed_strokes: "typed t (concat (map stroke_requests ks) @ rs) = map (keymap_symbol t) ks @ typed t rs"
  by (induction ks) (simp_all add: stroke_requests_def)

lemma typed_plan: "typed t (plan_requests p @ rs) = plan_types p @ typed (keymap_text p) rs"
  using typed_strokes [of "keymap_text p" "plan_codes p" rs]
  by (simp add: plan_requests_def plan_types_def plan_codes_def)

lemma typed_plans: "typed t (concat (map plan_requests ps) @ [Modifiers 0, Keymap u, Modifiers 0]) = concat (map plan_types ps)"
  by (induction ps arbitrary: t) (simp_all add: typed_plan)

lemma typed_cleanup: "typed t (cleanup_requests ks @ rs) = typed t rs"
proof -
  have "typed t (concat (map (\<lambda>k. [Key k False, Modifiers 0]) js) @ rs) = typed t rs" for js rs
    by (induction js) simp_all
  then show ?thesis
    by (simp add: cleanup_requests_def)
qed

text \<open>
  C12. Text that was typed successfully arrives as itself: what an application reads from the requests, each
  key by the keymap that was in force when it went down, is the keysym of every character in order, the
  trailing key once at the end and nothing else, however many keymaps the text needed; the keyboard ends neutral.
\<close>

theorem text_arrives:
  assumes "kept_session s" and "type_text x t delay trailing s w = (Inr (), u, w')"
  shows "\<exists>rs. sent u = sent s @ rs \<and> typed (map_text (view_of (sent s))) rs = text_symbols x t trailing \<and> neutral u"
proof -
  obtain plans where p: "build_chunks x t trailing = Inr plans"
    "sent u = sent s @ cleanup_requests (pressed s) @ concat (map plan_requests plans) @ [Modifiers 0, Keymap XKB_KEYMAP, Modifiers 0]"
    using ends_D [OF type_text_ends [OF kept_covers [OF assms(1)]] assms(2)] by auto
  moreover have "neutral u"
    using ends_D [OF type_text_neutral [OF assms(1)] assms(2)] by simp
  ultimately show ?thesis
    by (intro exI [of _ "cleanup_requests (pressed s) @ concat (map plan_requests plans) @ [Modifiers 0, Keymap XKB_KEYMAP, Modifiers 0]"])
      (simp add: typed_cleanup typed_plans build_chunks_types)
qed


text \<open>Concrete keyboards: a fresh connection whose requests are all answered.\<close>

definition fresh_session :: key_session where
  "fresh_session = \<lparr>sent = [Keymap XKB_KEYMAP], acked = 1, pressed = [], held_mask = 0, active_keymap = XKB_KEYMAP, next_sync = 4\<rparr>"

definition answering_world :: keyboard_world where
  "answering_world = \<lparr>syncs = [Synced, Synced, Synced, Synced, Synced, Synced, Synced, Synced, Synced, Synced, Synced, Synced],
     checks = [], connections = [], files = [], shut = False\<rparr>"

lemma fresh_neutral: "neutral fresh_session"
  by (simp add: fresh_session_def neutral_def settled_def view_of_def)

definition two_key_xkb :: xkb_library where
  "two_key_xkb = \<lparr>utf32_to_keysym = (\<lambda>c. c), keysym_from_name = (\<lambda>_. 65293), keysym_get_name = (\<lambda>k. if k = 97 then ''a'' else ''Return'')\<rparr>"


lemma two_key_plan:
  "\<exists>m. build_chunks two_key_xkb [97, 10, 97] None = Inr [\<lparr>keymap_text = m, text_keycodes = [1, 2, 1], trailing_keycode = None\<rparr>] \<and>
    \<not> 4294967295 \<le> length m"
  by (simp add: build_chunks_def validate_text_length_def MAX_TYPE_TEXT_CHARS_def MAX_TEXT_KEYMAP_ENTRIES_def build_def
      entry_slot_def protocol_keycode_def TEXT_KEYCODE_OFFSET_def trailing_entry_def render_text_keymap_def keysym_for_character_def
      two_key_xkb_def safe_keysym_name_def ascii_alphanumeric_def ascii_digit_def ascii_lower_def ascii_upper_def
      keycode_line_def symbol_line_def show_dec_def show_radix.simps digit_char_def Let_def upt_rec)

theorem text_arrives_witness:
  "\<exists>u w' rs. type_text two_key_xkb [97, 10, 97] 0 None fresh_session answering_world = (Inr (), u, w') \<and>
     sent u = sent fresh_session @ rs \<and> typed XKB_KEYMAP rs = [Some ''a'', Some ''Return'', Some ''a''] \<and> neutral u"
proof -
  obtain m where m: "build_chunks two_key_xkb [97, 10, 97] None = Inr [\<lparr>keymap_text = m, text_keycodes = [1, 2, 1], trailing_keycode = None\<rparr>]"
    and len: "\<not> 4294967295 \<le> length m"
    using two_key_plan by auto
  obtain u w' where run: "type_text two_key_xkb [97, 10, 97] 0 None fresh_session answering_world = (Inr (), u, w')"
    by (simp add: type_text_def m len type_plan_def stroke_def first_error_def keyboard_eval fresh_session_def answering_world_def)
  have "map_text (view_of (sent fresh_session)) = XKB_KEYMAP"
    by (simp add: fresh_session_def view_of_def)
  moreover have "text_symbols two_key_xkb [97, 10, 97] None = [Some ''a'', Some ''Return'', Some ''a'']"
    by (simp add: text_symbols_def two_key_xkb_def keysym_for_character_def)
  ultimately show ?thesis
    using text_arrives [OF neutral_kept [OF fresh_neutral] run] run by auto
qed

end
