(* ===== verification/Pax_Sparse.thy ===== *)
theory Pax_Sparse
  imports Host_Paths
begin

text \<open>
  The metadata of an OCI layer archive as \<open>host/crates/buzzardos/src/main.rs\<close> reads it from the raw bytes: PAX
  records, times, and the sparse maps of GNU tar with the expansion of a sparse file. Bytes are characters, the
  \<open>BTreeMap\<close> of the records is a sorted association list. A reader is the text it can still deliver.
\<close>

section \<open>PAX records\<close>

definition MAX_OCI_PAX_BYTES :: nat where "MAX_OCI_PAX_BYTES = 16 * 1024 * 1024"
definition MAX_OCI_SPARSE_EXTENTS :: nat where "MAX_OCI_SPARSE_EXTENTS = 1000000"

type_synonym pax_records = "(string \<times> string) list"

abbreviation nl :: char where "nl \<equiv> CHR 0x0A"
abbreviation nul :: char where "nul \<equiv> CHR 0x00"
abbreviation blank :: char where "blank \<equiv> CHR 0x20"

definition pax_get :: "pax_records \<Rightarrow> string \<Rightarrow> string option" where
  "pax_get m k = btree_get id k m"

text \<open>One record at the front of the contents: its length, its key and its value.\<close>

definition pax_record :: "string \<Rightarrow> string + (nat \<times> string \<times> string)" where
  "pax_record r =
     then_ok (ok_or ''PAX record has no length separator'' (split_once blank r)) (\<lambda>(digits, _).
     then_ok (bail_if (digits = [] \<or> \<not> list_all ascii_digit digits) ''PAX record has an invalid decimal length'') (\<lambda>_.
     then_ok (ok_or ''PAX record length overflow'' (parse_u64 digits)) (\<lambda>n.
     then_ok (bail_if (length r < n \<or> n \<le> length digits + 2 \<or> r ! (n - 1) \<noteq> nl) ''PAX record length does not match its payload'') (\<lambda>_.
     let record = take (n - 1 - (length digits + 1)) (drop (length digits + 1) r) in
     then_ok (ok_or ''PAX record has no key/value separator'' (split_once (CHR ''='') record)) (\<lambda>(key, content).
     then_ok (bail_if (key = [] \<or> nul \<in> set key) ''PAX record has an invalid key'') (\<lambda>_.
     Inr (n, key, content)))))))"

lemma pax_record_pos: "pax_record r = Inr (n, k, v) \<Longrightarrow> 0 < n \<and> n \<le> length r"
  by (auto simp: pax_record_def Let_def result_simps split: prod.splits)

function parse_pax_from :: "string \<Rightarrow> pax_records \<Rightarrow> string + pax_records" where
  "parse_pax_from r m =
     (if r = [] then Inr m
      else case pax_record r of
        Inl e \<Rightarrow> Inl e
      | Inr (n, k, v) \<Rightarrow> parse_pax_from (drop n r) (btree_insert id k v m))"
  by pat_completeness auto

termination
  by (relation "measure (\<lambda>(r, m). length r)") (auto dest: pax_record_pos)

declare parse_pax_from.simps [simp del]

definition parse_raw_pax_records :: "string \<Rightarrow> string + pax_records" where
  "parse_raw_pax_records contents = parse_pax_from contents []"

text \<open>The format: a decimal length that counts the whole record, a key and a value.\<close>

definition pax_text :: "string \<times> string \<times> string \<Rightarrow> string" where
  "pax_text = (\<lambda>(digits, k, v). digits @ blank # k @ CHR ''='' # v @ [nl])"

definition pax_ok :: "string \<times> string \<times> string \<Rightarrow> bool" where
  "pax_ok x = (case x of (digits, k, v) \<Rightarrow>
     list_all ascii_digit digits \<and> digits \<noteq> [] \<and> parse_u64 digits = Some (length (pax_text x)) \<and>
     k \<noteq> [] \<and> CHR ''='' \<notin> set k \<and> nul \<notin> set k)"

definition insert_all :: "(string \<times> string \<times> string) list \<Rightarrow> pax_records \<Rightarrow> pax_records" where
  "insert_all rs m = fold (\<lambda>(_, k, v). btree_insert id k v) rs m"

lemma digits_no_blank: "list_all ascii_digit s \<Longrightarrow> blank \<notin> set s"
  by (auto simp: list_all_iff ascii_digit_def)

lemma pax_record_text:
  assumes "pax_ok (d, k, v)"
  shows "pax_record (pax_text (d, k, v) @ rest) = Inr (length (pax_text (d, k, v)), k, v)"
proof -
  let ?t = "pax_text (d, k, v)"
  have ok: "list_all ascii_digit d" "d \<noteq> []" "parse_u64 d = Some (length ?t)" "k \<noteq> []" "CHR ''='' \<notin> set k" "nul \<notin> set k"
    using assms by (auto simp: pax_ok_def)
  have sp: "split_once blank (?t @ rest) = Some (d, (k @ CHR ''='' # v @ [nl]) @ rest)"
    using split_once_append [OF digits_no_blank [OF ok(1)], of "(k @ CHR ''='' # v @ [nl]) @ rest"] by (simp add: pax_text_def)
  have len: "length ?t = length d + length k + length v + 3"
    by (simp add: pax_text_def)
  have last: "(?t @ rest) ! (length ?t - 1) = nl"
    by (simp add: pax_text_def nth_append)
  have body: "take (length ?t - 1 - (length d + 1)) (drop (length d + 1) (?t @ rest)) = k @ CHR ''='' # v"
    unfolding len by (simp add: pax_text_def)
  have "0 < length k"
    using ok(4) by simp
  then show ?thesis
    unfolding pax_record_def sp using ok last body len
    by (simp add: Let_def split_once_append)
qed

lemma pax_record_sound:
  assumes "pax_record r = Inr (n, k, v)"
  shows "\<exists>d. pax_ok (d, k, v) \<and> n = length (pax_text (d, k, v)) \<and> take n r = pax_text (d, k, v)"
proof -
  obtain d t where d: "split_once blank r = Some (d, t)" "d \<noteq> []" "list_all ascii_digit d" "parse_u64 d = Some n"
    "n \<le> length r" "length d + 2 < n" "r ! (n - 1) = nl"
    and kv: "split_once (CHR ''='') (take (n - 1 - (length d + 1)) (drop (length d + 1) r)) = Some (k, v)" "k \<noteq> []" "nul \<notin> set k"
    using assms by (auto simp: pax_record_def Let_def result_simps not_less not_le split: prod.splits)
  have r: "r = d @ blank # t"
    using d(1) by (simp add: split_once_Some)
  have b: "take (n - 1 - (length d + 1)) t = k @ CHR ''='' # v" "CHR ''='' \<notin> set k"
    using kv(1) by (auto simp: r split_once_Some)
  have n1: "n = Suc (length d + 1 + (n - 1 - (length d + 1)))"
    using d(6) by linarith
  have "take n r = take (n - 1) r @ [r ! (n - 1)]"
    using take_Suc_conv_app_nth [of "n - 1" r] d(5,6) by simp
  also have "take (n - 1) r = d @ blank # take (n - 1 - (length d + 1)) t"
    using d(6) by (simp add: r take_Cons' Suc_diff_le)
  finally have t: "take n r = pax_text (d, k, v)"
    using b d(7) by (simp add: pax_text_def)
  have "n = length (pax_text (d, k, v))"
    using arg_cong [OF t, of length] d(5) by simp
  with d kv b t show ?thesis
    by (intro exI [of _ d]) (simp add: pax_ok_def)
qed

text \<open>
  C21. The PAX reader accepts exactly the sequences of records in the PAX format, with the length of each
  counting the whole record, and returns the last value of every key.
\<close>

theorem parse_raw_pax_records_iff:
  "parse_raw_pax_records s = Inr m \<longleftrightarrow> (\<exists>rs. list_all pax_ok rs \<and> s = concat (map pax_text rs) \<and> m = insert_all rs [])"
proof -
  have sound: "\<exists>rs. list_all pax_ok rs \<and> r = concat (map pax_text rs) \<and> m = insert_all rs m0" if "parse_pax_from r m0 = Inr m" for r m0
    using that
  proof (induction r m0 rule: parse_pax_from.induct)
    case (1 r m0)
    show ?case
    proof (cases "r = []")
      case True
      with "1.prems" show ?thesis
        by (subst (asm) parse_pax_from.simps) (auto simp: insert_all_def intro: exI [of _ "[]"])
    next
      case False
      then obtain n k v where p: "pax_record r = Inr (n, k, v)" "parse_pax_from (drop n r) (btree_insert id k v m0) = Inr m"
        using "1.prems" by (subst (asm) parse_pax_from.simps) (auto split: sum.splits prod.splits)
      obtain d where d: "pax_ok (d, k, v)" "take n r = pax_text (d, k, v)"
        using pax_record_sound [OF p(1)] by auto
      obtain rs where "list_all pax_ok rs" "drop n r = concat (map pax_text rs)" "m = insert_all rs (btree_insert id k v m0)"
        using "1.IH" [OF False p(1) refl refl p(2)] by auto
      with d append_take_drop_id [of n r] show ?thesis
        by (intro exI [of _ "(d, k, v) # rs"]) (simp add: insert_all_def)
    qed
  qed
  have complete: "parse_pax_from (concat (map pax_text rs)) m0 = Inr (insert_all rs m0)" if "list_all pax_ok rs" for rs m0
    using that
  proof (induction rs arbitrary: m0)
    case (Cons x rs)
    obtain d k v where x: "x = (d, k, v)"
      by (cases x) auto
    have "pax_text x \<noteq> []"
      by (simp add: x pax_text_def)
    with Cons pax_record_text [of d k v "concat (map pax_text rs)"] show ?case
      by (subst parse_pax_from.simps) (simp add: x insert_all_def)
  qed (subst parse_pax_from.simps, simp add: insert_all_def)
  show ?thesis
    unfolding parse_raw_pax_records_def using sound complete by auto
qed


section \<open>Times\<close>

definition parse_i64_digits :: "string \<Rightarrow> nat option" where
  "parse_i64_digits s = parse_digits 10 (2 ^ 63) 0 s"

definition fraction_value :: "string \<Rightarrow> nat" where
  "fraction_value s = foldl (\<lambda>a c. a * 10 + (byte c - 48)) 0 (take 9 s) * 10 ^ (9 - min (length s) 9)"

definition parse_pax_timestamp :: "string \<Rightarrow> string + (int \<times> int)" where
  "parse_pax_timestamp v =
     then_ok (bail_if (\<not> utf8_valid (bytes_of v)) ''PAX mtime is not UTF-8'') (\<lambda>_.
     let negative = (v \<noteq> [] \<and> hd v = CHR ''-'');
         unsigned_part = (if v \<noteq> [] \<and> hd v \<in> {CHR ''-'', CHR ''+''} then tl v else v);
         (seconds, fraction) = (case split_once (CHR ''.'') unsigned_part of Some p \<Rightarrow> p | None \<Rightarrow> (unsigned_part, [])) in
     then_ok (bail_if (seconds = [] \<or> \<not> list_all ascii_digit seconds \<or> \<not> list_all ascii_digit fraction) (''invalid PAX mtime '' @ v)) (\<lambda>_.
     then_ok (ok_or ''PAX mtime seconds overflow'' (parse_i64_digits seconds)) (\<lambda>s.
     let ns = fraction_value fraction in
     Inr (if negative then (if ns = 0 then (- int s, 0) else (- int s - 1, 1000000000 - int ns)) else (int s, int ns)))))"

lemma foldl_digits_bound: "list_all ascii_digit s \<Longrightarrow> foldl (\<lambda>a c. a * 10 + (byte c - 48)) a s < (a + 1) * 10 ^ length s"
proof (induction s arbitrary: a)
  case (Cons c s)
  have "byte c - 48 \<le> 9"
    using Cons.prems by (auto simp: ascii_digit_def)
  then have "a * 10 + (byte c - 48) + 1 \<le> (a + 1) * 10"
    by simp
  then have "(a * 10 + (byte c - 48) + 1) * 10 ^ length s \<le> (a + 1) * 10 * 10 ^ length s"
    by (rule mult_le_mono1)
  moreover have "foldl (\<lambda>a c. a * 10 + (byte c - 48)) a (c # s) < (a * 10 + (byte c - 48) + 1) * 10 ^ length s"
    using Cons.IH [of "a * 10 + (byte c - 48)"] Cons.prems by simp
  ultimately show ?case
    by (simp only: length_Cons power_Suc mult.assoc)
qed simp

lemma fraction_bound: "list_all ascii_digit s \<Longrightarrow> fraction_value s < 10 ^ 9"
proof -
  assume "list_all ascii_digit s"
  then have "list_all ascii_digit (take 9 s)"
    by (auto simp: list_all_iff dest: in_set_takeD)
  from foldl_digits_bound [OF this, of 0] have "foldl (\<lambda>a c. a * 10 + (byte c - 48)) 0 (take 9 s) < 10 ^ min (length s) 9"
    by (simp add: min.commute)
  then have "fraction_value s < 10 ^ min (length s) 9 * 10 ^ (9 - min (length s) 9)"
    unfolding fraction_value_def by (intro mult_less_mono1) simp_all
  also have "\<dots> = 10 ^ 9"
    by (simp add: power_add [symmetric])
  finally show ?thesis .
qed

lemma timestamp_in_range:
  assumes "parse_pax_timestamp v = Inr (s, ns)"
  shows "0 \<le> ns \<and> ns < 1000000000 \<and> - (2 ^ 63) \<le> s \<and> s < 2 ^ 63"
proof -
  obtain digits fraction n where f: "list_all ascii_digit fraction" "parse_i64_digits digits = Some n"
    and r: "(s, ns) = (if v \<noteq> [] \<and> hd v = CHR ''-'' then (if fraction_value fraction = 0 then (- int n, 0)
        else (- int n - 1, 1000000000 - int (fraction_value fraction))) else (int n, int (fraction_value fraction)))"
    using assms by (auto simp: parse_pax_timestamp_def Let_def result_simps split: prod.splits if_splits)
  have "n < 2 ^ 63"
    using parse_digits_bound [of 10 "2 ^ 63" 0 digits n] f(2) by (simp add: parse_i64_digits_def)
  moreover have "fraction_value fraction < 1000000000"
    using fraction_bound [OF f(1)] by simp
  ultimately show ?thesis
    using r by (auto split: if_splits)
qed

section \<open>Sparse maps\<close>

type_synonym extent = "nat \<times> nat"

definition parse_sparse_decimal :: "string \<Rightarrow> string \<Rightarrow> string + nat" where
  "parse_sparse_decimal v description =
     then_ok (bail_if (v = [] \<or> 20 < length v \<or> \<not> list_all ascii_digit v) (''OCI GNU sparse '' @ description @ '' is not an unsigned decimal integer'')) (\<lambda>_.
     ok_or (''OCI GNU sparse '' @ description @ '' overflows u64'') (parse_u64 v))"

fun extents_in_order :: "nat \<Rightarrow> extent list \<Rightarrow> nat \<Rightarrow> string + unit" where
  "extents_in_order previous_end [] real_size = Inr ()"
| "extents_in_order previous_end ((start, len) # es) real_size =
     (if 2 ^ 64 \<le> start + len then Inl ''OCI GNU sparse extent overflows u64''
      else if start < previous_end \<or> real_size < start + len
      then Inl ''OCI GNU sparse extents overlap, are out of order, or exceed the real size''
      else extents_in_order (start + len) es real_size)"

definition validate_sparse_extents :: "extent list \<Rightarrow> nat \<Rightarrow> string + unit" where
  "validate_sparse_extents es real_size =
     then_ok (bail_if (MAX_OCI_SPARSE_EXTENTS < length es) ''OCI GNU sparse map exceeds the extent limit'') (\<lambda>_. extents_in_order 0 es real_size)"

fun extent_pairs :: "string list \<Rightarrow> string + extent list" where
  "extent_pairs (a # b # r) =
     then_ok (parse_sparse_decimal a ''extent offset'') (\<lambda>start.
     then_ok (parse_sparse_decimal b ''extent length'') (\<lambda>len.
     then_ok (extent_pairs r) (\<lambda>es. Inr ((start, len) # es))))"
| "extent_pairs _ = Inr []"

definition parse_pax_sparse_map :: "string \<Rightarrow> nat \<Rightarrow> string + extent list" where
  "parse_pax_sparse_map v real_size =
     (let fields = split_on (CHR '','') v in
      then_ok (bail_if (fields = [] \<or> length fields mod 2 \<noteq> 0) ''OCI GNU sparse 0.1 map must contain offset/length pairs'') (\<lambda>_.
      then_ok (bail_if (MAX_OCI_SPARSE_EXTENTS < length fields div 2) ''OCI GNU sparse map exceeds the extent limit'') (\<lambda>_.
      then_ok (extent_pairs fields) (\<lambda>es.
      then_ok (validate_sparse_extents es real_size) (\<lambda>_. Inr es)))))"

datatype gnu_sparse_map = Sparse_Pax "extent list" | Sparse_Embedded

record gnu_sparse_metadata =
  sparse_path :: string
  real_size :: nat
  sparse_map :: gnu_sparse_map

definition sparse_keys :: "string list" where
  "sparse_keys = map (\<lambda>k. ''GNU.sparse.'' @ k) [''major'', ''minor'', ''name'', ''realsize'', ''size'', ''numblocks'', ''map'']"

definition parse_gnu_sparse_metadata :: "pax_records \<Rightarrow> string \<Rightarrow> string + gnu_sparse_metadata option" where
  "parse_gnu_sparse_metadata pax archive_path =
     (let found = filter (\<lambda>k. starts_with k ''GNU.sparse.'') (map fst pax);
          get = (\<lambda>k. pax_get pax (''GNU.sparse.'' @ k)) in
      if found = [] then Inr None
      else
        then_ok (bail_if (\<not> list_all (\<lambda>k. k \<in> set sparse_keys) found) ''OCI layer contains unsupported GNU sparse metadata'') (\<lambda>_.
        let p = (case get ''name'' of Some q \<Rightarrow> q | None \<Rightarrow> archive_path) in
        then_ok (ok_or ''OCI GNU sparse metadata has no real size'' (case get ''realsize'' of Some v \<Rightarrow> Some v | None \<Rightarrow> get ''size'')) (\<lambda>text_size.
        then_ok (parse_sparse_decimal text_size ''real size'') (\<lambda>sz.
        then_ok
          (if get ''major'' = Some ''1'' \<and> get ''minor'' = Some ''0'' then
             (if get ''map'' \<noteq> None then Inl ''OCI GNU sparse 1.0 entry unexpectedly carries a PAX map'' else Inr Sparse_Embedded)
           else if (get ''major'' = Some ''0'' \<and> get ''minor'' = Some ''1'' \<or> get ''major'' = None \<and> get ''minor'' = None) \<and> get ''map'' \<noteq> None then
             then_ok (ok_or ''OCI GNU sparse 0.1 entry has no map'' (get ''map'')) (\<lambda>map_text.
             then_ok (parse_pax_sparse_map map_text sz) (\<lambda>es.
             then_ok (ok_or ''OCI GNU sparse 0.1 entry has no extent count'' (get ''numblocks'')) (\<lambda>count_text.
             then_ok (parse_sparse_decimal count_text ''extent count'') (\<lambda>count.
             if count \<noteq> length es then Inl ''OCI GNU sparse extent count does not match its map'' else Inr (Sparse_Pax es)))))
           else if get ''major'' \<noteq> None \<and> get ''minor'' \<noteq> None then Inl ''OCI GNU sparse format is unsupported''
           else Inl ''OCI GNU sparse metadata has an incomplete or unsupported version'') (\<lambda>m.
        Inr (Some \<lparr>sparse_path = p, real_size = sz, sparse_map = m\<rparr>))))))"

text \<open>The embedded map: one decimal number per line, then zeros up to a multiple of 512 bytes.\<close>

fun sparse_line :: "string \<Rightarrow> string \<Rightarrow> string \<Rightarrow> string + (nat \<times> nat \<times> string)" where
  "sparse_line description acc [] = Inl (''reading OCI GNU sparse '' @ description)"
| "sparse_line description acc (c # r) =
     (if c = nl then then_ok (parse_sparse_decimal acc description) (\<lambda>v. Inr (v, length acc + 1, r))
      else if length acc = 20 \<or> \<not> ascii_digit c then Inl (''OCI GNU sparse '' @ description @ '' has an invalid decimal line'')
      else sparse_line description (acc @ [c]) r)"

definition read_sparse_decimal_line :: "string \<Rightarrow> string \<Rightarrow> string + (nat \<times> nat \<times> string)" where
  "read_sparse_decimal_line description r = sparse_line description [] r"

fun read_extents :: "nat \<Rightarrow> nat \<Rightarrow> string \<Rightarrow> string + (extent list \<times> nat \<times> string)" where
  "read_extents 0 prefix_bytes r = Inr ([], prefix_bytes, r)"
| "read_extents (Suc k) prefix_bytes r =
     then_ok (read_sparse_decimal_line ''extent offset'' r) (\<lambda>(start, a, r).
     then_ok (read_sparse_decimal_line ''extent length'' r) (\<lambda>(len, b, r).
     if 2 ^ 64 \<le> prefix_bytes + a \<or> 2 ^ 64 \<le> prefix_bytes + a + b then Inl ''OCI GNU sparse map prefix overflows usize''
     else then_ok (read_extents k (prefix_bytes + a + b) r) (\<lambda>(es, n, r). Inr ((start, len) # es, n, r))))"

text \<open>The padding is less than the buffer, so it is read at once.\<close>

definition read_embedded_sparse_map :: "string \<Rightarrow> nat \<Rightarrow> string + (extent list \<times> string)" where
  "read_embedded_sparse_map r sz =
     then_ok (read_sparse_decimal_line ''extent count'' r) (\<lambda>(count, n, r).
     then_ok (bail_if (MAX_OCI_SPARSE_EXTENTS < count) ''OCI GNU sparse map exceeds the extent limit'') (\<lambda>_.
     then_ok (read_extents count n r) (\<lambda>(es, n, r).
     then_ok (validate_sparse_extents es sz) (\<lambda>_.
     let padding = (512 - n mod 512) mod 512 in
     if length r < padding then Inl ''reading OCI GNU sparse map padding''
     else if \<not> list_all (\<lambda>c. c = nul) (take padding r) then Inl ''OCI GNU sparse map has non-zero padding''
     else Inr (es, drop padding r)))))"

section \<open>The sparse file\<close>

definition COPY_BUFFER :: nat where "COPY_BUFFER = 256 * 1024"

text \<open>\<open>write_all\<close> at an offset of a file.\<close>

definition write_at :: "nat \<Rightarrow> string \<Rightarrow> string \<Rightarrow> string" where
  "write_at off d f = take off (f @ replicate (off - length f) nul) @ d @ drop (off + length d) f"

text \<open>One extent, chunk by chunk: the result and what the file holds when the reader ends early.\<close>

function copy_extent :: "nat \<Rightarrow> nat \<Rightarrow> string \<Rightarrow> string \<Rightarrow> (string + string) \<times> string" where
  "copy_extent off remaining r f =
     (if remaining = 0 then (Inr r, f)
      else let count = min remaining COPY_BUFFER in
        if length r < count then (Inl ''reading OCI sparse entry'', f)
        else copy_extent (off + count) (remaining - count) (drop count r) (write_at off (take count r) f))"
  by pat_completeness auto

termination
  by (relation "measure (\<lambda>(off, remaining, r, f). remaining)") (auto simp: COPY_BUFFER_def)

declare copy_extent.simps [simp del]

fun copy_extents :: "extent list \<Rightarrow> string \<Rightarrow> string \<Rightarrow> (string + string) \<times> string" where
  "copy_extents [] r f = (Inr r, f)"
| "copy_extents ((off, len) # es) r f =
     (case copy_extent off len r f of (Inl e, f) \<Rightarrow> (Inl e, f) | (Inr r, f) \<Rightarrow> copy_extents es r f)"

text \<open>The file of a sparse entry, from \<open>set_len\<close> to the check for trailing data.\<close>

definition sparse_contents :: "extent list \<Rightarrow> nat \<Rightarrow> string \<Rightarrow> (string + unit) \<times> string" where
  "sparse_contents es sz r =
     (case copy_extents es r (replicate sz nul) of
        (Inl e, f) \<Rightarrow> (Inl e, f)
      | (Inr r, f) \<Rightarrow> (if r \<noteq> [] then Inl ''OCI GNU sparse entry has trailing physical data'' else Inr (), f))"

definition sparse_extents_of :: "gnu_sparse_metadata \<Rightarrow> string \<Rightarrow> string + (extent list \<times> string)" where
  "sparse_extents_of m r =
     (case sparse_map m of Sparse_Pax es \<Rightarrow> Inr (es, r) | Sparse_Embedded \<Rightarrow> read_embedded_sparse_map r (real_size m))"

definition extents_total :: "extent list \<Rightarrow> nat" where
  "extents_total es = sum_list (map snd es)"

text \<open>The file that the map describes: the payload at the extents, zeros between and after them.\<close>

fun expanded :: "nat \<Rightarrow> extent list \<Rightarrow> string \<Rightarrow> nat \<Rightarrow> string" where
  "expanded pos [] payload sz = replicate (sz - pos) nul"
| "expanded pos ((off, len) # es) payload sz =
     replicate (off - pos) nul @ take len payload @ expanded (off + len) es (drop len payload) sz"

lemma write_at_inside: "off + length d \<le> length f \<Longrightarrow> write_at off d f = take off f @ d @ drop (off + length d) f"
  by (simp add: write_at_def)

lemma copy_extent_ok:
  assumes "len \<le> length r" and "off + len \<le> length f"
  shows "copy_extent off len r f = (Inr (drop len r), take off f @ take len r @ drop (off + len) f)"
  using assms
proof (induction off len r f rule: copy_extent.induct)
  case (1 off len r f)
  show ?case
  proof (cases "len = 0")
    case False
    define n where "n = min len COPY_BUFFER"
    have n: "n \<le> len" "n \<le> length r" "off + n \<le> length f"
      using "1.prems" by (auto simp: n_def)
    have w: "write_at off (take n r) f = take off f @ take n r @ drop (off + n) f"
      using n by (simp add: write_at_inside)
    have l: "length (write_at off (take n r) f) = length f"
      using n by (simp add: w)
    have "copy_extent off len r f = copy_extent (off + n) (len - n) (drop n r) (write_at off (take n r) f)"
      using False n by (subst copy_extent.simps) (simp add: n_def [symmetric] Let_def not_less)
    also have "\<dots> = (Inr (drop (len - n) (drop n r)),
        take (off + n) (write_at off (take n r) f) @ take (len - n) (drop n r) @ drop (off + n + (len - n)) (write_at off (take n r) f))"
      unfolding n_def using False "1.prems" n l by (intro "1.IH") (auto simp: n_def not_less)
    also have "\<dots> = (Inr (drop len r), take off f @ (take n r @ take (len - n) (drop n r)) @ drop (off + len) f)"
      using n "1.prems" by (simp add: w add.commute [of len off])
    also have "take n r @ take (len - n) (drop n r) = take len r"
      using n take_add [of n "len - n" r] by simp
    finally show ?thesis .
  qed (subst copy_extent.simps, simp)
qed

lemma copy_extent_short: "length r < len \<Longrightarrow> \<exists>e g. copy_extent off len r f = (Inl e, g)"
proof (induction off len r f rule: copy_extent.induct)
  case (1 off len r f)
  show ?case
  proof (cases "length r < min len COPY_BUFFER")
    case False
    have "len \<noteq> 0"
      using "1.prems" by auto
    with False "1.prems" show ?thesis
      using "1.IH" [OF _ refl] by (subst copy_extent.simps) (auto simp: Let_def)
  qed (use "1.prems" in \<open>subst copy_extent.simps, auto simp: Let_def\<close>)
qed

lemma extents_in_order_mono: "extents_in_order pos es sz = Inr () \<Longrightarrow> pos \<le> sz \<Longrightarrow>
    (case es of [] \<Rightarrow> True | (off, len) # _ \<Rightarrow> pos \<le> off \<and> off + len \<le> sz \<and> extents_in_order (off + len) (tl es) sz = Inr ())"
  by (cases "(pos, es, sz)" rule: extents_in_order.cases) (auto split: if_splits)

lemma copy_extents_ok:
  assumes "extents_in_order pos es sz = Inr ()" and "length d = pos" and "pos \<le> sz" and "extents_total es \<le> length r"
  shows "copy_extents es r (d @ replicate (sz - pos) nul) = (Inr (drop (extents_total es) r), d @ expanded pos es r sz)"
  using assms
proof (induction es arbitrary: pos d r)
  case (Cons e es)
  obtain off len where e: "e = (off, len)" by (cases e)
  have o: "pos \<le> off" "off + len \<le> sz" "extents_in_order (off + len) es sz = Inr ()"
    using extents_in_order_mono [OF Cons.prems(1,3)] by (auto simp: e)
  have len: "len \<le> length r" "extents_total es \<le> length (drop len r)"
    using Cons.prems(4) by (auto simp: e extents_total_def)
  define g where "g = d @ replicate (off - pos) nul @ take len r"
  have "copy_extent off len r (d @ replicate (sz - pos) nul) = (Inr (drop len r), g @ replicate (sz - (off + len)) nul)"
    using o len Cons.prems(2) by (subst copy_extent_ok) (auto simp: g_def)
  moreover have "copy_extents es (drop len r) (g @ replicate (sz - (off + len)) nul) =
      (Inr (drop (extents_total es) (drop len r)), g @ expanded (off + len) es (drop len r) sz)"
    using o len Cons.prems(2) by (intro Cons.IH) (auto simp: g_def)
  ultimately show ?case
    by (simp add: e g_def extents_total_def add.commute)
qed (simp add: extents_total_def)

lemma copy_extents_short:
  assumes "extents_in_order pos es sz = Inr ()" and "length f = sz" and "pos \<le> sz" and "length r < extents_total es"
  shows "\<exists>e g. copy_extents es r f = (Inl e, g)"
  using assms
proof (induction es arbitrary: pos f r)
  case (Cons e es)
  obtain off len where e: "e = (off, len)" by (cases e)
  have o: "pos \<le> off" "off + len \<le> sz" "extents_in_order (off + len) es sz = Inr ()"
    using extents_in_order_mono [OF Cons.prems(1,3)] by (auto simp: e)
  show ?case
  proof (cases "length r < len")
    case True
    then show ?thesis
      using copy_extent_short [OF True, of off f] by (auto simp: e)
  next
    case False
    define g where "g = take off f @ take len r @ drop (off + len) f"
    have "copy_extent off len r f = (Inr (drop len r), g)"
      using False o Cons.prems(2) by (simp add: copy_extent_ok g_def)
    moreover have "\<exists>e h. copy_extents es (drop len r) g = (Inl e, h)"
      using False o Cons.prems by (intro Cons.IH [OF o(3)]) (auto simp: g_def e extents_total_def)
    ultimately show ?thesis
      by (auto simp: e)
  qed
qed (simp add: extents_total_def)

lemma sparse_contents_iff:
  assumes "validate_sparse_extents es sz = Inr ()"
  shows "sparse_contents es sz payload = (Inr (), f) \<longleftrightarrow> length payload = extents_total es \<and> f = expanded 0 es payload sz"
proof -
  have o: "extents_in_order 0 es sz = Inr ()"
    using assms by (auto simp: validate_sparse_extents_def result_simps)
  show ?thesis
  proof (cases "length payload < extents_total es")
    case True
    from copy_extents_short [OF o _ _ this, of "replicate sz nul"] True show ?thesis
      by (auto simp: sparse_contents_def)
  next
    case False
    with copy_extents_ok [OF o, of "[]" payload] show ?thesis
      by (auto simp: sparse_contents_def)
  qed
qed

text \<open>
  C20. A sparse entry is accepted exactly when its data is as long as the extents of its map together, and the
  file is then the one the map describes: the data at the extents, zeros everywhere else, of the real size;
  however the data is split into buffers.
\<close>

theorem sparse_file_is_expanded:
  assumes "validate_sparse_extents es sz = Inr ()"
  shows "sparse_contents es sz payload = (Inr (), f) \<longleftrightarrow> length payload = extents_total es \<and> f = expanded 0 es payload sz"
  by (rule sparse_contents_iff [OF assms])

theorem sparse_file_is_expanded_witness:
  "sparse_contents [(2, 3), (7, 1)] 9 ''abcd'' = (Inr (), [nul, nul] @ ''abc'' @ [nul, nul] @ ''d'' @ [nul])"
proof -
  have "expanded 0 [(2, 3), (7, 1)] ''abcd'' 9 = [nul, nul] @ ''abc'' @ [nul, nul] @ ''d'' @ [nul]"
    by code_simp
  moreover have "validate_sparse_extents [(2, 3), (7, 1)] 9 = Inr ()"
    by (simp add: validate_sparse_extents_def MAX_OCI_SPARSE_EXTENTS_def)
  ultimately show ?thesis
    using sparse_file_is_expanded [of "[(2, 3), (7, 1)]" 9 "''abcd''"] by (simp add: extents_total_def)
qed

text \<open>Whatever its format, a map that is used has been validated against the real size.\<close>

lemma sparse_extents_valid:
  assumes "parse_gnu_sparse_metadata pax p = Inr (Some m)" and "sparse_extents_of m r = Inr (es, r')"
  shows "validate_sparse_extents es (real_size m) = Inr ()"
proof (cases "sparse_map m")
  case (Sparse_Pax xs)
  then have "xs = es"
    using assms(2) by (simp add: sparse_extents_of_def)
  moreover have "\<exists>t. parse_pax_sparse_map t (real_size m) = Inr xs"
    using assms(1) Sparse_Pax by (auto simp: parse_gnu_sparse_metadata_def Let_def result_simps split: if_splits)
  ultimately show ?thesis
    by (auto simp: parse_pax_sparse_map_def Let_def result_simps)
next
  case Sparse_Embedded
  then have "read_embedded_sparse_map r (real_size m) = Inr (es, r')"
    using assms(2) by (simp add: sparse_extents_of_def)
  then show ?thesis
    by (auto simp: read_embedded_sparse_map_def Let_def result_simps split: if_splits prod.splits)
qed

section \<open>The records of a layer\<close>

text \<open>
  The raw entries of an archive in order: what kind they are, the size their header declares (or a bad header),
  the data that follows and their position. Iteration and reads come from the \<open>tar\<close> crate.
\<close>

datatype raw_kind = Pax_Global | Pax_Local | Gnu_Long | Other_Entry

record raw_entry =
  raw_kind :: raw_kind
  raw_size :: "nat option"
  raw_data :: string
  raw_position :: nat

definition read_pax_entry :: "raw_entry \<Rightarrow> string + pax_records" where
  "read_pax_entry e =
     then_ok (ok_or ''reading PAX entry size'' (raw_size e)) (\<lambda>sz.
     then_ok (bail_if (MAX_OCI_PAX_BYTES < sz) ''OCI PAX metadata exceeds the limit'') (\<lambda>_.
     then_ok (bail_if (length (raw_data e) \<noteq> sz) ''OCI PAX metadata ended before its declared size'') (\<lambda>_.
     parse_raw_pax_records (raw_data e))))"

definition extend :: "pax_records \<Rightarrow> pax_records \<Rightarrow> pax_records" where
  "extend m add = fold (\<lambda>(k, v). btree_insert id k v) add m"

fun layer_records :: "pax_records \<Rightarrow> pax_records option \<Rightarrow> (nat \<times> pax_records) list \<Rightarrow> raw_entry list \<Rightarrow> string + (nat \<times> pax_records) list" where
  "layer_records global local_pax found [] =
     (if local_pax \<noteq> None then Inl ''OCI layer ends with an unconsumed local PAX header'' else Inr found)"
| "layer_records global local_pax found (e # es) =
     (if raw_kind e = Pax_Global then then_ok (read_pax_entry e) (\<lambda>parsed. layer_records (extend global parsed) local_pax found es)
      else if raw_kind e = Pax_Local then
        then_ok (read_pax_entry e) (\<lambda>parsed.
          if local_pax \<noteq> None then Inl ''two local PAX headers describe one OCI layer entry'' else layer_records global (Some parsed) found es)
      else if raw_kind e = Gnu_Long then layer_records global local_pax found es
      else if global \<noteq> [] \<or> local_pax \<noteq> None
      then layer_records global None (btree_insert id (raw_position e) (extend global (case local_pax of None \<Rightarrow> [] | Some l \<Rightarrow> l)) found) es
      else layer_records global None found es)"

definition read_layer_pax_records :: "raw_entry list \<Rightarrow> string + (nat \<times> pax_records) list" where
  "read_layer_pax_records es = layer_records [] None [] es"

end
