(* ===== verification/Rootfs_Layers.thy ===== *)
theory Rootfs_Layers
  imports Pax_Sparse "HOL-Library.AList"
begin

text \<open>
  Applying an OCI layer to a new root file system, \<open>apply_layer\<close> of \<open>host/crates/buzzardos/src/main.rs\<close>: the
  whiteouts, the entries with their PAX metadata, sparse files and the directories whose attributes are set last.

  The file system is a list of paths with their nodes; paths are resolved as the kernel does, links and \<open>.\<close>
  and \<open>..\<close> included. A path is the list of its names; a text that ends in a slash or in \<open>/.\<close> keeps a last
  \<open>.\<close>, which makes the kernel follow a link before it. Extraction by the \<open>tar\<close> crate (\<open>unpack_in\<close>) is a
  parameter. Calls fail as the tree says (missing, not a directory, too many links), not for lack of space.
\<close>

section \<open>The file system\<close>

record node_meta =
  owner :: "nat \<times> nat"
  permissions :: nat
  modified :: "int \<times> int"
  xattrs :: "(string \<times> string) list"

datatype rnode = R_File string node_meta | R_Dir node_meta | R_Link string node_meta

type_synonym names = "string list"
type_synonym tree = "(names \<times> rnode) list"

datatype walk_error = Walk_Missing | Walk_Other

definition is_real_dir :: "tree \<Rightarrow> names \<Rightarrow> bool" where
  "is_real_dir T p \<longleftrightarrow> p = [] \<or> (case map_of T p of Some (R_Dir _) \<Rightarrow> True | _ \<Rightarrow> False)"

text \<open>The names of a text: empty ones vanish, a trailing slash is a trailing \<open>.\<close>.\<close>

definition kernel_names :: "string \<Rightarrow> names" where
  "kernel_names s = filter (\<lambda>c. c \<noteq> []) (split_on (CHR ''/'') s) @ (if s \<noteq> [] \<and> last s = CHR ''/'' then [''.''] else [])"

definition link_start :: "string \<Rightarrow> names \<Rightarrow> names" where
  "link_start t cur = (if t \<noteq> [] \<and> hd t = CHR ''/'' then [] else cur)"

fun walk :: "tree \<Rightarrow> nat \<Rightarrow> bool \<Rightarrow> names \<Rightarrow> names \<Rightarrow> walk_error + names" where
  "walk T n follow_last cur [] = Inr cur"
| "walk T n follow_last cur (c # cs) =
     (if \<not> is_real_dir T cur then Inl Walk_Other
      else if c = ''.'' then walk T n follow_last cur cs
      else if c = ''..'' then walk T n follow_last (butlast cur) cs
      else case map_of T (cur @ [c]) of
        None \<Rightarrow> Inl Walk_Missing
      | Some (R_Link t _) \<Rightarrow>
          (if cs = [] \<and> \<not> follow_last then Inr (cur @ [c])
           else case n of
             0 \<Rightarrow> Inl Walk_Other
           | Suc k \<Rightarrow> walk T k follow_last (link_start t cur) (kernel_names t @ cs))
      | Some _ \<Rightarrow> walk T n follow_last (cur @ [c]) cs)"

definition KERNEL_LINKS :: nat where "KERNEL_LINKS = 40"

definition canonicalize :: "tree \<Rightarrow> names \<Rightarrow> walk_error + names" where
  "canonicalize T p = walk T KERNEL_LINKS True [] p"

definition symlink_metadata :: "tree \<Rightarrow> names \<Rightarrow> walk_error + names" where
  "symlink_metadata T p = walk T KERNEL_LINKS False [] p"

text \<open>\<open>Path::components\<close> without \<open>.\<close>, and \<open>Path::parent\<close>.\<close>

definition rust_components :: "names \<Rightarrow> names" where
  "rust_components p = filter (\<lambda>c. c \<noteq> ''.'') p"

definition rust_parent :: "names \<Rightarrow> names option" where
  "rust_parent p = (if rust_components p = [] then None else Some (butlast (rust_components p)))"

definition children :: "tree \<Rightarrow> names \<Rightarrow> names" where
  "children T d = map last (filter (\<lambda>p. p \<noteq> [] \<and> butlast p = d) (map fst T))"

definition at_or_below :: "names \<Rightarrow> names \<Rightarrow> bool" where
  "at_or_below p q \<longleftrightarrow> starts_with p q"

definition without :: "(names \<Rightarrow> bool) \<Rightarrow> tree \<Rightarrow> tree" where
  "without f T = filter (\<lambda>(p, _). \<not> f p) T"

text \<open>
  \<open>fs::remove_dir_all\<close>: the contents and then the directory, which the kernel refuses when the path ends in \<open>.\<close>
  or \<open>..\<close> or names the root.
\<close>

definition remove_dir_all :: "names \<Rightarrow> names \<Rightarrow> tree \<Rightarrow> (string + unit) \<times> tree" where
  "remove_dir_all p q T =
     (if p = [] \<or> last p \<in> {''.'', ''..''} then (Inl ''applying whiteout'', without (\<lambda>x. at_or_below x q \<and> x \<noteq> q) T)
      else (Inr (), without (\<lambda>x. at_or_below x q) T))"

definition remove_path :: "names \<Rightarrow> tree \<Rightarrow> (string + unit) \<times> tree" where
  "remove_path p T =
     (case symlink_metadata T p of
        Inr q \<Rightarrow> (if is_real_dir T q then remove_dir_all p q T else (Inr (), without (\<lambda>x. x = q) T))
      | Inl Walk_Missing \<Rightarrow> (Inr (), T)
      | Inl Walk_Other \<Rightarrow> (Inl ''inspecting whiteout'', T))"

section \<open>Whiteouts\<close>

definition safe_relative_path :: "string \<Rightarrow> string + names" where
  "safe_relative_path s =
     (let parts = split_on (CHR ''/'') s;
          cs = filter (\<lambda>c. c \<noteq> [] \<and> c \<noteq> ''.'') parts in
      if s \<noteq> [] \<and> hd s = CHR ''/'' \<or> ''..'' \<in> set cs then Inl (''OCI archive contains unsafe path '' @ s)
      else if cs = [] then Inr []
      else Inr (cs @ (if last parts = [] \<or> last parts = ''.'' then [''.''] else [])))"

datatype whiteout = Wh_Remove names | Wh_Opaque names

definition whiteout_action :: "names \<Rightarrow> string + whiteout option" where
  "whiteout_action p =
     (let cs = rust_components p in
      if cs = [] then Inr None
      else if last cs = ''.wh..wh..opq'' then Inr (Some (Wh_Opaque (butlast cs)))
      else case strip_prefix ''.wh.'' (last cs) of
        None \<Rightarrow> Inr None
      | Some target \<Rightarrow> (if target = [] then Inl ''OCI whiteout has no target'' else Inr (Some (Wh_Remove (butlast cs @ [target])))))"

definition validated_whiteout_path :: "names \<Rightarrow> names \<Rightarrow> tree \<Rightarrow> string + names option" where
  "validated_whiteout_path rootfs relative T =
     then_ok (map_err (\<lambda>_. ''resolving rootfs'') (canonicalize T rootfs)) (\<lambda>root.
     let p = root @ relative in
     then_ok (ok_or ''whiteout target has no parent'' (rust_parent p)) (\<lambda>d.
     case canonicalize T d of
       Inl Walk_Missing \<Rightarrow> Inr None
     | Inl Walk_Other \<Rightarrow> Inl ''resolving whiteout parent''
     | Inr resolved \<Rightarrow>
         (if \<not> starts_with resolved root then Inl ''OCI whiteout target escapes the rootfs through a symlink''
          else Inr (Some p))))"

definition remove_whiteout_target :: "names \<Rightarrow> names \<Rightarrow> tree \<Rightarrow> (string + unit) \<times> tree" where
  "remove_whiteout_target rootfs relative T =
     (case validated_whiteout_path rootfs relative T of
        Inl e \<Rightarrow> (Inl e, T)
      | Inr None \<Rightarrow> (Inr (), T)
      | Inr (Some p) \<Rightarrow> remove_path p T)"

fun remove_children :: "names \<Rightarrow> names \<Rightarrow> tree \<Rightarrow> (string + unit) \<times> tree" where
  "remove_children d [] T = (Inr (), T)"
| "remove_children d (c # cs) T = io_then (remove_path (d @ [c]) T) id (\<lambda>_. remove_children d cs)"

definition clear_directory :: "names \<Rightarrow> tree \<Rightarrow> (string + unit) \<times> tree" where
  "clear_directory p T =
     (case canonicalize T p of
        Inl Walk_Missing \<Rightarrow> (Inr (), T)
      | Inl Walk_Other \<Rightarrow> (Inl ''applying opaque whiteout'', T)
      | Inr d \<Rightarrow> (if is_real_dir T d then remove_children p (children T d) T else (Inl ''applying opaque whiteout'', T)))"

definition clear_whiteout_directory :: "names \<Rightarrow> names \<Rightarrow> tree \<Rightarrow> (string + unit) \<times> tree" where
  "clear_whiteout_directory rootfs relative T =
     (case validated_whiteout_path rootfs relative T of
        Inl e \<Rightarrow> (Inl e, T)
      | Inr None \<Rightarrow> (Inr (), T)
      | Inr (Some p) \<Rightarrow>
          (case symlink_metadata T p of
             Inr q \<Rightarrow> (if is_real_dir T q then clear_directory p T else (Inl ''OCI opaque whiteout target is not a directory'', T))
           | Inl Walk_Missing \<Rightarrow> (Inr (), T)
           | Inl Walk_Other \<Rightarrow> (Inl ''inspecting opaque whiteout'', T)))"

definition apply_whiteout :: "names \<Rightarrow> string option \<Rightarrow> tree \<Rightarrow> (string + unit) \<times> tree" where
  "apply_whiteout rootfs entry_path T =
     (case then_ok (ok_or ''reading OCI whiteout path'' entry_path) (\<lambda>t. then_ok (safe_relative_path t) whiteout_action) of
        Inl e \<Rightarrow> (Inl e, T)
      | Inr None \<Rightarrow> (Inr (), T)
      | Inr (Some (Wh_Remove target)) \<Rightarrow> remove_whiteout_target rootfs target T
      | Inr (Some (Wh_Opaque d)) \<Rightarrow> clear_whiteout_directory rootfs d T)"

fun apply_whiteouts :: "names \<Rightarrow> string option list \<Rightarrow> tree \<Rightarrow> (string + unit) \<times> tree" where
  "apply_whiteouts rootfs [] T = (Inr (), T)"
| "apply_whiteouts rootfs (p # ps) T = io_then (apply_whiteout rootfs p T) id (\<lambda>_. apply_whiteouts rootfs ps)"


section \<open>Walking\<close>

definition proper :: "string \<Rightarrow> bool" where
  "proper c \<longleftrightarrow> c \<noteq> ''.'' \<and> c \<noteq> ''..''"

definition proper_tree :: "tree \<Rightarrow> bool" where
  "proper_tree T \<longleftrightarrow> list_all (\<lambda>(p, _). list_all proper p) T"

definition real_root :: "tree \<Rightarrow> names \<Rightarrow> bool" where
  "real_root T r \<longleftrightarrow> list_all proper r \<and> list_all (\<lambda>k. is_real_dir T (take k r)) [0..<Suc (length r)]"

definition inside :: "names \<Rightarrow> names \<Rightarrow> bool" where
  "inside r p \<longleftrightarrow> at_or_below p r \<and> p \<noteq> r"

lemma starts_with_iff: "starts_with s p \<longleftrightarrow> (\<exists>t. s = p @ t)"
  by (auto simp: starts_with_def) (metis append_take_drop_id)

lemma inside_snoc: "starts_with q r \<Longrightarrow> inside r (q @ [c])"
  by (auto simp: inside_def at_or_below_def starts_with_iff)

lemma inside_below: "inside r q \<Longrightarrow> at_or_below p q \<Longrightarrow> inside r p"
  by (auto simp: inside_def at_or_below_def starts_with_iff)

lemma map_of_without: "map_of (without f T) p = (if f p then None else map_of T p)"
  by (induction T) (auto simp: without_def)

lemma without_smaller: "map_of (without f T) \<subseteq>\<^sub>m map_of T"
  by (auto simp: map_le_def map_of_without)

lemma real_dir_smaller: "map_of S \<subseteq>\<^sub>m map_of T \<Longrightarrow> is_real_dir S p \<Longrightarrow> is_real_dir T p"
  by (fastforce simp: is_real_dir_def map_le_def dom_def split: option.splits rnode.splits)

lemma map_le_Some: "map_of S \<subseteq>\<^sub>m map_of T \<Longrightarrow> map_of S p = Some x \<Longrightarrow> map_of T p = Some x"
  by (auto simp: map_le_def dom_def)

text \<open>Removing nodes never leads a path elsewhere.\<close>

lemma walk_smaller:
  assumes "map_of S \<subseteq>\<^sub>m map_of T"
  shows "walk S n f cur cs = Inr q \<Longrightarrow> walk T n f cur cs = Inr q"
  using real_dir_smaller [OF assms] map_le_Some [OF assms]
proof (induction S n f cur cs rule: walk.induct)
  case (2 S n f cur c cs)
  then show ?case
    by (fastforce split: if_splits option.splits rnode.splits nat.splits)
qed simp

lemma walk_root: "real_root T r \<Longrightarrow> walk T n f [] (r @ cs) = walk T n f r cs"
proof -
  assume r: "real_root T r"
  have "walk T n f (take k r) (drop k r @ cs) = walk T n f r cs" if "k \<le> length r" for k
    using that
  proof (induction "length r - k" arbitrary: k)
    case (Suc m)
    then have k: "k < length r" by simp
    then have d: "drop k r = r ! k # drop (Suc k) r" and t: "take k r @ [r ! k] = take (Suc k) r"
      by (simp_all add: Cons_nth_drop_Suc take_Suc_conv_app_nth)
    have "proper (r ! k)" "is_real_dir T (take k r)" "is_real_dir T (take (Suc k) r)"
      using r k by (auto simp: real_root_def list_all_iff simp del: upt_Suc)
    then have "walk T n f (take k r) (r ! k # (drop (Suc k) r @ cs)) = walk T n f (take (Suc k) r) (drop (Suc k) r @ cs)"
      using k by (auto simp: proper_def t is_real_dir_def split: option.splits rnode.splits)
    with Suc.hyps(1) [of "Suc k"] Suc.hyps(2) k show ?case
      by (simp add: d)
  qed simp
  from this [of 0] show ?thesis by simp
qed

lemma walk_snoc:
  "proper c \<Longrightarrow> walk T n False cur (cs @ [c]) =
     (case walk T n True cur cs of
        Inl e \<Rightarrow> Inl e
      | Inr q \<Rightarrow> (if \<not> is_real_dir T q then Inl Walk_Other
                 else case map_of T (q @ [c]) of None \<Rightarrow> Inl Walk_Missing | Some _ \<Rightarrow> Inr (q @ [c])))"
  by (induction T n True cur cs rule: walk.induct) (auto simp: proper_def split: option.splits rnode.splits nat.splits)

lemma walk_snoc_dir:
  "walk T n True cur cs = Inr q \<Longrightarrow> is_real_dir T q \<Longrightarrow> map_of T (q @ [c]) = Some (R_Dir m) \<Longrightarrow> proper c \<Longrightarrow>
   walk T n True cur (cs @ [c]) = Inr (q @ [c])"
  by (induction T n True cur cs rule: walk.induct) (auto simp: proper_def split: option.splits rnode.splits nat.splits if_splits)

lemma canonical_root: "real_root T r \<Longrightarrow> canonicalize T r = Inr r"
  using walk_root [of T r KERNEL_LINKS True "[]"] by (simp add: canonicalize_def)

section \<open>Whiteouts stay inside\<close>

definition beyond :: "names \<Rightarrow> tree \<Rightarrow> tree" where
  "beyond r T = without (inside r) T"

definition stays :: "names \<Rightarrow> tree \<Rightarrow> tree \<Rightarrow> bool" where
  "stays r T T' \<longleftrightarrow> beyond r T' = beyond r T \<and> real_root T' r \<and> proper_tree T' \<and> map_of T' \<subseteq>\<^sub>m map_of T"

lemma stays_refl: "real_root T r \<Longrightarrow> proper_tree T \<Longrightarrow> stays r T T"
  by (simp add: stays_def)

lemma stays_trans: "stays r T U \<Longrightarrow> stays r U V \<Longrightarrow> stays r T V"
  by (auto simp: stays_def intro: map_le_trans)

lemma take_not_inside: "\<not> inside r (take k r)"
  by (auto simp: inside_def at_or_below_def starts_with_iff dest: arg_cong [of _ _ length])

lemma stays_without:
  assumes "real_root T r" and "proper_tree T" and "\<And>p. f p \<Longrightarrow> inside r p"
  shows "stays r T (without f T)"
proof -
  have "is_real_dir (without f T) (take k r)" if "is_real_dir T (take k r)" for k
    using that assms(3) [of "take k r"] take_not_inside [of r k] by (auto simp: is_real_dir_def map_of_without)
  moreover have "beyond r (without f T) = beyond r T"
    using assms(3) by (auto simp: beyond_def without_def filter_id_conv intro!: filter_cong)
  ultimately show ?thesis
    using assms(1,2) by (auto simp: stays_def real_root_def proper_tree_def without_def list_all_iff without_smaller [unfolded without_def] simp del: upt_Suc)
qed

lemma remove_path_stays:
  assumes "real_root T r" and "proper_tree T" and "proper c" and "\<And>q. canonicalize T p = Inr q \<Longrightarrow> starts_with q r"
  shows "stays r T (snd (remove_path (p @ [c]) T))"
proof (cases "symlink_metadata T (p @ [c])")
  case (Inl e)
  then show ?thesis
    using stays_refl [OF assms(1,2)] by (cases e) (simp_all add: remove_path_def)
next
  case (Inr q)
  then obtain d where d: "canonicalize T p = Inr d" "q = d @ [c]"
    using walk_snoc [OF assms(3), of T KERNEL_LINKS "[]" p]
    by (auto simp: symlink_metadata_def canonicalize_def split: sum.splits option.splits if_splits)
  have i: "inside r q"
    using inside_snoc assms(4) [OF d(1)] by (simp add: d(2))
  have "last (p @ [c]) \<noteq> ''.''" "last (p @ [c]) \<noteq> ''..''"
    using assms(3) by (auto simp: proper_def)
  then have "\<exists>f. snd (remove_path (p @ [c]) T) = without f T \<and> (\<forall>x. f x \<longrightarrow> inside r x)"
    using i inside_below [OF i] by (auto simp: remove_path_def Inr remove_dir_all_def)
  then show ?thesis
    using stays_without [OF assms(1,2)] by auto
qed

lemma remove_children_stays:
  assumes "real_root T r" and "proper_tree T" and "list_all proper cs" and "canonicalize T p = Inr d" and "starts_with d r"
  shows "stays r T (snd (remove_children p cs T))"
proof -
  have "stays r S (snd (remove_children p cs S))" if "stays r T S" for S
    using assms(3) that
  proof (induction cs arbitrary: S)
    case (Cons c cs)
    have "stays r S (snd (remove_path (p @ [c]) S))"
    proof (rule remove_path_stays)
      fix q assume "canonicalize S p = Inr q"
      then have "canonicalize T p = Inr q"
        using Cons.prems(2) walk_smaller by (auto simp: stays_def canonicalize_def)
      with assms(4,5) show "starts_with q r" by simp
    qed (use Cons.prems in \<open>auto simp: stays_def\<close>)
    then have "stays r T (snd (remove_path (p @ [c]) S))" and s: "stays r S (snd (remove_path (p @ [c]) S))"
      using Cons.prems(2) stays_trans by auto
    from Cons.IH [OF _ this(1)] Cons.prems(1) s show ?case
      by (cases "remove_path (p @ [c]) S"; cases "fst (remove_path (p @ [c]) S)") (auto intro: stays_trans)
  qed (simp add: stays_refl stays_def)
  from this [OF stays_refl [OF assms(1,2)]] show ?thesis .
qed


lemma rust_root: "list_all proper r \<Longrightarrow> list_all proper d \<Longrightarrow> rust_components (r @ d) = r @ d"
  by (auto simp: rust_components_def proper_def list_all_iff filter_id_conv)

lemma validated_snoc:
  assumes "real_root T r" and "list_all proper d" and "proper c" and "validated_whiteout_path r (d @ [c]) T = Inr (Some p)"
  shows "p = (r @ d) @ [c] \<and> (\<forall>q. canonicalize T (r @ d) = Inr q \<longrightarrow> starts_with q r)"
proof -
  have "rust_parent (r @ d @ [c]) = Some (r @ d)"
    using assms(1-3) rust_root [of r "d @ [c]"] by (simp add: rust_parent_def real_root_def butlast_append)
  with assms(1,4) show ?thesis
    by (auto simp: validated_whiteout_path_def canonical_root result_simps split: sum.splits walk_error.splits if_splits)
qed

lemma real_root_prefix: "real_root T (ys @ [y]) \<Longrightarrow> real_root T ys"
proof -
  assume r: "real_root T (ys @ [y])"
  have "is_real_dir T (take k ys)" if "k \<le> length ys" for k
  proof -
    have "is_real_dir T (take k (ys @ [y]))"
      using r that by (simp add: real_root_def list_all_iff del: take_append upt_Suc)
    with that show ?thesis by simp
  qed
  with r show ?thesis
    by (auto simp: real_root_def list_all_iff less_Suc_eq_le simp del: upt_Suc)
qed

lemma validated_root:
  assumes "real_root T r"
  shows "\<exists>e. validated_whiteout_path r [] T = Inl e"
proof (cases r rule: rev_cases)
  case (snoc ys y)
  have "rust_parent r = Some ys"
    using assms rust_root [of r "[]"] by (simp add: rust_parent_def real_root_def snoc)
  moreover have "real_root T ys"
    using assms real_root_prefix by (simp add: snoc)
  moreover have "\<not> starts_with ys r"
    by (auto simp: starts_with_iff snoc dest: arg_cong [of _ _ length])
  ultimately show ?thesis
    using assms by (simp add: validated_whiteout_path_def canonical_root)
qed (simp add: validated_whiteout_path_def canonicalize_def rust_parent_def rust_components_def)

lemma remove_target_stays:
  assumes "real_root T r" and "proper_tree T" and "list_all proper d" and "proper c"
  shows "stays r T (snd (remove_whiteout_target r (d @ [c]) T))"
proof (cases "validated_whiteout_path r (d @ [c]) T")
  case (Inr v)
  show ?thesis
  proof (cases v)
    case (Some p)
    then have "p = (r @ d) @ [c]" "\<And>q. canonicalize T (r @ d) = Inr q \<Longrightarrow> starts_with q r"
      using validated_snoc [OF assms(1,3,4)] Inr by auto
    with remove_path_stays [OF assms(1,2,4), of "r @ d"] Inr Some show ?thesis
      by (simp add: remove_whiteout_target_def)
  qed (use Inr assms in \<open>simp add: remove_whiteout_target_def stays_refl\<close>)
qed (use assms in \<open>simp add: remove_whiteout_target_def stays_refl\<close>)

lemma clear_stays:
  assumes "real_root T r" and "proper_tree T" and "list_all proper d"
  shows "stays r T (snd (clear_whiteout_directory r d T))"
proof (cases "validated_whiteout_path r d T")
  case (Inl e)
  with assms show ?thesis
    by (simp add: clear_whiteout_directory_def stays_refl)
next
  case (Inr v)
  then obtain ys y where d: "d = ys @ [y]"
    using validated_root [OF assms(1)] by (cases d rule: rev_cases) auto
  then have y: "proper y" "list_all proper ys"
    using assms(3) by auto
  show ?thesis
  proof (cases "\<exists>p q. v = Some p \<and> symlink_metadata T p = Inr q \<and> is_real_dir T q")
    case True
    then obtain p q where p: "v = Some p" "symlink_metadata T p = Inr q" "is_real_dir T q" by auto
    have v: "p = (r @ ys) @ [y]" "\<And>x. canonicalize T (r @ ys) = Inr x \<Longrightarrow> starts_with x r"
      using validated_snoc [OF assms(1) y(2,1)] Inr p(1) d by auto
    obtain x where x: "canonicalize T (r @ ys) = Inr x" "q = x @ [y]" "is_real_dir T x"
      using walk_snoc [OF y(1), of T KERNEL_LINKS "[]" "r @ ys"] p(2)
      by (auto simp: symlink_metadata_def canonicalize_def v(1) split: sum.splits option.splits if_splits)
    have "\<exists>m. map_of T (x @ [y]) = Some (R_Dir m)"
      using p(3) x(2) by (auto simp: is_real_dir_def split: option.splits rnode.splits)
    then have c: "canonicalize T p = Inr q"
      using walk_snoc_dir [OF x(1) [unfolded canonicalize_def] x(3) _ y(1)] by (auto simp: canonicalize_def v(1) x(2))
    have "starts_with q r"
      using v(2) [OF x(1)] by (auto simp: x(2) starts_with_iff)
    moreover have "list_all proper (children T q)"
      using assms(2) by (force simp: children_def proper_tree_def list_all_iff in_set_conv_decomp [of _ "_ :: names"] dest: last_in_set)
    ultimately have "stays r T (snd (remove_children p (children T q) T))"
      using assms c by (intro remove_children_stays)
    then show ?thesis
      using Inr p c by (simp add: clear_whiteout_directory_def clear_directory_def)
  next
    case False
    then show ?thesis
      using Inr stays_refl [OF assms(1,2)]
      by (auto simp: clear_whiteout_directory_def split: option.split sum.split walk_error.split)
  qed
qed

definition proper_whiteout :: "string option \<Rightarrow> bool" where
  "proper_whiteout p =
     (case then_ok (ok_or ''reading OCI whiteout path'' p) (\<lambda>t. then_ok (safe_relative_path t) whiteout_action) of
        Inr (Some (Wh_Remove target)) \<Rightarrow> proper (last target)
      | _ \<Rightarrow> True)"

lemma safe_components: "safe_relative_path t = Inr p \<Longrightarrow> list_all proper (rust_components p)"
  by (auto simp: safe_relative_path_def Let_def rust_components_def list_all_iff proper_def split: if_splits)

lemma whiteout_names:
  assumes "list_all proper (rust_components p)" and "whiteout_action p = Inr (Some a)"
  shows "case a of Wh_Remove t \<Rightarrow> t \<noteq> [] \<and> list_all proper (butlast t) | Wh_Opaque d \<Rightarrow> list_all proper d"
  using assms by (auto simp: whiteout_action_def Let_def list_all_iff dest!: in_set_butlastD split: if_splits option.splits)

lemma apply_whiteout_stays:
  assumes "real_root T r" and "proper_tree T" and "proper_whiteout p"
  shows "stays r T (snd (apply_whiteout r p T))"
proof (cases "then_ok (ok_or ''reading OCI whiteout path'' p) (\<lambda>t. then_ok (safe_relative_path t) whiteout_action)")
  case (Inr v)
  show ?thesis
  proof (cases v)
    case (Some a)
    obtain t q where "safe_relative_path t = Inr q" "whiteout_action q = Inr (Some a)"
      using Inr Some by (auto simp: result_simps)
    from whiteout_names [OF safe_components [OF this(1)] this(2)]
    have a: "case a of Wh_Remove t \<Rightarrow> t \<noteq> [] \<and> list_all proper (butlast t) | Wh_Opaque d \<Rightarrow> list_all proper d" .
    show ?thesis
    proof (cases a)
      case (Wh_Remove t)
      then have "proper (last t)" "t = butlast t @ [last t]"
        using assms(3) Inr Some a by (auto simp: proper_whiteout_def)
      then have "stays r T (snd (remove_whiteout_target r (butlast t @ [last t]) T))"
        using assms a Wh_Remove by (intro remove_target_stays) auto
      then show ?thesis
        using Inr Some Wh_Remove a by (simp add: apply_whiteout_def)
    next
      case (Wh_Opaque d)
      then show ?thesis
        using Inr Some a clear_stays [OF assms(1,2), of d] by (simp add: apply_whiteout_def)
    qed
  qed (use Inr assms in \<open>simp add: apply_whiteout_def stays_refl\<close>)
qed (use assms in \<open>simp add: apply_whiteout_def stays_refl\<close>)

lemma apply_whiteouts_stays:
  "real_root T r \<Longrightarrow> proper_tree T \<Longrightarrow> list_all proper_whiteout ps \<Longrightarrow> stays r T (snd (apply_whiteouts r ps T))"
proof (induction ps arbitrary: T)
  case (Cons p ps)
  have s: "stays r T (snd (apply_whiteout r p T))"
    using Cons.prems by (intro apply_whiteout_stays) auto
  have "stays r (snd (apply_whiteout r p T)) (snd (apply_whiteouts r ps (snd (apply_whiteout r p T))))"
    using Cons.prems s by (intro Cons.IH) (auto simp: stays_def)
  with s show ?case
    by (cases "apply_whiteout r p T"; cases "fst (apply_whiteout r p T)") (auto intro: stays_trans)
qed (simp add: stays_refl)

text \<open>
  C6. The whiteouts of a layer remove nothing outside the root file system and never the root itself, whatever
  links the layers below it have left and wherever they lead, provided that no whiteout hides the names \<open>.\<close>
  or \<open>..\<close>.
\<close>

theorem whiteouts_confined:
  assumes "real_root T rootfs" and "proper_tree T" and "list_all proper_whiteout entry_paths"
  shows "beyond rootfs (snd (apply_whiteouts rootfs entry_paths T)) = beyond rootfs T"
  using apply_whiteouts_stays [OF assms] by (simp add: stays_def)

definition demo_meta :: node_meta where
  "demo_meta = \<lparr>owner = (0, 0), permissions = 0, modified = (0, 0), xattrs = []\<rparr>"

definition demo_tree :: tree where
  "demo_tree =
     [([''m''], R_Dir demo_meta), ([''m'', ''rootfs''], R_Dir demo_meta), ([''m'', ''layer''], R_File ''data'' demo_meta),
      ([''h''], R_Dir demo_meta), ([''h'', ''notes''], R_File ''mine'' demo_meta),
      ([''m'', ''rootfs'', ''etc''], R_Dir demo_meta), ([''m'', ''rootfs'', ''etc'', ''motd''], R_File ''hi'' demo_meta),
      ([''m'', ''rootfs'', ''out''], R_Link ''/h'' demo_meta)]"

text \<open>A link to the host is itself removed, and what is behind it is refused.\<close>

theorem whiteouts_confined_witness:
  "apply_whiteouts [''m'', ''rootfs''] [Some ''etc/.wh.motd'', Some ''.wh.out''] demo_tree = (Inr (), take 6 demo_tree)
   \<and> beyond [''m'', ''rootfs''] (snd (apply_whiteouts [''m'', ''rootfs''] [Some ''out/.wh.notes''] demo_tree)) = beyond [''m'', ''rootfs''] demo_tree"
proof
  show "apply_whiteouts [''m'', ''rootfs''] [Some ''etc/.wh.motd'', Some ''.wh.out''] demo_tree = (Inr (), take 6 demo_tree)"
    by code_simp
  have "real_root demo_tree [''m'', ''rootfs'']" "proper_tree demo_tree" "list_all proper_whiteout [Some ''out/.wh.notes'']"
    by code_simp+
  then show "beyond [''m'', ''rootfs''] (snd (apply_whiteouts [''m'', ''rootfs''] [Some ''out/.wh.notes''] demo_tree)) = beyond [''m'', ''rootfs''] demo_tree"
    by (rule whiteouts_confined)
qed

text \<open>
  The condition is needed: the name hidden by \<open>.wh...\<close> is \<open>..\<close>, whose parent passes the check, and the directory
  that holds the root file system is emptied; the one hidden by \<open>.wh..\<close> is \<open>.\<close>, which makes the kernel follow a
  link before it.
\<close>

lemma dot_whiteouts_escape:
  "map_of (snd (apply_whiteouts [''m'', ''rootfs''] [Some ''.wh...''] demo_tree)) [''m'', ''layer''] = None \<and>
   map_of (snd (apply_whiteouts [''m'', ''rootfs''] [Some ''out/.wh..''] demo_tree)) [''h'', ''notes''] = None"
  by code_simp

text \<open>An opaque whiteout of the root itself, which OCI allows, is refused as an escape.\<close>

lemma opaque_root_refused:
  "real_root T rootfs \<Longrightarrow> \<exists>e. apply_whiteouts rootfs [Some ''.wh..wh..opq''] T = (Inl e, T)"
proof -
  assume "real_root T rootfs"
  from validated_root [OF this] obtain e where "validated_whiteout_path rootfs [] T = Inl e" by auto
  moreover have "safe_relative_path ''.wh..wh..opq'' = Inr [''.wh..wh..opq'']"
    by code_simp
  ultimately show ?thesis
    by (simp add: apply_whiteout_def whiteout_action_def rust_components_def clear_whiteout_directory_def)
qed


section \<open>Attributes and files\<close>

definition meta_map :: "(node_meta \<Rightarrow> node_meta) \<Rightarrow> rnode \<Rightarrow> rnode" where
  "meta_map f x = (case x of R_File d m \<Rightarrow> R_File d (f m) | R_Dir m \<Rightarrow> R_Dir (f m) | R_Link t m \<Rightarrow> R_Link t (f m))"

definition set_meta :: "(node_meta \<Rightarrow> node_meta) \<Rightarrow> names \<Rightarrow> tree \<Rightarrow> tree" where
  "set_meta f p T = map (\<lambda>(q, x). (q, if q = p then meta_map f x else x)) T"

definition put_node :: "names \<Rightarrow> rnode \<Rightarrow> tree \<Rightarrow> tree" where
  "put_node p x T = (p, x) # without (\<lambda>q. q = p) T"

definition change_meta :: "string \<Rightarrow> bool \<Rightarrow> (node_meta \<Rightarrow> node_meta) \<Rightarrow> names \<Rightarrow> tree \<Rightarrow> (string + unit) \<times> tree" where
  "change_meta what follow_last f p T =
     (case walk T KERNEL_LINKS follow_last [] p of Inl _ \<Rightarrow> (Inl what, T) | Inr q \<Rightarrow> (Inr (), set_meta f q T))"

definition chown :: "nat \<Rightarrow> nat \<Rightarrow> names \<Rightarrow> tree \<Rightarrow> (string + unit) \<times> tree" where
  "chown uid gid = change_meta ''preserving ownership'' True (owner_update (\<lambda>_. (uid, gid)))"

definition set_permissions :: "nat \<Rightarrow> names \<Rightarrow> tree \<Rightarrow> (string + unit) \<times> tree" where
  "set_permissions m = change_meta ''preserving permissions'' True (permissions_update (\<lambda>_. m))"

definition set_link_mtime :: "names \<Rightarrow> int \<times> int \<Rightarrow> tree \<Rightarrow> (string + unit) \<times> tree" where
  "set_link_mtime p t T =
     (if list_ex (\<lambda>c. nul \<in> set c) p then (Inl ''mtime path contains a NUL byte'', T)
      else change_meta ''preserving rootfs entry mtime'' False (modified_update (\<lambda>_. t)) p T)"

definition set_link_xattr :: "names \<Rightarrow> string \<times> string \<Rightarrow> tree \<Rightarrow> (string + unit) \<times> tree" where
  "set_link_xattr p x T =
     (if list_ex (\<lambda>c. nul \<in> set c) p then (Inl ''OCI xattr path contains a NUL byte'', T)
      else if nul \<in> set (fst x) then (Inl ''OCI xattr name contains a NUL byte'', T)
      else change_meta ''applying OCI extended attribute'' False (xattrs_update (AList.update (fst x) (snd x))) p T)"

fun set_link_xattrs :: "names \<Rightarrow> (string \<times> string) list \<Rightarrow> tree \<Rightarrow> (string + unit) \<times> tree" where
  "set_link_xattrs p [] T = (Inr (), T)"
| "set_link_xattrs p (x # xs) T = io_then (set_link_xattr p x T) id (\<lambda>_. set_link_xattrs p xs)"

definition fresh_meta :: node_meta where
  "fresh_meta = \<lparr>owner = (0, 0), permissions = 0x180, modified = (0, 0), xattrs = []\<rparr>"

text \<open>The real parents of a sparse file, created where they are missing.\<close>

fun ensure_parents :: "names \<Rightarrow> names \<Rightarrow> tree \<Rightarrow> (string + unit) \<times> tree" where
  "ensure_parents cur [] T = (Inr (), T)"
| "ensure_parents cur (c # cs) T =
     (let here = cur @ [c] in
      case symlink_metadata T here of
        Inr q \<Rightarrow> (if is_real_dir T q then ensure_parents here cs T else (Inl ''OCI sparse entry parent is not a real directory'', T))
      | Inl Walk_Missing \<Rightarrow>
          (case walk T KERNEL_LINKS True [] cur of
             Inr d \<Rightarrow> ensure_parents here cs (put_node (d @ [c]) (R_Dir fresh_meta) T)
           | Inl _ \<Rightarrow> (Inl ''creating OCI sparse entry parent'', T))
      | Inl Walk_Other \<Rightarrow> (Inl ''inspecting OCI sparse entry parent'', T))"

definition ensure_rootfs_file_parent :: "names \<Rightarrow> names \<Rightarrow> tree \<Rightarrow> (string + names) \<times> tree" where
  "ensure_rootfs_file_parent rootfs relative T =
     io_then (ensure_parents rootfs (case rust_parent relative of None \<Rightarrow> [] | Some d \<Rightarrow> d) T) id (\<lambda>_ T. (Inr (rootfs @ relative), T))"

text \<open>A new file: the last name must not exist, and \<open>.\<close> or \<open>..\<close> name a directory.\<close>

definition create_new :: "names \<Rightarrow> tree \<Rightarrow> (string + names) \<times> tree" where
  "create_new p T =
     (if p = [] \<or> last p \<in> {''.'', ''..''} then (Inl ''creating OCI sparse entry'', T)
      else case canonicalize T (butlast p) of
        Inl _ \<Rightarrow> (Inl ''creating OCI sparse entry'', T)
      | Inr d \<Rightarrow>
          (if \<not> is_real_dir T d \<or> map_of T (d @ [last p]) \<noteq> None then (Inl ''creating OCI sparse entry'', T)
           else (Inr (d @ [last p]), put_node (d @ [last p]) (R_File [] fresh_meta) T)))"

definition clear_destination :: "names \<Rightarrow> tree \<Rightarrow> (string + unit) \<times> tree" where
  "clear_destination p T =
     (case symlink_metadata T p of
        Inr _ \<Rightarrow> remove_path p T
      | Inl Walk_Missing \<Rightarrow> (Inr (), T)
      | Inl Walk_Other \<Rightarrow> (Inl ''inspecting OCI sparse entry'', T))"

definition unpack_gnu_sparse_entry :: "string \<Rightarrow> names \<Rightarrow> names \<Rightarrow> gnu_sparse_metadata \<Rightarrow> nat \<Rightarrow> nat \<Rightarrow> nat \<Rightarrow> tree \<Rightarrow> (string + unit) \<times> tree" where
  "unpack_gnu_sparse_entry payload rootfs relative metadata uid gid entry_mode T =
     io_then (sparse_extents_of metadata payload, T) id (\<lambda>(extents, payload) T.
     io_then (ensure_rootfs_file_parent rootfs relative T) id (\<lambda>destination T.
     io_then (clear_destination destination T) id (\<lambda>_ T.
     io_then (create_new destination T) id (\<lambda>q T.
     case sparse_contents extents (real_size metadata) payload of
       (written_result, contents) \<Rightarrow>
         io_then (written_result, put_node q (R_File contents fresh_meta) T) id (\<lambda>_ T.
         io_then (chown uid gid destination T) id (\<lambda>_. set_permissions entry_mode destination))))))"

section \<open>Entries\<close>

definition MAX_GUEST_ID :: nat where "MAX_GUEST_ID = 65535"

datatype entry_kind =
  Regular_Entry | Continuous_Entry | GNU_Sparse_Entry | Directory_Entry | Symlink_Entry | Hard_Link_Entry | Special_Entry

text \<open>An entry as the \<open>tar\<close> crate presents it; a field is absent where the crate reports an error.\<close>

record tar_entry =
  header_position :: nat
  tar_path :: "string option"
  tar_kind :: entry_kind
  tar_uid :: "nat option"
  tar_gid :: "nat option"
  tar_mode :: "nat option"
  tar_mtime :: "nat option"
  tar_link :: "string option"
  tar_payload :: string

record entry_job =
  job_path :: names
  job_sparse :: "gnu_sparse_metadata option"
  job_uid :: nat
  job_gid :: nat
  job_mode :: nat
  job_mtime :: "int \<times> int"
  job_xattrs :: "(string \<times> string) list"

fun pax_attributes :: "pax_records \<Rightarrow> int \<times> int \<Rightarrow> (string \<times> string) list \<Rightarrow> string + ((int \<times> int) \<times> (string \<times> string) list)" where
  "pax_attributes [] t xs = Inr (t, xs)"
| "pax_attributes ((k, v) # r) t xs =
     (if k = ''mtime'' then then_ok (parse_pax_timestamp v) (\<lambda>t. pax_attributes r t xs)
      else case strip_prefix ''SCHILY.xattr.'' k of
        None \<Rightarrow> pax_attributes r t xs
      | Some name \<Rightarrow> (if name = [] then Inl ''OCI layer contains an empty xattr name'' else pax_attributes r t (xs @ [(name, v)])))"

text \<open>The checks of an entry before anything is written; \<open>None\<close> skips a whiteout.\<close>

definition check_entry :: "pax_records \<Rightarrow> tar_entry \<Rightarrow> string + entry_job option" where
  "check_entry pax e =
     then_ok (case pax_get pax ''path'' of Some p \<Rightarrow> Inr p | None \<Rightarrow> ok_or ''reading OCI layer path'' (tar_path e)) (\<lambda>header_path.
     then_ok (parse_gnu_sparse_metadata pax header_path) (\<lambda>sparse.
     then_ok (safe_relative_path (case sparse of Some m \<Rightarrow> sparse_path m | None \<Rightarrow> header_path)) (\<lambda>p.
     then_ok (whiteout_action p) (\<lambda>w.
     if w \<noteq> None then Inr None
     else
       then_ok (bail_if (tar_kind e = Special_Entry) ''OCI layer contains unsupported special entry'') (\<lambda>_.
       then_ok (ok_or ''reading OCI layer UID'' (tar_uid e)) (\<lambda>uid.
       then_ok (ok_or ''reading OCI layer GID'' (tar_gid e)) (\<lambda>gid.
       then_ok (bail_if (MAX_GUEST_ID < uid \<or> MAX_GUEST_ID < gid) ''OCI layer entry uses unsupported guest ownership'') (\<lambda>_.
       then_ok
         (if tar_kind e = Hard_Link_Entry then
            then_ok (case pax_get pax ''linkpath'' of Some t \<Rightarrow> Inr t | None \<Rightarrow> ok_or ''OCI hardlink has no target'' (tar_link e)) (\<lambda>target.
            then_ok (safe_relative_path target) (\<lambda>t. bail_if (t = []) ''OCI hardlink target cannot be empty''))
          else Inr ()) (\<lambda>_.
       then_ok (ok_or ''reading OCI layer mode'' (tar_mode e)) (\<lambda>entry_mode.
       then_ok (ok_or ''reading OCI layer mtime'' (tar_mtime e)) (\<lambda>seconds.
       then_ok (bail_if (2 ^ 63 \<le> seconds) ''OCI layer mtime is outside the supported range'') (\<lambda>_.
       then_ok (pax_attributes pax (int seconds, 0) []) (\<lambda>(t, xs).
       Inr (Some \<lparr>job_path = p, job_sparse = sparse, job_uid = uid, job_gid = gid, job_mode = entry_mode, job_mtime = t, job_xattrs = xs\<rparr>))))))))))))))"

type_synonym unpacker = "tar_entry \<Rightarrow> names \<Rightarrow> tree \<Rightarrow> (string + bool) \<times> tree"

definition unpack_checked :: "unpacker \<Rightarrow> tar_entry \<Rightarrow> names \<Rightarrow> tree \<Rightarrow> (string + unit) \<times> tree" where
  "unpack_checked unpack_in e rootfs T =
     io_then (unpack_in e rootfs T) id (\<lambda>ok T. (bail_if (\<not> ok) ''OCI layer entry escaped the destination'', T))"

definition apply_entry :: "unpacker \<Rightarrow> names \<Rightarrow> tar_entry \<Rightarrow> entry_job \<Rightarrow> tree \<Rightarrow> (string + unit) \<times> tree" where
  "apply_entry unpack_in rootfs e j T =
     (if tar_kind e = Directory_Entry then (if job_path j = [] then (Inr (), T) else unpack_checked unpack_in e rootfs T)
      else if job_path j = [] then (Inl ''OCI layer contains a non-directory root entry'', T)
      else io_then
        (case job_sparse j of
           Some m \<Rightarrow>
             (if tar_kind e \<noteq> Regular_Entry \<and> tar_kind e \<noteq> Continuous_Entry then (Inl ''OCI GNU sparse metadata describes a non-regular entry'', T)
              else unpack_gnu_sparse_entry (tar_payload e) rootfs (job_path j) m (job_uid j) (job_gid j) (job_mode j) T)
         | None \<Rightarrow> unpack_checked unpack_in e rootfs T) id (\<lambda>_ T.
        if tar_kind e = Hard_Link_Entry then (Inr (), T)
        else io_then (set_link_xattrs (rootfs @ job_path j) (job_xattrs j) T) id (\<lambda>_. set_link_mtime (rootfs @ job_path j) (job_mtime j))))"

fun apply_entries :: "unpacker \<Rightarrow> names \<Rightarrow> (nat \<times> pax_records) list \<Rightarrow> tar_entry list \<Rightarrow> entry_job list \<Rightarrow> tree \<Rightarrow> (string + entry_job list) \<times> tree" where
  "apply_entries unpack_in rootfs records [] dirs T = (Inr dirs, T)"
| "apply_entries unpack_in rootfs records (e # es) dirs T =
     (case check_entry (case btree_get id (header_position e) records of Some m \<Rightarrow> m | None \<Rightarrow> []) e of
        Inl d \<Rightarrow> (Inl d, T)
      | Inr None \<Rightarrow> apply_entries unpack_in rootfs records es dirs T
      | Inr (Some j) \<Rightarrow>
          io_then (apply_entry unpack_in rootfs e j T) id (\<lambda>_.
            apply_entries unpack_in rootfs records es (if tar_kind e = Directory_Entry then dirs @ [j] else dirs)))"

definition apply_deferred_rootfs_directory :: "names \<Rightarrow> entry_job \<Rightarrow> tree \<Rightarrow> (string + unit) \<times> tree" where
  "apply_deferred_rootfs_directory rootfs j T =
     (let destination = rootfs @ job_path j in
      case symlink_metadata T destination of
        Inl _ \<Rightarrow> (Inl ''inspecting extracted directory'', T)
      | Inr q \<Rightarrow>
          (if \<not> is_real_dir T q then (Inl ''rootfs archive directory was replaced with a non-directory'', T)
           else io_then (chown (job_uid j) (job_gid j) destination T) id (\<lambda>_ T.
                io_then (set_permissions (job_mode j) destination T) id (\<lambda>_ T.
                io_then (set_link_xattrs destination (job_xattrs j) T) id (\<lambda>_. set_link_mtime destination (job_mtime j))))))"

fun apply_deferred :: "names \<Rightarrow> entry_job list \<Rightarrow> tree \<Rightarrow> (string + unit) \<times> tree" where
  "apply_deferred rootfs [] T = (Inr (), T)"
| "apply_deferred rootfs (j # js) T = io_then (apply_deferred_rootfs_directory rootfs j T) id (\<lambda>_. apply_deferred rootfs js)"

text \<open>\<open>apply_layer\<close>: the raw entries are those of the scan for PAX metadata. Deeper directories come first.\<close>

definition apply_layer :: "unpacker \<Rightarrow> raw_entry list \<Rightarrow> tar_entry list \<Rightarrow> names \<Rightarrow> tree \<Rightarrow> (string + unit) \<times> tree" where
  "apply_layer unpack_in raw es rootfs T =
     io_then (apply_whiteouts rootfs (map tar_path es) T) id (\<lambda>_ T.
     io_then (read_layer_pax_records raw, T) id (\<lambda>records T.
     io_then (apply_entries unpack_in rootfs records es [] T) id (\<lambda>dirs.
     apply_deferred rootfs (sort_key (\<lambda>j. - int (length (rust_components (job_path j)))) dirs))))"


section \<open>Sparse files are placed inside\<close>

definition keeps_root :: "names \<Rightarrow> tree \<Rightarrow> tree \<Rightarrow> bool" where
  "keeps_root r T T' \<longleftrightarrow> beyond r T' = beyond r T \<and> proper_tree T'"

lemma keeps_root_refl: "proper_tree T \<Longrightarrow> keeps_root r T T"
  by (simp add: keeps_root_def)

lemma keeps_root_trans: "keeps_root r T U \<Longrightarrow> keeps_root r U V \<Longrightarrow> keeps_root r T V"
  by (simp add: keeps_root_def)

lemma beyond_shrink: "starts_with d r \<Longrightarrow> beyond d T' = beyond d T \<Longrightarrow> beyond r T' = beyond r T"
proof -
  assume d: "starts_with d r" and eq: "beyond d T' = beyond d T"
  have "inside d p \<Longrightarrow> inside r p" for p
    using d by (auto simp: inside_def at_or_below_def starts_with_iff)
  then have "beyond r S = beyond r (beyond d S)" for S
    by (auto simp: beyond_def without_def intro!: filter_cong)
  with eq show ?thesis by metis
qed

lemma map_of_put [simp]: "map_of (put_node p x T) q = (if q = p then Some x else map_of T q)"
  by (simp add: put_node_def map_of_without)

lemma put_keeps:
  assumes "inside r p" and "list_all proper p" and "proper_tree T"
  shows "keeps_root r T (put_node p x T)"
  using assms
  by (auto simp: keeps_root_def beyond_def put_node_def without_def proper_tree_def list_all_iff intro!: filter_cong)

lemma put_real_root:
  assumes "real_root T q" and "\<not> starts_with q p"
  shows "real_root (put_node p x T) q"
proof -
  have "take k q \<noteq> p" for k
    using assms(2) by (metis append_take_drop_id starts_with_iff)
  then show ?thesis
    using assms(1) by (simp add: real_root_def list_all_iff is_real_dir_def del: upt_Suc)
qed

lemma real_root_snoc:
  "real_root T (d @ [c]) \<longleftrightarrow> real_root T d \<and> proper c \<and> is_real_dir T (d @ [c])"
proof
  assume "real_root T (d @ [c])"
  then show "real_root T d \<and> proper c \<and> is_real_dir T (d @ [c])"
    using real_root_prefix [of T d c] by (auto simp: real_root_def)
next
  assume a: "real_root T d \<and> proper c \<and> is_real_dir T (d @ [c])"
  have "is_real_dir T (take k (d @ [c]))" if "k < Suc (Suc (length d))" for k
  proof (cases "k \<le> length d")
    case True
    with a show ?thesis
      by (auto simp: real_root_def list_all_iff less_Suc_eq_le simp del: upt_Suc)
  next
    case False
    with that have "k = Suc (length d)" by simp
    with a show ?thesis by simp
  qed
  with a show "real_root T (d @ [c])"
    by (auto simp: real_root_def list_all_iff simp del: upt_Suc take_append)
qed

lemma lstat_below:
  assumes "real_root T d" and "proper c"
  shows "symlink_metadata T (d @ [c]) = (case map_of T (d @ [c]) of None \<Rightarrow> Inl Walk_Missing | Some _ \<Rightarrow> Inr (d @ [c]))"
proof -
  have "is_real_dir T d"
    using assms(1) by (simp add: real_root_def)
  then show ?thesis
    using walk_snoc [OF assms(2), of T KERNEL_LINKS "[]" d] canonical_root [OF assms(1)]
    by (simp add: symlink_metadata_def canonicalize_def split: option.split)
qed

lemma set_meta_map: "map_of (set_meta f p T) q = map_option (\<lambda>x. if q = p then meta_map f x else x) (map_of T q)"
  by (induction T) (auto simp: set_meta_def)

lemma set_meta_dir: "is_real_dir (set_meta f p T) q = is_real_dir T q"
  by (auto simp: is_real_dir_def set_meta_map meta_map_def split: option.splits rnode.splits)

lemma set_meta_keeps: "inside r p \<Longrightarrow> proper_tree T \<Longrightarrow> keeps_root r T (set_meta f p T)"
  unfolding keeps_root_def
  by (induction T) (auto simp: set_meta_def beyond_def without_def proper_tree_def)

lemma set_meta_real_root: "real_root (set_meta f p T) q = real_root T q"
  by (simp add: real_root_def set_meta_dir)

lemma ensure_parents_inside:
  assumes "real_root T cur" and "starts_with cur r" and "list_all proper cs" and "proper_tree T" and "ensure_parents cur cs T = (res, T')"
  shows "keeps_root r T T' \<and> (res = Inr () \<longrightarrow> real_root T' (cur @ cs))"
  using assms
proof (induction cs arbitrary: cur T)
  case (Cons c cs)
  have c: "proper c" "list_all proper cs" "starts_with (cur @ [c]) r"
    using Cons.prems(2,3) by (auto simp: starts_with_iff)
  have p: "list_all proper (cur @ [c])" "inside r (cur @ [c])"
    using Cons.prems(1) c(1) inside_snoc [OF Cons.prems(2)] by (auto simp: real_root_def)
  show ?case
  proof (cases "map_of T (cur @ [c])")
    case None
    let ?U = "put_node (cur @ [c]) (R_Dir fresh_meta) T"
    have "real_root ?U (cur @ [c])"
      using Cons.prems(1) c(1) put_real_root [of T cur "cur @ [c]"]
      by (auto simp: real_root_snoc is_real_dir_def starts_with_iff dest: arg_cong [of _ _ length])
    moreover have k: "keeps_root r T ?U"
      using p Cons.prems(4) by (intro put_keeps)
    moreover have "ensure_parents (cur @ [c]) cs ?U = (res, T')"
      using Cons.prems(5) None lstat_below [OF Cons.prems(1) c(1)] canonical_root [OF Cons.prems(1)]
      by (simp add: Let_def canonicalize_def)
    ultimately have "keeps_root r ?U T' \<and> (res = Inr () \<longrightarrow> real_root T' ((cur @ [c]) @ cs))"
      using Cons.IH [of ?U "cur @ [c]"] c by (simp add: keeps_root_def)
    with k show ?thesis
      by (auto intro: keeps_root_trans)
  next
    case (Some x)
    show ?thesis
    proof (cases "is_real_dir T (cur @ [c])")
      case True
      with Some Cons.prems lstat_below [OF Cons.prems(1) c(1)] have "ensure_parents (cur @ [c]) cs T = (res, T')" "real_root T (cur @ [c])"
        using c(1) by (simp_all add: Let_def real_root_snoc)
      from Cons.IH [OF this(2) c(3,2) Cons.prems(4) this(1)] show ?thesis by simp
    next
      case False
      with Some Cons.prems lstat_below [OF Cons.prems(1) c(1)] show ?thesis
        by (auto simp: Let_def keeps_root_refl)
    qed
  qed
qed (auto simp: keeps_root_refl)

lemma chown_there:
  assumes "real_root T d" and "proper c" and "map_of T (d @ [c]) = Some (R_File x m)"
  shows "change_meta what True f (d @ [c]) T = (Inr (), set_meta f (d @ [c]) T)"
proof -
  have "is_real_dir T d"
    using assms(1) by (simp add: real_root_def)
  moreover have "walk T KERNEL_LINKS True [] (d @ [c]) = walk T KERNEL_LINKS True d [c]"
    using walk_root [OF assms(1)] .
  ultimately show ?thesis
    using assms(2,3) by (simp add: change_meta_def proper_def)
qed

text \<open>
  C15. Whatever its outcome, extracting a sparse entry whose name does not end in a slash or a dot changes nothing
  outside the root file system, although the layers below may have left links anywhere; when it succeeds,
  its path holds a file with the data the sparse map describes, the owner and the permissions of the entry.
\<close>

theorem sparse_entry_placed:
  assumes "real_root T rootfs" and "proper_tree T" and "relative \<noteq> []" and "list_all proper relative"
    and "unpack_gnu_sparse_entry payload rootfs relative metadata uid gid entry_mode T = (res, T')"
    and "parse_gnu_sparse_metadata pax q = Inr (Some metadata)"
  shows "beyond rootfs T' = beyond rootfs T \<and>
    (res = Inr () \<longrightarrow> (\<exists>extents stored. sparse_extents_of metadata payload = Inr (extents, stored) \<and>
       map_of T' (rootfs @ relative) =
         Some (R_File (expanded 0 extents stored (real_size metadata)) (fresh_meta\<lparr>owner := (uid, gid), permissions := entry_mode\<rparr>))))"
proof (cases "sparse_extents_of metadata payload")
  case (Inl e)
  with assms(5) show ?thesis
    by (auto simp: unpack_gnu_sparse_entry_def)
next
  case (Inr v)
  then obtain extents stored where v: "sparse_extents_of metadata payload = Inr (extents, stored)"
    by (cases v) auto
  obtain ds c where rel: "relative = ds @ [c]"
    using assms(3) by (cases relative rule: rev_cases) auto
  let ?d = "rootfs @ ds"
  have c: "proper c" "list_all proper ds"
    using assms(4) by (auto simp: rel)
  have par: "rust_parent (ds @ [c]) = Some ds"
    using rust_root [of "[]" relative] assms(4) by (simp add: rust_parent_def rel)
  obtain r1 T1 where e1: "ensure_parents rootfs ds T = (r1, T1)"
    by (cases "ensure_parents rootfs ds T") auto
  have k1: "keeps_root rootfs T T1" and d1: "r1 = Inr () \<Longrightarrow> real_root T1 ?d"
    using ensure_parents_inside [OF assms(1) _ c(2) assms(2) e1, of rootfs] by (auto simp: starts_with_iff)
  show ?thesis
  proof (cases "r1 = Inr ()")
    case False
    then obtain e where "r1 = Inl e" by (cases r1) auto
    with assms(5) k1 show ?thesis
      by (auto simp: unpack_gnu_sparse_entry_def v ensure_rootfs_file_parent_def rel par e1 keeps_root_def)
  next
    case True
    note d1 = d1 [OF True]
    obtain r2 T2 where e2: "clear_destination (rootfs @ ds @ [c]) T1 = (r2, T2)"
      by (cases "clear_destination (rootfs @ ds @ [c]) T1") auto
    have "stays ?d T1 (snd (remove_path (?d @ [c]) T1))"
      using d1 k1 c(1) canonical_root [OF d1] by (intro remove_path_stays) (auto simp: keeps_root_def starts_with_iff)
    moreover have "stays ?d T1 T1"
      using d1 k1 by (simp add: stays_refl keeps_root_def)
    ultimately have s2: "stays ?d T1 T2"
      using e2 by (auto simp: clear_destination_def split: sum.splits walk_error.splits)
    then have k2: "keeps_root rootfs T1 T2"
      using beyond_shrink [of ?d rootfs T2 T1] by (auto simp: keeps_root_def stays_def starts_with_iff)
    have d2: "real_root T2 ?d"
      using s2 by (simp add: stays_def)
    show ?thesis
    proof (cases "r2 = Inr () \<and> map_of T2 (?d @ [c]) = None")
      case False
      have "is_real_dir T2 ?d"
        using d2 by (simp add: real_root_def)
      with False have "T' = T2 \<and> res \<noteq> Inr ()"
        using assms(5) e2 canonical_root [OF d2] c(1) True
        by (cases r2) (auto simp: unpack_gnu_sparse_entry_def v ensure_rootfs_file_parent_def rel par e1 create_new_def butlast_append proper_def)
      then show ?thesis
        using k1 k2 by (auto simp: keeps_root_def)
    next
      case True
      let ?q = "?d @ [c]"
      obtain r3 f where f: "sparse_contents extents (real_size metadata) stored = (r3, f)"
        by (cases "sparse_contents extents (real_size metadata) stored") auto
      let ?T4 = "put_node ?q (R_File f fresh_meta) (put_node ?q (R_File [] fresh_meta) T2)"
      have i: "inside rootfs ?q" "list_all proper ?q"
        using inside_snoc [of ?d rootfs c] d1 c by (auto simp: starts_with_iff real_root_def)
      have k4: "keeps_root rootfs T2 ?T4"
        using put_keeps [OF i, of T2] put_keeps [OF i, of "put_node ?q (R_File [] fresh_meta) T2"] k2
        by (auto simp: keeps_root_def)
      have d4: "real_root ?T4 ?d"
        using d2 by (intro put_real_root) (auto simp: starts_with_iff dest: arg_cong [of _ _ length])
      have "is_real_dir T2 ?d"
        using d2 by (simp add: real_root_def)
      then have res: "(res, T') = io_then (r3, ?T4) id (\<lambda>_ T. io_then (chown uid gid ?q T) id (\<lambda>_. set_permissions entry_mode ?q))"
        using assms(5) e2 canonical_root [OF d2] c(1) True \<open>r1 = Inr ()\<close>
        by (simp add: unpack_gnu_sparse_entry_def v ensure_rootfs_file_parent_def rel par e1 create_new_def butlast_append proper_def f)
      show ?thesis
      proof (cases r3)
        case (Inl e)
        with res k1 k2 k4 show ?thesis by (auto simp: keeps_root_def)
      next
        case (Inr u)
        let ?T5 = "set_meta (owner_update (\<lambda>_. (uid, gid))) ?q ?T4"
        let ?T6 = "set_meta (permissions_update (\<lambda>_. entry_mode)) ?q ?T5"
        have d5: "real_root ?T5 ?d"
          using d4 by (simp only: set_meta_real_root)
        have m5: "map_of ?T5 ?q = Some (R_File f (fresh_meta\<lparr>owner := (uid, gid)\<rparr>))"
          by (simp add: set_meta_map meta_map_def)
        have "chown uid gid ?q ?T4 = (Inr (), ?T5)"
          unfolding chown_def by (rule chown_there [OF d4 c(1)]) simp
        moreover have "set_permissions entry_mode ?q ?T5 = (Inr (), ?T6)"
          unfolding set_permissions_def by (rule chown_there [OF d5 c(1) m5])
        ultimately have fin: "res = Inr ()" "T' = ?T6"
          using res Inr by simp_all
        have k6: "keeps_root rootfs ?T4 ?T6"
          using set_meta_keeps [OF i(1), of ?T4] set_meta_keeps [OF i(1), of ?T5] k4 by (auto simp: keeps_root_def)
        have "f = expanded 0 extents stored (real_size metadata)"
          using sparse_contents_iff [OF sparse_extents_valid [OF assms(6) v], of stored f] f Inr by simp
        moreover have "map_of T' ?q = Some (R_File f (fresh_meta\<lparr>owner := (uid, gid), permissions := entry_mode\<rparr>))"
          using m5 by (simp add: fin set_meta_map meta_map_def)
        ultimately show ?thesis
          using k1 k2 k4 k6 v by (auto simp: keeps_root_def fin rel)
      qed
    qed
  qed
qed


definition demo_sparse :: gnu_sparse_metadata where
  "demo_sparse = \<lparr>sparse_path = ''data/disk'', real_size = 4, sparse_map = Sparse_Pax [(1, 2)]\<rparr>"

lemma demo_sparse_parsed:
  "parse_gnu_sparse_metadata [(''GNU.sparse.map'', ''1,2''), (''GNU.sparse.name'', ''data/disk''), (''GNU.sparse.numblocks'', ''1''),
     (''GNU.sparse.size'', ''4'')] ''x'' = Inr (Some demo_sparse)"
  by (simp add: parse_gnu_sparse_metadata_def demo_sparse_def sparse_keys_def starts_with_def pax_get_def Let_def
      parse_sparse_decimal_def parse_pax_sparse_map_def validate_sparse_extents_def MAX_OCI_SPARSE_EXTENTS_def ascii_digit_def
      parse_u64_def from_str_radix_def to_digit_def)

lemma demo_contents: "sparse_contents [(1, 2)] 4 ''ab'' = (Inr (), [nul] @ ''ab'' @ [nul])"
proof -
  have "expanded 0 [(1, 2)] ''ab'' 4 = [nul] @ ''ab'' @ [nul]"
    by code_simp
  then show ?thesis
    using sparse_contents_iff [of "[(1, 2)]" 4 "''ab''"]
    by (simp add: validate_sparse_extents_def MAX_OCI_SPARSE_EXTENTS_def extents_total_def)
qed

definition demo_path :: names where "demo_path = [''m'', ''rootfs'', ''data'', ''disk'']"

lemma demo_parents:
  "ensure_parents [''m'', ''rootfs''] [''data''] demo_tree = (Inr (), put_node [''m'', ''rootfs'', ''data''] (R_Dir fresh_meta) demo_tree)
   \<and> clear_destination demo_path (put_node [''m'', ''rootfs'', ''data''] (R_Dir fresh_meta) demo_tree)
     = (Inr (), put_node [''m'', ''rootfs'', ''data''] (R_Dir fresh_meta) demo_tree)
   \<and> fst (create_new demo_path (put_node [''m'', ''rootfs'', ''data''] (R_Dir fresh_meta) demo_tree)) = Inr demo_path"
  by code_simp

theorem sparse_entry_placed_witness:
  "\<exists>T'. unpack_gnu_sparse_entry ''ab'' [''m'', ''rootfs''] [''data'', ''disk''] demo_sparse 5 6 7 demo_tree = (Inr (), T') \<and>
     beyond [''m'', ''rootfs''] T' = beyond [''m'', ''rootfs''] demo_tree \<and>
     map_of T' demo_path = Some (R_File ([nul] @ ''ab'' @ [nul]) (fresh_meta\<lparr>owner := (5, 6), permissions := 7\<rparr>))"
proof -
  have root: "real_root demo_tree [''m'', ''rootfs'']" "proper_tree demo_tree"
    by code_simp+
  let ?U = "put_node [''m'', ''rootfs'', ''data''] (R_Dir fresh_meta) demo_tree"
  let ?V = "put_node demo_path (R_File ([nul] @ ''ab'' @ [nul]) fresh_meta) (snd (create_new demo_path ?U))"
  have last_steps: "fst (io_then (chown 5 6 demo_path ?V) id (\<lambda>_. set_permissions 7 demo_path)) = Inr ()"
    by code_simp
  obtain T' where run: "unpack_gnu_sparse_entry ''ab'' [''m'', ''rootfs''] [''data'', ''disk''] demo_sparse 5 6 7 demo_tree = (Inr (), T')"
  proof -
    obtain W where W: "create_new demo_path ?U = (Inr demo_path, W)"
      using demo_parents by (cases "create_new demo_path ?U") auto
    then have V: "snd (create_new demo_path ?U) = W"
      by simp
    have "unpack_gnu_sparse_entry ''ab'' [''m'', ''rootfs''] [''data'', ''disk''] demo_sparse 5 6 7 demo_tree =
        io_then (chown 5 6 demo_path ?V) id (\<lambda>_. set_permissions 7 demo_path)"
      unfolding V using demo_parents demo_contents W
      by (simp add: unpack_gnu_sparse_entry_def sparse_extents_of_def demo_sparse_def ensure_rootfs_file_parent_def
          rust_parent_def rust_components_def demo_path_def del: ensure_parents.simps)
    with last_steps show ?thesis
      using that by (metis prod.collapse)
  qed
  have "\<exists>extents stored. sparse_extents_of demo_sparse ''ab'' = Inr (extents, stored) \<and>
       map_of T' ([''m'', ''rootfs''] @ [''data'', ''disk'']) =
         Some (R_File (expanded 0 extents stored (real_size demo_sparse)) (fresh_meta\<lparr>owner := (5, 6), permissions := 7\<rparr>))"
    and "beyond [''m'', ''rootfs''] T' = beyond [''m'', ''rootfs''] demo_tree"
    using sparse_entry_placed [OF root _ _ run demo_sparse_parsed] by (simp_all add: proper_def)
  moreover have "expanded 0 [(1, 2)] ''ab'' 4 = [nul] @ ''ab'' @ [nul]"
    by code_simp
  ultimately show ?thesis
    using run by (auto simp: sparse_extents_of_def demo_sparse_def demo_path_def)
qed

text \<open>
  The condition on the name is needed: a name that ends in \<open>/.\<close> makes the kernel follow a link of an earlier
  layer, and the directory it leads to is emptied before the entry fails.
\<close>

lemma sparse_dot_escapes:
  "map_of (snd (clear_destination ([''m'', ''rootfs''] @ [''out'', ''.'']) demo_tree)) [''h'', ''notes''] = None \<and>
   safe_relative_path ''out/.'' = Inr [''out'', ''.'']"
  by code_simp

text \<open>
  The directories whose attributes are set last are looked up by path again, and only the last name is
  checked: when an entry has replaced a parent by a link, the attributes go to a directory outside.
\<close>

lemma deferred_directory_escapes:
  "\<exists>T'. apply_deferred_rootfs_directory [''m'', ''rootfs'']
       \<lparr>job_path = [''out'', ''sub''], job_sparse = None, job_uid = 1, job_gid = 1, job_mode = 7, job_mtime = (0, 0), job_xattrs = []\<rparr>
       (([''h'', ''sub''], R_Dir demo_meta) # demo_tree) = (Inr (), T') \<and>
     map_of T' [''h'', ''sub''] = Some (R_Dir (demo_meta\<lparr>owner := (1, 1), permissions := 7, modified := (0, 0)\<rparr>))"
proof -
  have "map_of (snd (apply_deferred_rootfs_directory [''m'', ''rootfs'']
       \<lparr>job_path = [''out'', ''sub''], job_sparse = None, job_uid = 1, job_gid = 1, job_mode = 7, job_mtime = (0, 0), job_xattrs = []\<rparr>
       (([''h'', ''sub''], R_Dir demo_meta) # demo_tree))) [''h'', ''sub''] = Some (R_Dir (demo_meta\<lparr>owner := (1, 1), permissions := 7, modified := (0, 0)\<rparr>))
     \<and> fst (apply_deferred_rootfs_directory [''m'', ''rootfs'']
       \<lparr>job_path = [''out'', ''sub''], job_sparse = None, job_uid = 1, job_gid = 1, job_mode = 7, job_mtime = (0, 0), job_xattrs = []\<rparr>
       (([''h'', ''sub''], R_Dir demo_meta) # demo_tree)) = Inr ()"
    by code_simp
  then show ?thesis
    by (metis prod.collapse)
qed

end
