(* ===== verification/Spec2Isabelle.thy ===== *)
theory Spec2Isabelle
  imports Clipboard_Host Element_Token Guest_Keyboard Machine_Registry Update_State Sudo_Session Id_Map Machine_Lifecycle Integrations Sandbox_Launch Virtual_Typing Rootfs_Layers
begin

text \<open>
  BuzzardOS runs a desktop Linux guest in a Bubblewrap sandbox on a Linux host. A \<^emph>\<open>machine\<close> is a
  directory with a configuration, a run-time state and a root file system, the latter made from an OCI image.
  The host launcher imports images and keeps an index of machines; a broker starts one, supervises it and
  keeps its port mappings and media bridges as configured; a display helper is the only compositor the guest
  talks to, and carries its keyboard and clipboard; inside the guest a desktop, an updater state, a
  \<open>sudo\<close> replacement and a computer-use agent run. The development models the parts that decide something:
  what is accepted, stored, granted, forwarded, removed and lost when something fails. Sources are named
  relative to \<open>src/\<close>; \<open>broker\<close> is \<open>host/crates/buzzardos-broker/src\<close>, \<open>core\<close> is \<open>host/crates/wb-core/src\<close>,
  \<open>display\<close> is \<open>host/crates/buzzardos-display/src\<close>.

  \<^bold>\<open>Foundations.\<close>

  \<^item> \<open>Prelude\<close>: Rust's text (strings are their UTF-8 bytes), integers at their width, results and the
    question-mark operator (\<open>then_ok\<close>, \<open>bail_if\<close>, \<open>each_ok\<close>; \<open>io_then\<close> with a state), big-endian
    fields, readers and writers that may fail; the locales \<open>machine\<close> (a step function with an invariant),
    \<open>codec\<close> and \<open>strict_codec\<close> (an encoder with a partial decoder that consumes exactly the encoding).
  \<^item> \<open>Json_Values\<close>: the value trees and the numbers of \<open>serde_json\<close>. \<open>Host_Paths\<close>: paths of the broker, which keep
    the text they came with and are compared by their components (an instance of \<open>linorder\<close>).
  \<^item> \<open>State_Files\<close> (\<open>atomic_json\<close> of \<open>core/machine.rs\<close>) and \<open>Managed_Files\<close>
    (\<open>guest/desktop-core/src/persistence.rs\<close>): a file system in which every operation may fail, and two ways to
    replace a file atomically. Saving is shown to leave the complete old or the complete new file, to
    succeed when nothing fails, and never to write through a link where the code promises that.

  \<^bold>\<open>From an image to a running sandbox.\<close>

  \<^item> \<open>Pax_Sparse\<close> and \<open>Rootfs_Layers\<close> (\<open>host/crates/buzzardos/src/main.rs\<close>): the PAX records and GNU sparse maps of
    a layer archive, and its application to a root file system in which links of earlier layers are
    followed as the kernel does. The reader of records and the expansion of sparse files agree with declarative
    descriptions; whiteouts and sparse entries are confined to the root file system under hypotheses
    which the lemmas \<open>dot_whiteouts_escape\<close>, \<open>sparse_dot_escapes\<close> and \<open>deferred_directory_escapes\<close> show to be needed.
  \<^item> \<open>Machine_Config\<close> (\<open>core/machine.rs\<close>) and \<open>Machine_Registry\<close> (\<open>core/registry.rs\<close>): the configuration with its
    validation, loading and saving, and the index of machines, whose consistency is an invariant of all
    commands under faults and outside changes.
  \<^item> \<open>Id_Map\<close> (\<open>core/idmap.rs\<close>, \<open>map_nested_user_namespace\<close> of the broker): subordinate identities, the
    arguments of \<open>unshare\<close> and the nested map, composed as the kernel composes maps.
  \<^item> \<open>Nvidia_Cdi\<close> and \<open>Sandbox_Launch\<close> (\<open>broker/main.rs\<close>): the selection of GPU devices from a generated CDI
    document, the session's files and shares, and the whole argument list of Bubblewrap, read back with the
    documented number of operands of each option.
  \<^item> \<open>Session_Runtime\<close> and \<open>Machine_Lifecycle\<close> (\<open>broker/main.rs\<close>): what a session leaves behind and the readiness
    marker; the wait for the desktop, the supervision and the restart loop, where the run-time
    state on disk is shared with a launcher that may write it between any two operations.
  \<^item> \<open>Host_Media\<close> (\<open>core/media.rs\<close>, devices in \<open>broker/integrations.rs\<close>) and \<open>Integrations\<close>
    (\<open>broker/integrations.rs\<close>): discovery and choice of media devices, and \<open>reconcile\<close> with its rollbacks:
    what is revoked first, what is never forgotten, and what success means.

  \<^bold>\<open>The desktop of the guest.\<close>

  \<^item> \<open>Clipboard_Protocol\<close> (\<open>clipboard-protocol/src/lib.rs\<close>), \<open>Clipboard_Worker\<close> and \<open>Clipboard_Agent\<close>
    (\<open>guest/clipboard-agent/src/lib.rs\<close>), \<open>Clipboard_Host\<close> (\<open>display/clipboard.rs\<close>): one frame asks, one frame
    answers. The host client talks to the agent of the guest, which starts a disposable worker for each
    operation on the compositor. The last two properties of the group go through all three programs.
  \<^item> \<open>Keyboard_Map\<close> (\<open>display/keyboard.rs\<close>) and \<open>Guest_Keyboard\<close> (\<open>display/guest_display.rs\<close>): requests for a
    temporary keyboard map, and the keyboard of the private compositor with its map transaction:
    prepared, committed or aborted, with the keys typed meanwhile queued and replayed.
  \<^item> \<open>Virtual_Keyboard\<close> and \<open>Virtual_Typing\<close> (\<open>cua/src/platform/wayland/virtual_keyboard.rs\<close>): the keyboard of the
    agent. A session keeps every request it sent and how many are known to be processed; the compositor
    may have processed any number in between. Chords, held modifiers and text leave it neutral whatever
    fails, and what succeeded is what an application reads.
  \<^item> \<open>Element_Token\<close> (\<open>cua/src/core/element_token.rs\<close>): names for elements of a window that stay valid only as
    long as the snapshot they were taken from.
  \<^item> \<open>Update_State\<close> (\<open>guest/desktop-core/src/state.rs\<close>): colours, geometry and the updater state with its strict
    document, stored in a managed file.
  \<^item> \<open>Sudo_Request\<close>, \<open>Sudo_Session\<close>, \<open>Sudo_Relay\<close> (\<open>guest/sudo-bridge/src/transport.rs\<close>, \<open>main.rs\<close>): a request with
    descriptors, the root service that receives and executes it, and the two relays of the running session.

  \<^bold>\<open>Interfaces.\<close> \<open>machine\<close> is interpreted by the element-token registry (\<open>registry\<close>), the private compositor (\<open>display\<close>),
  the index of machines (\<open>index\<close>), both sudo relays (\<open>service_relay\<close>, \<open>client_relay\<close>) and the agent's
  keyboard worker (\<open>keyboard\<close>); \<open>strict_codec\<close> by the frames of the clipboard (\<open>frames\<close>) and the items and frames
  of sudo (\<open>sudo_items\<close>, \<open>sudo_frames\<close>); \<open>clipboard_backend\<close>, on which the agent rests, by its Wayland backend
  (\<open>wayland\<close>); \<open>document_store\<close>, on which the updater state rests, by the managed files (\<open>managed\<close>);
  \<open>keyboard_operation\<close> by chords, held modifiers and typing (\<open>chord\<close>, \<open>hold\<close>, \<open>typing\<close>).

  \<^bold>\<open>Loops, bounds and fuel.\<close> Loops over data are structural or have a measure. The kernel's limit of 40
  links per lookup is a counter of the walk (\<open>KERNEL_LINKS\<close>, and 41 look-ups in \<open>MAX_LINKS\<close>), so it is the kernel's bound
  and not fuel. The retries of the code are its own: 100 temporary names, 16 attempts for a fresh random
  number. Loops that wait for the world are
  partial functions on a stream of observations, so that not returning is the value \<open>None\<close>; \<open>wait_returns\<close> shows
  that the wait for the desktop (900 turns of 100 milliseconds) always returns, and the waits of five seconds
  of the integrations end once the clock passes their deadline. The limits that the code puts on its inputs (frames, documents, archives, records,
  texts, queues) are definitions with the names of the source.

  \<^bold>\<open>Parameters and hypotheses.\<close> What is not in the repository is an argument: \<open>serde_json\<close>, the image
  decoder, the compositor seen by a clipboard worker, \<open>libxkbcommon\<close>, SHA-256, the decompressors and the extraction of one entry
  by the \<open>tar\<close> crate, the kernel's answers for sockets, processes and user namespaces, random numbers, clocks and
  fresh identifiers. Laws about them are hypotheses of the theorems, never axioms, and each such theorem has a
  witness with concrete arguments.

  \<^bold>\<open>Not modelled.\<close> Graphical code (the GTK windows, the settings, the shell), pixels, surfaces and presentation of the
  compositor, accessibility trees and screenshots of the agent, the threads that copy bytes
  between sockets, the private-network variant of the sandbox launcher, logging and diagnostics, and the
  packaging scripts: they are made of calls to libraries and decide little on their own. Memory
  allocation, and failures of a file system in layer application that the tree does not determine, are left out.
\<close>

end
